(* ===== verification/Prelude.thy ===== *)
theory Prelude
  imports Main "HOL-Library.Char_ord" "HOL-Library.List_Lexorder"
begin

text \<open>
  Shared vocabulary of the development: the result type of code that may throw, the integer
  limits of the target (32-bit \<open>int\<close>, 64-bit \<open>long long\<close>, 64-bit \<open>size_t\<close>), the conversions
  between them, C strings as byte lists, and two generic interfaces: a transition system with
  an inductive invariant, and an encoder with its decoder.
\<close>

section \<open>Results of code that may throw\<close>

text \<open>
  \<open>LogicError\<close> and \<open>RuntimeError\<close> are jsoncpp's exception classes, \<open>OutOfRange\<close> is
  \<^verbatim>\<open>std::out_of_range\<close>. \<open>OutOfFuel\<close> is no exception of the program: it marks a recursion that
  did not end within its fuel, and \<open>DanglingPointer\<close> marks the use of a pointer whose target is gone, which
  is undefined in C++; the theorems about the reader show that neither is ever the result.
\<close>

datatype exn = LogicError string | RuntimeError string | OutOfRange | OutOfFuel | DanglingPointer

type_synonym 'a res = "exn + 'a"

definition rbind :: "'a res \<Rightarrow> ('a \<Rightarrow> 'b res) \<Rightarrow> 'b res" where
  "rbind m f = (case m of Inl e \<Rightarrow> Inl e | Inr x \<Rightarrow> f x)"

named_theorems res_simps \<open>facts that evaluate code that may throw\<close>
named_theorems int_limits \<open>the limits of the machine integers\<close>

lemma rbind_Inl [simp]: "rbind (Inl e) f = Inl e"
  by (simp add: rbind_def)

lemma rbind_Inr [simp]: "rbind (Inr x) f = f x"
  by (simp add: rbind_def)

lemma rbind_eq_Inr [res_simps]: "rbind m f = Inr y \<longleftrightarrow> (\<exists>x. m = Inr x \<and> f x = Inr y)"
  by (cases m) (auto simp: rbind_def)

lemma rbind_eq_Inl [res_simps]:
  "rbind m f = Inl e \<longleftrightarrow> m = Inl e \<or> (\<exists>x. m = Inr x \<and> f x = Inl e)"
  by (cases m) (auto simp: rbind_def)

lemma rbind_assoc: "rbind (rbind m f) g = rbind m (\<lambda>x. rbind (f x) g)"
  by (cases m) simp_all

lemma rbind_cong [fundef_cong]:
  "m = m' \<Longrightarrow> (\<And>x. m' = Inr x \<Longrightarrow> f x = g x) \<Longrightarrow> rbind m f = rbind m' g"
  by (cases m') (auto simp: rbind_def)

definition returns :: "'a res \<Rightarrow> bool" where
  "returns m \<longleftrightarrow> (case m of Inl _ \<Rightarrow> False | Inr _ \<Rightarrow> True)"

lemma returns_simps [simp]: "returns (Inr x)" "\<not> returns (Inl e)"
  by (simp_all add: returns_def)

lemma returnsE: "returns m \<Longrightarrow> (\<And>x. m = Inr x \<Longrightarrow> P) \<Longrightarrow> P"
  by (cases m) simp_all

text \<open>\<open>post Q m\<close>: if \<open>m\<close> returns, its value satisfies \<open>Q\<close>. The rules take a definition apart along its
  control flow.\<close>

definition post :: "('a \<Rightarrow> bool) \<Rightarrow> 'a res \<Rightarrow> bool" where
  "post Q m \<longleftrightarrow> (\<forall>x. m = Inr x \<longrightarrow> Q x)"

lemma postD: "post Q m \<Longrightarrow> m = Inr x \<Longrightarrow> Q x"
  by (simp add: post_def)

lemma post_Inr [simp]: "post Q (Inr x) \<longleftrightarrow> Q x"
  by (simp add: post_def)

lemma post_Inl [simp]: "post Q (Inl e)"
  by (simp add: post_def)

lemma post_rbindI: "(\<And>x. m = Inr x \<Longrightarrow> post Q (f x)) \<Longrightarrow> post Q (rbind m f)"
  by (auto simp: post_def res_simps)

lemma post_splitI: "(\<And>a b. p = (a, b) \<Longrightarrow> post Q (f a b)) \<Longrightarrow> post Q (case p of (a, b) \<Rightarrow> f a b)"
  by (cases p) simp

lemma post_ifI: "(b \<Longrightarrow> post Q m) \<Longrightarrow> (\<not> b \<Longrightarrow> post Q n) \<Longrightarrow> post Q (if b then m else n)"
  by simp

lemma post_LetI: "(\<And>x. x = a \<Longrightarrow> post Q (f x)) \<Longrightarrow> post Q (let x = a in f x)"
  by simp

lemma post_optionI:
  "(x = None \<Longrightarrow> post Q m) \<Longrightarrow> (\<And>y. x = Some y \<Longrightarrow> post Q (f y)) \<Longrightarrow>
   post Q (case x of None \<Rightarrow> m | Some y \<Rightarrow> f y)"
  by (cases x) simp_all

lemmas post_intros = post_rbindI post_splitI post_ifI post_LetI post_optionI

section \<open>Machine integers\<close>

definition INT_MAX :: int where "INT_MAX = 2147483647"
definition INT_MIN :: int where "INT_MIN = - 2147483648"
definition UINT_MAX :: int where "UINT_MAX = 4294967295"
definition INT64_MAX :: int where "INT64_MAX = 9223372036854775807"
definition INT64_MIN :: int where "INT64_MIN = - 9223372036854775808"
definition UINT64_MAX :: int where "UINT64_MAX = 18446744073709551615"

declare INT_MAX_def [int_limits] INT_MIN_def [int_limits] UINT_MAX_def [int_limits]
  INT64_MAX_def [int_limits] INT64_MIN_def [int_limits] UINT64_MAX_def [int_limits]

text \<open>Conversions to an unsigned and to a two's complement type of the given width.\<close>

definition to_unsigned :: "nat \<Rightarrow> int \<Rightarrow> int" where
  "to_unsigned w x = x mod 2 ^ w"

definition to_signed :: "nat \<Rightarrow> int \<Rightarrow> int" where
  "to_signed w x = (x + 2 ^ (w - 1)) mod 2 ^ w - 2 ^ (w - 1)"

abbreviation u16 :: "int \<Rightarrow> int" where "u16 \<equiv> to_unsigned 16"
abbreviation u32 :: "int \<Rightarrow> int" where "u32 \<equiv> to_unsigned 32"
abbreviation u64 :: "int \<Rightarrow> int" where "u64 \<equiv> to_unsigned 64"
abbreviation s32 :: "int \<Rightarrow> int" where "s32 \<equiv> to_signed 32"
abbreviation s64 :: "int \<Rightarrow> int" where "s64 \<equiv> to_signed 64"

lemma to_unsigned_range: "0 \<le> to_unsigned w x \<and> to_unsigned w x < 2 ^ w"
  by (simp add: to_unsigned_def)

lemma to_unsigned_id [simp]: "0 \<le> x \<Longrightarrow> x < 2 ^ w \<Longrightarrow> to_unsigned w x = x"
  by (simp add: to_unsigned_def)

lemma s32_id [simp]: "INT_MIN \<le> x \<Longrightarrow> x \<le> INT_MAX \<Longrightarrow> s32 x = x"
  by (simp add: to_signed_def int_limits)

lemma s64_id [simp]: "INT64_MIN \<le> x \<Longrightarrow> x \<le> INT64_MAX \<Longrightarrow> s64 x = x"
  by (simp add: to_signed_def int_limits)

lemma s32_range: "INT_MIN \<le> s32 x \<and> s32 x \<le> INT_MAX"
  using pos_mod_bound [of "2 ^ 32" "x + 2 ^ 31"] pos_mod_sign [of "2 ^ 32" "x + 2 ^ 31"]
  by (simp add: to_signed_def int_limits)

lemma mod_below_zero:
  assumes "- m \<le> x" "x < (0::int)"
  shows "x mod m = x + m"
proof -
  have "(x + m) mod m = x + m" using assms by (intro mod_pos_pos_trivial) simp_all
  then show ?thesis by simp
qed

section \<open>Bytes\<close>

text \<open>A \<open>char\<close> is a byte; comparisons of the source on plain \<open>char\<close> stay within ASCII.\<close>

abbreviation byte :: "char \<Rightarrow> nat" where "byte c \<equiv> of_char c"

definition is_digit :: "char \<Rightarrow> bool" where
  "is_digit c \<longleftrightarrow> 48 \<le> byte c \<and> byte c \<le> 57"

abbreviation NUL :: char where "NUL \<equiv> CHR 0x00"
abbreviation TAB :: char where "TAB \<equiv> CHR 0x09"
abbreviation LF :: char where "LF \<equiv> CHR 0x0A"
abbreviation CR :: char where "CR \<equiv> CHR 0x0D"
abbreviation DQUOTE :: char where "DQUOTE \<equiv> CHR 0x22"
abbreviation BACKSLASH :: char where "BACKSLASH \<equiv> CHR 0x5C"

lemma byte_lt_256 [simp]: "byte c < 256"
  by simp

lemma byte_char_of [simp]: "n < 256 \<Longrightarrow> byte (char_of (n::nat)) = n"
  by simp

lemma fold_keeps: "(\<And>x s. f (g x s) = f s) \<Longrightarrow> f (fold g xs s) = f s"
  by (induction xs arbitrary: s) simp_all

section \<open>Transition systems with an inductive invariant\<close>

inductive reach :: "('s \<Rightarrow> bool) \<Rightarrow> ('s \<Rightarrow> 'e \<Rightarrow> 's \<Rightarrow> bool) \<Rightarrow> 's \<Rightarrow> bool"
  for init step where
  reach_init: "init s \<Longrightarrow> reach init step s"
| reach_step: "reach init step s \<Longrightarrow> step s e t \<Longrightarrow> reach init step t"

lemma reach_mono: "reach init step s \<Longrightarrow> (\<And>x. init x \<Longrightarrow> init' x) \<Longrightarrow> reach init' step s"
  by (induction rule: reach.induct) (auto intro: reach.intros)

locale invariant_system =
  fixes init :: "'s \<Rightarrow> bool"
    and step :: "'s \<Rightarrow> 'e \<Rightarrow> 's \<Rightarrow> bool"
    and inv :: "'s \<Rightarrow> bool"
  assumes inv_init: "init s \<Longrightarrow> inv s"
    and inv_step: "inv s \<Longrightarrow> step s e t \<Longrightarrow> inv t"
begin

lemma reach_inv: "reach init step s \<Longrightarrow> inv s"
  by (induction rule: reach.induct) (auto intro: inv_init inv_step)

end

section \<open>Encoders with their decoders\<close>

locale codec =
  fixes dom_ok :: "'a \<Rightarrow> bool"
    and encode :: "'a \<Rightarrow> string"
    and decode :: "string \<Rightarrow> 'a option"
  assumes decode_encode: "dom_ok x \<Longrightarrow> decode (encode x) = Some x"
begin

lemma encode_inj: "dom_ok x \<Longrightarrow> dom_ok y \<Longrightarrow> encode x = encode y \<Longrightarrow> x = y"
  by (metis decode_encode option.inject)

lemma encode_inj_on: "inj_on encode {x. dom_ok x}"
  by (auto intro: inj_onI encode_inj)

end

end
