(* ===== verification/Message_Queue.thy ===== *)
theory Message_Queue
  imports Prelude "HOL-Library.Multiset"
begin

text \<open>
  \<^verbatim>\<open>message_queue.cpp\<close>: the named queue over which \<^verbatim>\<open>-c stop\<close> asks a running server to exit.
  \<^verbatim>\<open>boost::interprocess::message_queue\<close> is a parameter \<open>B\<close>: its operations on a world \<open>'w\<close> that holds
  the shared memory of all processes; an \<^verbatim>\<open>interprocess_exception\<close> is \<open>Inl\<close> of its text, and a
  \<^verbatim>\<open>receive\<close> that blocks for ever is None. \<open>mq_laws\<close> states what its documentation promises.
\<close>

record task_msg =
  msg_exit :: int

definition task_msg_init :: task_msg where "task_msg_init = \<lparr>msg_exit = 0\<rparr>"

record ('w, 'q) boost_mq =
  mq_remove :: "string \<Rightarrow> 'w \<Rightarrow> 'w"
  mq_create_only :: "string \<Rightarrow> nat \<Rightarrow> 'w \<Rightarrow> (string + 'q) \<times> 'w"
  mq_open_only :: "string \<Rightarrow> 'w \<Rightarrow> (string + 'q) \<times> 'w"
  mq_receive :: "'q \<Rightarrow> 'w \<Rightarrow> ((string + task_msg) \<times> 'w) option"
  mq_try_send :: "'q \<Rightarrow> task_msg \<Rightarrow> nat \<Rightarrow> 'w \<Rightarrow> (string + bool) \<times> 'w"

record 'q message_queue =
  create_flag :: bool
  mq_ptr :: "'q option"

definition MS_NAME_TASK :: string where "MS_NAME_TASK = ''message_queue_signal_server''"

section \<open>Operations\<close>

definition MessageQueue :: "('w, 'q) boost_mq \<Rightarrow> bool \<Rightarrow> 'w \<Rightarrow> 'q message_queue \<times> 'w" where
  "MessageQueue B create w =
     (let (r, w') = (if create then mq_create_only B MS_NAME_TASK 10 (mq_remove B MS_NAME_TASK w)
                     else mq_open_only B MS_NAME_TASK w)
      in (\<lparr>create_flag = create, mq_ptr = (case r of Inl _ \<Rightarrow> None | Inr q \<Rightarrow> Some q)\<rparr>, w'))"

definition MessageQueue_destroy :: "('w, 'q) boost_mq \<Rightarrow> 'q message_queue \<Rightarrow> 'w \<Rightarrow> 'w" where
  "MessageQueue_destroy B q w = (if create_flag q then mq_remove B MS_NAME_TASK w else w)"

text \<open>The loop of \<^verbatim>\<open>WaitExitMessage\<close> with a queue; None when it never returns.\<close>

partial_function (option) wait_loop :: "('w, 'q) boost_mq \<Rightarrow> 'q \<Rightarrow> 'w \<Rightarrow> (bool \<times> 'w) option" where
  "wait_loop B p w =
     (case mq_receive B p w of
        None \<Rightarrow> None
      | Some (Inl _, w') \<Rightarrow> Some (False, w')
      | Some (Inr msg, w') \<Rightarrow> if msg_exit msg \<noteq> 0 then Some (True, w') else wait_loop B p w')"

definition WaitExitMessage :: "('w, 'q) boost_mq \<Rightarrow> 'q message_queue \<Rightarrow> 'w \<Rightarrow> (bool \<times> 'w) option" where
  "WaitExitMessage B q w =
     (case mq_ptr q of None \<Rightarrow> Some (False, w) | Some p \<Rightarrow> wait_loop B p w)"

definition SendExitMessage :: "('w, 'q) boost_mq \<Rightarrow> 'q message_queue \<Rightarrow> 'w \<Rightarrow> bool \<times> 'w" where
  "SendExitMessage B q w =
     (case mq_ptr q of
        None \<Rightarrow> (False, w)
      | Some p \<Rightarrow> (case mq_try_send B p (task_msg_init\<lparr>msg_exit := 1\<rparr>) 1 w of
                      (Inl _, w') \<Rightarrow> (False, w')
                    | (Inr sent, w') \<Rightarrow> (sent, w')))"

section \<open>The stop request reaches the waiting server\<close>

text \<open>
  What the documentation of the queue promises, for the messages \<open>contents w q\<close> that wait in it:
  \<^verbatim>\<open>receive\<close> on a queue that is not empty returns one of them and removes it, and \<^verbatim>\<open>try_send\<close> adds
  the message and returns true, or returns false and changes nothing. The names and the order
  of the messages do not matter.
\<close>

definition mq_laws :: "('w, 'q) boost_mq \<Rightarrow> ('w \<Rightarrow> 'q \<Rightarrow> task_msg multiset) \<Rightarrow> bool" where
  "mq_laws B contents \<longleftrightarrow>
     (\<forall>w q. contents w q \<noteq> {#} \<longrightarrow>
        (\<exists>m w'. mq_receive B q w = Some (Inr m, w') \<and> m \<in># contents w q \<and>
                contents w' q = contents w q - {#m#})) \<and>
     (\<forall>w q m p. \<exists>sent w'. mq_try_send B q m p w = (Inr sent, w') \<and>
        contents w' q = (if sent then add_mset m (contents w q) else contents w q))"

lemma mq_receive_law:
  assumes "mq_laws B contents" "contents w q \<noteq> {#}"
  obtains m w' where "mq_receive B q w = Some (Inr m, w')" "m \<in># contents w q"
    "contents w' q = contents w q - {#m#}"
  using assms unfolding mq_laws_def by blast

lemma mq_send_law:
  assumes "mq_laws B contents"
  obtains sent w' where "mq_try_send B q m p w = (Inr sent, w')"
    "contents w' q = (if sent then add_mset m (contents w q) else contents w q)"
  using assms unfolding mq_laws_def by blast

lemma wait_loop_exits:
  assumes laws: "mq_laws B contents" and ex: "\<exists>m \<in># contents w q. msg_exit m \<noteq> 0"
  shows "\<exists>w'. wait_loop B q w = Some (True, w')"
  using ex
proof (induction "size (contents w q)" arbitrary: w)
  case 0
  then show ?case by simp
next
  case (Suc n)
  from Suc.prems have "contents w q \<noteq> {#}" by auto
  with laws obtain m w' where
    r: "mq_receive B q w = Some (Inr m, w')" "m \<in># contents w q" "contents w' q = contents w q - {#m#}"
    by (rule mq_receive_law)
  show ?case
  proof (cases "msg_exit m = 0")
    case True
    have "n = size (contents w' q)" using Suc.hyps(2) r(2,3) by (simp add: size_Diff_singleton)
    moreover have "\<exists>m' \<in># contents w' q. msg_exit m' \<noteq> 0"
      using Suc.prems True r(3) by (auto simp: in_diff_count intro!: bexI)
    ultimately show ?thesis using Suc.hyps(1) r(1) True by (simp add: wait_loop.simps [of B q w])
  qed (simp add: wait_loop.simps [of B q w] r(1))
qed

text \<open>C38 (stop_reaches_server). If \<^verbatim>\<open>SendExitMessage\<close> of one process returns true, \<^verbatim>\<open>WaitExitMessage\<close> of
  the server on the same queue terminates and returns true, whatever other messages the queue
  holds.\<close>

theorem stop_reaches_server:
  assumes laws: "mq_laws B contents"
    and same: "mq_ptr sender = mq_ptr server"
    and sent: "SendExitMessage B sender w = (True, w')"
  shows "\<exists>w''. WaitExitMessage B server w' = Some (True, w'')"
proof -
  from sent obtain p where p: "mq_ptr sender = Some p"
    by (auto simp: SendExitMessage_def split: option.splits)
  from laws obtain b v where s: "mq_try_send B p (task_msg_init\<lparr>msg_exit := 1\<rparr>) 1 w = (Inr b, v)"
    "contents v p = (if b then add_mset (task_msg_init\<lparr>msg_exit := 1\<rparr>) (contents w p) else contents w p)"
    by (rule mq_send_law)
  with sent p have "b" "v = w'" by (auto simp: SendExitMessage_def)
  with s(2) have "\<exists>m \<in># contents w' p. msg_exit m \<noteq> 0" by simp
  from wait_loop_exits [OF laws this] p same show ?thesis by (simp add: WaitExitMessage_def)
qed

text \<open>One queue, held as the list of its messages, with room for ten of them.\<close>

definition list_mq :: "(task_msg list, unit) boost_mq" where
  "list_mq = \<lparr>mq_remove = (\<lambda>n w. []), mq_create_only = (\<lambda>n k w. (Inr (), [])),
     mq_open_only = (\<lambda>n w. (Inr (), w)),
     mq_receive = (\<lambda>q w. case w of [] \<Rightarrow> None | m # ms \<Rightarrow> Some (Inr m, ms)),
     mq_try_send = (\<lambda>q m p w. if length w < 10 then (Inr True, w @ [m]) else (Inr False, w))\<rparr>"

lemma list_mq_laws: "mq_laws list_mq (\<lambda>w q. mset w)"
  by (auto simp: mq_laws_def list_mq_def split: list.splits)

theorem stop_reaches_server_witness:
  "\<exists>w''. WaitExitMessage list_mq (fst (MessageQueue list_mq True [])) [\<lparr>msg_exit = 0\<rparr>, \<lparr>msg_exit = 1\<rparr>]
     = Some (True, w'')"
  by (rule stop_reaches_server [OF list_mq_laws, of "fst (MessageQueue list_mq False [])" _ "[\<lparr>msg_exit = 0\<rparr>]"])
     (simp_all add: MessageQueue_def list_mq_def SendExitMessage_def task_msg_init_def)

text \<open>A \<^verbatim>\<open>MessageQueue\<close> whose queue could not be created or opened neither waits
  nor sends: both operations return false at once and touch nothing.\<close>

lemma no_queue_no_wait:
  assumes "(case (if create then mq_create_only B MS_NAME_TASK 10 (mq_remove B MS_NAME_TASK w)
                  else mq_open_only B MS_NAME_TASK w) of (r, _) \<Rightarrow> \<exists>what. r = Inl what)"
  shows "WaitExitMessage B (fst (MessageQueue B create w)) v = Some (False, v) \<and>
         SendExitMessage B (fst (MessageQueue B create w)) v = (False, v)"
  using assms by (auto simp: MessageQueue_def WaitExitMessage_def SendExitMessage_def split: prod.splits)

end
