(* ===== verification/Std_Map.thy ===== *)
theory Std_Map
  imports Prelude
begin

text \<open>
  \<^verbatim>\<open>std::map\<close> and \<^verbatim>\<open>std::set\<close> as the source uses them: a map is the list of its pairs in the order
  of iteration, strictly ascending in the key. The interface of such a map is the locale
  \<open>ordered_map\<close>; the clients' lemmas are proved once inside it and used through its
  interpretation on the list operations.
\<close>

type_synonym ('k, 'v) smap = "('k \<times> 'v) list"

definition smap_ok :: "('k::linorder, 'v) smap \<Rightarrow> bool" where
  "smap_ok m \<longleftrightarrow> sorted_wrt (<) (map fst m)"

abbreviation smap_find :: "('k, 'v) smap \<Rightarrow> 'k \<Rightarrow> 'v option" where
  "smap_find \<equiv> map_of"

text \<open>\<^verbatim>\<open>m[k] = v\<close>.\<close>

fun smap_put :: "'k::linorder \<Rightarrow> 'v \<Rightarrow> ('k, 'v) smap \<Rightarrow> ('k, 'v) smap" where
  "smap_put k v [] = [(k, v)]"
| "smap_put k v (p # m) =
     (if fst p < k then p # smap_put k v m
      else if fst p = k then (k, v) # m
      else (k, v) # p # m)"

text \<open>\<^verbatim>\<open>m.erase(k)\<close>.\<close>

definition smap_erase :: "'k \<Rightarrow> ('k, 'v) smap \<Rightarrow> ('k, 'v) smap" where
  "smap_erase k m = filter (\<lambda>p. fst p \<noteq> k) m"

text \<open>\<^verbatim>\<open>m.count(k) != 0\<close>.\<close>

definition smap_has :: "('k, 'v) smap \<Rightarrow> 'k \<Rightarrow> bool" where
  "smap_has m k \<longleftrightarrow> map_of m k \<noteq> None"

text \<open>A \<^verbatim>\<open>std::set\<close> is the strictly ascending list of its elements.\<close>

type_synonym 'k sset = "'k list"

definition sset_ok :: "('k::linorder) sset \<Rightarrow> bool" where
  "sset_ok s \<longleftrightarrow> sorted_wrt (<) s"

fun sset_insert :: "'k::linorder \<Rightarrow> 'k sset \<Rightarrow> 'k sset" where
  "sset_insert k [] = [k]"
| "sset_insert k (x # s) =
     (if x < k then x # sset_insert k s else if x = k then x # s else k # x # s)"

definition sset_erase :: "'k \<Rightarrow> 'k sset \<Rightarrow> 'k sset" where
  "sset_erase k s = filter (\<lambda>x. x \<noteq> k) s"

section \<open>The interface\<close>

locale ordered_map =
  fixes ok :: "'m \<Rightarrow> bool"
    and empty :: "'m"
    and find :: "'m \<Rightarrow> 'k \<Rightarrow> 'v option"
    and put :: "'k \<Rightarrow> 'v \<Rightarrow> 'm \<Rightarrow> 'm"
    and erase :: "'k \<Rightarrow> 'm \<Rightarrow> 'm"
  assumes ok_empty: "ok empty"
    and ok_put: "ok m \<Longrightarrow> ok (put k v m)"
    and ok_erase: "ok m \<Longrightarrow> ok (erase k m)"
    and find_empty: "find empty j = None"
    and find_put: "ok m \<Longrightarrow> find (put k v m) j = (if j = k then Some v else find m j)"
    and find_erase: "ok m \<Longrightarrow> find (erase k m) j = (if j = k then None else find m j)"
begin

lemma find_put_same: "ok m \<Longrightarrow> find (put k v m) k = Some v"
  by (simp add: find_put)

lemma find_put_other: "ok m \<Longrightarrow> j \<noteq> k \<Longrightarrow> find (put k v m) j = find m j"
  by (simp add: find_put)

lemma find_erase_put: "ok m \<Longrightarrow> find (erase k (put k v m)) j = (if j = k then None else find m j)"
  by (simp add: find_erase find_put ok_put)

lemma dom_put: "ok m \<Longrightarrow> dom (find (put k v m)) = insert k (dom (find m))"
  by (auto simp: dom_def find_put)

lemma dom_erase: "ok m \<Longrightarrow> dom (find (erase k m)) = dom (find m) - {k}"
  by (auto simp: dom_def find_erase split: if_splits)

text \<open>A sequence of assignments leaves the last value assigned to each key.\<close>

lemma ok_fold_put: "ok m \<Longrightarrow> ok (fold (\<lambda>(k, v). put k v) kvs m)"
  by (induction kvs arbitrary: m) (auto intro: ok_put)

lemma find_fold_put:
  "ok m \<Longrightarrow> find (fold (\<lambda>(k, v). put k v) kvs m) j =
     (case map_of (rev kvs) j of None \<Rightarrow> find m j | Some v \<Rightarrow> Some v)"
  by (induction kvs arbitrary: m) (auto simp: find_put ok_put map_add_def split: option.splits)

end

section \<open>The list operations implement it\<close>

lemma map_of_smap_put: "map_of (smap_put k v m) j = (if j = k then Some v else map_of m j)"
  by (induction k v m rule: smap_put.induct) auto

lemma map_of_smap_erase: "map_of (smap_erase k m) j = (if j = k then None else map_of m j)"
  by (induction m) (auto simp: smap_erase_def)

lemma fst_set_smap_put: "fst ` set (smap_put k v m) = insert k (fst ` set m)"
  by (induction k v m rule: smap_put.induct) auto

lemma set_smap_put_subset: "set (smap_put k v m) \<subseteq> insert (k, v) (set m)"
  by (induction k v m rule: smap_put.induct) auto

lemma in_set_smap_put: "(k, v) \<in> set (smap_put k v m)"
  by (induction k v m rule: smap_put.induct) auto

lemma smap_ok_Nil [simp]: "smap_ok []"
  by (simp add: smap_ok_def)

lemma smap_ok_Cons [simp]:
  "smap_ok (p # m) \<longleftrightarrow> smap_ok m \<and> (\<forall>q\<in>set m. fst p < fst q)"
  by (auto simp: smap_ok_def)

lemma smap_ok_put: "smap_ok m \<Longrightarrow> smap_ok (smap_put k v m)"
proof (induction k v m rule: smap_put.induct)
  case (2 k v p m)
  show ?case
  proof (cases "fst p < k")
    case True
    have "\<forall>q\<in>set (smap_put k v m). fst p < fst q"
      using 2 True set_smap_put_subset[of k v m] by auto
    with 2 True show ?thesis by simp
  qed (use 2 in auto)
qed simp

lemma smap_ok_erase: "smap_ok m \<Longrightarrow> smap_ok (smap_erase k m)"
  by (induction m) (auto simp: smap_erase_def)

interpretation sm: ordered_map "smap_ok :: ('k::linorder, 'v) smap \<Rightarrow> bool" "[]" map_of smap_put smap_erase
  by unfold_locales (auto simp: smap_ok_put smap_ok_erase map_of_smap_put map_of_smap_erase)

lemmas smap_simps = map_of_smap_put map_of_smap_erase smap_ok_put smap_ok_erase

lemma smap_ok_distinct: "smap_ok m \<Longrightarrow> distinct (map fst m)"
  by (auto simp: smap_ok_def strict_sorted_iff)

lemma smap_find_iff: "smap_ok m \<Longrightarrow> map_of m k = Some v \<longleftrightarrow> (k, v) \<in> set m"
  by (simp add: smap_ok_distinct)

lemma set_smap_put: "smap_ok m \<Longrightarrow> set (smap_put k v m) = insert (k, v) {p \<in> set m. fst p \<noteq> k}"
proof -
  assume ok: "smap_ok m"
  have "p \<in> set (smap_put k v m) \<longleftrightarrow> p \<in> insert (k, v) {q \<in> set m. fst q \<noteq> k}" for p
    using smap_find_iff[OF smap_ok_put[OF ok], of k v "fst p" "snd p"] smap_find_iff[OF ok, of "fst p" "snd p"]
    by (cases p) (auto simp: map_of_smap_put split: if_splits)
  then show ?thesis by blast
qed

lemma set_smap_erase: "set (smap_erase k m) = {p \<in> set m. fst p \<noteq> k}"
  by (auto simp: smap_erase_def)

lemma smap_erase_id: "map_of m k = None \<Longrightarrow> smap_erase k m = m"
  by (auto simp: smap_erase_def map_of_eq_None_iff filter_id_conv)

text \<open>Two ascending lists with the same content are the same map.\<close>

lemma smap_ext:
  assumes "smap_ok m" "smap_ok n" "\<And>k. map_of m k = map_of n k"
  shows "m = n"
  using assms
proof (induction m arbitrary: n)
  case Nil
  then have "map_of n = Map.empty" by (auto simp: fun_eq_iff)
  then show ?case by simp
next
  case (Cons p m)
  from Cons.prems(3)[of "fst p"] obtain q n' where n: "n = q # n'"
    by (cases n) auto
  have "fst p = fst q"
  proof (rule ccontr)
    assume ne: "fst p \<noteq> fst q"
    have p: "map_of n' (fst p) = Some (snd p)" and q: "map_of m (fst q) = Some (snd q)"
      using Cons.prems(3)[of "fst p"] Cons.prems(3)[of "fst q"] ne n by (cases p; cases q; auto)+
    from map_of_SomeD[OF p] map_of_SomeD[OF q] Cons.prems(1,2) n
    show False by (auto dest!: bspec)
  qed
  then have eq: "p = q"
    using Cons.prems(3)[of "fst p"] n by (cases p; cases q) auto
  have "map_of m k = map_of n' k" for k
  proof (cases "k = fst p")
    case True
    then have "map_of m k = None" "map_of n' k = None"
      using Cons.prems(1,2) n eq by (fastforce simp: map_of_eq_None_iff)+
    then show ?thesis by simp
  next
    case False
    then show ?thesis using Cons.prems(3)[of k] n eq by (cases q) auto
  qed
  then have "m = n'" using Cons.IH Cons.prems(1,2) n by simp
  then show ?case using n eq by simp
qed

section \<open>Sets\<close>

lemma set_sset_insert [simp]: "set (sset_insert k s) = insert k (set s)"
  by (induction k s rule: sset_insert.induct) auto

lemma set_sset_erase [simp]: "set (sset_erase k s) = set s - {k}"
  by (auto simp: sset_erase_def)

lemma sset_ok_insert: "sset_ok s \<Longrightarrow> sset_ok (sset_insert k s)"
  by (induction k s rule: sset_insert.induct) (auto simp: sset_ok_def)

lemma sset_ok_erase: "sset_ok s \<Longrightarrow> sset_ok (sset_erase k s)"
  by (simp add: sset_ok_def sset_erase_def sorted_wrt_filter)

lemma sset_ok_distinct: "sset_ok s \<Longrightarrow> distinct s"
  by (auto simp: sset_ok_def strict_sorted_iff)

end
