(* ===== verification/Websocket_Server.thy ===== *)
theory Websocket_Server
  imports Message_Queue Std_Map
begin

text \<open>
  \<^verbatim>\<open>websocket_server.{h,cc}\<close>: the connection lists, the queue of actions between the network thread and
  the processing thread, sending, the ping loop and the exit protocol. A \<^verbatim>\<open>connection_hdl\<close> is a weak
  pointer; the model identifies it by a number, 0 being the empty handle, and \<^verbatim>\<open>std::owner_less\<close>
  compares these numbers. The websocketpp endpoints are a parameter \<open>E\<close>: whether a handle has expired and
  whether a send, ping or close fails. What the server asks of the endpoints is the trace
  \<open>net_out\<close>. The derived class extends the record of the server, and its virtual functions
  \<^verbatim>\<open>OnReceive\<close> and \<^verbatim>\<open>OnClose\<close> are arguments of the processing loop.
\<close>

type_synonym connection_hdl = nat

datatype action_type = SUBSCRIBE | TLS_SUBSCRIBE | UNSUBSCRIBE | MESSAGE | EXIT

datatype opcode = op_continuation | op_text | op_binary | op_close | op_ping | op_pong

record message =
  msg_opcode :: opcode
  msg_payload :: string

record action =
  act_type :: action_type
  act_hdl :: connection_hdl
  act_msg :: "message option"

datatype endpoint = plain | tls

datatype net_event =
    SendFrame endpoint connection_hdl opcode string
  | SendPing endpoint connection_hdl
  | CloseConn endpoint connection_hdl string

record ws_env =
  env_expired :: "connection_hdl \<Rightarrow> bool"
  env_send :: "endpoint \<Rightarrow> connection_hdl \<Rightarrow> opcode \<Rightarrow> string \<Rightarrow> string option"
  env_ping :: "endpoint \<Rightarrow> connection_hdl \<Rightarrow> string option"
  env_close :: "endpoint \<Rightarrow> connection_hdl \<Rightarrow> string option"

record condition_mutex =
  cm_reason :: int
  cm_ready :: bool

record ws_server =
  m_exit_signal :: bool
  m_con_list_plain :: "connection_hdl sset"
  m_con_list_tls :: "connection_hdl sset"
  m_actions :: "action list"
  m_mutex_exit :: condition_mutex
  net_out :: "net_event list"

section \<open>condition_mutex\<close>

text \<open>
  \<^verbatim>\<open>wait\<close> holds the lock except while it sleeps: entering clears the flag; it leaves when the flag is
  set, or at the timeout with the value the flag then has.
\<close>

definition cm_init :: condition_mutex where "cm_init = \<lparr>cm_reason = 0, cm_ready = False\<rparr>"

definition cm_wait_enter :: "condition_mutex \<Rightarrow> condition_mutex" where
  "cm_wait_enter c = c\<lparr>cm_ready := False\<rparr>"

definition cm_wait_leave :: "bool \<Rightarrow> condition_mutex \<Rightarrow> bool option" where
  "cm_wait_leave timeout c = (if cm_ready c then Some True else if timeout then Some False else None)"

definition cm_notify :: "int \<Rightarrow> condition_mutex \<Rightarrow> condition_mutex" where
  "cm_notify reason c = c\<lparr>cm_ready := True, cm_reason := reason\<rparr>"

section \<open>Queueing\<close>

definition push_action :: "action_type \<Rightarrow> connection_hdl \<Rightarrow> message option \<Rightarrow> 'a ws_server_scheme \<Rightarrow>
    'a ws_server_scheme" where
  "push_action t h m s = s\<lparr>m_actions := m_actions s @ [\<lparr>act_type = t, act_hdl = h, act_msg = m\<rparr>]\<rparr>"

definition on_open :: "connection_hdl \<Rightarrow> 'a ws_server_scheme \<Rightarrow> 'a ws_server_scheme" where
  "on_open h s = push_action SUBSCRIBE h None s"

definition on_open_tls :: "connection_hdl \<Rightarrow> 'a ws_server_scheme \<Rightarrow> 'a ws_server_scheme" where
  "on_open_tls h s = push_action TLS_SUBSCRIBE h None s"

definition on_close :: "connection_hdl \<Rightarrow> 'a ws_server_scheme \<Rightarrow> 'a ws_server_scheme" where
  "on_close h s = push_action UNSUBSCRIBE h None s"

definition on_message :: "connection_hdl \<Rightarrow> message \<Rightarrow> 'a ws_server_scheme \<Rightarrow> 'a ws_server_scheme" where
  "on_message h m s = push_action MESSAGE h (Some m) s"

section \<open>Sending\<close>

definition emit :: "net_event \<Rightarrow> 'a ws_server_scheme \<Rightarrow> 'a ws_server_scheme" where
  "emit e s = s\<lparr>net_out := net_out s @ [e]\<rparr>"

definition endpoint_of :: "connection_hdl \<Rightarrow> 'a ws_server_scheme \<Rightarrow> endpoint" where
  "endpoint_of h s = (if h \<in> set (m_con_list_plain s) then plain else tls)"

definition Send_frame :: "ws_env \<Rightarrow> opcode \<Rightarrow> string \<Rightarrow> connection_hdl \<Rightarrow> 'a ws_server_scheme \<Rightarrow>
    bool \<times> 'a ws_server_scheme" where
  "Send_frame E op bytes h s =
     (case env_send E (endpoint_of h s) h op bytes of
        Some what \<Rightarrow> (False, s)
      | None \<Rightarrow> (True, emit (SendFrame (endpoint_of h s) h op bytes) s))"

text \<open>\<^verbatim>\<open>Send(void*, int, hdl)\<close> and \<^verbatim>\<open>Send(const std::string&, hdl)\<close>.\<close>

definition Send_data :: "ws_env \<Rightarrow> string \<Rightarrow> connection_hdl \<Rightarrow> 'a ws_server_scheme \<Rightarrow>
    bool \<times> 'a ws_server_scheme" where
  "Send_data E data h s = Send_frame E op_binary data h s"

definition Send :: "ws_env \<Rightarrow> string \<Rightarrow> connection_hdl \<Rightarrow> 'a ws_server_scheme \<Rightarrow>
    bool \<times> 'a ws_server_scheme" where
  "Send E text h s = Send_frame E op_text text h s"

definition Broadcast :: "ws_env \<Rightarrow> string \<Rightarrow> 'a ws_server_scheme \<Rightarrow> 'a ws_server_scheme" where
  "Broadcast E text s =
     fold (\<lambda>h s. snd (Send E text h s)) (m_con_list_tls s)
       (fold (\<lambda>h s. snd (Send E text h s)) (m_con_list_plain s) s)"

definition Broadcast_data :: "ws_env \<Rightarrow> string \<Rightarrow> 'a ws_server_scheme \<Rightarrow> 'a ws_server_scheme" where
  "Broadcast_data E data s =
     fold (\<lambda>h s. snd (Send_data E data h s)) (m_con_list_tls s)
       (fold (\<lambda>h s. snd (Send_data E data h s)) (m_con_list_plain s) s)"

section \<open>Pings\<close>

definition ping :: "ws_env \<Rightarrow> endpoint \<Rightarrow> connection_hdl \<Rightarrow> 'a ws_server_scheme \<Rightarrow> 'a ws_server_scheme" where
  "ping E ep h s = (case env_ping E ep h of Some er \<Rightarrow> s | None \<Rightarrow> emit (SendPing ep h) s)"

text \<open>The body of \<^verbatim>\<open>loop_ping\<close> after \<^verbatim>\<open>wait\<close> has timed out.\<close>

definition ping_all :: "ws_env \<Rightarrow> 'a ws_server_scheme \<Rightarrow> 'a ws_server_scheme" where
  "ping_all E s = fold (ping E tls) (m_con_list_tls s) (fold (ping E plain) (m_con_list_plain s) s)"

definition on_pong_timeout :: "ws_env \<Rightarrow> connection_hdl \<Rightarrow> 'a ws_server_scheme \<Rightarrow> 'a ws_server_scheme" where
  "on_pong_timeout E h s =
     (let ep = endpoint_of h s in
      case env_close E ep h of Some er \<Rightarrow> s | None \<Rightarrow> emit (CloseConn ep h ''pong timeout'') s)"

section \<open>The processing loop\<close>

type_synonym 'a on_receive = "ws_env \<Rightarrow> connection_hdl \<Rightarrow> string \<Rightarrow> 'a ws_server_scheme \<Rightarrow> 'a ws_server_scheme res"
type_synonym 'a on_closed = "ws_env \<Rightarrow> connection_hdl \<Rightarrow> 'a ws_server_scheme \<Rightarrow> 'a ws_server_scheme res"

text \<open>
  One action taken from the queue: whether the loop goes on, and the server afterwards. An action
  of type \<open>MESSAGE\<close> always carries a message.
\<close>

definition process_action :: "'a on_receive \<Rightarrow> 'a on_closed \<Rightarrow> ws_env \<Rightarrow> action \<Rightarrow> 'a ws_server_scheme \<Rightarrow>
    (bool \<times> 'a ws_server_scheme) res" where
  "process_action OnReceive OnClose E a s = (case act_type a of
       SUBSCRIBE \<Rightarrow> Inr (True, s\<lparr>m_con_list_plain := sset_insert (act_hdl a) (m_con_list_plain s)\<rparr>)
     | TLS_SUBSCRIBE \<Rightarrow> Inr (True, s\<lparr>m_con_list_tls := sset_insert (act_hdl a) (m_con_list_tls s)\<rparr>)
     | UNSUBSCRIBE \<Rightarrow>
         rbind (OnClose E (act_hdl a)
                 (s\<lparr>m_con_list_plain := sset_erase (act_hdl a) (m_con_list_plain s),
                    m_con_list_tls := sset_erase (act_hdl a) (m_con_list_tls s)\<rparr>)) (\<lambda>s'. Inr (True, s'))
     | MESSAGE \<Rightarrow>
         (case act_msg a of
            None \<Rightarrow> Inr (True, s)
          | Some m \<Rightarrow> if msg_opcode m = op_text
                      then rbind (OnReceive E (act_hdl a) (msg_payload m) s) (\<lambda>s'. Inr (True, s'))
                      else Inr (True, s))
     | EXIT \<Rightarrow> Inr (False, s))"

text \<open>One round of \<^verbatim>\<open>process_messages\<close>; None while the queue is empty.\<close>

definition process_messages_step :: "'a on_receive \<Rightarrow> 'a on_closed \<Rightarrow> ws_env \<Rightarrow> 'a ws_server_scheme \<Rightarrow>
    (bool \<times> 'a ws_server_scheme) res option" where
  "process_messages_step OnReceive OnClose E s = (case m_actions s of
       [] \<Rightarrow> None
     | a # as \<Rightarrow> Some (process_action OnReceive OnClose E a (s\<lparr>m_actions := as\<rparr>)))"

section \<open>Start and exit\<close>

definition WebsocketServer :: ws_server where
  "WebsocketServer = \<lparr>m_exit_signal = False, m_con_list_plain = [], m_con_list_tls = [], m_actions = [],
     m_mutex_exit = cm_init, net_out = []\<rparr>"

text \<open>
  \<^verbatim>\<open>wait_exit_message\<close>: once \<^verbatim>\<open>WaitExitMessage\<close> has returned true, it notifies the ping loop, stops both
  endpoints and queues an exit action. The first and the last are critical sections of their own;
  stopping an endpoint stops the \<^verbatim>\<open>io_service\<close> that the two share. \<open>wait_exit_message\<close> is the whole
  function when no other thread runs in between, with whether it stopped the endpoints.
\<close>

definition exit_notify :: "'a ws_server_scheme \<Rightarrow> 'a ws_server_scheme" where
  "exit_notify s = s\<lparr>m_mutex_exit := cm_notify 0 (m_mutex_exit s)\<rparr>"

definition exit_push :: "'a ws_server_scheme \<Rightarrow> 'a ws_server_scheme" where
  "exit_push s = push_action EXIT 0 None s"

definition wait_exit_message :: "('w, 'q) boost_mq \<Rightarrow> 'q message_queue \<Rightarrow> 'w \<Rightarrow> 'a ws_server_scheme \<Rightarrow>
    (bool \<times> 'a ws_server_scheme \<times> 'w) option" where
  "wait_exit_message B q w s =
     (case WaitExitMessage B q w of
        None \<Rightarrow> None
      | Some (received, w') \<Rightarrow> Some (if received then (True, exit_push (exit_notify s), w') else (False, s, w')))"

text \<open>
  \<^verbatim>\<open>run\<close>: the ports are converted to 16 bits; \<^verbatim>\<open>listen\<close> of an endpoint may throw. The result is the
  list of ports listened on, and the exception that leaves \<^verbatim>\<open>run\<close>, if any; exceptions of the
  I/O loop itself are caught.
\<close>

definition ws_run :: "(endpoint \<Rightarrow> int \<Rightarrow> string option) \<Rightarrow> int \<Rightarrow> int \<Rightarrow> (endpoint \<times> int) list \<times> string option" where
  "ws_run listen_fails port port_tls =
     (case listen_fails plain (u16 port) of
        Some what \<Rightarrow> ([], Some what)
      | None \<Rightarrow>
          if u16 port_tls > 0
          then (case listen_fails tls (u16 port_tls) of
                  Some what \<Rightarrow> ([(plain, u16 port)], Some what)
                | None \<Rightarrow> ([(plain, u16 port), (tls, u16 port_tls)], None))
          else ([(plain, u16 port)], None))"

text \<open>
  How \<^verbatim>\<open>Listen\<close> ends. The three threads are joined only after \<^verbatim>\<open>run\<close> returns; when \<^verbatim>\<open>run\<close> throws,
  unwinding destroys joinable threads before the handler is reached, and the program terminates.
\<close>

datatype listen_result = ListenJoins | ListenTerminates string

definition Listen :: "(endpoint \<Rightarrow> int \<Rightarrow> string option) \<Rightarrow> int \<Rightarrow> int \<Rightarrow> (endpoint \<times> int) list \<times> listen_result" where
  "Listen listen_fails port port_tls =
     (case ws_run listen_fails port port_tls of
        (ports, None) \<Rightarrow> (ports, ListenJoins)
      | (ports, Some what) \<Rightarrow> (ports, ListenTerminates what))"

section \<open>TLS\<close>

datatype tls_mode = MOZILLA_INTERMEDIATE | MOZILLA_MODERN

datatype tls_option = default_workarounds | no_sslv2 | no_sslv3 | no_tlsv1 | single_dh_use

datatype tls_call =
    set_options "tls_option list"
  | set_password_callback string
  | use_certificate_chain_file string
  | use_private_key_file string
  | use_tmp_dh_file string
  | set_cipher_list string

definition get_password :: string where
  "get_password = ''Tlw(e2'' @ [CHR 0x60] @ ''s7_)''"

definition modern_ciphers :: string where
  "modern_ciphers = ''ECDHE-RSA-AES128-GCM-SHA256:ECDHE-ECDSA-AES128-GCM-SHA256:ECDHE-RSA-AE''
     @ ''S256-GCM-SHA384:ECDHE-ECDSA-AES256-GCM-SHA384:DHE-RSA-AES128-GCM-SHA25''
     @ ''6:DHE-DSS-AES128-GCM-SHA256:kEDH+AESGCM:ECDHE-RSA-AES128-SHA256:ECDHE-''
     @ ''ECDSA-AES128-SHA256:ECDHE-RSA-AES128-SHA:ECDHE-ECDSA-AES128-SHA:ECDHE-''
     @ ''RSA-AES256-SHA384:ECDHE-ECDSA-AES256-SHA384:ECDHE-RSA-AES256-SHA:ECDHE''
     @ ''-ECDSA-AES256-SHA:DHE-RSA-AES128-SHA256:DHE-RSA-AES128-SHA:DHE-DSS-AES''
     @ ''128-SHA256:DHE-RSA-AES256-SHA256:DHE-DSS-AES256-SHA:DHE-RSA-AES256-SHA''
     @ '':!aNULL:!eNULL:!EXPORT:!DES:!RC4:!3DES:!MD5:!PSK''"

definition intermediate_ciphers :: string where
  "intermediate_ciphers = ''ECDHE-RSA-AES128-GCM-SHA256:ECDHE-ECDSA-AES128-GCM-SHA256:ECDHE-RSA-AE''
     @ ''S256-GCM-SHA384:ECDHE-ECDSA-AES256-GCM-SHA384:DHE-RSA-AES128-GCM-SHA25''
     @ ''6:DHE-DSS-AES128-GCM-SHA256:kEDH+AESGCM:ECDHE-RSA-AES128-SHA256:ECDHE-''
     @ ''ECDSA-AES128-SHA256:ECDHE-RSA-AES128-SHA:ECDHE-ECDSA-AES128-SHA:ECDHE-''
     @ ''RSA-AES256-SHA384:ECDHE-ECDSA-AES256-SHA384:ECDHE-RSA-AES256-SHA:ECDHE''
     @ ''-ECDSA-AES256-SHA:DHE-RSA-AES128-SHA256:DHE-RSA-AES128-SHA:DHE-DSS-AES''
     @ ''128-SHA256:DHE-RSA-AES256-SHA256:DHE-DSS-AES256-SHA:DHE-RSA-AES256-SHA''
     @ '':AES128-GCM-SHA256:AES256-GCM-SHA384:AES128-SHA256:AES256-SHA256:AES12''
     @ ''8-SHA:AES256-SHA:AES:CAMELLIA:DES-CBC3-SHA:!aNULL:!eNULL:!EXPORT:!DES:''
     @ ''!RC4:!MD5:!PSK:!aECDH:!EDH-DSS-DES-CBC3-SHA:!EDH-RSA-DES-CBC3-SHA:!KRB''
     @ ''5-DES-CBC3-SHA''"

definition tls_calls :: "tls_mode \<Rightarrow> tls_call list" where
  "tls_calls mode =
     [set_options (if mode = MOZILLA_MODERN
        then [default_workarounds, no_sslv2, no_sslv3, no_tlsv1, single_dh_use]
        else [default_workarounds, no_sslv2, no_sslv3, single_dh_use]),
      set_password_callback get_password,
      use_certificate_chain_file ''cert.pem'',
      use_private_key_file ''key.pem'',
      use_tmp_dh_file ''dh.pem'',
      set_cipher_list (if mode = MOZILLA_MODERN then modern_ciphers else intermediate_ciphers)]"

text \<open>
  \<^verbatim>\<open>on_tls_init\<close>: the calls on the context that took effect. The first that fails ends the setup (the last one, the cipher
  list, reports by its result), the failure is printed, and the context is returned as it is then.
\<close>

definition on_tls_init :: "(tls_call \<Rightarrow> bool) \<Rightarrow> tls_mode \<Rightarrow> tls_call list" where
  "on_tls_init throws mode = takeWhile (\<lambda>c. \<not> throws c) (tls_calls mode)"

definition on_http :: "int \<times> string" where
  "on_http = (200, ''Hello World!'')"

end
