(* ===== verification/Ws_System.thy ===== *)
theory Ws_System
  imports Websocket_Server
begin

text \<open>
  The threads of a running server as a transition system: the network thread calls the handlers
  and may time out pongs, the processing thread takes one action at a time, the ping thread waits
  and pings, the exit thread waits for the message of \<^verbatim>\<open>-c stop\<close>, notifies the ping thread, stops the
  endpoints one after the other and queues the exit action. Every step is one critical section
  of the source, or one access to shared state outside of any. Only for the processing thread the two sections of a round, taking
  an action and processing it, are one step: nobody else takes actions, and what others do in
  between (append an action, ping, stop the endpoints) does not depend on the one taken. The network thread may be inside a handler
  when the endpoints are stopped, so its steps stay possible until \<^verbatim>\<open>m_ios.run()\<close> returns (\<open>io_running\<close>), which it can
  once they are (\<open>io_stopped\<close>). The history of queued and of processed actions and the phase of each connection
  are ghost fields. websocketpp's promise about one connection, that it is opened once, delivers
  messages while open and is closed at most once, is the guard of the network steps.

  The locale \<open>ws_client\<close> is what the framework relies on of the derived class: its virtual functions
  leave the framework's own fields alone.
\<close>

datatype phase = Fresh | OpenPlain | OpenTls | Closed

text \<open>Where the ping thread is: about to wait, waiting, woken by the timeout and about to ping, returned.\<close>

datatype ping_pc = PingEnter | PingWaiting | PingAwake | PingExited

text \<open>Where the exit thread is: waiting for the message, and before each of the three steps that follow.\<close>

datatype exit_pc = ExitWaiting | ExitStopPlain | ExitStopTls | ExitPush | ExitDone

record 's ws_system =
  srv :: 's
  processing :: bool
  ping_at :: ping_pc
  exit_at :: exit_pc
  io_running :: bool
  io_stopped :: bool
  crashed :: "exn option"
  phase_of :: "connection_hdl \<Rightarrow> phase"
  pushed :: "action list"
  processed :: "action list"

datatype ws_event =
    EvOpen connection_hdl
  | EvOpenTls connection_hdl
  | EvClose connection_hdl
  | EvMessage connection_hdl message
  | EvPongTimeout ws_env connection_hdl
  | EvProcess ws_env
  | EvPingEnter
  | EvPingWake bool
  | EvPing ws_env
  | EvExit bool
  | EvStop endpoint
  | EvExitPush
  | EvIoReturn

abbreviation mk_action :: "action_type \<Rightarrow> connection_hdl \<Rightarrow> message option \<Rightarrow> action" where
  "mk_action t h m \<equiv> \<lparr>act_type = t, act_hdl = h, act_msg = m\<rparr>"

definition is_open :: "phase \<Rightarrow> bool" where
  "is_open p \<longleftrightarrow> p = OpenPlain \<or> p = OpenTls"

definition ws_init :: "'a ws_server_scheme \<Rightarrow> 'a ws_server_scheme ws_system" where
  "ws_init s = \<lparr>srv = s, processing = True, ping_at = PingEnter, exit_at = ExitWaiting, io_running = True,
     io_stopped = False, crashed = None, phase_of = (\<lambda>_. Fresh), pushed = [], processed = []\<rparr>"

inductive ws_step :: "'a on_receive \<Rightarrow> 'a on_closed \<Rightarrow> 'a ws_server_scheme ws_system \<Rightarrow> ws_event \<Rightarrow>
    'a ws_server_scheme ws_system \<Rightarrow> bool"
  for R :: "'a on_receive" and C :: "'a on_closed" where
  step_open:
    "crashed s = None \<Longrightarrow> io_running s \<Longrightarrow> h \<noteq> 0 \<Longrightarrow> phase_of s h = Fresh \<Longrightarrow>
     ws_step R C s (EvOpen h)
       (s\<lparr>srv := on_open h (srv s), phase_of := (phase_of s)(h := OpenPlain),
          pushed := pushed s @ [mk_action SUBSCRIBE h None]\<rparr>)"
| step_open_tls:
    "crashed s = None \<Longrightarrow> io_running s \<Longrightarrow> h \<noteq> 0 \<Longrightarrow> phase_of s h = Fresh \<Longrightarrow>
     ws_step R C s (EvOpenTls h)
       (s\<lparr>srv := on_open_tls h (srv s), phase_of := (phase_of s)(h := OpenTls),
          pushed := pushed s @ [mk_action TLS_SUBSCRIBE h None]\<rparr>)"
| step_close:
    "crashed s = None \<Longrightarrow> io_running s \<Longrightarrow> h \<noteq> 0 \<Longrightarrow> is_open (phase_of s h) \<Longrightarrow>
     ws_step R C s (EvClose h)
       (s\<lparr>srv := on_close h (srv s), phase_of := (phase_of s)(h := Closed),
          pushed := pushed s @ [mk_action UNSUBSCRIBE h None]\<rparr>)"
| step_message:
    "crashed s = None \<Longrightarrow> io_running s \<Longrightarrow> h \<noteq> 0 \<Longrightarrow> is_open (phase_of s h) \<Longrightarrow>
     ws_step R C s (EvMessage h m)
       (s\<lparr>srv := on_message h m (srv s), pushed := pushed s @ [mk_action MESSAGE h (Some m)]\<rparr>)"
| step_pong_timeout:
    "crashed s = None \<Longrightarrow> io_running s \<Longrightarrow>
     ws_step R C s (EvPongTimeout E h) (s\<lparr>srv := on_pong_timeout E h (srv s)\<rparr>)"
| step_process:
    "crashed s = None \<Longrightarrow> processing s \<Longrightarrow>
     process_messages_step R C E (srv s) = Some (Inr (go_on, t)) \<Longrightarrow>
     ws_step R C s (EvProcess E)
       (s\<lparr>srv := t, processing := go_on, processed := processed s @ [hd (m_actions (srv s))]\<rparr>)"
| step_crash:
    "crashed s = None \<Longrightarrow> processing s \<Longrightarrow>
     process_messages_step R C E (srv s) = Some (Inl e) \<Longrightarrow>
     ws_step R C s (EvProcess E) (s\<lparr>crashed := Some e\<rparr>)"
| step_ping_enter:
    "crashed s = None \<Longrightarrow> ping_at s = PingEnter \<Longrightarrow>
     ws_step R C s EvPingEnter
       (s\<lparr>srv := (srv s)\<lparr>m_mutex_exit := cm_wait_enter (m_mutex_exit (srv s))\<rparr>, ping_at := PingWaiting\<rparr>)"
| step_ping_exit:
    "crashed s = None \<Longrightarrow> ping_at s = PingWaiting \<Longrightarrow>
     cm_wait_leave timeout (m_mutex_exit (srv s)) = Some True \<Longrightarrow>
     ws_step R C s (EvPingWake timeout) (s\<lparr>ping_at := PingExited\<rparr>)"
| step_ping_wake:
    "crashed s = None \<Longrightarrow> ping_at s = PingWaiting \<Longrightarrow>
     cm_wait_leave timeout (m_mutex_exit (srv s)) = Some False \<Longrightarrow>
     ws_step R C s (EvPingWake timeout) (s\<lparr>ping_at := PingAwake\<rparr>)"
| step_ping_all:
    "crashed s = None \<Longrightarrow> ping_at s = PingAwake \<Longrightarrow>
     ws_step R C s (EvPing E) (s\<lparr>srv := ping_all E (srv s), ping_at := PingEnter\<rparr>)"
| step_exit_message:
    "crashed s = None \<Longrightarrow> exit_at s = ExitWaiting \<Longrightarrow>
     ws_step R C s (EvExit True) (s\<lparr>srv := exit_notify (srv s), exit_at := ExitStopPlain\<rparr>)"
| step_exit_error:
    "crashed s = None \<Longrightarrow> exit_at s = ExitWaiting \<Longrightarrow> ws_step R C s (EvExit False) (s\<lparr>exit_at := ExitDone\<rparr>)"
| step_stop_plain:
    "crashed s = None \<Longrightarrow> exit_at s = ExitStopPlain \<Longrightarrow>
     ws_step R C s (EvStop plain) (s\<lparr>io_stopped := True, exit_at := ExitStopTls\<rparr>)"
| step_stop_tls:
    "crashed s = None \<Longrightarrow> exit_at s = ExitStopTls \<Longrightarrow>
     ws_step R C s (EvStop tls) (s\<lparr>io_stopped := True, exit_at := ExitPush\<rparr>)"
| step_exit_push:
    "crashed s = None \<Longrightarrow> exit_at s = ExitPush \<Longrightarrow>
     ws_step R C s EvExitPush
       (s\<lparr>srv := exit_push (srv s), exit_at := ExitDone, pushed := pushed s @ [mk_action EXIT 0 None]\<rparr>)"
| step_io_return:
    "crashed s = None \<Longrightarrow> io_running s \<Longrightarrow> io_stopped s \<Longrightarrow> ws_step R C s EvIoReturn (s\<lparr>io_running := False\<rparr>)"

inductive_cases ws_stepE: "ws_step R C s e t"

section \<open>The framework's own fields\<close>

text \<open>The fields that only the framework writes.\<close>

definition framework :: "'a ws_server_scheme \<Rightarrow>
    connection_hdl sset \<times> connection_hdl sset \<times> action list \<times> condition_mutex" where
  "framework s = (m_con_list_plain s, m_con_list_tls s, m_actions s, m_mutex_exit s)"

lemma framework_emit [simp]: "framework (emit e s) = framework s"
  by (simp add: framework_def emit_def)

lemma framework_Send_frame [simp]: "framework (snd (Send_frame E op d h s)) = framework s"
  by (simp add: Send_frame_def split: option.splits)

lemma framework_Send [simp]: "framework (snd (Send E d h s)) = framework s"
  by (simp add: Send_def)

lemma framework_ping [simp]: "framework (ping E ep h s) = framework s"
  by (simp add: ping_def split: option.splits)

lemma framework_ping_all [simp]: "framework (ping_all E s) = framework s"
  by (simp add: ping_all_def fold_keeps)

lemma framework_on_pong_timeout [simp]: "framework (on_pong_timeout E h s) = framework s"
  by (simp add: on_pong_timeout_def Let_def split: option.splits)

section \<open>The life of one connection\<close>

fun conn_next :: "phase \<Rightarrow> action_type \<Rightarrow> phase option" where
  "conn_next Fresh SUBSCRIBE = Some OpenPlain"
| "conn_next Fresh TLS_SUBSCRIBE = Some OpenTls"
| "conn_next OpenPlain MESSAGE = Some OpenPlain"
| "conn_next OpenTls MESSAGE = Some OpenTls"
| "conn_next OpenPlain UNSUBSCRIBE = Some Closed"
| "conn_next OpenTls UNSUBSCRIBE = Some Closed"
| "conn_next _ _ = None"

fun conn_run :: "phase \<Rightarrow> action_type list \<Rightarrow> phase option" where
  "conn_run p [] = Some p"
| "conn_run p (t # ts) = (case conn_next p t of None \<Rightarrow> None | Some p' \<Rightarrow> conn_run p' ts)"

lemma conn_run_append:
  "conn_run p (xs @ ys) = (case conn_run p xs of None \<Rightarrow> None | Some p' \<Rightarrow> conn_run p' ys)"
  by (induction xs arbitrary: p) (auto split: option.splits)

definition types_of :: "connection_hdl \<Rightarrow> action list \<Rightarrow> action_type list" where
  "types_of h as = map act_type (filter (\<lambda>a. act_hdl a = h) as)"

lemma types_of_simps [simp]:
  "types_of h [] = []"
  "types_of h (a # as) = (if act_hdl a = h then act_type a # types_of h as else types_of h as)"
  "types_of h (as @ bs) = types_of h as @ types_of h bs"
  by (simp_all add: types_of_def)

section \<open>What holds in every reachable state\<close>

definition ws_inv :: "'a ws_server_scheme ws_system \<Rightarrow> bool" where
  "ws_inv s \<longleftrightarrow>
     processed s @ m_actions (srv s) = pushed s \<and>
     (\<forall>h. h \<noteq> 0 \<longrightarrow> conn_run Fresh (types_of h (pushed s)) = Some (phase_of s h)) \<and>
     (\<forall>h. h \<noteq> 0 \<longrightarrow>
        (h \<in> set (m_con_list_plain (srv s)) \<longleftrightarrow> conn_run Fresh (types_of h (processed s)) = Some OpenPlain) \<and>
        (h \<in> set (m_con_list_tls (srv s)) \<longleftrightarrow> conn_run Fresh (types_of h (processed s)) = Some OpenTls)) \<and>
     sset_ok (m_con_list_plain (srv s)) \<and> sset_ok (m_con_list_tls (srv s)) \<and>
     0 \<notin> set (m_con_list_plain (srv s)) \<and> 0 \<notin> set (m_con_list_tls (srv s)) \<and>
     (\<forall>a\<in>set (pushed s). act_hdl a = 0 \<longleftrightarrow> act_type a = EXIT) \<and>
     (\<forall>a\<in>set (butlast (processed s)). act_type a \<noteq> EXIT) \<and>
     (processing s \<longrightarrow> (\<forall>a\<in>set (processed s). act_type a \<noteq> EXIT))"

lemma frameworkD:
  assumes "framework t = framework s"
  shows "m_con_list_plain t = m_con_list_plain s" "m_con_list_tls t = m_con_list_tls s"
    "m_actions t = m_actions s" "m_mutex_exit t = m_mutex_exit s"
  using assms by (simp_all add: framework_def)

text \<open>A step that changes none of the fields of the invariant keeps it.\<close>

lemma ws_inv_frame:
  assumes "ws_inv s" "m_con_list_plain (srv t) = m_con_list_plain (srv s)"
    "m_con_list_tls (srv t) = m_con_list_tls (srv s)" "m_actions (srv t) = m_actions (srv s)"
    "pushed t = pushed s" "processed t = processed s" "phase_of t = phase_of s" "processing t = processing s"
  shows "ws_inv t"
  using assms by (simp add: ws_inv_def)

lemma ws_inv_push:
  assumes inv: "ws_inv s" and h: "h \<noteq> 0" and n: "conn_next (phase_of s h) ty = Some p"
    and f: "m_con_list_plain (srv t) = m_con_list_plain (srv s)"
      "m_con_list_tls (srv t) = m_con_list_tls (srv s)"
      "m_actions (srv t) = m_actions (srv s) @ [mk_action ty h m]"
      "pushed t = pushed s @ [mk_action ty h m]" "processed t = processed s"
      "phase_of t = (phase_of s)(h := p)" "processing t = processing s"
  shows "ws_inv t"
proof -
  have "ty \<noteq> EXIT" using n by (cases "phase_of s h") auto
  with assms show ?thesis by (auto simp: ws_inv_def conn_run_append)
qed

lemma sset_ok_Nil [simp]: "sset_ok []" by (simp add: sset_ok_def)

lemma ws_inv_init: "framework s = ([], [], [], c) \<Longrightarrow> ws_inv (ws_init s)"
  by (simp add: ws_inv_def ws_init_def framework_def)

text \<open>The connection lists after one processed action.\<close>

fun lists_after :: "action \<Rightarrow> connection_hdl sset \<times> connection_hdl sset \<Rightarrow>
    connection_hdl sset \<times> connection_hdl sset" where
  "lists_after a (p, t) = (case act_type a of
       SUBSCRIBE \<Rightarrow> (sset_insert (act_hdl a) p, t)
     | TLS_SUBSCRIBE \<Rightarrow> (p, sset_insert (act_hdl a) t)
     | UNSUBSCRIBE \<Rightarrow> (sset_erase (act_hdl a) p, sset_erase (act_hdl a) t)
     | _ \<Rightarrow> (p, t))"

lemma lists_after_members:
  assumes run: "conn_run Fresh (ts @ [act_type a]) = Some q"
    and p: "act_hdl a \<in> set pl \<longleftrightarrow> conn_run Fresh ts = Some OpenPlain"
    and t: "act_hdl a \<in> set sl \<longleftrightarrow> conn_run Fresh ts = Some OpenTls"
    and la: "lists_after a (pl, sl) = (pl', sl')"
  shows "(act_hdl a \<in> set pl' \<longleftrightarrow> q = OpenPlain) \<and> (act_hdl a \<in> set sl' \<longleftrightarrow> q = OpenTls)"
proof -
  from run obtain r where r: "conn_run Fresh ts = Some r" "conn_next r (act_type a) = Some q"
    by (auto simp: conn_run_append split: option.splits)
  with p t la show ?thesis by (cases r; cases "act_type a") auto
qed

lemma lists_after_others:
  "lists_after a (pl, sl) = (pl', sl') \<Longrightarrow> h \<noteq> act_hdl a \<Longrightarrow>
   (h \<in> set pl' \<longleftrightarrow> h \<in> set pl) \<and> (h \<in> set sl' \<longleftrightarrow> h \<in> set sl)"
  by (cases "act_type a") auto

lemma lists_after_ok:
  "lists_after a (pl, sl) = (pl', sl') \<Longrightarrow> sset_ok pl \<Longrightarrow> sset_ok sl \<Longrightarrow> sset_ok pl' \<and> sset_ok sl'"
  by (cases "act_type a") (auto simp: sset_ok_insert sset_ok_erase)

lemma lists_after_zero:
  "lists_after a (pl, sl) = (pl', sl') \<Longrightarrow> 0 \<notin> set pl \<Longrightarrow> 0 \<notin> set sl \<Longrightarrow>
   act_hdl a = 0 \<longleftrightarrow> act_type a = EXIT \<Longrightarrow> 0 \<notin> set pl' \<and> 0 \<notin> set sl'"
  by (cases "act_type a") auto

lemma ws_inv_process:
  assumes inv: "ws_inv s" and q: "m_actions (srv s) = a # as"
    and la: "lists_after a (m_con_list_plain (srv s), m_con_list_tls (srv s)) =
             (m_con_list_plain (srv t), m_con_list_tls (srv t))"
    and f: "m_actions (srv t) = as" "pushed t = pushed s" "processed t = processed s @ [a]"
      "phase_of t = phase_of s" "processing s" "processing t \<longrightarrow> act_type a \<noteq> EXIT"
  shows "ws_inv t"
proof -
  have "pushed s = processed s @ a # as" using inv q by (simp add: ws_inv_def)
  then have a: "act_hdl a = 0 \<longleftrightarrow> act_type a = EXIT" using inv by (simp add: ws_inv_def)
  have mem: "(h \<in> set (m_con_list_plain (srv t)) \<longleftrightarrow> conn_run Fresh (types_of h (processed t)) = Some OpenPlain) \<and>
        (h \<in> set (m_con_list_tls (srv t)) \<longleftrightarrow> conn_run Fresh (types_of h (processed t)) = Some OpenTls)"
    if h: "h \<noteq> 0" for h
  proof (cases "act_hdl a = h")
    case True
    have "conn_run Fresh ((types_of h (processed s) @ [act_type a]) @ types_of h as) = Some (phase_of s h)"
      using inv h q True unfolding ws_inv_def by (metis append.assoc append_Cons append_Nil types_of_simps(2,3))
    then obtain r where r: "conn_run Fresh (types_of h (processed s) @ [act_type a]) = Some r"
      by (simp only: conn_run_append [of Fresh "types_of h (processed s) @ [act_type a]"] split: option.splits)
    have "(h \<in> set (m_con_list_plain (srv t)) \<longleftrightarrow> r = OpenPlain) \<and> (h \<in> set (m_con_list_tls (srv t)) \<longleftrightarrow> r = OpenTls)"
      using lists_after_members [OF r _ _ la] inv h True by (simp add: ws_inv_def)
    then show ?thesis using True f(3) r by simp
  next
    case False
    then show ?thesis using lists_after_others [OF la, of h] inv h f(3) by (simp add: ws_inv_def)
  qed
  then show ?thesis
    using inv q f lists_after_ok [OF la] lists_after_zero [OF la _ _ a] by (simp add: ws_inv_def)
qed

section \<open>The derived class\<close>

locale ws_client =
  fixes R :: "'a on_receive" and C :: "'a on_closed"
  assumes receive_frame: "R E h text s = Inr t \<Longrightarrow> framework t = framework s"
    and close_frame: "C E h s = Inr t \<Longrightarrow> framework t = framework s"
begin

lemma process_action_frame:
  assumes "process_action R C E a s = Inr (go_on, t)"
  shows "m_actions t = m_actions s" "m_mutex_exit t = m_mutex_exit s"
    "lists_after a (m_con_list_plain s, m_con_list_tls s) = (m_con_list_plain t, m_con_list_tls t)"
    "go_on \<longleftrightarrow> act_type a \<noteq> EXIT"
  using assms
  by (auto simp: process_action_def res_simps dest!: receive_frame close_frame dest: frameworkD
      split: action_type.splits option.splits if_splits)

lemma ws_inv_step: "ws_inv s \<Longrightarrow> ws_step R C s e t \<Longrightarrow> ws_inv t"
proof (erule ws_stepE, goal_cases)
  case (1 h)
  then show ?case
    by (intro ws_inv_push [OF 1(1), of h SUBSCRIBE OpenPlain]) (simp_all add: on_open_def push_action_def)
next
  case (2 h)
  then show ?case
    by (intro ws_inv_push [OF 2(1), of h TLS_SUBSCRIBE OpenTls]) (simp_all add: on_open_tls_def push_action_def)
next
  case (3 h)
  then show ?case
    by (intro ws_inv_push [OF 3(1), of h UNSUBSCRIBE Closed])
       (auto simp add: on_close_def push_action_def is_open_def)
next
  case (4 h m)
  then show ?case
    by (intro ws_inv_push [OF 4(1), of h MESSAGE "phase_of s h" _ "Some m"])
       (auto simp add: on_message_def push_action_def is_open_def)
next
  case (5 E h)
  then show ?case using frameworkD [OF framework_on_pong_timeout [of E h "srv s"]]
    by (intro ws_inv_frame [OF 5(1)]) simp_all
next
  case (6 E go_on u)
  then obtain a as where q: "m_actions (srv s) = a # as"
    and p: "process_action R C E a ((srv s)\<lparr>m_actions := as\<rparr>) = Inr (go_on, u)"
    by (auto simp: process_messages_step_def split: list.splits)
  show ?case
    using process_action_frame [OF p] q 6(5) unfolding 6(3)
    by (intro ws_inv_process [OF 6(1) q]) simp_all
next
  case (11 E)
  then show ?case using frameworkD [OF framework_ping_all [of E "srv s"]]
    by (intro ws_inv_frame [OF 11(1)]) simp_all
qed (simp_all add: ws_inv_def exit_notify_def exit_push_def push_action_def)

end

section \<open>Consequences\<close>

definition ws_start :: "'a ws_server_scheme ws_system \<Rightarrow> bool" where
  "ws_start s \<longleftrightarrow> (\<exists>x c. framework x = ([], [], [], c) \<and> s = ws_init x)"

sublocale ws_client \<subseteq> ws: invariant_system ws_start "ws_step R C" ws_inv
proof unfold_locales
  show "ws_start s \<Longrightarrow> ws_inv s" for s :: "'a ws_server_scheme ws_system"
    by (auto simp: ws_start_def ws_inv_init)
qed (rule ws_inv_step)

text \<open>
  The ping thread misses the notification: the exit thread has already notified, and the flag is not
  set while the ping thread sleeps.
\<close>

definition ping_lost :: "'a ws_server_scheme ws_system \<Rightarrow> bool" where
  "ping_lost s \<longleftrightarrow> exit_at s \<noteq> ExitWaiting \<and>
     (ping_at s \<in> {PingEnter, PingAwake} \<or> ping_at s = PingWaiting \<and> \<not> cm_ready (m_mutex_exit (srv s)))"

text \<open>The ping thread has been notified while it slept, or has left since.\<close>

definition ping_told :: "'a ws_server_scheme ws_system \<Rightarrow> bool" where
  "ping_told s \<longleftrightarrow> ping_at s = PingExited \<or> ping_at s = PingWaiting \<and> cm_ready (m_mutex_exit (srv s))"

context ws_client
begin

lemma ws_run_prefix:
  assumes "ws_inv s" "h \<noteq> 0" "processed s @ as @ bs = pushed s"
  shows "\<exists>p. conn_run Fresh (types_of h (processed s) @ types_of h as) = Some p"
proof -
  have "conn_run Fresh (types_of h (pushed s)) = Some (phase_of s h)"
    using assms(1,2) by (simp add: ws_inv_def)
  then have "conn_run Fresh ((types_of h (processed s) @ types_of h as) @ types_of h bs) = Some (phase_of s h)"
    by (simp add: assms(3) [symmetric])
  then show ?thesis
    unfolding conn_run_append [of Fresh "types_of h (processed s) @ types_of h as"]
    by (auto split: option.splits)
qed

lemma message_from_live:
  assumes inv: "ws_inv s" and q: "m_actions (srv s) = a # as" and ty: "act_type a = MESSAGE"
  shows "act_hdl a \<in> set (m_con_list_plain (srv s)) \<union> set (m_con_list_tls (srv s))"
proof -
  have push: "processed s @ [a] @ as = pushed s" using inv q by (simp add: ws_inv_def)
  then have "a \<in> set (pushed s)" by (metis append_Cons in_set_conv_decomp)
  then have h: "act_hdl a \<noteq> 0" using inv ty by (simp add: ws_inv_def)
  from ws_run_prefix [OF inv h push] obtain p
    where "conn_run Fresh (types_of (act_hdl a) (processed s) @ [MESSAGE]) = Some p"
    using ty by auto
  then obtain r where "conn_run Fresh (types_of (act_hdl a) (processed s)) = Some r" "conn_next r MESSAGE = Some p"
    by (auto simp: conn_run_append split: option.splits)
  then show ?thesis using inv h by (cases r) (auto simp: ws_inv_def)
qed

lemma lists_disjoint:
  assumes inv: "ws_inv s" and p: "h \<in> set (m_con_list_plain (srv s))"
  shows "h \<notin> set (m_con_list_tls (srv s))"
proof (cases "h = 0")
  case False
  with inv p show ?thesis by (simp add: ws_inv_def)
qed (use inv in \<open>simp add: ws_inv_def\<close>)

lemma step_mutex:
  assumes "ws_step R C s e t" "exit_at s \<noteq> ExitWaiting"
  shows "exit_at t \<noteq> ExitWaiting \<and>
     (m_mutex_exit (srv t) = m_mutex_exit (srv s) \<and>
        (ping_at t = ping_at s \<or> ping_at s = PingAwake \<and> ping_at t = PingEnter \<or>
         ping_at s = PingWaiting \<and> cm_ready (m_mutex_exit (srv s)) \<and> ping_at t = PingExited \<or>
         ping_at s = PingWaiting \<and> \<not> cm_ready (m_mutex_exit (srv s)) \<and> ping_at t = PingAwake) \<or>
      ping_at s = PingEnter \<and> ping_at t = PingWaiting \<and> \<not> cm_ready (m_mutex_exit (srv t)))"
  using assms
proof (cases rule: ws_step.cases)
  case (step_process E go_on u)
  then obtain a as where "process_action R C E a ((srv s)\<lparr>m_actions := as\<rparr>) = Inr (go_on, u)"
    by (auto simp: process_messages_step_def split: list.splits)
  from process_action_frame(2) [OF this] step_process assms(2) show ?thesis by simp
next
  case (step_pong_timeout E h)
  then show ?thesis using frameworkD(4) [OF framework_on_pong_timeout [of E h "srv s"]] assms(2) by simp
next
  case (step_ping_all E)
  then show ?thesis using frameworkD(4) [OF framework_ping_all [of E "srv s"]] assms(2) by simp
qed (auto simp: on_open_def on_open_tls_def on_close_def on_message_def push_action_def exit_push_def
      cm_wait_leave_def cm_wait_enter_def split: if_splits)

lemma ping_lost_step: "ping_lost s \<Longrightarrow> ws_step R C s e t \<Longrightarrow> ping_lost t"
  using step_mutex [of s e t] by (auto simp: ping_lost_def)

lemma ping_told_step:
  "ping_told s \<and> exit_at s \<noteq> ExitWaiting \<Longrightarrow> ws_step R C s e t \<Longrightarrow> ping_told t \<and> exit_at t \<noteq> ExitWaiting"
  using step_mutex [of s e t] by (auto simp: ping_told_def)

end

sublocale ws_client \<subseteq> lost: invariant_system ping_lost "ws_step R C" ping_lost
  by unfold_locales (auto intro: ping_lost_step)

sublocale ws_client \<subseteq> told: invariant_system "\<lambda>s. ping_told s \<and> exit_at s \<noteq> ExitWaiting" "ws_step R C"
    "\<lambda>s. ping_told s \<and> exit_at s \<noteq> ExitWaiting"
  by unfold_locales (assumption, rule ping_told_step)

context ws_client
begin

lemma exit_lost:
  assumes "ping_at s \<in> {PingEnter, PingAwake}" "ws_step R C s (EvExit True) t" "reach (\<lambda>x. x = t) (ws_step R C) u"
  shows "ping_at u \<noteq> PingExited"
proof -
  have "ping_lost t" using assms(1,2) by (auto simp: ping_lost_def elim!: ws_stepE)
  then have "reach ping_lost (ws_step R C) u" using assms(3) by (auto intro: reach_mono)
  then show ?thesis by (auto simp: ping_lost_def dest: lost.reach_inv)
qed

lemma exit_told:
  assumes "ping_at s = PingWaiting" "ws_step R C s (EvExit True) t" "reach (\<lambda>x. x = t) (ws_step R C) u"
  shows "ping_told u"
proof -
  have "ping_told t \<and> exit_at t \<noteq> ExitWaiting"
    using assms(1,2) by (auto simp: ping_told_def exit_notify_def cm_notify_def elim!: ws_stepE)
  then have "reach (\<lambda>s. ping_told s \<and> exit_at s \<noteq> ExitWaiting) (ws_step R C) u"
    using assms(3) by (auto intro: reach_mono)
  then show ?thesis by (auto dest: told.reach_inv)
qed

end

section \<open>Broadcasts\<close>

lemma Send_con_list [simp]: "m_con_list_plain (snd (Send E text h s)) = m_con_list_plain s"
  using frameworkD(1) [OF framework_Send] .

lemma Send_all_out:
  "(\<forall>h\<in>set hs. h \<in> set (m_con_list_plain s) \<longleftrightarrow> ep = plain) \<Longrightarrow>
   (\<forall>h\<in>set hs. env_send E ep h op_text text = None) \<Longrightarrow>
   net_out (fold (\<lambda>h s. snd (Send E text h s)) hs s) = net_out s @ map (\<lambda>h. SendFrame ep h op_text text) hs"
proof (induction hs arbitrary: s)
  case (Cons h hs)
  have "endpoint_of h s = ep" using Cons.prems(1) by (cases ep) (auto simp: endpoint_of_def)
  then have "net_out (snd (Send E text h s)) = net_out s @ [SendFrame ep h op_text text]"
    using Cons.prems(2) by (simp add: Send_def Send_frame_def emit_def)
  then show ?case using Cons.IH [of "snd (Send E text h s)"] Cons.prems by simp
qed simp

text \<open>A broadcast sends the text exactly once to every connection, through
  the endpoint the connection belongs to, provided the endpoints accept it; the two connection
  lists share no handle.\<close>

lemma Broadcast_reaches_everyone:
  assumes ok: "\<forall>ep h. env_send E ep h op_text text = None"
    and disjoint: "\<forall>h\<in>set (m_con_list_tls s). h \<notin> set (m_con_list_plain s)"
  shows "net_out (Broadcast E text s) = net_out s @
    map (\<lambda>h. SendFrame plain h op_text text) (m_con_list_plain s) @
    map (\<lambda>h. SendFrame tls h op_text text) (m_con_list_tls s)"
proof -
  let ?s1 = "fold (\<lambda>h s. snd (Send E text h s)) (m_con_list_plain s) s"
  have "m_con_list_plain ?s1 = m_con_list_plain s" by (rule fold_keeps) simp
  then have "net_out (Broadcast E text s) = net_out ?s1 @ map (\<lambda>h. SendFrame tls h op_text text) (m_con_list_tls s)"
    using ok disjoint unfolding Broadcast_def by (intro Send_all_out) auto
  also have "net_out ?s1 = net_out s @ map (\<lambda>h. SendFrame plain h op_text text) (m_con_list_plain s)"
    using ok by (intro Send_all_out) auto
  finally show ?thesis by simp
qed

end
