(* ===== verification/Double.thy ===== *)
theory Double
  imports Prelude
begin

text \<open>
  IEEE-754 binary floating point as the source uses it: conversion from integers and from decimal
  text with round-to-nearest-even, comparison, truncation to an integer, and the \<^verbatim>\<open>%.*g\<close> and
  \<^verbatim>\<open>%.*f\<close> formats of \<^verbatim>\<open>snprintf\<close>. A finite number is a sign, a mantissa and a binary exponent;
  everything is computed on integers, so that it evaluates in the kernel.
\<close>

datatype double =
    DNaN
  | DInf bool \<comment> \<open>negative?\<close>
  | DFin bool int int \<comment> \<open>negative?, mantissa \<open>m \<ge> 0\<close>, exponent \<open>e\<close>: m * 2 ^ e\<close>

section \<open>Decimal digits\<close>

function dec_string :: "int \<Rightarrow> string" where
  "dec_string n = (if n < 10 then [char_of (48 + nat n)]
                   else dec_string (n div 10) @ [char_of (48 + nat (n mod 10))])"
  by pat_completeness auto
termination
  by (relation "measure nat") auto

declare dec_string.simps [simp del]

fun dec_value :: "int \<Rightarrow> string \<Rightarrow> int" where
  "dec_value acc [] = acc"
| "dec_value acc (c # cs) = dec_value (acc * 10 + (of_char c - 48)) cs"

function bit_count :: "int \<Rightarrow> int" where
  "bit_count n = (if n \<le> 0 then 0 else 1 + bit_count (n div 2))"
  by pat_completeness auto
termination
  by (relation "measure nat") auto

declare bit_count.simps [simp del]

section \<open>Rounding\<close>

text \<open>\<open>n / d\<close> rounded to the nearest integer, ties to even.\<close>

definition round_div :: "int \<Rightarrow> int \<Rightarrow> int" where
  "round_div n d =
     (let q = n div d; r = n mod d in
      if 2 * r < d then q else if d < 2 * r then q + 1 else if even q then q else q + 1)"

text \<open>Whether \<open>b ^ k \<le> n / d\<close>, for a possibly negative \<open>k\<close>.\<close>

definition pow_le :: "int \<Rightarrow> int \<Rightarrow> int \<Rightarrow> int \<Rightarrow> bool" where
  "pow_le b k n d = (if 0 \<le> k then d * b ^ nat k \<le> n else d \<le> n * b ^ nat (- k))"

text \<open>\<open>n / d / b ^ k\<close>, rounded.\<close>

definition scale_round :: "int \<Rightarrow> int \<Rightarrow> int \<Rightarrow> int \<Rightarrow> int" where
  "scale_round b k n d =
     (if 0 \<le> k then round_div n (d * b ^ nat k) else round_div (n * b ^ nat (- k)) d)"

text \<open>
  Rounding \<open>n / d\<close> to \<open>p\<close> mantissa bits with exponents between \<open>emin\<close> and \<open>emax\<close>; a magnitude
  beyond the largest finite number becomes infinite. For \<open>double\<close>: 53, -1074, 971; for \<open>float\<close>:
  24, -149, 104.
\<close>

definition fp_round :: "nat \<Rightarrow> int \<Rightarrow> int \<Rightarrow> bool \<Rightarrow> int \<Rightarrow> int \<Rightarrow> double" where
  "fp_round p emin emax s n d =
     (if n = 0 then DFin s 0 0
      else let k0 = bit_count n - bit_count d;
               k = (if pow_le 2 k0 n d then k0 else k0 - 1);
               e = max emin (k - int p + 1);
               m = scale_round 2 e n d;
               (m', e') = (if m = 2 ^ p then (2 ^ (p - 1), e + 1) else (m, e))
           in if emax < e' then DInf s else DFin s m' e')"

definition dbl_round :: "bool \<Rightarrow> int \<Rightarrow> int \<Rightarrow> double" where
  "dbl_round = fp_round 53 (- 1074) 971"

definition flt_round :: "bool \<Rightarrow> int \<Rightarrow> int \<Rightarrow> double" where
  "flt_round = fp_round 24 (- 149) 104"

text \<open>\<^verbatim>\<open>static_cast<double>\<close> of an integer.\<close>

definition dbl_of_int :: "int \<Rightarrow> double" where
  "dbl_of_int x = dbl_round (x < 0) \<bar>x\<bar> 1"

section \<open>Arithmetic and comparison\<close>

text \<open>The signed mantissa at a smaller exponent \<open>e0\<close>.\<close>

definition at_exp :: "int \<Rightarrow> bool \<Rightarrow> int \<Rightarrow> int \<Rightarrow> int" where
  "at_exp e0 s m e = (if s then - 1 else 1) * m * 2 ^ nat (e - e0)"

fun dbl_less :: "double \<Rightarrow> double \<Rightarrow> bool" where
  "dbl_less DNaN _ = False"
| "dbl_less _ DNaN = False"
| "dbl_less (DInf s) (DInf t) = (s \<and> \<not> t)"
| "dbl_less (DInf s) (DFin _ _ _) = s"
| "dbl_less (DFin _ _ _) (DInf t) = (\<not> t)"
| "dbl_less (DFin s m e) (DFin t n f) =
     (at_exp (min e f) s m e < at_exp (min e f) t n f)"

fun dbl_eq :: "double \<Rightarrow> double \<Rightarrow> bool" where
  "dbl_eq DNaN _ = False"
| "dbl_eq _ DNaN = False"
| "dbl_eq (DInf s) (DInf t) = (s = t)"
| "dbl_eq (DInf s) (DFin _ _ _) = False"
| "dbl_eq (DFin _ _ _) (DInf t) = False"
| "dbl_eq (DFin s m e) (DFin t n f) =
     (at_exp (min e f) s m e = at_exp (min e f) t n f)"

definition dbl_le :: "double \<Rightarrow> double \<Rightarrow> bool" where
  "dbl_le x y \<longleftrightarrow> dbl_less x y \<or> dbl_eq x y"

fun dbl_add :: "double \<Rightarrow> double \<Rightarrow> double" where
  "dbl_add (DFin s m e) (DFin t n f) =
     (let e0 = min (min e f) 0; z = at_exp e0 s m e + at_exp e0 t n f
      in dbl_round (z < 0) \<bar>z\<bar> (2 ^ nat (- e0)))"
| "dbl_add (DInf s) (DInf t) = (if s = t then DInf s else DNaN)"
| "dbl_add (DInf s) (DFin _ _ _) = DInf s"
| "dbl_add (DFin _ _ _) (DInf t) = DInf t"
| "dbl_add _ _ = DNaN"

text \<open>Multiplication by 2.0.\<close>

fun dbl_twice :: "double \<Rightarrow> double" where
  "dbl_twice (DFin s m e) = (if m = 0 then DFin s 0 0 else if 971 < e + 1 then DInf s else DFin s m (e + 1))"
| "dbl_twice x = x"

text \<open>Conversion to an integer truncates towards zero (only used within the target's range).\<close>

fun dbl_trunc :: "double \<Rightarrow> int" where
  "dbl_trunc (DFin s m e) =
     (let q = (if 0 \<le> e then m * 2 ^ nat e else m div 2 ^ nat (- e))
      in if s then - q else q)"
| "dbl_trunc _ = 0"

text \<open>Whether \<^verbatim>\<open>modf\<close> leaves no fractional part; it is 0 for an infinity and NaN for a NaN.\<close>

fun dbl_is_integral :: "double \<Rightarrow> bool" where
  "dbl_is_integral (DFin s m e) = (0 \<le> e \<or> 2 ^ nat (- e) dvd m)"
| "dbl_is_integral (DInf _) = True"
| "dbl_is_integral DNaN = False"

fun dbl_is_zero :: "double \<Rightarrow> bool" where
  "dbl_is_zero (DFin s m e) = (m = 0)"
| "dbl_is_zero _ = False"

fun dbl_is_finite :: "double \<Rightarrow> bool" where
  "dbl_is_finite (DFin s m e) = True"
| "dbl_is_finite _ = False"

section \<open>Extraction from text\<close>

text \<open>
  \<^verbatim>\<open>is >> value\<close> for a \<^verbatim>\<open>double\<close>: the longest prefix of the form
  \<^verbatim>\<open>[sign] digits [. digits] [e [sign] digits]\<close> is converted; without a mantissa digit, with an
  exponent mark that has no digit, or on overflow the extraction fails.
\<close>

definition take_digits :: "string \<Rightarrow> string \<times> string" where
  "take_digits cs = (takeWhile is_digit cs, dropWhile is_digit cs)"

definition take_sign :: "string \<Rightarrow> bool \<times> string" where
  "take_sign cs = (case cs of c # r \<Rightarrow> if c = CHR ''-'' then (True, r) else if c = CHR ''+'' then (False, r)
                                     else (False, cs) | [] \<Rightarrow> (False, []))"

definition dbl_of_decimal :: "bool \<Rightarrow> int \<Rightarrow> int \<Rightarrow> double" where
  "dbl_of_decimal s n k =
     (if 0 \<le> k then dbl_round s (n * 10 ^ nat k) 1 else dbl_round s n (10 ^ nat (- k)))"

definition istream_double :: "string \<Rightarrow> double option" where
  "istream_double txt =
     (let (neg, r0) = take_sign txt;
          (ip, r1) = take_digits r0;
          (fp, r2) = (case r1 of c # r \<Rightarrow> if c = CHR ''.'' then take_digits r else ([], r1) | [] \<Rightarrow> ([], []));
          ex = (case r2 of c # r \<Rightarrow>
                   if c = CHR ''e'' \<or> c = CHR ''E''
                   then (let (eneg, r3) = take_sign r; (ep, _) = take_digits r3
                         in if ep = [] then None
                            else Some (if eneg then - dec_value 0 ep else dec_value 0 ep))
                   else Some 0
                 | [] \<Rightarrow> Some 0)
      in if ip @ fp = [] then None
         else case ex of None \<Rightarrow> None
         | Some k \<Rightarrow>
             (let v = dbl_of_decimal neg (dec_value 0 (ip @ fp)) (k - int (length fp))
              in if dbl_is_finite v then Some v else None))"

section \<open>Formatting\<close>

definition pad_left :: "nat \<Rightarrow> string \<Rightarrow> string" where
  "pad_left w s = replicate (w - length s) CHR ''0'' @ s"

definition strip_zeros :: "string \<Rightarrow> string" where
  "strip_zeros s = rev (dropWhile (\<lambda>c. c = CHR ''0'') (rev s))"

definition exp_string :: "int \<Rightarrow> string" where
  "exp_string x = (if x < 0 then ''e-'' else ''e+'') @ pad_left 2 (dec_string \<bar>x\<bar>)"

definition with_point :: "string \<Rightarrow> string \<Rightarrow> string" where
  "with_point ip fp = (if fp = [] then ip else ip @ ''.'' @ fp)"

text \<open>\<open>(numerator, denominator)\<close> of a finite magnitude.\<close>

definition frac_of :: "int \<Rightarrow> int \<Rightarrow> int \<times> int" where
  "frac_of m e = (if 0 \<le> e then (m * 2 ^ nat e, 1) else (m, 2 ^ nat (- e)))"

text \<open>\<^verbatim>\<open>%.<P>g\<close> of a finite number, for a precision of at least one digit.\<close>

definition fmt_g :: "nat \<Rightarrow> bool \<Rightarrow> int \<Rightarrow> int \<Rightarrow> string" where
  "fmt_g prec s m e =
     (let P = (if prec = 0 then 1 else prec) in
      (if s then ''-'' else []) @
      (if m = 0 then ''0''
       else let (n, d) = frac_of m e;
                k0 = int (length (dec_string n)) - int (length (dec_string d));
                k = (if pow_le 10 k0 n d then k0 else k0 - 1);
                D = scale_round 10 (k - int P + 1) n d;
                (D', X) = (if D = 10 ^ P then (10 ^ (P - 1), k + 1) else (D, k));
                ds = pad_left P (dec_string D')
            in if - 4 \<le> X \<and> X < int P
               then (if 0 \<le> X
                     then with_point (take (Suc (nat X)) ds) (strip_zeros (drop (Suc (nat X)) ds))
                     else with_point ''0'' (strip_zeros (replicate (nat (- X) - 1) CHR ''0'' @ ds)))
               else with_point (take 1 ds) (strip_zeros (drop 1 ds)) @ exp_string X))"

text \<open>\<^verbatim>\<open>%.<P>f\<close> of a finite number.\<close>

definition fmt_f :: "nat \<Rightarrow> bool \<Rightarrow> int \<Rightarrow> int \<Rightarrow> string" where
  "fmt_f P s m e =
     (let (n, d) = frac_of m e; ds = pad_left (Suc P) (dec_string (round_div (n * 10 ^ P) d))
      in (if s then ''-'' else []) @
         with_point (take (length ds - P) ds) (drop (length ds - P) ds))"

section \<open>Facts\<close>

lemma dec_string_nonempty [simp]: "dec_string n \<noteq> []"
  by (subst dec_string.simps) simp

lemma dec_value_append: "dec_value acc (xs @ ys) = dec_value (dec_value acc xs) ys"
  by (induction acc xs rule: dec_value.induct) simp_all

lemma digit_char [simp]:
  "n < 10 \<Longrightarrow> is_digit (char_of (48 + n))"
  "n < 10 \<Longrightarrow> of_char (char_of (48 + n)) = (48 + int n)"
proof -
  assume n: "n < 10"
  then have "48 + n < 256" by simp
  then have b: "byte (char_of (48 + n)) = 48 + n" by (rule byte_char_of)
  then show "is_digit (char_of (48 + n))" using n by (simp add: is_digit_def del: of_char_of)
  have "of_char (char_of (48 + n)) = int (byte (char_of (48 + n)))"
    by (simp only: of_nat_of_char)
  then show "of_char (char_of (48 + n)) = (48 + int n)" using b by simp
qed

lemma dec_string_digits: "list_all is_digit (dec_string n)"
proof (induction n rule: dec_string.induct)
  case (1 n)
  have "nat n < 10 \<longleftrightarrow> n < 10" "nat (n mod 10) < 10" by auto
  with 1 show ?case by (subst dec_string.simps) simp
qed

lemma dec_value_dec_string:
  "0 \<le> n \<Longrightarrow> dec_value acc (dec_string n) = acc * 10 ^ length (dec_string n) + n"
proof (induction n arbitrary: acc rule: dec_string.induct)
  case (1 n)
  have d: "nat (n mod 10) < 10" by simp
  show ?case
  proof (cases "n < 10")
    case True
    with "1.prems" show ?thesis by (subst (1 2) dec_string.simps) simp
  next
    case False
    with 1 d show ?thesis
      by (subst (1 2) dec_string.simps) (simp add: dec_value_append algebra_simps)
  qed
qed

lemma dec_value_of_dec_string [simp]: "0 \<le> n \<Longrightarrow> dec_value 0 (dec_string n) = n"
  by (simp add: dec_value_dec_string)

end
