(* ===== verification/Json_Value.thy ===== *)
theory Json_Value
  imports Std_Map Double
begin

text \<open>
  \<^verbatim>\<open>Json::Value\<close> (\<^verbatim>\<open>jsoncpp/src/json_value.cpp\<close>, \<^verbatim>\<open>jsoncpp/include/json/value.h\<close>). A value is a payload
  (the union \<^verbatim>\<open>value_\<close> with its type tag), the comments and the offsets of the text it was read
  from. Arrays are sparse maps from indices, objects maps from byte strings, both in the order of
  \<^verbatim>\<open>std::map\<close>. A member function that returns a reference into the container and creates the
  member on the way is a function that returns the container after that creation together with the
  member; an assignment through the reference is the corresponding \<open>assign_\<close> function. A failed
  \<^verbatim>\<open>JSON_ASSERT\<close> or \<^verbatim>\<open>JSON_FAIL_MESSAGE\<close> is the \<^verbatim>\<open>Json::LogicError\<close> it throws.
  Strings are shorter than the 1 GB at which \<^verbatim>\<open>CZString\<close>'s length field ends, and memory is not
  exhausted; ownership (\<^verbatim>\<open>allocated_\<close>, duplication policies) is the subject of \<open>Value_Memory\<close>, whose theorems show that
  under these assumptions values in memory behave as the values here.
\<close>

datatype value_type = nullValue | intValue | uintValue | realValue | stringValue | booleanValue
  | arrayValue | objectValue

datatype comment_placement = commentBefore | commentAfterOnSameLine | commentAfter

datatype comments = NoComments | Comments string string string

datatype jvalue = Value (payload: jdata) (comments_of: comments) (start_of: int) (limit_of: int)
and jdata =
    NullV
  | IntV int
  | UIntV int
  | RealV double
  | StringV string
  | BoolV bool
  | ArrayV "(nat \<times> jvalue) list"
  | ObjectV "(string \<times> jvalue) list"

section \<open>Construction\<close>

text \<open>Every constructor goes through \<^verbatim>\<open>initBasic\<close>: no comments, offsets 0.\<close>

definition initBasic :: "jdata \<Rightarrow> jvalue" where
  "initBasic d = Value d NoComments 0 0"

fun value_of_type :: "value_type \<Rightarrow> jvalue" where
  "value_of_type nullValue = initBasic NullV"
| "value_of_type intValue = initBasic (IntV 0)"
| "value_of_type uintValue = initBasic (UIntV 0)"
| "value_of_type realValue = initBasic (RealV (DFin False 0 0))"
| "value_of_type stringValue = initBasic (StringV [])"
| "value_of_type booleanValue = initBasic (BoolV False)"
| "value_of_type arrayValue = initBasic (ArrayV [])"
| "value_of_type objectValue = initBasic (ObjectV [])"

abbreviation nullSingleton :: jvalue where "nullSingleton \<equiv> initBasic NullV"

abbreviation value_of_int :: "int \<Rightarrow> jvalue" where "value_of_int i \<equiv> initBasic (IntV i)"
abbreviation value_of_string :: "string \<Rightarrow> jvalue" where "value_of_string s \<equiv> initBasic (StringV s)"
abbreviation value_of_bool :: "bool \<Rightarrow> jvalue" where "value_of_bool b \<equiv> initBasic (BoolV b)"

fun type_of_data :: "jdata \<Rightarrow> value_type" where
  "type_of_data NullV = nullValue"
| "type_of_data (IntV _) = intValue"
| "type_of_data (UIntV _) = uintValue"
| "type_of_data (RealV _) = realValue"
| "type_of_data (StringV _) = stringValue"
| "type_of_data (BoolV _) = booleanValue"
| "type_of_data (ArrayV _) = arrayValue"
| "type_of_data (ObjectV _) = objectValue"

definition type_of :: "jvalue \<Rightarrow> value_type" where
  "type_of v = type_of_data (payload v)"

fun type_rank :: "value_type \<Rightarrow> nat" where
  "type_rank nullValue = 0"
| "type_rank intValue = 1"
| "type_rank uintValue = 2"
| "type_rank realValue = 3"
| "type_rank stringValue = 4"
| "type_rank booleanValue = 5"
| "type_rank arrayValue = 6"
| "type_rank objectValue = 7"

definition set_payload :: "jdata \<Rightarrow> jvalue \<Rightarrow> jvalue" where
  "set_payload d v = Value d (comments_of v) (start_of v) (limit_of v)"

text \<open>\<^verbatim>\<open>swapPayload\<close>, \<^verbatim>\<open>swap\<close> and \<^verbatim>\<open>copyPayload\<close>: payloads are exchanged or copied without the metadata.\<close>

definition swapPayload :: "jvalue \<Rightarrow> jvalue \<Rightarrow> jvalue \<times> jvalue" where
  "swapPayload v w = (set_payload (payload w) v, set_payload (payload v) w)"

definition swap_value :: "jvalue \<Rightarrow> jvalue \<Rightarrow> jvalue \<times> jvalue" where
  "swap_value v w =
     (let (v', w') = swapPayload v w in
      (Value (payload v') (comments_of w) (start_of w) (limit_of w),
       Value (payload w') (comments_of v) (start_of v) (limit_of v)))"

definition copyPayload :: "jvalue \<Rightarrow> jvalue \<Rightarrow> jvalue" where
  "copyPayload v other = set_payload (payload other) v"

definition dupMeta :: "jvalue \<Rightarrow> jvalue \<Rightarrow> jvalue" where
  "dupMeta v other = Value (payload v) (comments_of other) (start_of other) (limit_of other)"

definition copy_value :: "jvalue \<Rightarrow> jvalue \<Rightarrow> jvalue" where
  "copy_value v other = dupMeta (copyPayload v other) other"

definition setOffsetStart :: "int \<Rightarrow> jvalue \<Rightarrow> jvalue" where
  "setOffsetStart s v = Value (payload v) (comments_of v) s (limit_of v)"

definition setOffsetLimit :: "int \<Rightarrow> jvalue \<Rightarrow> jvalue" where
  "setOffsetLimit l v = Value (payload v) (comments_of v) (start_of v) l"

section \<open>Type tests\<close>

definition isNull :: "jvalue \<Rightarrow> bool" where "isNull v \<longleftrightarrow> type_of v = nullValue"
definition isBool :: "jvalue \<Rightarrow> bool" where "isBool v \<longleftrightarrow> type_of v = booleanValue"
definition isString :: "jvalue \<Rightarrow> bool" where "isString v \<longleftrightarrow> type_of v = stringValue"
definition isArray :: "jvalue \<Rightarrow> bool" where "isArray v \<longleftrightarrow> type_of v = arrayValue"
definition isObject :: "jvalue \<Rightarrow> bool" where "isObject v \<longleftrightarrow> type_of v = objectValue"

definition isDouble :: "jvalue \<Rightarrow> bool" where
  "isDouble v \<longleftrightarrow> type_of v = intValue \<or> type_of v = uintValue \<or> type_of v = realValue"

definition isNumeric :: "jvalue \<Rightarrow> bool" where "isNumeric v = isDouble v"

text \<open>Comparing a \<^verbatim>\<open>double\<close> with an integer limit converts the limit first.\<close>

definition isInt :: "jvalue \<Rightarrow> bool" where
  "isInt v = (case payload v of
       IntV i \<Rightarrow> INT_MIN \<le> i \<and> i \<le> INT_MAX
     | UIntV u \<Rightarrow> u \<le> INT_MAX
     | RealV d \<Rightarrow> dbl_le (dbl_of_int INT_MIN) d \<and> dbl_le d (dbl_of_int INT_MAX) \<and> dbl_is_integral d
     | _ \<Rightarrow> False)"

definition isUInt :: "jvalue \<Rightarrow> bool" where
  "isUInt v = (case payload v of
       IntV i \<Rightarrow> 0 \<le> i \<and> i \<le> UINT_MAX
     | UIntV u \<Rightarrow> u \<le> UINT_MAX
     | RealV d \<Rightarrow> dbl_le (dbl_of_int 0) d \<and> dbl_le d (dbl_of_int UINT_MAX) \<and> dbl_is_integral d
     | _ \<Rightarrow> False)"

definition isInt64 :: "jvalue \<Rightarrow> bool" where
  "isInt64 v = (case payload v of
       IntV i \<Rightarrow> True
     | UIntV u \<Rightarrow> u \<le> INT64_MAX
     | RealV d \<Rightarrow> dbl_le (dbl_of_int INT64_MIN) d \<and> dbl_less d (dbl_of_int INT64_MAX) \<and> dbl_is_integral d
     | _ \<Rightarrow> False)"

text \<open>\<^verbatim>\<open>18446744073709551615.0\<close>, rounded to 2^64.\<close>

definition maxUInt64AsDouble :: double where
  "maxUInt64AsDouble = dbl_of_int UINT64_MAX"

definition isUInt64 :: "jvalue \<Rightarrow> bool" where
  "isUInt64 v = (case payload v of
       IntV i \<Rightarrow> 0 \<le> i
     | UIntV u \<Rightarrow> True
     | RealV d \<Rightarrow> dbl_le (dbl_of_int 0) d \<and> dbl_less d maxUInt64AsDouble \<and> dbl_is_integral d
     | _ \<Rightarrow> False)"

definition isIntegral :: "jvalue \<Rightarrow> bool" where
  "isIntegral v = (case payload v of
       IntV i \<Rightarrow> True
     | UIntV u \<Rightarrow> True
     | RealV d \<Rightarrow> dbl_le (dbl_of_int INT64_MIN) d \<and> dbl_less d maxUInt64AsDouble \<and> dbl_is_integral d
     | _ \<Rightarrow> False)"

section \<open>Conversions\<close>

text \<open>
  \<^verbatim>\<open>integerToDouble(UInt64)\<close>, the variant gcc and clang builds select: the halves are converted
  separately.
\<close>

definition integerToDouble_u64 :: "int \<Rightarrow> double" where
  "integerToDouble_u64 u = dbl_add (dbl_twice (dbl_of_int (u div 2))) (dbl_of_int (u mod 2))"

definition InRange :: "double \<Rightarrow> double \<Rightarrow> double \<Rightarrow> bool" where
  "InRange d mn mx \<longleftrightarrow> dbl_le mn d \<and> dbl_le d mx"

text \<open>\<^verbatim>\<open>uintToString\<close> of \<^verbatim>\<open>json_tool.h\<close>, the digits written backwards into a buffer.\<close>

function uintToString_loop :: "int \<Rightarrow> string \<Rightarrow> string" where
  "uintToString_loop value buf =
     (let buf' = char_of (48 + nat (value mod 10)) # buf; value' = value div 10
      in if value' \<le> 0 then buf' else uintToString_loop value' buf')"
  by pat_completeness auto
termination
  by (relation "measure (\<lambda>(v, b). nat v)") auto

declare uintToString_loop.simps [simp del]

definition uintToString :: "int \<Rightarrow> string" where
  "uintToString value = uintToString_loop value []"

definition valueToString_int :: "int \<Rightarrow> string" where
  "valueToString_int value =
     (if value = INT64_MIN then CHR ''-'' # uintToString (INT64_MAX + 1)
      else if value < 0 then CHR ''-'' # uintToString (u64 (- value))
      else uintToString (u64 value))"

definition valueToString_uint :: "int \<Rightarrow> string" where
  "valueToString_uint value = uintToString value"

datatype precision_type = significantDigits | decimalPlaces

text \<open>\<^verbatim>\<open>fixZerosInTheEnd\<close>, on the text read from its end.\<close>

fun fixZeros_rev :: "nat \<Rightarrow> string \<Rightarrow> string" where
  "fixZeros_rev precision [] = []"
| "fixZeros_rev precision (c # r) =
     (if c \<noteq> CHR ''0'' then c # r
      else case r of
             d # e # r' \<Rightarrow> if d = CHR ''.'' then (if precision \<noteq> 0 then c # r else e # r')
                          else fixZeros_rev precision r
           | _ \<Rightarrow> fixZeros_rev precision r)"

definition fixZerosInTheEnd :: "nat \<Rightarrow> string \<Rightarrow> string" where
  "fixZerosInTheEnd precision s = rev (fixZeros_rev precision (rev s))"

definition fixNumericLocale :: "string \<Rightarrow> string" where
  "fixNumericLocale s = map (\<lambda>c. if c = CHR '','' then CHR ''.'' else c) s"

fun valueToString_double :: "double \<Rightarrow> bool \<Rightarrow> nat \<Rightarrow> precision_type \<Rightarrow> string" where
  "valueToString_double DNaN useSpecialFloats _ _ = (if useSpecialFloats then ''NaN'' else ''null'')"
| "valueToString_double (DInf neg) useSpecialFloats _ _ =
     (if useSpecialFloats then (if neg then ''-Infinity'' else ''Infinity'')
      else (if neg then ''-1e+9999'' else ''1e+9999''))"
| "valueToString_double (DFin s m e) _ precision pt =
     (let buffer = fixNumericLocale
            (case pt of significantDigits \<Rightarrow> fmt_g precision s m e | decimalPlaces \<Rightarrow> fmt_f precision s m e);
          buffer' = (if CHR ''.'' \<notin> set buffer \<and> CHR ''e'' \<notin> set buffer then buffer @ ''.0'' else buffer)
      in case pt of significantDigits \<Rightarrow> buffer' | decimalPlaces \<Rightarrow> fixZerosInTheEnd precision buffer')"

definition valueToString_bool :: "bool \<Rightarrow> string" where
  "valueToString_bool b = (if b then ''true'' else ''false'')"

definition asString :: "jvalue \<Rightarrow> string res" where
  "asString v = (case payload v of
       NullV \<Rightarrow> Inr []
     | StringV s \<Rightarrow> Inr s
     | BoolV b \<Rightarrow> Inr (if b then ''true'' else ''false'')
     | IntV i \<Rightarrow> Inr (valueToString_int i)
     | UIntV u \<Rightarrow> Inr (valueToString_uint u)
     | RealV d \<Rightarrow> Inr (valueToString_double d False 17 significantDigits)
     | _ \<Rightarrow> Inl (LogicError ''Type is not convertible to string''))"

definition asInt :: "jvalue \<Rightarrow> int res" where
  "asInt v = (case payload v of
       IntV i \<Rightarrow> if isInt v then Inr (s32 i) else Inl (LogicError ''LargestInt out of Int range'')
     | UIntV u \<Rightarrow> if isInt v then Inr (s32 u) else Inl (LogicError ''LargestUInt out of Int range'')
     | RealV d \<Rightarrow> if InRange d (dbl_of_int INT_MIN) (dbl_of_int INT_MAX) then Inr (dbl_trunc d)
                 else Inl (LogicError ''double out of Int range'')
     | NullV \<Rightarrow> Inr 0
     | BoolV b \<Rightarrow> Inr (if b then 1 else 0)
     | _ \<Rightarrow> Inl (LogicError ''Value is not convertible to Int.''))"

definition asUInt :: "jvalue \<Rightarrow> int res" where
  "asUInt v = (case payload v of
       IntV i \<Rightarrow> if isUInt v then Inr (u32 i) else Inl (LogicError ''LargestInt out of UInt range'')
     | UIntV u \<Rightarrow> if isUInt v then Inr (u32 u) else Inl (LogicError ''LargestUInt out of UInt range'')
     | RealV d \<Rightarrow> if InRange d (dbl_of_int 0) (dbl_of_int UINT_MAX) then Inr (dbl_trunc d)
                 else Inl (LogicError ''double out of UInt range'')
     | NullV \<Rightarrow> Inr 0
     | BoolV b \<Rightarrow> Inr (if b then 1 else 0)
     | _ \<Rightarrow> Inl (LogicError ''Value is not convertible to UInt.''))"

text \<open>
  A real of exactly 2^63 (2^64) passes the range test, because the limit is rounded up; the
  conversion that follows is then undefined in C++. The model wraps it.
\<close>

definition asInt64 :: "jvalue \<Rightarrow> int res" where
  "asInt64 v = (case payload v of
       IntV i \<Rightarrow> Inr i
     | UIntV u \<Rightarrow> if isInt64 v then Inr (s64 u) else Inl (LogicError ''LargestUInt out of Int64 range'')
     | RealV d \<Rightarrow> if InRange d (dbl_of_int INT64_MIN) (dbl_of_int INT64_MAX) then Inr (s64 (dbl_trunc d))
                 else Inl (LogicError ''double out of Int64 range'')
     | NullV \<Rightarrow> Inr 0
     | BoolV b \<Rightarrow> Inr (if b then 1 else 0)
     | _ \<Rightarrow> Inl (LogicError ''Value is not convertible to Int64.''))"

definition asUInt64 :: "jvalue \<Rightarrow> int res" where
  "asUInt64 v = (case payload v of
       IntV i \<Rightarrow> if isUInt64 v then Inr (u64 i) else Inl (LogicError ''LargestInt out of UInt64 range'')
     | UIntV u \<Rightarrow> Inr u
     | RealV d \<Rightarrow> if InRange d (dbl_of_int 0) (integerToDouble_u64 UINT64_MAX) then Inr (u64 (dbl_trunc d))
                 else Inl (LogicError ''double out of UInt64 range'')
     | NullV \<Rightarrow> Inr 0
     | BoolV b \<Rightarrow> Inr (if b then 1 else 0)
     | _ \<Rightarrow> Inl (LogicError ''Value is not convertible to UInt64.''))"

definition asLargestInt :: "jvalue \<Rightarrow> int res" where "asLargestInt v = asInt64 v"
definition asLargestUInt :: "jvalue \<Rightarrow> int res" where "asLargestUInt v = asUInt64 v"

definition asDouble :: "jvalue \<Rightarrow> double res" where
  "asDouble v = (case payload v of
       IntV i \<Rightarrow> Inr (dbl_of_int i)
     | UIntV u \<Rightarrow> Inr (integerToDouble_u64 u)
     | RealV d \<Rightarrow> Inr d
     | NullV \<Rightarrow> Inr (DFin False 0 0)
     | BoolV b \<Rightarrow> Inr (if b then dbl_of_int 1 else DFin False 0 0)
     | _ \<Rightarrow> Inl (LogicError ''Value is not convertible to double.''))"

fun float_of_double :: "double \<Rightarrow> double" where
  "float_of_double (DFin s m e) = (let (n, d) = frac_of m e in flt_round s n d)"
| "float_of_double x = x"

definition asFloat :: "jvalue \<Rightarrow> double res" where
  "asFloat v = (case payload v of
       IntV i \<Rightarrow> Inr (flt_round (i < 0) \<bar>i\<bar> 1)
     | UIntV u \<Rightarrow> Inr (float_of_double (integerToDouble_u64 u))
     | RealV d \<Rightarrow> Inr (float_of_double d)
     | NullV \<Rightarrow> Inr (DFin False 0 0)
     | BoolV b \<Rightarrow> Inr (if b then flt_round False 1 1 else DFin False 0 0)
     | _ \<Rightarrow> Inl (LogicError ''Value is not convertible to float.''))"

definition asBool :: "jvalue \<Rightarrow> bool res" where
  "asBool v = (case payload v of
       BoolV b \<Rightarrow> Inr b
     | NullV \<Rightarrow> Inr False
     | IntV i \<Rightarrow> Inr (i \<noteq> 0)
     | UIntV u \<Rightarrow> Inr (u \<noteq> 0)
     | RealV d \<Rightarrow> Inr (\<not> dbl_is_zero d \<and> d \<noteq> DNaN)
     | _ \<Rightarrow> Inl (LogicError ''Value is not convertible to bool.''))"

definition isConvertibleTo :: "jvalue \<Rightarrow> value_type \<Rightarrow> bool" where
  "isConvertibleTo v other = (case other of
       nullValue \<Rightarrow>
         (case payload v of
            IntV i \<Rightarrow> dbl_eq (dbl_of_int i) (DFin False 0 0)
          | UIntV u \<Rightarrow> dbl_eq (integerToDouble_u64 u) (DFin False 0 0)
          | RealV d \<Rightarrow> dbl_eq d (DFin False 0 0)
          | BoolV b \<Rightarrow> \<not> b
          | StringV s \<Rightarrow> s = []
          | ArrayV m \<Rightarrow> m = []
          | ObjectV m \<Rightarrow> m = []
          | NullV \<Rightarrow> True)
     | intValue \<Rightarrow> isInt v \<or>
         (case payload v of RealV d \<Rightarrow> InRange d (dbl_of_int INT_MIN) (dbl_of_int INT_MAX) | _ \<Rightarrow> False) \<or>
         type_of v = booleanValue \<or> type_of v = nullValue
     | uintValue \<Rightarrow> isUInt v \<or>
         (case payload v of RealV d \<Rightarrow> InRange d (dbl_of_int 0) (dbl_of_int UINT_MAX) | _ \<Rightarrow> False) \<or>
         type_of v = booleanValue \<or> type_of v = nullValue
     | realValue \<Rightarrow> isNumeric v \<or> type_of v = booleanValue \<or> type_of v = nullValue
     | booleanValue \<Rightarrow> isNumeric v \<or> type_of v = booleanValue \<or> type_of v = nullValue
     | stringValue \<Rightarrow> isNumeric v \<or> type_of v = booleanValue \<or> type_of v = stringValue \<or> type_of v = nullValue
     | arrayValue \<Rightarrow> type_of v = arrayValue \<or> type_of v = nullValue
     | objectValue \<Rightarrow> type_of v = objectValue \<or> type_of v = nullValue)"

end
