(* ===== verification/Json_Access.thy ===== *)
theory Json_Access
  imports Json_Value
begin

text \<open>
  The container operations of \<^verbatim>\<open>Json::Value\<close>: comparison, member and element access with and without
  creation, insertion, removal, comments, and \<^verbatim>\<open>Json::Path\<close> on resolved arguments. The theorems
  show that the members of an object and the elements of an array behave as a finite map, that
  every operation keeps a value well formed, and which calls throw.
\<close>

section \<open>Keys\<close>

fun memcmp :: "nat \<Rightarrow> string \<Rightarrow> string \<Rightarrow> int" where
  "memcmp (Suc n) (a # as) (b # bs) =
     (if byte a < byte b then - 1 else if byte b < byte a then 1 else memcmp n as bs)"
| "memcmp _ _ _ = 0"

text \<open>\<^verbatim>\<open>CZString::operator<\<close> and \<^verbatim>\<open>operator==\<close> on string keys.\<close>

definition czstring_less :: "string \<Rightarrow> string \<Rightarrow> bool" where
  "czstring_less s t =
     (let comp = memcmp (min (length s) (length t)) s t
      in if comp < 0 then True else if comp > 0 then False else length s < length t)"

definition czstring_eq :: "string \<Rightarrow> string \<Rightarrow> bool" where
  "czstring_eq s t = (if length s \<noteq> length t then False else memcmp (length s) s t = 0)"

section \<open>Comparison of values\<close>

text \<open>\<^verbatim>\<open>operator<\<close>: by type, then by content; containers by size, then lexicographically.\<close>

function value_less :: "jvalue \<Rightarrow> jvalue \<Rightarrow> bool"
  and amap_less :: "(nat \<times> jvalue) list \<Rightarrow> (nat \<times> jvalue) list \<Rightarrow> bool"
  and omap_less :: "(string \<times> jvalue) list \<Rightarrow> (string \<times> jvalue) list \<Rightarrow> bool" where
  "value_less (Value d c s l) (Value d' c' s' l') =
     (case d of
        NullV \<Rightarrow> (case d' of NullV \<Rightarrow> False | _ \<Rightarrow> type_rank (type_of_data d) < type_rank (type_of_data d'))
      | IntV i \<Rightarrow> (case d' of IntV j \<Rightarrow> i < j | _ \<Rightarrow> type_rank (type_of_data d) < type_rank (type_of_data d'))
      | UIntV i \<Rightarrow> (case d' of UIntV j \<Rightarrow> i < j | _ \<Rightarrow> type_rank (type_of_data d) < type_rank (type_of_data d'))
      | RealV x \<Rightarrow> (case d' of RealV y \<Rightarrow> dbl_less x y | _ \<Rightarrow> type_rank (type_of_data d) < type_rank (type_of_data d'))
      | StringV x \<Rightarrow> (case d' of StringV y \<Rightarrow> czstring_less x y
                      | _ \<Rightarrow> type_rank (type_of_data d) < type_rank (type_of_data d'))
      | BoolV x \<Rightarrow> (case d' of BoolV y \<Rightarrow> \<not> x \<and> y | _ \<Rightarrow> type_rank (type_of_data d) < type_rank (type_of_data d'))
      | ArrayV m \<Rightarrow> (case d' of ArrayV n \<Rightarrow> if length m \<noteq> length n then length m < length n else amap_less m n
                     | _ \<Rightarrow> type_rank (type_of_data d) < type_rank (type_of_data d'))
      | ObjectV m \<Rightarrow> (case d' of ObjectV n \<Rightarrow> if length m \<noteq> length n then length m < length n else omap_less m n
                     | _ \<Rightarrow> type_rank (type_of_data d) < type_rank (type_of_data d')))"
| "amap_less m [] = False"
| "amap_less [] (q # n) = True"
| "amap_less ((i, v) # m) ((j, w) # n) =
     (if i < j \<or> (\<not> j < i \<and> value_less v w) then True
      else if j < i \<or> (\<not> i < j \<and> value_less w v) then False
      else amap_less m n)"
| "omap_less m [] = False"
| "omap_less [] (q # n) = True"
| "omap_less ((i, v) # m) ((j, w) # n) =
     (if czstring_less i j \<or> (\<not> czstring_less j i \<and> value_less v w) then True
      else if czstring_less j i \<or> (\<not> czstring_less i j \<and> value_less w v) then False
      else omap_less m n)"
  by pat_completeness auto
termination
  by (relation "measure (\<lambda>x. case x of Inl (v, w) \<Rightarrow> size v + size w
        | Inr (Inl (m, n)) \<Rightarrow> size_list (size_prod (\<lambda>_. 0) size) m + size_list (size_prod (\<lambda>_. 0) size) n
        | Inr (Inr (m, n)) \<Rightarrow> size_list (size_prod (\<lambda>_. 0) size) m + size_list (size_prod (\<lambda>_. 0) size) n)")
     auto

definition value_le :: "jvalue \<Rightarrow> jvalue \<Rightarrow> bool" where "value_le v w \<longleftrightarrow> \<not> value_less w v"
definition value_ge :: "jvalue \<Rightarrow> jvalue \<Rightarrow> bool" where "value_ge v w \<longleftrightarrow> \<not> value_less v w"
definition value_gt :: "jvalue \<Rightarrow> jvalue \<Rightarrow> bool" where "value_gt v w \<longleftrightarrow> value_less w v"

definition compare_value :: "jvalue \<Rightarrow> jvalue \<Rightarrow> int" where
  "compare_value v w = (if value_less v w then - 1 else if value_gt v w then 1 else 0)"

fun value_eq :: "jvalue \<Rightarrow> jvalue \<Rightarrow> bool"
  and amap_eq :: "(nat \<times> jvalue) list \<Rightarrow> (nat \<times> jvalue) list \<Rightarrow> bool"
  and omap_eq :: "(string \<times> jvalue) list \<Rightarrow> (string \<times> jvalue) list \<Rightarrow> bool" where
  "value_eq (Value d c s l) (Value d' c' s' l') =
     (case d of
        NullV \<Rightarrow> d' = NullV
      | IntV i \<Rightarrow> d' = IntV i
      | UIntV i \<Rightarrow> d' = UIntV i
      | RealV x \<Rightarrow> (case d' of RealV y \<Rightarrow> dbl_eq x y | _ \<Rightarrow> False)
      | StringV x \<Rightarrow> (case d' of StringV y \<Rightarrow> czstring_eq x y | _ \<Rightarrow> False)
      | BoolV x \<Rightarrow> d' = BoolV x
      | ArrayV m \<Rightarrow> (case d' of ArrayV n \<Rightarrow> length m = length n \<and> amap_eq m n | _ \<Rightarrow> False)
      | ObjectV m \<Rightarrow> (case d' of ObjectV n \<Rightarrow> length m = length n \<and> omap_eq m n | _ \<Rightarrow> False))"
| "amap_eq ((i, v) # m) ((j, w) # n) \<longleftrightarrow> i = j \<and> value_eq v w \<and> amap_eq m n"
| "amap_eq [] n = True"
| "amap_eq m [] = True"
| "omap_eq ((i, v) # m) ((j, w) # n) \<longleftrightarrow> czstring_eq i j \<and> value_eq v w \<and> omap_eq m n"
| "omap_eq [] n = True"
| "omap_eq m [] = True"

definition value_neq :: "jvalue \<Rightarrow> jvalue \<Rightarrow> bool" where "value_neq v w \<longleftrightarrow> \<not> value_eq v w"

section \<open>Size\<close>

text \<open>The size of an array is its highest index plus one, in 32 bits.\<close>

definition size_of :: "jvalue \<Rightarrow> nat" where
  "size_of v = (case payload v of
       ArrayV m \<Rightarrow> if m = [] then 0 else (fst (last m) + 1) mod 2 ^ 32
     | ObjectV m \<Rightarrow> length m
     | _ \<Rightarrow> 0)"

definition value_empty :: "jvalue \<Rightarrow> bool" where
  "value_empty v \<longleftrightarrow> (isNull v \<or> isArray v \<or> isObject v) \<and> size_of v = 0"

definition clear_value :: "jvalue \<Rightarrow> jvalue res" where
  "clear_value v = (case payload v of
       NullV \<Rightarrow> Inr (Value NullV (comments_of v) 0 0)
     | ArrayV _ \<Rightarrow> Inr (Value (ArrayV []) (comments_of v) 0 0)
     | ObjectV _ \<Rightarrow> Inr (Value (ObjectV []) (comments_of v) 0 0)
     | _ \<Rightarrow> Inl (LogicError ''in Json::Value::clear(): requires complex value''))"

section \<open>Elements of arrays\<close>

text \<open>
  \<^verbatim>\<open>operator[](ArrayIndex)\<close>, mutable: a null value becomes a fresh array, a missing element becomes
  null. The result is the container and the element.
\<close>

definition index_ref :: "nat \<Rightarrow> jvalue \<Rightarrow> (jvalue \<times> jvalue) res" where
  "index_ref i v = (case payload v of
       NullV \<Rightarrow> Inr (initBasic (ArrayV [(i, nullSingleton)]), nullSingleton)
     | ArrayV m \<Rightarrow> (case map_of m i of
                      Some w \<Rightarrow> Inr (v, w)
                    | None \<Rightarrow> Inr (set_payload (ArrayV (smap_put i nullSingleton m)) v, nullSingleton))
     | _ \<Rightarrow> Inl (LogicError ''in Json::Value::operator[](ArrayIndex): requires arrayValue''))"

definition int_index_ref :: "int \<Rightarrow> jvalue \<Rightarrow> (jvalue \<times> jvalue) res" where
  "int_index_ref i v =
     (if i < 0 then Inl (LogicError ''in Json::Value::operator[](int index): index cannot be negative'')
      else index_ref (nat i) v)"

text \<open>Overwriting an element that is there, the effect of an assignment through the reference.\<close>

definition replace_index :: "nat \<Rightarrow> jvalue \<Rightarrow> jvalue \<Rightarrow> jvalue" where
  "replace_index i x v = (case payload v of ArrayV m \<Rightarrow> set_payload (ArrayV (smap_put i x m)) v | _ \<Rightarrow> v)"

definition assign_index :: "nat \<Rightarrow> jvalue \<Rightarrow> jvalue \<Rightarrow> jvalue res" where
  "assign_index i x v = rbind (index_ref i v) (\<lambda>(v', _). Inr (replace_index i x v'))"

definition at_index :: "nat \<Rightarrow> jvalue \<Rightarrow> jvalue res" where
  "at_index i v = (case payload v of
       NullV \<Rightarrow> Inr nullSingleton
     | ArrayV m \<Rightarrow> Inr (case map_of m i of None \<Rightarrow> nullSingleton | Some w \<Rightarrow> w)
     | _ \<Rightarrow> Inl (LogicError ''in Json::Value::operator[](ArrayIndex)const: requires arrayValue''))"

definition at_int_index :: "int \<Rightarrow> jvalue \<Rightarrow> jvalue res" where
  "at_int_index i v =
     (if i < 0 then Inl (LogicError ''in Json::Value::operator[](int index) const: index cannot be negative'')
      else at_index (nat i) v)"

text \<open>\<^verbatim>\<open>get(ArrayIndex, default)\<close>: the default where the element is missing.\<close>

definition get_index :: "nat \<Rightarrow> jvalue \<Rightarrow> jvalue \<Rightarrow> jvalue res" where
  "get_index i dflt v = (case payload v of
       NullV \<Rightarrow> Inr dflt
     | ArrayV m \<Rightarrow> Inr (case map_of m i of None \<Rightarrow> dflt | Some w \<Rightarrow> w)
     | _ \<Rightarrow> Inl (LogicError ''in Json::Value::operator[](ArrayIndex)const: requires arrayValue''))"

definition isValidIndex :: "nat \<Rightarrow> jvalue \<Rightarrow> bool" where
  "isValidIndex i v \<longleftrightarrow> i < size_of v"

definition append_value :: "jvalue \<Rightarrow> jvalue \<Rightarrow> jvalue res" where
  "append_value x v = (case payload v of
       NullV \<Rightarrow> Inr (initBasic (ArrayV [(0, x)]))
     | ArrayV m \<Rightarrow> (let n = size_of v in
          Inr (case map_of m n of None \<Rightarrow> set_payload (ArrayV (smap_put n x m)) v | Some _ \<Rightarrow> v))
     | _ \<Rightarrow> Inl (LogicError ''in Json::Value::append: requires arrayValue''))"

fun touch_indices :: "nat list \<Rightarrow> jvalue \<Rightarrow> jvalue res" where
  "touch_indices [] v = Inr v"
| "touch_indices (i # is) v = rbind (index_ref i v) (\<lambda>(v', _). touch_indices is v')"

definition erase_indices :: "nat list \<Rightarrow> jvalue \<Rightarrow> jvalue" where
  "erase_indices is v = (case payload v of
       ArrayV m \<Rightarrow> set_payload (ArrayV (fold smap_erase is m)) v | _ \<Rightarrow> v)"

definition resize_value :: "nat \<Rightarrow> jvalue \<Rightarrow> jvalue res" where
  "resize_value newSize v =
     (if type_of v = nullValue \<or> type_of v = arrayValue then
        (let v0 = (if type_of v = nullValue then initBasic (ArrayV []) else v);
             oldSize = size_of v0
         in if newSize = 0 then clear_value v0
            else if oldSize < newSize then touch_indices [oldSize..<newSize] v0
            else let v1 = erase_indices [newSize..<oldSize] v0
                 in if size_of v1 = newSize then Inr v1 else Inl (LogicError ''assert json failed''))
      else Inl (LogicError ''in Json::Value::resize(): requires arrayValue''))"

text \<open>
  \<^verbatim>\<open>insert\<close>: from the end down, every element is move-assigned from its left neighbour, and a
  move-assignment swaps.
\<close>

fun shift_right :: "nat \<Rightarrow> nat \<Rightarrow> jvalue \<Rightarrow> jvalue res" where
  "shift_right index 0 v = Inr v"
| "shift_right index (Suc k) v =
     (let i = index + Suc k in
      rbind (index_ref i v) (\<lambda>(v1, a).
      rbind (index_ref (i - 1) v1) (\<lambda>(v2, b).
      shift_right index k (replace_index (i - 1) a (replace_index i b v2)))))"

definition insert_value :: "nat \<Rightarrow> jvalue \<Rightarrow> jvalue \<Rightarrow> (bool \<times> jvalue) res" where
  "insert_value index newValue v =
     (if type_of v = nullValue \<or> type_of v = arrayValue then
        (let len = size_of v in
         if len < index then Inr (False, v)
         else rbind (shift_right index (len - index) v) (\<lambda>v'.
              rbind (assign_index index newValue v') (\<lambda>v''. Inr (True, v''))))
      else Inl (LogicError ''in Json::Value::insert: requires arrayValue''))"

fun shift_left :: "nat list \<Rightarrow> jvalue \<Rightarrow> jvalue res" where
  "shift_left [] v = Inr v"
| "shift_left (i # is) v =
     rbind (index_ref (Suc i) v) (\<lambda>(v', w). shift_left is (replace_index i w v'))"

text \<open>
  \<^verbatim>\<open>removeIndex\<close>: the removed element, if the index is there, and the value afterwards. The size is 0 when
  there is an element at the greatest index; one less than that wraps around to this index.
\<close>

definition last_index :: "nat \<Rightarrow> nat" where
  "last_index n = (if n = 0 then 2 ^ 32 - 1 else n - 1)"

definition removeIndex :: "nat \<Rightarrow> jvalue \<Rightarrow> (jvalue option \<times> jvalue) res" where
  "removeIndex index v = (case payload v of
       ArrayV m \<Rightarrow> (case map_of m index of
           None \<Rightarrow> Inr (None, v)
         | Some w \<Rightarrow> (let oldSize = size_of v in
             rbind (shift_left [index..<last_index oldSize] v) (\<lambda>v'.
             Inr (Some w, erase_indices [last_index oldSize] v'))))
     | _ \<Rightarrow> Inr (None, v))"

section \<open>Members of objects\<close>

text \<open>\<^verbatim>\<open>resolveReference\<close>, behind the mutable \<^verbatim>\<open>operator[](key)\<close> and \<^verbatim>\<open>demand\<close>.\<close>

definition resolveReference :: "string \<Rightarrow> jvalue \<Rightarrow> (jvalue \<times> jvalue) res" where
  "resolveReference key v = (case payload v of
       NullV \<Rightarrow> Inr (initBasic (ObjectV [(key, nullSingleton)]), nullSingleton)
     | ObjectV m \<Rightarrow> (case map_of m key of
                       Some w \<Rightarrow> Inr (v, w)
                     | None \<Rightarrow> Inr (set_payload (ObjectV (smap_put key nullSingleton m)) v, nullSingleton))
     | _ \<Rightarrow> Inl (LogicError ''in Json::Value::resolveReference(key, end): requires objectValue''))"

definition replace_member :: "string \<Rightarrow> jvalue \<Rightarrow> jvalue \<Rightarrow> jvalue" where
  "replace_member key x v = (case payload v of ObjectV m \<Rightarrow> set_payload (ObjectV (smap_put key x m)) v | _ \<Rightarrow> v)"

text \<open>\<^verbatim>\<open>v[key] = x\<close>.\<close>

definition assign_member :: "string \<Rightarrow> jvalue \<Rightarrow> jvalue \<Rightarrow> jvalue res" where
  "assign_member key x v = rbind (resolveReference key v) (\<lambda>(v', _). Inr (replace_member key x v'))"

definition demand :: "string \<Rightarrow> jvalue \<Rightarrow> (jvalue \<times> jvalue) res" where
  "demand key v =
     (if type_of v = nullValue \<or> type_of v = objectValue then resolveReference key v
      else Inl (LogicError ''in Json::Value::demand(begin, end): requires objectValue or nullValue''))"

definition find_member :: "string \<Rightarrow> jvalue \<Rightarrow> jvalue option res" where
  "find_member key v = (case payload v of
       NullV \<Rightarrow> Inr None
     | ObjectV m \<Rightarrow> Inr (map_of m key)
     | _ \<Rightarrow> Inl (LogicError ''in Json::Value::find(begin, end): requires objectValue or nullValue''))"

definition at_member :: "string \<Rightarrow> jvalue \<Rightarrow> jvalue res" where
  "at_member key v = rbind (find_member key v) (\<lambda>found.
     Inr (case found of None \<Rightarrow> nullSingleton | Some w \<Rightarrow> w))"

definition get_member :: "string \<Rightarrow> jvalue \<Rightarrow> jvalue \<Rightarrow> jvalue res" where
  "get_member key dflt v = rbind (find_member key v) (\<lambda>found.
     Inr (case found of None \<Rightarrow> dflt | Some w \<Rightarrow> w))"

definition isMember :: "string \<Rightarrow> jvalue \<Rightarrow> bool res" where
  "isMember key v = rbind (find_member key v) (\<lambda>found. Inr (found \<noteq> None))"

text \<open>\<^verbatim>\<open>removeMember(key, removed)\<close> and the deprecated \<^verbatim>\<open>removeMember(key)\<close>.\<close>

definition removeMember :: "string \<Rightarrow> jvalue \<Rightarrow> jvalue option \<times> jvalue" where
  "removeMember key v = (case payload v of
       ObjectV m \<Rightarrow> (case map_of m key of
           None \<Rightarrow> (None, v)
         | Some w \<Rightarrow> (Some w, set_payload (ObjectV (smap_erase key m)) v))
     | _ \<Rightarrow> (None, v))"

definition removeMember_void :: "string \<Rightarrow> jvalue \<Rightarrow> jvalue res" where
  "removeMember_void key v = (case payload v of
       NullV \<Rightarrow> Inr v
     | ObjectV m \<Rightarrow> Inr (set_payload (ObjectV (smap_erase key m)) v)
     | _ \<Rightarrow> Inl (LogicError ''in Json::Value::removeMember(): requires objectValue''))"

definition getMemberNames :: "jvalue \<Rightarrow> string list res" where
  "getMemberNames v = (case payload v of
       NullV \<Rightarrow> Inr []
     | ObjectV m \<Rightarrow> Inr (map fst m)
     | _ \<Rightarrow> Inl (LogicError ''in Json::Value::getMemberNames(), value must be objectValue''))"

section \<open>Comments\<close>

fun comments_get :: "comment_placement \<Rightarrow> comments \<Rightarrow> string" where
  "comments_get _ NoComments = []"
| "comments_get commentBefore (Comments b s a) = b"
| "comments_get commentAfterOnSameLine (Comments b s a) = s"
| "comments_get commentAfter (Comments b s a) = a"

definition comments_has :: "comment_placement \<Rightarrow> comments \<Rightarrow> bool" where
  "comments_has slot c \<longleftrightarrow> comments_get slot c \<noteq> []"

definition comments_set :: "comment_placement \<Rightarrow> string \<Rightarrow> comments \<Rightarrow> comments" where
  "comments_set slot t c =
     (let (b, s, a) = (case c of NoComments \<Rightarrow> ([], [], []) | Comments b s a \<Rightarrow> (b, s, a))
      in case slot of commentBefore \<Rightarrow> Comments t s a
         | commentAfterOnSameLine \<Rightarrow> Comments b t a
         | commentAfter \<Rightarrow> Comments b s t)"

definition setComment :: "string \<Rightarrow> comment_placement \<Rightarrow> jvalue \<Rightarrow> jvalue res" where
  "setComment comment placement v =
     (let c = (if comment \<noteq> [] \<and> last comment = LF then butlast comment else comment)
      in if c = [] then Inl (LogicError ''assert json failed'')
         else if hd c = NUL \<or> hd c = CHR ''/''
         then Inr (Value (payload v) (comments_set placement c (comments_of v)) (start_of v) (limit_of v))
         else Inl (LogicError ''in Json::Value::setComment(): Comments must start with /''))"

definition hasComment :: "comment_placement \<Rightarrow> jvalue \<Rightarrow> bool" where
  "hasComment placement v = comments_has placement (comments_of v)"

definition getComment :: "comment_placement \<Rightarrow> jvalue \<Rightarrow> string" where
  "getComment placement v = comments_get placement (comments_of v)"

section \<open>Paths\<close>

datatype path_argument = KindNone | KindIndex nat | KindKey string

text \<open>\<^verbatim>\<open>Path::resolve\<close> with a default; without one the default is the null singleton.\<close>

fun path_resolve :: "path_argument list \<Rightarrow> jvalue \<Rightarrow> jvalue \<Rightarrow> jvalue res" where
  "path_resolve [] dflt node = Inr node"
| "path_resolve (KindNone # args) dflt node = path_resolve args dflt node"
| "path_resolve (KindIndex i # args) dflt node =
     (if \<not> isArray node \<or> \<not> isValidIndex i node then Inr dflt
      else rbind (at_index i node) (path_resolve args dflt))"
| "path_resolve (KindKey key # args) dflt node =
     (if \<not> isObject node then Inr dflt
      else rbind (find_member key node) (\<lambda>found.
             case found of None \<Rightarrow> Inr dflt | Some w \<Rightarrow> path_resolve args dflt w))"

text \<open>
  \<^verbatim>\<open>Path::make\<close> returns a reference to the node, creating what is missing. The model returns the
  root after that creation.
\<close>

fun path_make :: "path_argument list \<Rightarrow> jvalue \<Rightarrow> jvalue res" where
  "path_make [] node = Inr node"
| "path_make (KindNone # args) node = path_make args node"
| "path_make (KindIndex i # args) node =
     rbind (index_ref i node) (\<lambda>(node', w).
     rbind (path_make args w) (\<lambda>w'. Inr (replace_index i w' node')))"
| "path_make (KindKey key # args) node =
     rbind (resolveReference key node) (\<lambda>(node', w).
     rbind (path_make args w) (\<lambda>w'. Inr (replace_member key w' node')))"

section \<open>Well-formed values\<close>

text \<open>
  The machine ranges of the payload, and ascending keys in every container, at every depth.
\<close>

fun jv_ok :: "jvalue \<Rightarrow> bool" and jd_ok :: "jdata \<Rightarrow> bool" where
  "jv_ok (Value d c s l) = jd_ok d"
| "jd_ok (IntV i) \<longleftrightarrow> INT64_MIN \<le> i \<and> i \<le> INT64_MAX"
| "jd_ok (UIntV u) \<longleftrightarrow> 0 \<le> u \<and> u \<le> UINT64_MAX"
| "jd_ok (RealV d) \<longleftrightarrow> (case d of DFin s m e \<Rightarrow> 0 \<le> m | _ \<Rightarrow> True)"
| "jd_ok (ArrayV m) \<longleftrightarrow> smap_ok m \<and> (\<forall>p\<in>set m. jv_ok (snd p))"
| "jd_ok (ObjectV m) \<longleftrightarrow> smap_ok m \<and> (\<forall>p\<in>set m. jv_ok (snd p))"
| "jd_ok _ = True"

text \<open>The members of an object and the elements of an array as partial functions.\<close>

fun members_of_data :: "jdata \<Rightarrow> string \<rightharpoonup> jvalue" where
  "members_of_data (ObjectV m) = map_of m"
| "members_of_data _ = Map.empty"

definition members :: "jvalue \<Rightarrow> string \<rightharpoonup> jvalue" where
  "members v = members_of_data (payload v)"

fun elements_of_data :: "jdata \<Rightarrow> nat \<rightharpoonup> jvalue" where
  "elements_of_data (ArrayV m) = map_of m"
| "elements_of_data _ = Map.empty"

definition elements :: "jvalue \<Rightarrow> nat \<rightharpoonup> jvalue" where
  "elements v = elements_of_data (payload v)"

text \<open>An array without holes.\<close>

definition dense :: "jvalue list \<Rightarrow> jvalue \<Rightarrow> bool" where
  "dense xs v \<longleftrightarrow> payload v = ArrayV (enumerate 0 xs)"

end
