(* ===== verification/Json_Laws.thy ===== *)
theory Json_Laws
  imports Json_Access
begin

text \<open>
  The laws of \<^verbatim>\<open>Json::Value\<close>: keys are ordered as byte strings, members of objects and elements of
  arrays refine finite maps and lists, operations keep values well formed, conversions stay in
  range and throw exactly where \<^verbatim>\<open>isConvertibleTo\<close> says so, and integers survive their text.
\<close>

definition kids_ok :: "('k::linorder \<times> jvalue) list \<Rightarrow> bool" where
  "kids_ok m \<longleftrightarrow> smap_ok m \<and> (\<forall>p\<in>set m. jv_ok (snd p))"

definition object_ok :: "jvalue \<Rightarrow> bool" where
  "object_ok v \<longleftrightarrow> isObject v \<and> (case payload v of ObjectV m \<Rightarrow> smap_ok m | _ \<Rightarrow> False)"

text \<open>The text of a 64-bit integer, read back.\<close>

definition int_text_value :: "string \<Rightarrow> int" where
  "int_text_value s = (case s of c # r \<Rightarrow> if c = CHR ''-'' then - dec_value 0 r else dec_value 0 s | [] \<Rightarrow> 0)"

definition sig :: "bool \<Rightarrow> int \<Rightarrow> int" where "sig s m = (if s then - m else m)"

section \<open>Keys are ordered as byte strings\<close>

lemma memcmp_less_iff:
  "n = min (length s) (length t) \<Longrightarrow>
   s < t \<longleftrightarrow> memcmp n s t < 0 \<or> (memcmp n s t = 0 \<and> length s < length t)"
proof (induction n s t rule: memcmp.induct, goal_cases)
  case (1 n a as b bs)
  then show ?case by (auto simp: less_char_def less_le)
next
  case (2 s t)
  then show ?case by (cases s; cases t) auto
next
  case (3 n t)
  then show ?case by (cases t) auto
next
  case (4 n s)
  then show ?case by (cases s) auto
qed

lemma memcmp_zero_iff:
  "length s = length t \<Longrightarrow> memcmp (length s) s t = 0 \<longleftrightarrow> s = t"
proof (induction s t rule: list_induct2)
  case (Cons a as b bs)
  then show ?case by (auto simp: nat_neq_iff) 
qed simp

lemma memcmp_range: "memcmp n s t \<in> {- 1, 0, 1}"
  by (induction n s t rule: memcmp.induct) auto

lemma czstring_less_iff: "czstring_less s t \<longleftrightarrow> s < t"
  using memcmp_less_iff [OF refl, of s t] memcmp_range [of "min (length s) (length t)" s t]
  by (auto simp: czstring_less_def Let_def)

lemma czstring_eq_iff: "czstring_eq s t \<longleftrightarrow> s = t"
  using memcmp_zero_iff [of s t] by (auto simp: czstring_eq_def)

section \<open>Members of objects form a map\<close>

lemma payload_initBasic [simp]: "payload (initBasic d) = d"
  by (simp add: initBasic_def)

lemma payload_set_payload [simp]: "payload (set_payload d v) = d"
  by (simp add: set_payload_def)

lemma jv_ok_payload: "jv_ok v \<longleftrightarrow> jd_ok (payload v)"
  by (cases v) simp

lemma jv_ok_initBasic [simp]: "jv_ok (initBasic d) \<longleftrightarrow> jd_ok d"
  by (simp add: jv_ok_payload)

lemma jv_ok_set_payload [simp]: "jv_ok (set_payload d v) \<longleftrightarrow> jd_ok d"
  by (simp add: jv_ok_payload)

lemmas member_defs = assign_member_def resolveReference_def replace_member_def find_member_def
  at_member_def get_member_def isMember_def removeMember_def removeMember_void_def members_def
  type_of_def isNull_def isObject_def

lemma jd_ok_container [simp]: "jd_ok (ArrayV m) \<longleftrightarrow> kids_ok m" "jd_ok (ObjectV n) \<longleftrightarrow> kids_ok n"
  by (simp_all add: kids_ok_def)

declare jd_ok.simps(4,5) [simp del]

lemma kids_ok_Nil [simp]: "kids_ok []"
  by (simp add: kids_ok_def)

lemma kids_ok_single [simp]: "kids_ok [(k, x)] \<longleftrightarrow> jv_ok x"
  by (simp add: kids_ok_def)

lemma kids_ok_put: "kids_ok m \<Longrightarrow> jv_ok x \<Longrightarrow> kids_ok (smap_put k x m)"
  by (auto simp: kids_ok_def smap_ok_put set_smap_put)

lemma kids_ok_erase: "kids_ok m \<Longrightarrow> kids_ok (smap_erase k m)"
  by (auto simp: kids_ok_def smap_ok_erase set_smap_erase)

lemma kids_ok_find: "kids_ok m \<Longrightarrow> map_of m k = Some w \<Longrightarrow> jv_ok w"
  by (auto simp: kids_ok_def dest!: map_of_SomeD)

interpretation ob: ordered_map object_ok "initBasic (ObjectV [])" members replace_member
    "\<lambda>k v. snd (removeMember k v)"
  by unfold_locales
    (auto simp: object_ok_def member_defs smap_simps split: jdata.splits option.splits)

lemma null_or_object: "isNull v \<or> isObject v \<longleftrightarrow> payload v = NullV \<or> (\<exists>m. payload v = ObjectV m)"
  by (cases "payload v") (simp_all add: isNull_def isObject_def type_of_def)

lemma assign_member_ok: "jv_ok v \<Longrightarrow> jv_ok x \<Longrightarrow> assign_member k x v = Inr v' \<Longrightarrow> jv_ok v'"
  by (cases "payload v")
    (auto simp: member_defs jv_ok_payload [of v] smap_put.simps intro!: kids_ok_put
      split: option.splits if_splits)

lemma removeMember_ok: "jv_ok v \<Longrightarrow> jv_ok (snd (removeMember k v))"
  by (cases "payload v")
    (auto simp: member_defs jv_ok_payload [of v] kids_ok_erase split: option.splits)

lemma find_member_ok: "jv_ok v \<Longrightarrow> find_member k v = Inr (Some w) \<Longrightarrow> jv_ok w"
  by (cases "payload v") (auto simp: member_defs jv_ok_payload [of v] dest: kids_ok_find)

lemma assign_member_members:
  "isNull v \<or> isObject v \<Longrightarrow> \<exists>v'. assign_member k x v = Inr v' \<and> isObject v' \<and> members v' = (members v)(k \<mapsto> x)"
  unfolding null_or_object
  by (auto simp: member_defs map_of_smap_put fun_eq_iff split: option.splits)

lemma assign_member_throws:
  "\<not> (isNull v \<or> isObject v) \<Longrightarrow>
   assign_member k x v = Inl (LogicError ''in Json::Value::resolveReference(key, end): requires objectValue'')"
  by (cases "payload v") (simp_all add: member_defs)

lemma find_member_members: "isNull v \<or> isObject v \<Longrightarrow> find_member k v = Inr (members v k)"
  unfolding null_or_object by (auto simp: member_defs)

lemma isMember_members: "isNull v \<or> isObject v \<Longrightarrow> isMember k v = Inr (k \<in> dom (members v))"
  by (auto simp: isMember_def find_member_members)

lemma isMember_throws:
  "\<not> (isNull v \<or> isObject v) \<Longrightarrow> isMember k v =
   Inl (LogicError ''in Json::Value::find(begin, end): requires objectValue or nullValue'')"
  by (cases "payload v") (simp_all add: member_defs)


section \<open>Arrays without holes are lists\<close>

lemma map_of_enumerate: "map_of (enumerate n xs) i = (if n \<le> i \<and> i < n + length xs then Some (xs ! (i - n)) else None)"
proof (induction xs arbitrary: n)
  case (Cons x xs)
  then show ?case by (auto simp: nth_Cons')
qed simp

lemma smap_ok_enumerate: "smap_ok (enumerate n xs)"
  by (simp add: smap_ok_def)

lemma smap_put_enumerate_end: "smap_put (length xs) x (enumerate 0 xs) = enumerate 0 (xs @ [x])"
  by (rule smap_ext)
    (auto simp: smap_ok_put smap_ok_enumerate map_of_smap_put map_of_enumerate nth_append)

lemma denseI:
  assumes "payload v = ArrayV m" "smap_ok m"
    "\<And>i. map_of m i = (if i < length xs then Some (xs ! i) else None)"
  shows "dense xs v"
proof -
  have "m = enumerate 0 xs"
    by (rule smap_ext [OF assms(2) smap_ok_enumerate]) (simp add: assms(3) map_of_enumerate)
  with assms(1) show ?thesis by (simp add: dense_def)
qed

lemma dense_elements: "dense xs v \<Longrightarrow> elements v i = (if i < length xs then Some (xs ! i) else None)"
  by (simp add: dense_def elements_def map_of_enumerate)

lemma dense_size: "dense xs v \<Longrightarrow> length xs < 2 ^ 32 \<Longrightarrow> size_of v = length xs"
  by (cases xs rule: rev_cases) (auto simp: dense_def size_of_def enumerate_append_eq)

lemma dense_index_ref: "dense xs v \<Longrightarrow> i < length xs \<Longrightarrow> index_ref i v = Inr (v, xs ! i)"
  by (simp add: dense_def index_ref_def map_of_enumerate)

lemma dense_index_ref_end:
  "dense xs v \<Longrightarrow> \<exists>v'. index_ref (length xs) v = Inr (v', nullSingleton) \<and> dense (xs @ [nullSingleton]) v'"
  by (simp add: dense_def index_ref_def map_of_enumerate smap_put_enumerate_end)

lemma dense_replace_index: "dense xs v \<Longrightarrow> i < length xs \<Longrightarrow> dense (xs[i := a]) (replace_index i a v)"
  by (rule denseI [of _ "smap_put i a (enumerate 0 xs)"])
    (auto simp: dense_def replace_index_def smap_ok_put smap_ok_enumerate map_of_smap_put
      map_of_enumerate nth_list_update)

lemma dense_shift_right:
  "dense ys v \<Longrightarrow> index + k < length ys \<Longrightarrow> \<exists>v'. shift_right index k v = Inr v' \<and>
     dense (take index ys @ ys ! (index + k) # take k (drop index ys) @ drop (Suc (index + k)) ys) v'"
proof (induction k arbitrary: v ys)
  case 0
  then show ?case by (simp add: id_take_nth_drop [symmetric])
next
  case (Suc k)
  let ?i = "index + Suc k"
  let ?ys = "ys[?i := ys ! (index + k), index + k := ys ! ?i]"
  let ?v = "replace_index (index + k) (ys ! ?i) (replace_index ?i (ys ! (index + k)) v)"
  have "dense ?ys ?v"
    using Suc.prems by (intro dense_replace_index) auto
  then obtain v' where v': "shift_right index k ?v = Inr v'"
    "dense (take index ?ys @ ?ys ! (index + k) # take k (drop index ?ys) @ drop (Suc (index + k)) ?ys) v'"
    using Suc.IH [of ?ys ?v] Suc.prems by auto
  have "shift_right index (Suc k) v = shift_right index k ?v"
    using Suc.prems by (simp add: dense_index_ref)
  moreover have "take index ?ys @ ?ys ! (index + k) # take k (drop index ?ys) @ drop (Suc (index + k)) ?ys =
    take index ys @ ys ! ?i # take (Suc k) (drop index ys) @ drop (Suc ?i) ys"
    using Suc.prems
    by (intro nth_equalityI)
      (auto simp: nth_append nth_Cons' nth_list_update min_def intro!: arg_cong [of _ _ "(!) ys"])
  ultimately show ?case using v' by auto
qed

lemma insert_value_list:
  assumes "dense xs v" "i \<le> length xs" "length xs < 2 ^ 32"
  shows "\<exists>v'. insert_value i x v = Inr (True, v') \<and> dense (take i xs @ x # drop i xs) v'"
proof -
  obtain v1 where ref: "index_ref (length xs) v = Inr (v1, nullSingleton)"
    and v1: "dense (xs @ [nullSingleton]) v1"
    using dense_index_ref_end [OF assms(1)] by blast
  let ?k = "length xs - i"
  let ?ys = "take i xs @ nullSingleton # drop i xs"
  have again: "index_ref (length xs) v1 = Inr (v1, nullSingleton)"
    using dense_index_ref [OF v1] by simp
  have "shift_right i ?k v = (if ?k = 0 then Inr v else shift_right i ?k v1)"
  proof (cases ?k)
    case (Suc m)
    then have "Suc (i + m) = length xs" using assms(2) by simp
    with Suc ref again show ?thesis by simp
  qed simp
  moreover obtain v2 where v2: "shift_right i ?k v1 = Inr v2" "dense ?ys v2"
    using dense_shift_right [OF v1, of i ?k] assms(2) by auto
  moreover have "\<exists>v3. assign_index i x (if ?k = 0 then v else v2) = Inr v3 \<and> dense (?ys[i := x]) v3"
    using ref v1 v2 assms(2) dense_index_ref [OF v2(2), of i] dense_replace_index [OF v2(2), of i x]
      dense_replace_index [OF v1, of i x]
    by (cases "?k = 0") (auto simp: assign_index_def)
  moreover have "?ys[i := x] = take i xs @ x # drop i xs"
    using assms(2) by (simp add: list_update_append)
  ultimately show ?thesis
    using assms dense_size [OF assms(1,3)]
    by (auto simp: insert_value_def type_of_def dense_def split: if_splits)
qed

lemma dense_shift_left:
  "dense ys v \<Longrightarrow> length ys = Suc n \<Longrightarrow> i \<le> n \<Longrightarrow> \<exists>v'. shift_left [i..<n] v = Inr v' \<and>
     dense (take i ys @ drop (Suc i) ys @ [last ys]) v'"
proof (induction "n - i" arbitrary: i v ys)
  case 0
  then have "take n ys @ [last ys] = ys"
    by (metis append_butlast_last_id butlast_conv_take diff_Suc_1 length_0_conv nat.simps(3))
  with 0 show ?case by simp
next
  case (Suc d)
  then have less: "i < n" by simp
  let ?ys = "ys[i := ys ! Suc i]"
  have d: "dense ?ys (replace_index i (ys ! Suc i) v)"
    using Suc.prems by (intro dense_replace_index) auto
  have "last ?ys = last ys"
    using Suc.prems less by (subst (1 2) last_conv_nth) auto
  moreover have "take (Suc i) ?ys @ drop (Suc (Suc i)) ?ys = take i ys @ drop (Suc i) ys"
    using Suc.prems less 
    by (intro nth_equalityI)
      (auto simp: nth_append nth_list_update min_def intro!: arg_cong [of _ _ "(!) ys"])
  moreover have "shift_left [i..<n] v = shift_left [Suc i..<n] (replace_index i (ys ! Suc i) v)"
    using Suc.prems less dense_index_ref [OF Suc.prems(1), of "Suc i"] by (simp add: upt_conv_Cons)
  ultimately show ?case
    using Suc.hyps(1) [OF _ d, of "Suc i"] Suc.prems Suc.hyps(2) less by (auto simp flip: append_assoc)
qed

lemma removeIndex_list:
  assumes "dense xs v" "i < length xs" "length xs < 2 ^ 32"
  shows "\<exists>v'. removeIndex i v = Inr (Some (xs ! i), v') \<and> dense (take i xs @ drop (Suc i) xs) v'"
proof -
  let ?n = "length xs - 1"
  let ?zs = "take i xs @ drop (Suc i) xs"
  have "length xs = Suc ?n" using assms(2) by simp
  then obtain v1 where v1: "shift_left [i..<?n] v = Inr v1" "dense (?zs @ [last xs]) v1"
    using dense_shift_left [OF assms(1) _, of ?n i] assms(2) by fastforce
  have len: "length ?zs = ?n" using assms(2) by simp
  have last: "last_index (length xs) = ?n" using assms(2) by (auto simp: last_index_def)
  have "smap_erase ?n (enumerate 0 (?zs @ [last xs])) = enumerate 0 ?zs"
    by (rule smap_ext)
      (use len in \<open>auto simp: smap_ok_erase smap_ok_enumerate map_of_smap_erase map_of_enumerate nth_append\<close>)
  then have "dense ?zs (erase_indices [?n] v1)"
    using v1(2) by (simp add: dense_def erase_indices_def)
  then show ?thesis
    using assms v1 dense_size [OF assms(1,3)] last by (simp add: removeIndex_def dense_def map_of_enumerate)
qed

lemma append_value_list:
  assumes "dense xs v" "length xs < 2 ^ 32"
  shows "\<exists>v'. append_value x v = Inr v' \<and> dense (xs @ [x]) v'"
  using assms dense_size [OF assms]
  by (simp add: dense_def append_value_def map_of_enumerate smap_put_enumerate_end)


lemma dense_touch:
  "dense xs v \<Longrightarrow> \<exists>v'. touch_indices [length xs..<length xs + k] v = Inr v' \<and> dense (xs @ replicate k nullSingleton) v'"
proof (induction k arbitrary: xs v)
  case (Suc k)
  obtain v1 where v1: "index_ref (length xs) v = Inr (v1, nullSingleton)" "dense (xs @ [nullSingleton]) v1"
    using dense_index_ref_end [OF Suc.prems] by blast
  have "[length xs..<length xs + Suc k] = length xs # [length (xs @ [nullSingleton])..<length (xs @ [nullSingleton]) + k]"
    by (simp add: upt_conv_Cons)
  then show ?case using Suc.IH [OF v1(2)] v1(1) by simp
qed simp

lemma map_of_fold_erase: "map_of (fold smap_erase is m) j = (if j \<in> set is then None else map_of m j)"
  by (induction "is" arbitrary: m) (auto simp: map_of_smap_erase)

lemma smap_ok_fold_erase: "smap_ok m \<Longrightarrow> smap_ok (fold smap_erase is m)"
  by (induction "is" arbitrary: m) (auto simp: smap_ok_erase)

lemma dense_erase:
  assumes "dense xs v" "n \<le> length xs"
  shows "dense (take n xs) (erase_indices [n..<length xs] v)"
  by (rule denseI [of _ "fold smap_erase [n..<length xs] (enumerate 0 xs)"])
    (use assms in \<open>auto simp: dense_def erase_indices_def smap_ok_fold_erase smap_ok_enumerate map_of_fold_erase map_of_enumerate\<close>)

lemma resize_list:
  assumes "dense xs v" "length xs < 2 ^ 32" "n < 2 ^ 32"
  shows "\<exists>v'. resize_value n v = Inr v' \<and> dense (take n xs @ replicate (n - length xs) nullSingleton) v'"
proof -
  have ty: "type_of v = arrayValue" using assms(1) by (simp add: dense_def type_of_def)
  have sz: "size_of v = length xs" by (rule dense_size [OF assms(1,2)])
  consider "n = 0" | "n \<noteq> 0" "length xs < n" | "n \<noteq> 0" "n \<le> length xs" by linarith
  then show ?thesis
  proof cases
    case 1
    then show ?thesis using assms(1) by (auto simp: resize_value_def ty clear_value_def dense_def)
  next
    case 2
    then show ?thesis using dense_touch [OF assms(1), of "n - length xs"] by (simp add: resize_value_def ty sz)
  next
    case 3
    have d: "dense (take n xs) (erase_indices [n..<length xs] v)" by (rule dense_erase [OF assms(1) 3(2)])
    have "size_of (erase_indices [n..<length xs] v) = n" using dense_size [OF d] 3(2) assms(2) by simp
    then show ?thesis using 3 d by (simp add: resize_value_def ty sz)
  qed
qed

lemma removeIndex_missing: "dense xs v \<Longrightarrow> length xs \<le> i \<Longrightarrow> removeIndex i v = Inr (None, v)"
  by (simp add: dense_def removeIndex_def map_of_enumerate)


section \<open>Operations keep values well formed\<close>

lemma index_ref_ok: "jv_ok v \<Longrightarrow> index_ref i v = Inr (v', w) \<Longrightarrow> jv_ok v' \<and> jv_ok w"
  by (cases "payload v")
    (auto simp: index_ref_def jv_ok_payload [of v] jv_ok_payload [of v'] kids_ok_put dest: kids_ok_find split: option.splits)

lemma resolveReference_ok: "jv_ok v \<Longrightarrow> resolveReference k v = Inr (v', w) \<Longrightarrow> jv_ok v' \<and> jv_ok w"
  by (cases "payload v")
    (auto simp: resolveReference_def jv_ok_payload [of v] jv_ok_payload [of v'] kids_ok_put dest: kids_ok_find split: option.splits)

lemma replace_index_ok: "jv_ok v \<Longrightarrow> jv_ok x \<Longrightarrow> jv_ok (replace_index i x v)"
  by (cases "payload v") (auto simp: replace_index_def jv_ok_payload [of v] kids_ok_put)

lemma replace_member_ok: "jv_ok v \<Longrightarrow> jv_ok x \<Longrightarrow> jv_ok (replace_member k x v)"
  by (cases "payload v") (auto simp: replace_member_def jv_ok_payload [of v] kids_ok_put)

lemma assign_index_ok: "jv_ok v \<Longrightarrow> jv_ok x \<Longrightarrow> assign_index i x v = Inr v' \<Longrightarrow> jv_ok v'"
  by (auto simp: assign_index_def res_simps dest: index_ref_ok intro: replace_index_ok)

lemma append_value_ok: "jv_ok v \<Longrightarrow> jv_ok x \<Longrightarrow> append_value x v = Inr v' \<Longrightarrow> jv_ok v'"
  by (cases "payload v")
    (auto simp: append_value_def jv_ok_payload [of v] jv_ok_payload [of v'] Let_def kids_ok_put split: option.splits)

lemma clear_value_ok: "clear_value v = Inr v' \<Longrightarrow> jv_ok v'"
  by (cases "payload v") (auto simp: clear_value_def)

lemma kids_ok_erase_all: "kids_ok m \<Longrightarrow> kids_ok (fold smap_erase is m)"
  by (induction "is" arbitrary: m) (auto intro: kids_ok_erase)

lemma erase_indices_ok: "jv_ok v \<Longrightarrow> jv_ok (erase_indices is v)"
  by (cases "payload v") (auto simp: erase_indices_def jv_ok_payload [of v] kids_ok_erase_all)

lemma touch_indices_ok: "jv_ok v \<Longrightarrow> touch_indices is v = Inr v' \<Longrightarrow> jv_ok v'"
  by (induction "is" v rule: touch_indices.induct) (auto simp: res_simps dest: index_ref_ok)

lemma resize_value_ok: "jv_ok v \<Longrightarrow> resize_value n v = Inr v' \<Longrightarrow> jv_ok v'"
  using clear_value_ok touch_indices_ok erase_indices_ok
  by (auto simp: resize_value_def Let_def split: if_splits) (metis jv_ok_initBasic jd_ok_container(1) kids_ok_Nil)+

lemma shift_right_ok: "jv_ok v \<Longrightarrow> shift_right i k v = Inr v' \<Longrightarrow> jv_ok v'"
proof (induction k arbitrary: v)
  case (Suc k)
  from Suc.prems(2) obtain v1 a v2 b where
    ref: "index_ref (i + Suc k) v = Inr (v1, a)" "index_ref (i + k) v1 = Inr (v2, b)"
    and rest: "shift_right i k (replace_index (i + k) a (replace_index (i + Suc k) b v2)) = Inr v'"
    by (auto simp: res_simps Let_def)
  from ref Suc.prems(1) have "jv_ok v2 \<and> jv_ok a \<and> jv_ok b"
    by (meson index_ref_ok)
  with rest show ?case by (auto intro: Suc.IH [OF _ rest] replace_index_ok)
qed simp

lemma shift_left_ok: "jv_ok v \<Longrightarrow> shift_left is v = Inr v' \<Longrightarrow> jv_ok v'"
proof (induction "is" v rule: shift_left.induct)
  case (2 i "is" v)
  from "2.prems"(2) obtain v1 w where ref: "index_ref (Suc i) v = Inr (v1, w)"
    and rest: "shift_left is (replace_index i w v1) = Inr v'"
    by (auto simp: res_simps)
  from index_ref_ok [OF "2.prems"(1) ref] have "jv_ok (replace_index i w v1)"
    by (auto intro: replace_index_ok)
  from "2.IH" [OF ref refl this rest] show ?case .
qed simp

lemma insert_value_ok: "jv_ok v \<Longrightarrow> jv_ok x \<Longrightarrow> insert_value i x v = Inr (b, v') \<Longrightarrow> jv_ok v'"
  by (auto simp: insert_value_def res_simps Let_def split: if_splits
      dest: shift_right_ok [rotated] assign_index_ok [rotated 2])

lemma removeIndex_ok: "jv_ok v \<Longrightarrow> removeIndex i v = Inr (w, v') \<Longrightarrow> jv_ok v'"
  by (cases "payload v")
    (auto simp: removeIndex_def res_simps Let_def split: option.splits
      dest: shift_left_ok [rotated] intro: erase_indices_ok)

lemma setComment_ok: "jv_ok v \<Longrightarrow> setComment c p v = Inr v' \<Longrightarrow> jv_ok v'"
  by (cases v) (auto simp: setComment_def Let_def split: if_splits)

lemma path_make_ok: "jv_ok v \<Longrightarrow> path_make args v = Inr v' \<Longrightarrow> jv_ok v'"
  by (induction args v arbitrary: v' rule: path_make.induct)
    (fastforce simp: res_simps dest: index_ref_ok resolveReference_ok
      intro: replace_index_ok replace_member_ok)+

lemma uintToString_loop_dec: "0 \<le> v \<Longrightarrow> uintToString_loop v buf = dec_string v @ buf"
proof (induction v buf rule: uintToString_loop.induct)
  case (1 v buf)
  show ?case
  proof (cases "v < 10")
    case True
    with 1 show ?thesis
      by (subst uintToString_loop.simps, subst dec_string.simps) (simp add: Let_def)
  next
    case False
    with 1 show ?thesis
      by (subst uintToString_loop.simps, subst dec_string.simps) (simp add: Let_def)
  qed
qed

lemma uintToString_dec: "0 \<le> v \<Longrightarrow> uintToString v = dec_string v"
  by (simp add: uintToString_def uintToString_loop_dec)

lemma hd_dec_string: "hd (dec_string n) \<noteq> CHR ''-''"
proof -
  have "is_digit (hd (dec_string n))"
    using dec_string_digits [of n] dec_string_nonempty [of n] by (cases "dec_string n") auto
  then show ?thesis by (auto simp: is_digit_def)
qed

lemma int_text_value_dec [simp]: "0 \<le> n \<Longrightarrow> int_text_value (dec_string n) = n"
  using hd_dec_string [of n] dec_string_nonempty [of n] dec_value_of_dec_string [of n]
  by (cases "dec_string n") (auto simp: int_text_value_def simp del: dec_value_of_dec_string)

lemma valueToString_int_text:
  assumes "INT64_MIN \<le> i" "i \<le> INT64_MAX"
  shows "valueToString_int i = (if i < 0 then CHR ''-'' # dec_string (- i) else dec_string i)"
  using assms by (auto simp: valueToString_int_def uintToString_dec int_limits)

lemma valueToString_int_value:
  assumes "INT64_MIN \<le> i" "i \<le> INT64_MAX"
  shows "int_text_value (valueToString_int i) = i"
proof (cases "i < 0")
  case True
  then show ?thesis using assms by (simp add: valueToString_int_text int_text_value_def)
next
  case False
  then show ?thesis using assms by (simp add: valueToString_int_text)
qed

section \<open>Conversions\<close>

lemma dbl_INT_MIN: "dbl_of_int INT_MIN = DFin True 4503599627370496 (- 21)"
  by code_simp

lemma dbl_INT_MAX: "dbl_of_int INT_MAX = DFin False 9007199250546688 (- 22)"
  by code_simp

lemma dbl_0: "dbl_of_int 0 = DFin False 0 0"
  by code_simp

lemma dbl_UINT_MAX: "dbl_of_int UINT_MAX = DFin False 9007199252643840 (- 21)"
  by code_simp

lemma at_exp_sig: "at_exp e0 s m e = sig s m * 2 ^ nat (e - e0)"
  by (simp add: at_exp_def sig_def)

lemma pow_split: "a \<le> b \<Longrightarrow> b \<le> c \<Longrightarrow> (2::int) ^ nat (c - a) = 2 ^ nat (c - b) * 2 ^ nat (b - a)"
  by (simp flip: power_add nat_add_distrib)

lemma dbl_le_fin: "dbl_le (DFin s m e) (DFin t n f) \<longleftrightarrow>
    sig s m * 2 ^ nat (e - min e f) \<le> sig t n * 2 ^ nat (f - min e f)"
  by (auto simp: dbl_le_def at_exp_sig)

lemma trunc_sig: "0 \<le> m \<Longrightarrow> dbl_trunc (DFin s m e) =
    (if 0 \<le> e then sig s m * 2 ^ nat e else sgn (sig s m) * (\<bar>sig s m\<bar> div 2 ^ nat (- e)))"
  by (auto simp: sig_def Let_def sgn_if div_pos_pos_trivial)

lemma int_scaled_cmp:
  fixes k z :: int
  assumes f: "f \<le> 0" and k: "sig s mk = k * 2 ^ nat (- f)"
  shows "sig s mk * 2 ^ nat (f - min f e) \<le> z * 2 ^ nat (e - min f e) \<longleftrightarrow>
      (if 0 \<le> e then k \<le> z * 2 ^ nat e else k * 2 ^ nat (- e) \<le> z)"
    and "z * 2 ^ nat (e - min f e) \<le> sig s mk * 2 ^ nat (f - min f e) \<longleftrightarrow>
      (if 0 \<le> e then z * 2 ^ nat e \<le> k else z \<le> k * 2 ^ nat (- e))"
proof -
  let ?e0 = "min f e"
  have l: "sig s mk * 2 ^ nat (f - ?e0) = k * 2 ^ nat (0 - ?e0)"
    using pow_split [of ?e0 f 0] f k by (simp add: mult.assoc)
  have r: "z * 2 ^ nat (e - ?e0) = (z * 2 ^ nat e) * 2 ^ nat (0 - ?e0)" if "0 \<le> e"
    using that pow_split [of ?e0 0 e] f by simp
  have k': "k * 2 ^ nat (0 - ?e0) = (k * 2 ^ nat (- e)) * 2 ^ nat (e - ?e0)" if "e < 0"
    using that pow_split [of ?e0 e 0] by simp
  show "sig s mk * 2 ^ nat (f - ?e0) \<le> z * 2 ^ nat (e - ?e0) \<longleftrightarrow>
      (if 0 \<le> e then k \<le> z * 2 ^ nat e else k * 2 ^ nat (- e) \<le> z)"
    by (cases "0 \<le> e") (simp_all add: l r k' del: diff_0)
  show "z * 2 ^ nat (e - ?e0) \<le> sig s mk * 2 ^ nat (f - ?e0) \<longleftrightarrow>
      (if 0 \<le> e then z * 2 ^ nat e \<le> k else z \<le> k * 2 ^ nat (- e))"
    by (cases "0 \<le> e") (simp_all add: l r k' del: diff_0)
qed

lemma le_trunc:
  assumes "f \<le> 0" "sig s mk = k * 2 ^ nat (- f)" "0 \<le> m" "dbl_le (DFin s mk f) (DFin t m e)"
  shows "k \<le> dbl_trunc (DFin t m e)"
proof (cases "0 \<le> e")
  case True
  then show ?thesis
    using assms int_scaled_cmp(1) [OF assms(1,2), of e "sig t m"] by (simp add: dbl_le_fin trunc_sig del: dbl_trunc.simps)
next
  case False
  then have le: "k * 2 ^ nat (- e) \<le> sig t m"
    using assms int_scaled_cmp(1) [OF assms(1,2), of e "sig t m"] by (simp add: dbl_le_fin)
  show ?thesis
  proof (cases t)
    case True
    then have "m \<le> (- k) * 2 ^ nat (- e)" using le by (simp add: sig_def)
    then have "m div 2 ^ nat (- e) \<le> (- k) * 2 ^ nat (- e) div 2 ^ nat (- e)"
      by (intro zdiv_mono1) auto
    then have "m div 2 ^ nat (- e) \<le> - k"
      by (subst (asm) nonzero_mult_div_cancel_right) auto
    then show ?thesis using True False by (simp add: Let_def)
  next
    case f: False
    have "k * 2 ^ nat (- e) div 2 ^ nat (- e) \<le> m div 2 ^ nat (- e)"
      using le f by (intro zdiv_mono1) (auto simp: sig_def)
    then show ?thesis using f False by (simp add: Let_def)
  qed
qed

lemma trunc_le:
  assumes "f \<le> 0" "sig s mk = k * 2 ^ nat (- f)" "0 \<le> m" "dbl_le (DFin t m e) (DFin s mk f)"
  shows "dbl_trunc (DFin t m e) \<le> k"
proof -
  have "dbl_le (DFin (\<not> s) mk f) (DFin (\<not> t) m e)"
    using assms(4) by (auto simp: dbl_le_fin sig_def min.commute)
  then have "- k \<le> dbl_trunc (DFin (\<not> t) m e)"
    using assms(1-3) by (intro le_trunc [of f "\<not> s" mk]) (auto simp: sig_def)
  then show ?thesis by (auto simp: Let_def split: if_splits)
qed

lemma InRange_trunc:
  assumes r: "InRange d (DFin s m e) (DFin t n f)" and ok: "jd_ok (RealV d)"
    and "e \<le> 0" "sig s m = lo * 2 ^ nat (- e)" "f \<le> 0" "sig t n = hi * 2 ^ nat (- f)"
  shows "lo \<le> dbl_trunc d \<and> dbl_trunc d \<le> hi"
proof (cases d)
  case (DFin u a b)
  then show ?thesis
    using assms le_trunc [of e s m lo a u b] trunc_le [of f t n hi a u b] by (auto simp: InRange_def)
next
  case (DInf u)
  then show ?thesis using r by (auto simp: InRange_def dbl_le_def)
qed (use r in \<open>auto simp: InRange_def dbl_le_def\<close>)

lemma asInt_range:
  assumes "jv_ok v" "asInt v = Inr i"
  shows "INT_MIN \<le> i \<and> i \<le> INT_MAX"
proof (cases "payload v")
  case (RealV d)
  with assms jv_ok_payload [of v]
  show ?thesis
    using InRange_trunc [of d True 4503599627370496 "- 21" False 9007199250546688 "- 22" INT_MIN INT_MAX]
    by (simp add: asInt_def dbl_INT_MIN dbl_INT_MAX sig_def split: if_splits)
      (simp add: int_limits)
qed (use assms s32_range in \<open>auto simp: asInt_def int_limits split: if_splits\<close>)


section \<open>Properties\<close>

text \<open>The keys of an object are ordered by \<^verbatim>\<open>CZString::operator<\<close> exactly as byte
  strings are ordered lexicographically, and \<^verbatim>\<open>operator==\<close> is equality of byte strings: the
  \<^verbatim>\<open>memcmp\<close> and length tests implement the order the maps of the model are sorted by.\<close>

lemma czstring_order: "czstring_less s t = (s < t) \<and> czstring_eq s t = (s = t)"
  by (simp add: czstring_less_iff czstring_eq_iff)

text \<open>Assigning through \<^verbatim>\<open>v[key]\<close> on a null value or an object
  never throws, leaves an object, and changes its members as a finite map is updated: the assigned
  key has the new value, every other key keeps its own.\<close>

lemma assign_member_refines_update:
  assumes "isNull v \<or> isObject v"
  shows "\<exists>v'. assign_member k x v = Inr v' \<and> isObject v' \<and> members v' = (members v)(k \<mapsto> x)"
  using assms by (rule assign_member_members)

text \<open>Access by name throws \<^verbatim>\<open>Json::LogicError\<close> exactly on values that
  are neither null nor an object, for the mutable access, for \<^verbatim>\<open>find\<close>, for \<^verbatim>\<open>isMember\<close> and for
  \<^verbatim>\<open>getMemberNames\<close>.\<close>

lemma member_access_throws_iff:
  "(returns (resolveReference k v) \<longleftrightarrow> isNull v \<or> isObject v) \<and>
   (returns (find_member k v) \<longleftrightarrow> isNull v \<or> isObject v) \<and>
   (returns (isMember k v) \<longleftrightarrow> isNull v \<or> isObject v) \<and>
   (returns (getMemberNames v) \<longleftrightarrow> isNull v \<or> isObject v)"
  by (cases "payload v")
    (auto simp: member_defs getMemberNames_def split: option.splits)

text \<open>C31 (insert_value_refines_list). On an array without holes \<^verbatim>\<open>Value::insert\<close> is insertion into the
  list of its elements: the shifting loop of move-assignments, each of which swaps, moves every
  element from the index on by one place and nothing else.\<close>

theorem insert_value_refines_list:
  assumes "dense xs v" "i \<le> length xs" "length xs < 2 ^ 32"
  shows "\<exists>v'. insert_value i x v = Inr (True, v') \<and> dense (take i xs @ x # drop i xs) v'"
  using assms by (rule insert_value_list)

theorem insert_value_refines_list_witness:
  "let v = initBasic (ArrayV [(0, value_of_int 1), (1, value_of_int 2)]) in
   dense [value_of_int 1, value_of_int 2] v \<and>
   (\<exists>v'. insert_value 1 (value_of_bool True) v = Inr (True, v') \<and>
      dense [value_of_int 1, value_of_bool True, value_of_int 2] v')"
  using insert_value_refines_list [of "[value_of_int 1, value_of_int 2]"
      "initBasic (ArrayV [(0, value_of_int 1), (1, value_of_int 2)])" 1 "value_of_bool True"]
  by (simp add: dense_def enumerate_eq_zip upt_rec)

text \<open>On an array without holes \<^verbatim>\<open>Value::removeIndex\<close> returns the element
  at the index and deletes it from the list of elements.\<close>

lemma removeIndex_refines_list:
  assumes "dense xs v" "i < length xs" "length xs < 2 ^ 32"
  shows "\<exists>v'. removeIndex i v = Inr (Some (xs ! i), v') \<and> dense (take i xs @ drop (Suc i) xs) v'"
  using assms by (rule removeIndex_list)

text \<open>C20 (array_operations_refine_list). On an array without holes the operations do to the list of elements what their names say:
  \<^verbatim>\<open>size\<close> is its length, reading yields the element or null, \<^verbatim>\<open>append\<close> adds one at the end, \<^verbatim>\<open>removeIndex\<close> returns and
  deletes one, moving those after it, \<^verbatim>\<open>resize\<close> cuts the list or fills it with nulls, \<^verbatim>\<open>clear\<close> empties it, and
  the array has no holes afterwards. Sizes are below 2^32, where \<^verbatim>\<open>ArrayIndex\<close> would wrap around.\<close>

theorem array_operations_refine_list:
  assumes "dense xs v" "length xs < 2 ^ 32"
  shows "size_of v = length xs \<and>
    at_index i v = Inr (if i < length xs then xs ! i else nullSingleton) \<and>
    (\<exists>v'. append_value x v = Inr v' \<and> dense (xs @ [x]) v') \<and>
    (\<exists>v'. removeIndex i v = Inr (if i < length xs then Some (xs ! i) else None, v') \<and> dense (take i xs @ drop (Suc i) xs) v') \<and>
    (i < length xs \<longrightarrow> (\<exists>v'. assign_index i x v = Inr v' \<and> dense (xs[i := x]) v')) \<and>
    (n < 2 ^ 32 \<longrightarrow> (\<exists>v'. resize_value n v = Inr v' \<and> dense (take n xs @ replicate (n - length xs) nullSingleton) v')) \<and>
    (\<exists>v'. clear_value v = Inr v' \<and> dense [] v')"
proof (intro conjI impI)
  show "size_of v = length xs" by (rule dense_size [OF assms])
  show "at_index i v = Inr (if i < length xs then xs ! i else nullSingleton)"
    using assms(1) by (simp add: dense_def at_index_def map_of_enumerate)
  show "\<exists>v'. append_value x v = Inr v' \<and> dense (xs @ [x]) v'" by (rule append_value_list [OF assms])
  show "\<exists>v'. removeIndex i v = Inr (if i < length xs then Some (xs ! i) else None, v') \<and> dense (take i xs @ drop (Suc i) xs) v'"
    using removeIndex_list [OF assms(1) _ assms(2)] removeIndex_missing [OF assms(1)] assms(1) by (cases "i < length xs") auto
  show "\<exists>v'. assign_index i x v = Inr v' \<and> dense (xs[i := x]) v'" if "i < length xs"
    using dense_index_ref [OF assms(1) that] dense_replace_index [OF assms(1) that] by (simp add: assign_index_def)
  show "\<exists>v'. resize_value n v = Inr v' \<and> dense (take n xs @ replicate (n - length xs) nullSingleton) v'" if "n < 2 ^ 32"
    by (rule resize_list [OF assms that])
  show "\<exists>v'. clear_value v = Inr v' \<and> dense [] v'" using assms(1) by (simp add: dense_def clear_value_def)
qed

theorem array_operations_refine_list_witness:
  "let v = initBasic (ArrayV [(0, value_of_int 1), (1, value_of_int 2)])
   in dense [value_of_int 1, value_of_int 2] v \<and>
     (\<exists>v'. removeIndex 0 v = Inr (Some (value_of_int 1), v') \<and> dense [value_of_int 2] v') \<and>
     (\<exists>v'. resize_value 3 v = Inr v' \<and> dense [value_of_int 1, value_of_int 2, nullSingleton] v')"
proof -
  have d: "dense [value_of_int 1, value_of_int 2] (initBasic (ArrayV [(0, value_of_int 1), (1, value_of_int 2)]))"
    by (simp add: dense_def enumerate_eq_zip upt_rec)
  show ?thesis using array_operations_refine_list [OF d, of 0 nullSingleton 3] d by (simp add: Let_def numeral_3_eq_3)
qed

text \<open>The names of the members come in order, once each.\<close>

lemma getMemberNames_sorted:
  assumes "jv_ok v" "isNull v \<or> isObject v"
  shows "\<exists>ks. getMemberNames v = Inr ks \<and> sorted_wrt (<) ks \<and> set ks = dom (members v)"
  using assms(2) unfolding null_or_object
proof
  assume "\<exists>m. payload v = ObjectV m"
  then obtain m where m: "payload v = ObjectV m" by blast
  have "smap_ok m" using assms(1) m by (simp add: jv_ok_payload kids_ok_def)
  then show ?thesis using m by (simp add: getMemberNames_def members_def smap_ok_def dom_map_of_conv_image_fst)
qed (simp add: getMemberNames_def members_def)

definition member_value :: "string \<Rightarrow> jvalue \<Rightarrow> jvalue" where
  "member_value k v = (case members v k of None \<Rightarrow> nullSingleton | Some w \<Rightarrow> w)"



text \<open>Every operation that changes a value keeps it well formed (integer
  payloads in their 64-bit ranges, keys of arrays and objects strictly ascending, at every depth),
  on every path on which it returns.\<close>

lemma value_operations_keep_ok:
  assumes "jv_ok v" "jv_ok x"
  shows "(\<forall>v'. assign_member k x v = Inr v' \<longrightarrow> jv_ok v') \<and>
    (\<forall>v'. assign_index i x v = Inr v' \<longrightarrow> jv_ok v') \<and>
    (\<forall>v'. append_value x v = Inr v' \<longrightarrow> jv_ok v') \<and>
    (\<forall>b v'. insert_value i x v = Inr (b, v') \<longrightarrow> jv_ok v') \<and>
    (\<forall>w v'. removeIndex i v = Inr (w, v') \<longrightarrow> jv_ok v') \<and>
    jv_ok (snd (removeMember k v)) \<and>
    (\<forall>v'. resize_value n v = Inr v' \<longrightarrow> jv_ok v') \<and>
    (\<forall>v'. path_make args v = Inr v' \<longrightarrow> jv_ok v') \<and>
    (\<forall>v'. setComment c p v = Inr v' \<longrightarrow> jv_ok v')"
  using assms
  by (intro conjI allI impI)
    (rule assign_member_ok assign_index_ok append_value_ok insert_value_ok removeIndex_ok
      removeMember_ok resize_value_ok path_make_ok setComment_ok; assumption)+

text \<open>Whatever number a well-formed value holds (signed, unsigned or floating
  point), \<^verbatim>\<open>asInt\<close> returns only integers of the 32-bit range; everything else throws.\<close>

lemma asInt_bounds:
  assumes "jv_ok v" "asInt v = Inr i"
  shows "INT_MIN \<le> i \<and> i \<le> INT_MAX"
  using assms by (rule asInt_range)

text \<open>\<^verbatim>\<open>isConvertibleTo\<close> answers exactly whether the conversion
  returns instead of throwing, for \<^verbatim>\<open>asInt\<close>, \<^verbatim>\<open>asUInt\<close>, \<^verbatim>\<open>asDouble\<close>, \<^verbatim>\<open>asBool\<close> and \<^verbatim>\<open>asString\<close>.\<close>

lemma isConvertibleTo_iff_converts:
  "(isConvertibleTo v intValue \<longleftrightarrow> returns (asInt v)) \<and>
   (isConvertibleTo v uintValue \<longleftrightarrow> returns (asUInt v)) \<and>
   (isConvertibleTo v realValue \<longleftrightarrow> returns (asDouble v)) \<and>
   (isConvertibleTo v booleanValue \<longleftrightarrow> returns (asBool v)) \<and>
   (isConvertibleTo v stringValue \<longleftrightarrow> returns (asString v))"
  by (cases "payload v")
    (auto simp: isConvertibleTo_def asInt_def asUInt_def asDouble_def asBool_def asString_def
      isInt_def isUInt_def isNumeric_def isDouble_def type_of_def InRange_def)

end
