(* ===== verification/Json_Text.thy ===== *)
theory Json_Text
  imports Json_Laws
begin

text \<open>
  Text shared by the reader and the writer: UTF-8 encoding (\<^verbatim>\<open>json_tool.h\<close>), UTF-8 decoding, hexadecimal
  escapes and quoting of strings (\<^verbatim>\<open>json_writer.cpp\<close>). Code points are unsigned 32-bit values; all
  of them stay below 2^21, so they are natural numbers here.
\<close>

unbundle bit_operations_syntax

section \<open>UTF-8\<close>

definition codePointToUTF8 :: "nat \<Rightarrow> string" where
  "codePointToUTF8 cp =
     (if cp \<le> 0x7F then [char_of cp]
      else if cp \<le> 0x7FF then
        [char_of (0xC0 OR (0x1F AND drop_bit 6 cp)), char_of (0x80 OR (0x3F AND cp))]
      else if cp \<le> 0xFFFF then
        [char_of (0xE0 OR (0xF AND drop_bit 12 cp)), char_of (0x80 OR (0x3F AND drop_bit 6 cp)),
         char_of (0x80 OR (0x3F AND cp))]
      else if cp \<le> 0x10FFFF then
        [char_of (0xF0 OR (0x7 AND drop_bit 18 cp)), char_of (0x80 OR (0x3F AND drop_bit 12 cp)),
         char_of (0x80 OR (0x3F AND drop_bit 6 cp)), char_of (0x80 OR (0x3F AND cp))]
      else [])"

definition REPLACEMENT_CHARACTER :: nat where "REPLACEMENT_CHARACTER = 0xFFFD"

text \<open>
  \<^verbatim>\<open>utf8ToCodepoint(s, e)\<close> on the bytes from \<^verbatim>\<open>s\<close> to \<^verbatim>\<open>e\<close>: the code point and by how many bytes
  \<^verbatim>\<open>s\<close> is advanced.
\<close>

definition utf8ToCodepoint :: "string \<Rightarrow> nat \<times> nat" where
  "utf8ToCodepoint s =
     (let firstByte = byte (hd s); b = (\<lambda>i. byte (s ! i) AND 0x3F) in
      if firstByte < 0x80 then (firstByte, 0)
      else if firstByte < 0xE0 then
        (if length s < 2 then (REPLACEMENT_CHARACTER, 0)
         else let calculated = push_bit 6 (firstByte AND 0x1F) OR b 1
              in (if calculated < 0x80 then REPLACEMENT_CHARACTER else calculated, 1))
      else if firstByte < 0xF0 then
        (if length s < 3 then (REPLACEMENT_CHARACTER, 0)
         else let calculated = push_bit 12 (firstByte AND 0x0F) OR push_bit 6 (b 1) OR b 2
              in (if 0xD800 \<le> calculated \<and> calculated \<le> 0xDFFF then REPLACEMENT_CHARACTER
                  else if calculated < 0x800 then REPLACEMENT_CHARACTER else calculated, 2))
      else if firstByte < 0xF8 then
        (if length s < 4 then (REPLACEMENT_CHARACTER, 0)
         else let calculated = push_bit 18 (firstByte AND 0x07) OR push_bit 12 (b 1) OR push_bit 6 (b 2) OR b 3
              in (if calculated < 0x10000 then REPLACEMENT_CHARACTER else calculated, 3))
      else (REPLACEMENT_CHARACTER, 0))"

section \<open>Escapes\<close>

text \<open>The table \<^verbatim>\<open>hex2\<close> holds the two lower-case hexadecimal digits of every byte.\<close>

definition hex_digit :: "nat \<Rightarrow> char" where
  "hex_digit n = ''0123456789abcdef'' ! n"

definition hex2 :: "nat \<Rightarrow> char" where
  "hex2 i = (if even i then hex_digit (i div 2 div 16) else hex_digit (i div 2 mod 16))"

definition toHex16Bit :: "nat \<Rightarrow> string" where
  "toHex16Bit x =
     (let hi = drop_bit 8 x AND 0xFF; lo = x AND 0xFF
      in [hex2 (2 * hi), hex2 (2 * hi + 1), hex2 (2 * lo), hex2 (2 * lo + 1)])"

definition appendHex :: "nat \<Rightarrow> string" where
  "appendHex ch = BACKSLASH # CHR ''u'' # toHex16Bit ch"

definition doesAnyCharRequireEscaping :: "string \<Rightarrow> bool" where
  "doesAnyCharRequireEscaping s \<longleftrightarrow>
     list_ex (\<lambda>c. c = BACKSLASH \<or> c = DQUOTE \<or> byte c < 0x20 \<or> byte c > 0x7F) s"

text \<open>What is appended for a code point when UTF-8 is not emitted.\<close>

definition escapeCodepoint :: "nat \<Rightarrow> string" where
  "escapeCodepoint codepoint =
     (if codepoint < 0x20 then appendHex codepoint
      else if codepoint < 0x80 then [char_of codepoint]
      else if codepoint < 0x10000 then appendHex codepoint
      else let cp = codepoint - 0x10000
           in appendHex (0xD800 + (drop_bit 10 cp AND 0x3FF)) @ appendHex (0xDC00 + (cp AND 0x3FF)))"

text \<open>The loop over the bytes of the string; \<open>c\<close> may be advanced by \<^verbatim>\<open>utf8ToCodepoint\<close>.\<close>

function quoteLoop :: "bool \<Rightarrow> string \<Rightarrow> string" where
  "quoteLoop emitUTF8 [] = []"
| "quoteLoop emitUTF8 (c # cs) =
     (if c = DQUOTE then [BACKSLASH, DQUOTE] @ quoteLoop emitUTF8 cs
      else if c = BACKSLASH then [BACKSLASH, BACKSLASH] @ quoteLoop emitUTF8 cs
      else if c = CHR 0x08 then [BACKSLASH, CHR ''b''] @ quoteLoop emitUTF8 cs
      else if c = CHR 0x0C then [BACKSLASH, CHR ''f''] @ quoteLoop emitUTF8 cs
      else if c = LF then [BACKSLASH, CHR ''n''] @ quoteLoop emitUTF8 cs
      else if c = CR then [BACKSLASH, CHR ''r''] @ quoteLoop emitUTF8 cs
      else if c = TAB then [BACKSLASH, CHR ''t''] @ quoteLoop emitUTF8 cs
      else if emitUTF8 then
        (if byte c < 0x20 then appendHex (byte c) else [c]) @ quoteLoop emitUTF8 cs
      else (let (codepoint, adv) = utf8ToCodepoint (c # cs)
            in escapeCodepoint codepoint @ quoteLoop emitUTF8 (drop adv cs)))"
  by pat_completeness auto
termination
  by (relation "measure (\<lambda>(b, s). length s)") auto

definition valueToQuotedStringN :: "string \<Rightarrow> bool \<Rightarrow> string" where
  "valueToQuotedStringN value emitUTF8 =
     (if \<not> doesAnyCharRequireEscaping value then [DQUOTE] @ value @ [DQUOTE]
      else [DQUOTE] @ quoteLoop emitUTF8 value @ [DQUOTE])"

text \<open>\<^verbatim>\<open>valueToQuotedString(const char*)\<close> stops at the first NUL.\<close>

definition valueToQuotedString :: "string \<Rightarrow> string" where
  "valueToQuotedString value = valueToQuotedStringN (takeWhile (\<lambda>c. c \<noteq> NUL) value) False"

end
