(* ===== verification/Reader_State.thy ===== *)
theory Reader_State
  imports Json_Text
begin

text \<open>
  What \<^verbatim>\<open>Json::Reader\<close> and \<^verbatim>\<open>Json::OurReader\<close> (\<^verbatim>\<open>jsoncpp/src/json_reader.cpp\<close>) have in common: the state of
  a reader, the pointers into the value under construction, and the scanning and decoding loops.
  The two classes differ in their kinds of tokens \<open>'t\<close> and in their features \<open>'f\<close>, and the second has
  more members, so the record is polymorphic and extensible.

  The document is a byte list; the pointers into it (\<^verbatim>\<open>current_\<close>, \<^verbatim>\<open>lastValueEnd_\<close>, the ends of
  tokens) are offsets from its start. The value under construction is held at the root of the state,
  and the pointers into it (\<^verbatim>\<open>nodes_\<close>, \<^verbatim>\<open>lastValue_\<close>) are paths from the root, so that an update
  through one pointer is seen through every other. A scanning loop is a recursive function on the
  rest of the document that returns how many bytes it consumes.
\<close>

section \<open>State\<close>

record 't basic_token =
  tok_type :: 't
  tok_start :: nat
  tok_end :: nat

record 't basic_error =
  err_token :: "'t basic_token"
  err_message :: string
  err_extra :: "nat option"

type_synonym path = "path_argument list"

record ('t, 'f) basic_reader =
  rd_document :: string
  rd_current :: nat
  rd_lastValueEnd :: "nat option"
  rd_lastValue :: "path option"
  rd_commentsBefore :: string
  rd_errors :: "'t basic_error list"
  rd_nodes :: "path list"
  rd_root :: jvalue
  rd_features :: 'f
  rd_collectComments :: bool

type_synonym ('t, 'f, 'm) rstate = "('t, 'f, 'm) basic_reader_scheme"

section \<open>Pointers into the value\<close>

fun value_at :: "path \<Rightarrow> jvalue \<Rightarrow> jvalue option" where
  "value_at [] v = Some v"
| "value_at (KindIndex i # p) v = (case elements v i of None \<Rightarrow> None | Some w \<Rightarrow> value_at p w)"
| "value_at (KindKey k # p) v = (case members v k of None \<Rightarrow> None | Some w \<Rightarrow> value_at p w)"
| "value_at (KindNone # p) v = None"

fun update_at :: "path \<Rightarrow> (jvalue \<Rightarrow> jvalue) \<Rightarrow> jvalue \<Rightarrow> jvalue" where
  "update_at [] f v = f v"
| "update_at (KindIndex i # p) f v =
     (case elements v i of None \<Rightarrow> v | Some w \<Rightarrow> replace_index i (update_at p f w) v)"
| "update_at (KindKey k # p) f v =
     (case members v k of None \<Rightarrow> v | Some w \<Rightarrow> replace_member k (update_at p f w) v)"
| "update_at (KindNone # p) f v = v"

abbreviation current_path :: "('t, 'f, 'm) rstate \<Rightarrow> path" where "current_path r \<equiv> hd (rd_nodes r)"

definition currentValue :: "('t, 'f, 'm) rstate \<Rightarrow> jvalue" where
  "currentValue r = (case value_at (current_path r) (rd_root r) of None \<Rightarrow> nullSingleton | Some v \<Rightarrow> v)"

definition set_current :: "(jvalue \<Rightarrow> jvalue) \<Rightarrow> ('t, 'f, 'm) rstate \<Rightarrow> ('t, 'f, 'm) rstate" where
  "set_current f r = r\<lparr>rd_root := update_at (current_path r) f (rd_root r)\<rparr>"

text \<open>The effect of a member function, one that may throw, of the value that a pointer refers to.\<close>

definition update_res :: "path \<Rightarrow> (jvalue \<Rightarrow> jvalue res) \<Rightarrow> ('t, 'f, 'm) rstate \<Rightarrow> ('t, 'f, 'm) rstate res" where
  "update_res p f r = (case value_at p (rd_root r) of
       None \<Rightarrow> Inl DanglingPointer
     | Some v \<Rightarrow> rbind (f v) (\<lambda>v'. Inr (r\<lparr>rd_root := update_at p (\<lambda>_. v') (rd_root r)\<rparr>)))"

section \<open>Scanning\<close>

definition rest :: "('t, 'f, 'm) rstate \<Rightarrow> string" where
  "rest r = drop (rd_current r) (rd_document r)"

definition advance :: "nat \<Rightarrow> ('t, 'f, 'm) rstate \<Rightarrow> ('t, 'f, 'm) rstate" where
  "advance n r = r\<lparr>rd_current := rd_current r + n\<rparr>"

definition slice :: "nat \<Rightarrow> nat \<Rightarrow> string \<Rightarrow> string" where
  "slice b e s = take (e - b) (drop b s)"

definition getNextChar :: "('t, 'f, 'm) rstate \<Rightarrow> char \<times> ('t, 'f, 'm) rstate" where
  "getNextChar r = (case rest r of [] \<Rightarrow> (NUL, r) | c # _ \<Rightarrow> (c, advance 1 r))"

definition is_space :: "char \<Rightarrow> bool" where
  "is_space c \<longleftrightarrow> c = CHR '' '' \<or> c = TAB \<or> c = CR \<or> c = LF"

definition skipSpaces :: "('t, 'f, 'm) rstate \<Rightarrow> ('t, 'f, 'm) rstate" where
  "skipSpaces r = advance (length (takeWhile is_space (rest r))) r"

definition match_pattern :: "string \<Rightarrow> ('t, 'f, 'm) rstate \<Rightarrow> bool \<times> ('t, 'f, 'm) rstate" where
  "match_pattern pattern r =
     (if length (rest r) < length pattern then (False, r)
      else if take (length pattern) (rest r) = pattern then (True, advance (length pattern) r)
      else (False, r))"

fun cStyleScan :: "string \<Rightarrow> nat \<times> bool" where
  "cStyleScan (c # d # cs) =
     (if c = CHR ''*'' \<and> d = CHR ''/'' then (2, True)
      else let (n, ok) = cStyleScan (d # cs) in (Suc n, ok))"
| "cStyleScan [c] = (1, c = CHR ''/'')"
| "cStyleScan [] = (0, False)"

definition readCStyleComment :: "('t, 'f, 'm) rstate \<Rightarrow> bool \<times> ('t, 'f, 'm) rstate" where
  "readCStyleComment r = (let (n, ok) = cStyleScan (rest r) in (ok, advance n r))"

fun cppStyleScan :: "string \<Rightarrow> nat" where
  "cppStyleScan [] = 0"
| "cppStyleScan (c # cs) =
     (if c = LF then 1
      else if c = CR then (case cs of d # _ \<Rightarrow> if d = LF then 2 else 1 | [] \<Rightarrow> 1)
      else Suc (cppStyleScan cs))"

definition readCppStyleComment :: "('t, 'f, 'm) rstate \<Rightarrow> bool \<times> ('t, 'f, 'm) rstate" where
  "readCppStyleComment r = (True, advance (cppStyleScan (rest r)) r)"

definition containsNewLine :: "string \<Rightarrow> bool" where
  "containsNewLine s = list_ex (\<lambda>b. b = LF \<or> b = CR) s"

fun normalizeEOL :: "string \<Rightarrow> string" where
  "normalizeEOL [] = []"
| "normalizeEOL (c # cs) =
     (if c = CR then (case cs of d # ds \<Rightarrow> if d = LF then LF # normalizeEOL ds else LF # normalizeEOL cs
                      | [] \<Rightarrow> [LF])
      else c # normalizeEOL cs)"

definition addComment :: "nat \<Rightarrow> nat \<Rightarrow> comment_placement \<Rightarrow> ('t, 'f, 'm) rstate \<Rightarrow> ('t, 'f, 'm) rstate res" where
  "addComment b e placement r =
     (let normalized = normalizeEOL (slice b e (rd_document r)) in
      if placement = commentAfterOnSameLine
      then (case rd_lastValue r of
              None \<Rightarrow> Inl (LogicError ''assertion lastValue_ != nullptr'')
            | Some p \<Rightarrow> update_res p (setComment normalized placement) r)
      else Inr (r\<lparr>rd_commentsBefore := rd_commentsBefore r @ normalized\<rparr>))"

definition digits_len :: "string \<Rightarrow> nat" where
  "digits_len s = length (takeWhile is_digit s)"

text \<open>\<^verbatim>\<open>readNumber\<close>: digits, a fraction, an exponent; each part may be without digits.\<close>

definition fractionScan :: "string \<Rightarrow> nat" where
  "fractionScan s = (case s of c # r \<Rightarrow> if c = CHR ''.'' then Suc (digits_len r) else 0 | [] \<Rightarrow> 0)"

definition signScan :: "string \<Rightarrow> nat" where
  "signScan s = (case s of c # r \<Rightarrow> if c = CHR ''+'' \<or> c = CHR ''-'' then 1 else 0 | [] \<Rightarrow> 0)"

definition exponentScan :: "string \<Rightarrow> nat" where
  "exponentScan s = (case s of
       c # r \<Rightarrow> if c = CHR ''e'' \<or> c = CHR ''E''
               then 1 + signScan r + digits_len (drop (signScan r) r) else 0
     | [] \<Rightarrow> 0)"

definition numberScan :: "string \<Rightarrow> nat" where
  "numberScan s =
     (let a = digits_len s; b = fractionScan (drop a s); c = exponentScan (drop (a + b) s)
      in a + b + c)"

definition readNumber :: "('t, 'f, 'm) rstate \<Rightarrow> ('t, 'f, 'm) rstate" where
  "readNumber r = advance (numberScan (rest r)) r"

fun stringScan :: "string \<Rightarrow> nat \<times> bool" where
  "stringScan [] = (0, False)"
| "stringScan (c # cs) =
     (if c = BACKSLASH then (case cs of [] \<Rightarrow> (1, False)
                             | d # ds \<Rightarrow> let (n, ok) = stringScan ds in (n + 2, ok))
      else if c = DQUOTE then (1, True)
      else let (n, ok) = stringScan cs in (Suc n, ok))"

definition readString :: "('t, 'f, 'm) rstate \<Rightarrow> bool \<times> ('t, 'f, 'm) rstate" where
  "readString r = (let (n, ok) = stringScan (rest r) in (ok, advance n r))"

section \<open>Errors\<close>

definition addError :: "string \<Rightarrow> 't basic_token \<Rightarrow> nat option \<Rightarrow> ('t, 'f, 'm) rstate \<Rightarrow> ('t, 'f, 'm) rstate" where
  "addError message token extra r =
     r\<lparr>rd_errors := rd_errors r @ [\<lparr>err_token = token, err_message = message, err_extra = extra\<rparr>]\<rparr>"

section \<open>Numbers and strings\<close>

definition token_text :: "'t basic_token \<Rightarrow> ('t, 'f, 'm) rstate \<Rightarrow> string" where
  "token_text token r = slice (tok_start token) (tok_end token) (rd_document r)"

definition decodeDouble :: "'t basic_token \<Rightarrow> ('t, 'f, 'm) rstate \<Rightarrow> jdata option \<times> ('t, 'f, 'm) rstate" where
  "decodeDouble token r = (case istream_double (token_text token r) of
       Some d \<Rightarrow> (Some (RealV d), r)
     | None \<Rightarrow> (None, addError ([CHR 0x27] @ token_text token r @ [CHR 0x27] @ '' is not a number.'') token None r))"

definition hex_value :: "char \<Rightarrow> nat option" where
  "hex_value c =
     (if 48 \<le> byte c \<and> byte c \<le> 57 then Some (byte c - 48)
      else if 97 \<le> byte c \<and> byte c \<le> 102 then Some (byte c - 97 + 10)
      else if 65 \<le> byte c \<and> byte c \<le> 70 then Some (byte c - 65 + 10)
      else None)"

text \<open>
  \<^verbatim>\<open>decodeUnicodeEscapeSequence\<close>: the four digits, or the error message with its location. The bytes
  left and their offset stand for \<^verbatim>\<open>current\<close>.
\<close>

fun hexLoop :: "nat \<Rightarrow> nat \<Rightarrow> nat \<Rightarrow> string \<Rightarrow> (string \<times> nat) + nat" where
  "hexLoop 0 pos unicode s = Inr unicode"
| "hexLoop (Suc k) pos unicode s = (case s of
       c # cs \<Rightarrow> (case hex_value c of
                   Some d \<Rightarrow> hexLoop k (Suc pos) (unicode * 16 + d) cs
                 | None \<Rightarrow> Inl (''Bad unicode escape sequence in string: hexadecimal digit expected.'', Suc pos))
     | [] \<Rightarrow> Inl (''Bad unicode escape sequence in string: hexadecimal digit expected.'', Suc pos))"

definition decodeUnicodeEscapeSequence :: "nat \<Rightarrow> string \<Rightarrow> (string \<times> nat) + nat" where
  "decodeUnicodeEscapeSequence pos s =
     (if length s < 4 then Inl (''Bad unicode escape sequence in string: four digits expected.'', pos)
      else hexLoop 4 pos 0 s)"

definition surrogateMessage :: string where
  "surrogateMessage = ''expecting another '' @ [BACKSLASH] @
     ''u token to begin the second half of a unicode surrogate pair''"

text \<open>The code point and the number of bytes consumed.\<close>

definition decodeUnicodeCodePoint :: "nat \<Rightarrow> string \<Rightarrow> (string \<times> nat) + (nat \<times> nat)" where
  "decodeUnicodeCodePoint pos s = (case decodeUnicodeEscapeSequence pos s of
       Inl e \<Rightarrow> Inl e
     | Inr unicode \<Rightarrow>
         if 0xD800 \<le> unicode \<and> unicode \<le> 0xDBFF then
           (let s' = drop 4 s; pos' = pos + 4 in
            if length s' < 6
            then Inl (''additional six characters expected to parse unicode surrogate pair.'', pos')
            else if s' ! 0 \<noteq> BACKSLASH
            then Inl (surrogateMessage, pos' + 1)
            else if s' ! 1 \<noteq> CHR ''u''
            then Inl (surrogateMessage, pos' + 2)
            else (case decodeUnicodeEscapeSequence (pos' + 2) (drop 2 s') of
                    Inl e \<Rightarrow> Inl e
                  | Inr surrogatePair \<Rightarrow>
                      Inr (0x10000 + push_bit 10 (unicode AND 0x3FF) + (surrogatePair AND 0x3FF), 10)))
         else Inr (unicode, 4))"

definition simpleEscape :: "char \<Rightarrow> char option" where
  "simpleEscape e =
     (if e = DQUOTE then Some DQUOTE
      else if e = CHR ''/'' then Some CHR ''/''
      else if e = BACKSLASH then Some BACKSLASH
      else if e = CHR ''b'' then Some CHR 0x08
      else if e = CHR ''f'' then Some CHR 0x0C
      else if e = CHR ''n'' then Some LF
      else if e = CHR ''r'' then Some CR
      else if e = CHR ''t'' then Some TAB
      else None)"

function decodeString_loop :: "nat \<Rightarrow> string \<Rightarrow> string \<Rightarrow> (string \<times> nat) + string" where
  "decodeString_loop pos [] decoded = Inr decoded"
| "decodeString_loop pos (c # cs) decoded =
     (if c = DQUOTE then Inr decoded
      else if c = BACKSLASH then
        (case cs of
           [] \<Rightarrow> Inl (''Empty escape sequence in string'', Suc pos)
         | e # es \<Rightarrow>
             (case simpleEscape e of
                Some d \<Rightarrow> decodeString_loop (pos + 2) es (decoded @ [d])
              | None \<Rightarrow>
                  if e = CHR ''u'' then
                    (case decodeUnicodeCodePoint (pos + 2) es of
                       Inl err \<Rightarrow> Inl err
                     | Inr (unicode, n) \<Rightarrow>
                         decodeString_loop (pos + 2 + n) (drop n es) (decoded @ codePointToUTF8 unicode))
                  else Inl (''Bad escape sequence in string'', pos + 2)))
      else decodeString_loop (Suc pos) cs (decoded @ [c]))"
  by pat_completeness auto
termination
  by (relation "measure (\<lambda>(p, s, d). length s)") auto

definition decodeString :: "'t basic_token \<Rightarrow> ('t, 'f, 'm) rstate \<Rightarrow> string option \<times> ('t, 'f, 'm) rstate" where
  "decodeString token r =
     (case decodeString_loop (Suc (tok_start token)) (slice (Suc (tok_start token)) (tok_end token - 1) (rd_document r)) [] of
        Inr s \<Rightarrow> (Some s, r)
      | Inl (msg, pos) \<Rightarrow> (None, addError msg token (Some pos) r))"

definition takeCommentsBefore :: "('t, 'f, 'm) rstate \<Rightarrow> ('t, 'f, 'm) rstate res" where
  "takeCommentsBefore r =
     (if rd_collectComments r \<and> rd_commentsBefore r \<noteq> []
      then rbind (update_res (current_path r) (setComment (rd_commentsBefore r) commentBefore) r)
             (\<lambda>r'. Inr (r'\<lparr>rd_commentsBefore := []\<rparr>))
      else Inr r)"

definition pushNode :: "path_argument \<Rightarrow> ('t, 'f, 'm) rstate \<Rightarrow> ('t, 'f, 'm) rstate" where
  "pushNode a r = r\<lparr>rd_nodes := (current_path r @ [a]) # rd_nodes r\<rparr>"

definition popNode :: "('t, 'f, 'm) rstate \<Rightarrow> ('t, 'f, 'm) rstate" where
  "popNode r = r\<lparr>rd_nodes := tl (rd_nodes r)\<rparr>"

text \<open>\<^verbatim>\<open>getLocationLineAndColumn\<close>; past the end the C string continues with its NUL.\<close>

function lineLoop :: "string \<Rightarrow> nat \<Rightarrow> nat \<Rightarrow> nat \<Rightarrow> nat \<Rightarrow> nat \<times> nat" where
  "lineLoop doc location cur lastLineStart line =
     (if cur < location \<and> cur < length doc
      then (if doc ! cur = CR
            then let cur' = (if Suc cur < length doc \<and> doc ! Suc cur = LF then cur + 2 else Suc cur)
                 in lineLoop doc location cur' cur' (Suc line)
            else if doc ! cur = LF then lineLoop doc location (Suc cur) (Suc cur) (Suc line)
            else lineLoop doc location (Suc cur) lastLineStart line)
      else (line, lastLineStart))"
  by pat_completeness auto
termination
  by (relation "measure (\<lambda>(doc, loc, cur, st, line). length doc - cur)") (auto simp: Let_def)

declare lineLoop.simps [simp del]

section \<open>What reading keeps\<close>

lemma cStyleScan_le: "fst (cStyleScan s) \<le> length s"
  by (induction s rule: cStyleScan.induct) (auto split: prod.splits)

lemma cppStyleScan_le: "cppStyleScan s \<le> length s"
  by (induction s) (auto split: list.splits)

lemma stringScan_le: "fst (stringScan s) \<le> length s"
proof (induction s rule: stringScan.induct)
  case (2 c cs)
  consider "c = BACKSLASH" | "c = DQUOTE" | "c \<noteq> BACKSLASH" "c \<noteq> DQUOTE" by blast
  then show ?case
  proof cases
    case 1
    with 2(1) show ?thesis by (cases cs) (auto simp: case_prod_unfold Let_def)
  next
    case 3
    with 2(2) show ?thesis by (simp add: case_prod_unfold Let_def)
  qed simp
qed simp

lemma digits_len_le: "digits_len s \<le> length s"
  by (simp add: digits_len_def length_takeWhile_le)

lemma fractionScan_le: "fractionScan s \<le> length s"
  by (auto simp: fractionScan_def digits_len_le split: list.splits)

lemma signScan_le: "signScan s \<le> length s"
  by (auto simp: signScan_def split: list.splits)

lemma exponentScan_le: "exponentScan s \<le> length s"
proof (cases s)
  case (Cons c r)
  have "signScan r + digits_len (drop (signScan r) r) \<le> length r"
    using signScan_le [of r] digits_len_le [of "drop (signScan r) r"] by simp
  then show ?thesis by (simp add: Cons exponentScan_def)
qed (simp add: exponentScan_def)

lemma numberScan_le: "numberScan s \<le> length s"
proof -
  let ?a = "digits_len s"
  let ?b = "fractionScan (drop ?a s)"
  have "?a + ?b \<le> length s" using digits_len_le [of s] fractionScan_le [of "drop ?a s"] by simp
  then show ?thesis
    using exponentScan_le [of "drop (?a + ?b) s"] by (simp add: numberScan_def Let_def)
qed

text \<open>
  What reading keeps: everything but the position, the value and the comments collected so far; the
  position only grows, and stays within the document.
\<close>

definition keeps :: "('t, 'f, 'm) rstate \<Rightarrow> ('t, 'f, 'm) rstate \<Rightarrow> bool" where
  "keeps r r' \<longleftrightarrow> rd_document r' = rd_document r \<and> rd_nodes r' = rd_nodes r \<and>
     rd_features r' = rd_features r \<and> rd_collectComments r' = rd_collectComments r \<and>
     rd_current r \<le> rd_current r' \<and>
     (rd_current r \<le> length (rd_document r) \<longrightarrow> rd_current r' \<le> length (rd_document r))"

definition quiet :: "('t, 'f, 'm) rstate \<Rightarrow> ('t, 'f, 'm) rstate \<Rightarrow> bool" where
  "quiet r r' \<longleftrightarrow> keeps r r' \<and> rd_errors r' = rd_errors r"

lemma keeps_refl [simp]: "keeps r r"
  by (simp add: keeps_def)

lemma keeps_trans [trans]: "keeps r s \<Longrightarrow> keeps s t \<Longrightarrow> keeps r t"
  by (auto simp: keeps_def)

lemma quiet_refl [simp]: "quiet r r"
  by (simp add: quiet_def)

lemma quiet_trans [trans]: "quiet r s \<Longrightarrow> quiet s t \<Longrightarrow> quiet r t"
  by (auto simp: quiet_def intro: keeps_trans)

lemma quiet_keeps: "quiet r s \<Longrightarrow> keeps r s"
  by (simp add: quiet_def)

lemma quiet_advance: "n \<le> length (rest r) \<Longrightarrow> quiet r (advance n r)"
  by (auto simp: quiet_def keeps_def advance_def rest_def)

lemma quiet_skipSpaces: "quiet r (skipSpaces r)"
  by (simp add: skipSpaces_def quiet_advance length_takeWhile_le)

lemma quiet_update_res: "update_res p f r = Inr r' \<Longrightarrow> quiet r r'"
  by (auto simp: update_res_def res_simps quiet_def keeps_def split: option.splits)

lemma quiet_addComment: "addComment b e pl r = Inr r' \<Longrightarrow> quiet r r'"
  by (auto simp: addComment_def Let_def dest: quiet_update_res split: if_splits option.splits)
    (simp add: quiet_def keeps_def)

lemma quiet_getNextChar: "getNextChar r = (c, r') \<Longrightarrow> quiet r r'"
  by (auto simp: getNextChar_def intro: quiet_advance split: list.splits)

lemma quiet_scans:
  "readCStyleComment r = (ok, r') \<Longrightarrow> quiet r r'"
  "readCppStyleComment r = (ok, r') \<Longrightarrow> quiet r r'"
  "readString r = (ok, r') \<Longrightarrow> quiet r r'"
  "match_pattern pat r = (ok, r') \<Longrightarrow> quiet r r'"
  "quiet r (readNumber r)"
  using cStyleScan_le [of "rest r"] cppStyleScan_le [of "rest r"] stringScan_le [of "rest r"] numberScan_le [of "rest r"]
  by (auto simp: readCStyleComment_def readCppStyleComment_def readString_def match_pattern_def
      readNumber_def quiet_advance split: prod.splits if_splits)

lemma if_both: "P x \<Longrightarrow> P y \<Longrightarrow> P (if b then x else y)"
  by simp

lemma getNextChar_forward:
  "getNextChar s = (c, r) \<Longrightarrow> rest s \<noteq> [] \<Longrightarrow>
   rd_current r = Suc (rd_current s) \<and> Suc (rd_current s) \<le> length (rd_document s) \<and> rd_document r = rd_document s"
  by (auto simp: getNextChar_def advance_def rest_def split: list.splits)

end
