(* ===== verification/Json_Reader.thy ===== *)
theory Json_Reader
  imports Reader_State
begin

text \<open>
  \<^verbatim>\<open>Json::Reader\<close> (\<^verbatim>\<open>jsoncpp/src/json_reader.cpp\<close>, lines 30 to 855), the reader that the program uses:
  its tokens, the loops over them, the mutually recursive \<^verbatim>\<open>readValue\<close>, \<^verbatim>\<open>readObject\<close> and
  \<^verbatim>\<open>readArray\<close>, \<^verbatim>\<open>parse\<close> and the reports of errors. The recursion carries fuel; \<open>Reader_Termination\<close>
  shows that the fuel given by \<open>parse\<close> always suffices.
\<close>

section \<open>State\<close>

datatype token_type = tokenEndOfStream | tokenObjectBegin | tokenObjectEnd | tokenArrayBegin
  | tokenArrayEnd | tokenString | tokenNumber | tokenTrue | tokenFalse | tokenNull
  | tokenArraySeparator | tokenMemberSeparator | tokenComment | tokenError

type_synonym token = "token_type basic_token"

type_synonym error_info = "token_type basic_error"

record features =
  allowComments :: bool
  strictRoot :: bool
  allowDroppedNullPlaceholders :: bool
  allowNumericKeys :: bool

type_synonym reader = "(token_type, features) basic_reader"

definition features_all :: features where
  "features_all = \<lparr>allowComments = True, strictRoot = False,
     allowDroppedNullPlaceholders = False, allowNumericKeys = False\<rparr>"

definition features_strictMode :: features where
  "features_strictMode = \<lparr>allowComments = False, strictRoot = True,
     allowDroppedNullPlaceholders = False, allowNumericKeys = False\<rparr>"

definition stackLimit_g :: nat where "stackLimit_g = 1000"

section \<open>Tokens\<close>

definition commentPlacement :: "nat \<Rightarrow> char \<Rightarrow> reader \<Rightarrow> comment_placement" where
  "commentPlacement commentBegin c r = (case rd_lastValueEnd r of
       None \<Rightarrow> commentBefore
     | Some e \<Rightarrow>
         if \<not> containsNewLine (slice e commentBegin (rd_document r)) \<and>
            (c \<noteq> CHR ''*'' \<or> \<not> containsNewLine (slice commentBegin (rd_current r) (rd_document r)))
         then commentAfterOnSameLine else commentBefore)"

definition readComment :: "reader \<Rightarrow> (bool \<times> reader) res" where
  "readComment r =
     (let commentBegin = rd_current r - 1;
          (c, r1) = getNextChar r;
          (successful, r2) = (if c = CHR ''*'' then readCStyleComment r1
                              else if c = CHR ''/'' then readCppStyleComment r1
                              else (False, r1))
      in if \<not> successful then Inr (False, r2)
         else if rd_collectComments r2
         then rbind (addComment commentBegin (rd_current r2) (commentPlacement commentBegin c r2) r2)
                (\<lambda>r3. Inr (True, r3))
         else Inr (True, r2))"

text \<open>The switch of \<^verbatim>\<open>readToken\<close> on the character just read: type, success, state.\<close>

definition tokenBody :: "char \<Rightarrow> reader \<Rightarrow> (token_type \<times> bool \<times> reader) res" where
  "tokenBody c r =
     (if c = CHR ''{'' then Inr (tokenObjectBegin, True, r)
      else if c = CHR ''}'' then Inr (tokenObjectEnd, True, r)
      else if c = CHR ''['' then Inr (tokenArrayBegin, True, r)
      else if c = CHR '']'' then Inr (tokenArrayEnd, True, r)
      else if c = DQUOTE then Inr (tokenString, readString r)
      else if c = CHR ''/'' then rbind (readComment r) (\<lambda>(ok, r'). Inr (tokenComment, ok, r'))
      else if is_digit c \<or> c = CHR ''-'' then Inr (tokenNumber, True, readNumber r)
      else if c = CHR ''t'' then Inr (tokenTrue, match_pattern ''rue'' r)
      else if c = CHR ''f'' then Inr (tokenFalse, match_pattern ''alse'' r)
      else if c = CHR ''n'' then Inr (tokenNull, match_pattern ''ull'' r)
      else if c = CHR '','' then Inr (tokenArraySeparator, True, r)
      else if c = CHR '':'' then Inr (tokenMemberSeparator, True, r)
      else if c = NUL then Inr (tokenEndOfStream, True, r)
      else Inr (tokenError, False, r))"

definition readToken :: "reader \<Rightarrow> (bool \<times> token \<times> reader) res" where
  "readToken r0 =
     (let r1 = skipSpaces r0; (c, r2) = getNextChar r1 in
      rbind (tokenBody c r2) (\<lambda>(ty, ok, r3).
      Inr (ok, \<lparr>tok_type = (if ok then ty else tokenError), tok_start = rd_current r1, tok_end = rd_current r3\<rparr>, r3)))"

section \<open>Numbers and strings\<close>

text \<open>
  The accumulation loop of \<^verbatim>\<open>decodeNumber\<close> in 64-bit arithmetic; \<open>None\<close> is the change to
  \<^verbatim>\<open>decodeDouble\<close>.
\<close>

fun decodeNumber_loop :: "int \<Rightarrow> int \<Rightarrow> string \<Rightarrow> int option" where
  "decodeNumber_loop maxIntegerValue value [] = Some value"
| "decodeNumber_loop maxIntegerValue value (c # cs) =
     (if \<not> is_digit c then None
      else let digit = of_char c - 48; threshold = maxIntegerValue div 10 in
           if value \<ge> threshold \<and> (value > threshold \<or> cs \<noteq> [] \<or> digit > maxIntegerValue mod 10) then None
           else decodeNumber_loop maxIntegerValue (u64 (value * 10 + digit)) cs)"

definition decodeInteger :: "string \<Rightarrow> jdata option" where
  "decodeInteger txt =
     (let isNegative = (txt \<noteq> [] \<and> hd txt = CHR ''-'');
          maxIntegerValue = (if isNegative then INT64_MAX + 1 else UINT64_MAX)
      in case decodeNumber_loop maxIntegerValue 0 (if isNegative then tl txt else txt) of
           None \<Rightarrow> None
         | Some value \<Rightarrow>
             Some (if isNegative \<and> value = maxIntegerValue then IntV INT64_MIN
                   else if isNegative then IntV (- s64 value)
                   else if value \<le> INT_MAX then IntV (s64 value)
                   else UIntV value))"

definition decodeNumber :: "token \<Rightarrow> reader \<Rightarrow> jdata option \<times> reader" where
  "decodeNumber token r = (case decodeInteger (token_text token r) of
       Some d \<Rightarrow> (Some d, r)
     | None \<Rightarrow> decodeDouble token r)"

section \<open>Tokens make progress\<close>

lemma quiet_readComment: "readComment r = Inr (ok, r') \<Longrightarrow> quiet r r'"
  unfolding readComment_def Let_def
  by (auto simp: res_simps split: prod.splits if_splits
      dest!: quiet_getNextChar quiet_scans(1,2) quiet_addComment intro: quiet_trans)

definition body_quiet :: "reader \<Rightarrow> (token_type \<times> bool \<times> reader) res \<Rightarrow> bool" where
  "body_quiet r m \<longleftrightarrow> (\<forall>ty ok r'. m = Inr (ty, ok, r') \<longrightarrow> quiet r r')"

lemma body_quietI:
  "quiet r r' \<Longrightarrow> body_quiet r (Inr (ty, ok, r'))"
  "(\<And>ok r'. p = (ok, r') \<Longrightarrow> quiet r r') \<Longrightarrow> body_quiet r (Inr (ty, p))"
  "(\<And>ok r'. m = Inr (ok, r') \<Longrightarrow> quiet r r') \<Longrightarrow> body_quiet r (rbind m (\<lambda>(ok, r'). Inr (ty, ok, r')))"
  by (auto simp: body_quiet_def res_simps)

lemma body_quiet_leaves:
  "body_quiet r (Inr (ty, b, r))"
  "body_quiet r (Inr (ty, readString r))"
  "body_quiet r (Inr (ty, b, readNumber r))"
  "body_quiet r (Inr (ty, match_pattern pat r))"
  "body_quiet r (rbind (readComment r) (\<lambda>(ok, r'). Inr (ty, ok, r')))"
  by (auto simp: body_quiet_def res_simps quiet_scans quiet_readComment dest: quiet_scans(3,4))

lemma body_quiet_tokenBody: "body_quiet r (tokenBody c r)"
  unfolding tokenBody_def by (intro if_both [where P = "body_quiet r"] body_quiet_leaves)

lemma quiet_tokenBody: "tokenBody c r = Inr (ty, ok, r') \<Longrightarrow> quiet r r'"
  using body_quiet_tokenBody [of r c] by (auto simp: body_quiet_def)

lemma readToken_quiet: "readToken r = Inr (ok, tok, r') \<Longrightarrow> quiet r r'"
  unfolding readToken_def Let_def
  by (auto simp: res_simps split: prod.splits
      dest!: quiet_tokenBody quiet_getNextChar intro: quiet_trans [OF quiet_skipSpaces] quiet_trans)

lemma readToken_progress:
  assumes "readToken r = Inr (ok, tok, r')" "tok_type tok \<noteq> tokenEndOfStream"
  shows "rd_current r < rd_current r' \<and> rd_current r' \<le> length (rd_document r)"
proof -
  let ?s = "skipSpaces r"
  obtain c r2 ty where g: "getNextChar ?s = (c, r2)" and b: "tokenBody c r2 = Inr (ty, ok, r')"
    and t: "tok_type tok = (if ok then ty else tokenError)"
    using assms(1) unfolding readToken_def Let_def by (auto simp: res_simps split: prod.splits)
  have "rest ?s \<noteq> []"
  proof
    assume "rest ?s = []"
    then have "c = NUL" using g by (simp add: getNextChar_def)
    then have "ok \<and> ty = tokenEndOfStream" using b by (simp add: tokenBody_def is_digit_def)
    then show False using assms(2) t by simp
  qed
  from getNextChar_forward [OF g this] show ?thesis
    using quiet_skipSpaces [of r] quiet_tokenBody [OF b] by (auto simp: quiet_def keeps_def)
qed

text \<open>An error inside a token is not the end of the stream either.\<close>

lemma readToken_fail_progress:
  "readToken r = Inr (False, tok, r') \<Longrightarrow> rd_current r < rd_current r' \<and> rd_current r' \<le> length (rd_document r)"
  by (rule readToken_progress) (auto simp: readToken_def Let_def res_simps split: prod.splits)

section \<open>Loops over tokens\<close>

text \<open>Reading on while the token is a comment and was read without error.\<close>

function skipComments :: "bool \<Rightarrow> token \<Rightarrow> reader \<Rightarrow> (bool \<times> token \<times> reader) res" where
  "skipComments ok tok r =
     (if tok_type tok = tokenComment \<and> ok
      then rbind (readToken r) (\<lambda>(ok', tok', r').
             if tok_type tok' = tokenComment \<and> ok' then skipComments ok' tok' r' else Inr (ok', tok', r'))
      else Inr (ok, tok, r))"
  by pat_completeness auto
termination
proof (relation "measure (\<lambda>(ok, tok, r). length (rd_document r) - rd_current r)", goal_cases)
  case (2 ok tok r x ok' z tok' r')
  then have "readToken r = Inr (ok', tok', r')" "tok_type tok' \<noteq> tokenEndOfStream" by auto
  with readToken_progress [of r ok' tok' r'] readToken_quiet [of r ok' tok' r']
  show ?case by (auto simp: quiet_def keeps_def)
qed simp

declare skipComments.simps [simp del]

text \<open>\<^verbatim>\<open>skipCommentTokens\<close>: the first token that is no comment, or any token if comments are not allowed.\<close>

definition skipCommentTokens :: "reader \<Rightarrow> (token \<times> reader) res" where
  "skipCommentTokens r =
     rbind (readToken r) (\<lambda>(ok, tok, r1).
     if allowComments (rd_features r)
     then rbind (skipComments ok tok r1) (\<lambda>(_, tok', r2). Inr (tok', r2))
     else Inr (tok, r1))"

text \<open>
  \<^verbatim>\<open>recoverFromError\<close> reads tokens up to the one given or to the end, and leaves the errors as they
  were on entry.
\<close>

function recoverLoop :: "token_type \<Rightarrow> reader \<Rightarrow> reader res" where
  "recoverLoop skipUntilToken r =
     rbind (readToken r) (\<lambda>(ok, skip, r').
     if tok_type skip = skipUntilToken \<or> tok_type skip = tokenEndOfStream then Inr r'
     else recoverLoop skipUntilToken r')"
  by pat_completeness auto
termination
proof (relation "measure (\<lambda>(t, r). length (rd_document r) - rd_current r)", goal_cases)
  case (2 t r x ok z skip r')
  then have "readToken r = Inr (ok, skip, r')" "tok_type skip \<noteq> tokenEndOfStream" by auto
  with readToken_progress [of r ok skip r'] readToken_quiet [of r ok skip r']
  show ?case by (auto simp: quiet_def keeps_def)
qed simp

declare recoverLoop.simps [simp del]

definition recoverFromError :: "token_type \<Rightarrow> reader \<Rightarrow> (bool \<times> reader) res" where
  "recoverFromError skipUntilToken r =
     rbind (recoverLoop skipUntilToken r) (\<lambda>r'. Inr (False, r'\<lparr>rd_errors := take (length (rd_errors r)) (rd_errors r')\<rparr>))"

definition addErrorAndRecover :: "string \<Rightarrow> token \<Rightarrow> token_type \<Rightarrow> reader \<Rightarrow> (bool \<times> reader) res" where
  "addErrorAndRecover message token skipUntilToken r =
     recoverFromError skipUntilToken (addError message token None r)"

section \<open>Values, objects, arrays\<close>

definition offsets :: "token \<Rightarrow> jvalue \<Rightarrow> jvalue" where
  "offsets token v = setOffsetLimit (int (tok_end token)) (setOffsetStart (int (tok_start token)) v)"

text \<open>Storing a decoded payload in the current value.\<close>

definition storeDecoded :: "jdata option \<times> reader \<Rightarrow> token \<Rightarrow> bool \<times> reader" where
  "storeDecoded p token = (case p of
       (None, r) \<Rightarrow> (False, r)
     | (Some d, r) \<Rightarrow> (True, set_current (\<lambda>v. offsets token (set_payload d v)) r))"

definition rememberLast :: "reader \<Rightarrow> reader" where
  "rememberLast r =
     (if rd_collectComments r
      then r\<lparr>rd_lastValueEnd := Some (rd_current r), rd_lastValue := Some (current_path r)\<rparr>
      else r)"

text \<open>The branches of \<^verbatim>\<open>readValue\<close>'s switch that neither recurse nor fail.\<close>

definition readScalar :: "token \<Rightarrow> reader \<Rightarrow> bool \<times> reader" where
  "readScalar token r = (case tok_type token of
       tokenNumber \<Rightarrow> storeDecoded (decodeNumber token r) token
     | tokenString \<Rightarrow> storeDecoded (case decodeString token r of (s, r') \<Rightarrow> (map_option StringV s, r')) token
     | tokenTrue \<Rightarrow> storeDecoded (Some (BoolV True), r) token
     | tokenFalse \<Rightarrow> storeDecoded (Some (BoolV False), r) token
     | _ \<Rightarrow> storeDecoded (Some NullV, r) token)"

definition isScalarToken :: "token_type \<Rightarrow> bool" where
  "isScalarToken t \<longleftrightarrow> t \<in> {tokenNumber, tokenString, tokenTrue, tokenFalse, tokenNull}"

text \<open>
  The name of the next member: the string, or the text of a number where these are allowed.
  \<open>None\<close> is the error already reported; the outer \<open>None\<close> another token.
\<close>

definition memberName :: "token \<Rightarrow> reader \<Rightarrow> (string option \<times> reader) option res" where
  "memberName token r =
     (if tok_type token = tokenString then Inr (Some (decodeString token r))
      else if tok_type token = tokenNumber \<and> allowNumericKeys (rd_features r) then
        (case decodeNumber token r of
           (None, r') \<Rightarrow> Inr (Some (None, r'))
         | (Some d, r') \<Rightarrow> rbind (asString (initBasic d)) (\<lambda>s. Inr (Some (Some s, r'))))
      else Inr None)"

fun readValue :: "nat \<Rightarrow> reader \<Rightarrow> (bool \<times> reader) res"
  and readObjectLoop :: "nat \<Rightarrow> string \<Rightarrow> reader \<Rightarrow> (bool \<times> reader) res"
  and readArrayLoop :: "nat \<Rightarrow> nat \<Rightarrow> reader \<Rightarrow> (bool \<times> reader) res" where
  "readValue 0 r = Inl OutOfFuel"
| "readValue (Suc fuel) r0 =
     (if stackLimit_g < length (rd_nodes r0) then Inl (RuntimeError ''Exceeded stackLimit in readValue().'')
      else rbind (skipCommentTokens r0) (\<lambda>(token, r1).
      rbind (takeCommentsBefore r1) (\<lambda>r.
      if tok_type token = tokenObjectBegin then
        rbind (readObjectLoop fuel [] (set_current (\<lambda>v. setOffsetStart (int (tok_start token)) (set_payload (ObjectV []) v)) r))
          (\<lambda>(ok, r'). Inr (ok, rememberLast (set_current (setOffsetLimit (int (rd_current r'))) r')))
      else if tok_type token = tokenArrayBegin then
        (let ra = skipSpaces (set_current (\<lambda>v. setOffsetStart (int (tok_start token)) (set_payload (ArrayV []) v)) r)
         in rbind (if rest ra \<noteq> [] \<and> hd (rest ra) = CHR '']''
                   then rbind (readToken ra) (\<lambda>(_, _, rb). Inr (True, rb))
                   else readArrayLoop fuel 0 ra)
          (\<lambda>(ok, r'). Inr (ok, rememberLast (set_current (setOffsetLimit (int (rd_current r'))) r'))))
      else if isScalarToken (tok_type token) then
        Inr (case readScalar token r of (ok, r') \<Rightarrow> (ok, rememberLast r'))
      else if tok_type token \<in> {tokenArraySeparator, tokenObjectEnd, tokenArrayEnd} \<and>
              allowDroppedNullPlaceholders (rd_features r) then
        (let r' = r\<lparr>rd_current := rd_current r - 1\<rparr> in
         Inr (True, rememberLast (set_current (\<lambda>v. setOffsetLimit (int (rd_current r'))
           (setOffsetStart (int (rd_current r') - 1) (set_payload NullV v))) r')))
      else Inr (False, addError ''Syntax error: value, object or array expected.'' token None
                         (set_current (offsets token) r)))))"
| "readObjectLoop 0 name r = Inl OutOfFuel"
| "readObjectLoop (Suc fuel) name r0 =
     rbind (readToken r0) (\<lambda>(ok0, tok0, r1).
     rbind (if ok0 then skipComments True tok0 r1 else Inr (False, tok0, r1)) (\<lambda>(ok, tokenName, r2).
     if \<not> ok then addErrorAndRecover ''Missing '}' or object member name'' tokenName tokenObjectEnd r2
     else if tok_type tokenName = tokenObjectEnd \<and> name = [] then Inr (True, r2)
     else rbind (memberName tokenName r2) (\<lambda>decoded. case decoded of
       None \<Rightarrow> addErrorAndRecover ''Missing '}' or object member name'' tokenName tokenObjectEnd r2
     | Some (None, r3) \<Rightarrow> recoverFromError tokenObjectEnd r3
     | Some (Some name', r3) \<Rightarrow>
         rbind (readToken r3) (\<lambda>(okc, colon, r4).
         if \<not> okc \<or> tok_type colon \<noteq> tokenMemberSeparator
         then addErrorAndRecover ''Missing ':' after object member name'' colon tokenObjectEnd r4
         else rbind (update_res (current_path r4) (\<lambda>v. rbind (resolveReference name' v) (\<lambda>(v', _). Inr v')) r4) (\<lambda>r5.
         rbind (readValue fuel (pushNode (KindKey name') r5)) (\<lambda>(okv, r6).
         if \<not> okv then recoverFromError tokenObjectEnd (popNode r6)
         else rbind (readToken (popNode r6)) (\<lambda>(okm, comma, r7).
         if \<not> okm \<or> tok_type comma \<notin> {tokenObjectEnd, tokenArraySeparator, tokenComment}
         then addErrorAndRecover ''Missing ',' or '}' in object declaration'' comma tokenObjectEnd r7
         else rbind (skipComments True comma r7) (\<lambda>(_, comma', r8).
         if tok_type comma' = tokenObjectEnd then Inr (True, r8)
         else readObjectLoop fuel name' r8))))))))"
| "readArrayLoop 0 index r = Inl OutOfFuel"
| "readArrayLoop (Suc fuel) index r0 =
     rbind (update_res (current_path r0) (\<lambda>v. rbind (index_ref index v) (\<lambda>(v', _). Inr v')) r0) (\<lambda>r1.
     rbind (readValue fuel (pushNode (KindIndex index) r1)) (\<lambda>(ok, r2).
     if \<not> ok then recoverFromError tokenArrayEnd (popNode r2)
     else rbind (readToken (popNode r2)) (\<lambda>(ok0, tok0, r3).
     rbind (skipComments ok0 tok0 r3) (\<lambda>(ok1, currentToken, r4).
     if \<not> ok1 \<or> tok_type currentToken \<notin> {tokenArraySeparator, tokenArrayEnd}
     then addErrorAndRecover ''Missing ',' or ']' in array declaration'' currentToken tokenArrayEnd r4
     else if tok_type currentToken = tokenArrayEnd then Inr (True, r4)
     else readArrayLoop fuel (Suc index) r4))))"

section \<open>Parsing\<close>

definition mk_reader :: "features \<Rightarrow> string \<Rightarrow> jvalue \<Rightarrow> bool \<Rightarrow> reader" where
  "mk_reader feats doc root collectComments =
     \<lparr>rd_document = doc, rd_current = 0, rd_lastValueEnd = None, rd_lastValue = None,
      rd_commentsBefore = [], rd_errors = [], rd_nodes = [[]], rd_root = root, rd_features = feats,
      rd_collectComments = (allowComments feats \<and> collectComments)\<rparr>"

definition parse_fuel :: "string \<Rightarrow> nat" where
  "parse_fuel doc = 2 * length doc + 2"

definition parse :: "features \<Rightarrow> string \<Rightarrow> jvalue \<Rightarrow> bool \<Rightarrow> (bool \<times> reader) res" where
  "parse feats doc root collectComments =
     rbind (readValue (parse_fuel doc) (mk_reader feats doc root collectComments)) (\<lambda>(successful, r1).
     rbind (skipCommentTokens r1) (\<lambda>(token, r2).
     rbind (if rd_collectComments r2 \<and> rd_commentsBefore r2 \<noteq> []
            then update_res [] (setComment (rd_commentsBefore r2) commentAfter) r2 else Inr r2) (\<lambda>r3.
     if strictRoot feats \<and> \<not> isArray (rd_root r3) \<and> \<not> isObject (rd_root r3)
     then Inr (False, addError ''A valid JSON document must be either an array or an object value.''
                 \<lparr>tok_type = tokenError, tok_start = 0, tok_end = length doc\<rparr> None r3)
     else Inr (successful, r3))))"

text \<open>\<^verbatim>\<open>Reader reader; reader.parse(document, root)\<close> with the default features and comments.\<close>

definition reader_parse :: "string \<Rightarrow> (bool \<times> jvalue) res" where
  "reader_parse doc = rbind (parse features_all doc nullSingleton True) (\<lambda>(ok, r). Inr (ok, rd_root r))"

text \<open>Error reports.\<close>

definition good :: "reader \<Rightarrow> bool" where "good r \<longleftrightarrow> rd_errors r = []"

definition getLocationLineAndColumn :: "nat \<Rightarrow> reader \<Rightarrow> int \<times> int" where
  "getLocationLineAndColumn location r =
     (let (line, lastLineStart) = lineLoop (rd_document r) location 0 0 0
      in (int line + 1, int location - int lastLineStart + 1))"

definition locationText :: "nat \<Rightarrow> reader \<Rightarrow> string" where
  "locationText location r =
     (let (line, column) = getLocationLineAndColumn location r
      in ''Line '' @ valueToString_int line @ '', Column '' @ valueToString_int column)"

definition getFormattedErrorMessages :: "reader \<Rightarrow> string" where
  "getFormattedErrorMessages r =
     concat (map (\<lambda>e. ''* '' @ locationText (tok_start (err_token e)) r @ [LF] @
       ''  '' @ err_message e @ [LF] @
       (case err_extra e of None \<Rightarrow> [] | Some x \<Rightarrow> ''See '' @ locationText x r @ '' for detail.'' @ [LF]))
     (rd_errors r))"

record structured_error =
  offset_start :: int
  offset_limit :: int
  message :: string

definition getStructuredErrors :: "reader \<Rightarrow> structured_error list" where
  "getStructuredErrors r =
     map (\<lambda>e. \<lparr>offset_start = int (tok_start (err_token e)), offset_limit = int (tok_end (err_token e)),
               message = err_message e\<rparr>) (rd_errors r)"

definition pushError :: "jvalue \<Rightarrow> string \<Rightarrow> reader \<Rightarrow> bool \<times> reader" where
  "pushError value msg r =
     (let len = int (length (rd_document r)) in
      if start_of value > len \<or> limit_of value > len then (False, r)
      else (True, addError msg \<lparr>tok_type = tokenError, tok_start = nat (start_of value),
                               tok_end = nat (limit_of value)\<rparr> None r))"

definition pushError_extra :: "jvalue \<Rightarrow> string \<Rightarrow> jvalue \<Rightarrow> reader \<Rightarrow> bool \<times> reader" where
  "pushError_extra value msg extra r =
     (let len = int (length (rd_document r)) in
      if start_of value > len \<or> limit_of value > len \<or> limit_of extra > len then (False, r)
      else (True, addError msg \<lparr>tok_type = tokenError, tok_start = nat (start_of value),
                               tok_end = nat (limit_of value)\<rparr> (Some (nat (start_of extra))) r))"

end
