(* ===== verification/Json_Writer.thy ===== *)
theory Json_Writer
  imports Json_Text
begin

text \<open>
  The writers of \<^verbatim>\<open>jsoncpp/src/json_writer.cpp\<close> that the program uses: \<^verbatim>\<open>FastWriter\<close>,
  \<^verbatim>\<open>BuiltStyledStreamWriter\<close> with its builder, and \<^verbatim>\<open>Value::toStyledString\<close>. The output stream is the
  text written so far. The recursion over a value follows the loops of the source: over the indices
  0, 1, ... of an array (a hole reads as null) and over the member names of an object. The
  conversions of a scalar, e.g. \<^verbatim>\<open>asLargestInt\<close> of an integer, return the payload of that type, so the
  case analysis on the payload includes them.
\<close>

section \<open>Children\<close>

text \<open>\<^verbatim>\<open>value[0], value[1], ...\<close> and \<^verbatim>\<open>value[name]\<close> for the member names.\<close>

definition array_children :: "jvalue \<Rightarrow> jvalue list" where
  "array_children v =
     map (\<lambda>i. case elements v i of None \<Rightarrow> nullSingleton | Some w \<Rightarrow> w) [0..<size_of v]"

definition object_children :: "jvalue \<Rightarrow> (string \<times> jvalue) list" where
  "object_children v =
     (case getMemberNames v of
        Inl _ \<Rightarrow> []
      | Inr names \<Rightarrow> map (\<lambda>n. (n, case members v n of None \<Rightarrow> nullSingleton | Some w \<Rightarrow> w)) names)"

definition max_size :: "jvalue list \<Rightarrow> nat" where
  "max_size vs = fold (\<lambda>v n. max (size v) n) vs 0"

lemma fold_max_acc: "fold (\<lambda>v n. max (f v) n) vs (k::nat) = max k (fold (\<lambda>v n. max (f v) n) vs 0)"
proof (induction vs arbitrary: k)
  case (Cons a vs)
  show ?case using Cons [of "max (f a) k"] Cons [of "f a"] by simp
qed simp

lemma max_size_Nil [simp]: "max_size [] = 0"
  by (simp add: max_size_def)

lemma max_size_Cons [simp]: "max_size (v # vs) = max (size v) (max_size vs)"
  using fold_max_acc [of size vs "size v"] by (simp add: max_size_def)

lemma max_size_less: "\<forall>v\<in>set vs. size v < n \<Longrightarrow> 0 < n \<Longrightarrow> max_size vs < n"
  by (induction vs) auto

lemma size_map_entry:
  "map_of m k = Some w \<Longrightarrow> size w < size_list (size_prod (\<lambda>_. 0) size) m"
  by (induction m) (auto split: if_splits)

lemma size_elements: "elements v i = Some w \<Longrightarrow> size w < size v"
  by (cases v; cases "payload v") (auto simp: elements_def dest: size_map_entry)

lemma size_members: "members v k = Some w \<Longrightarrow> size w < size v"
  by (cases v; cases "payload v") (auto simp: members_def dest: size_map_entry)

lemma size_nullSingleton: "0 < size_of v \<Longrightarrow> size nullSingleton < size v"
  by (cases v; cases "payload v") (auto simp: size_of_def initBasic_def neq_Nil_conv split: if_splits)

lemma max_size_array_children: "max_size (array_children v) < size v"
proof (rule max_size_less)
  show "\<forall>w\<in>set (array_children v). size w < size v"
    using size_nullSingleton [of v]
    by (auto simp: array_children_def size_elements split: option.splits)
qed (cases v, simp)

lemma getMemberNames_entry: "getMemberNames v = Inr names \<Longrightarrow> n \<in> set names \<Longrightarrow> members v n \<noteq> None"
  by (cases "payload v") (auto simp: getMemberNames_def members_def map_of_eq_None_iff)

lemma max_size_object_children: "max_size (map snd (object_children v)) < size v"
proof (rule max_size_less)
  show "\<forall>w\<in>set (map snd (object_children v)). size w < size v"
    by (auto simp: object_children_def size_members dest: getMemberNames_entry [OF sym]
        split: sum.splits option.splits)
qed (cases v, simp)

lemmas child_sizes [termination_simp] = max_size_array_children max_size_object_children

section \<open>FastWriter\<close>

record fast_writer =
  fw_document :: string
  fw_yamlCompatibilityEnabled :: bool
  fw_dropNullPlaceholders :: bool
  fw_omitEndingLineFeed :: bool

definition fast_writer_init :: fast_writer where
  "fast_writer_init = \<lparr>fw_document = [], fw_yamlCompatibilityEnabled = False,
     fw_dropNullPlaceholders = False, fw_omitEndingLineFeed = False\<rparr>"

definition fw_put :: "string \<Rightarrow> fast_writer \<Rightarrow> fast_writer" where
  "fw_put s w = w\<lparr>fw_document := fw_document w @ s\<rparr>"

function fw_writeValue :: "jvalue \<Rightarrow> fast_writer \<Rightarrow> fast_writer"
  and fw_elements :: "bool \<Rightarrow> jvalue list \<Rightarrow> fast_writer \<Rightarrow> fast_writer"
  and fw_members :: "bool \<Rightarrow> (string \<times> jvalue) list \<Rightarrow> fast_writer \<Rightarrow> fast_writer" where
  "fw_writeValue v w = (case payload v of
       NullV \<Rightarrow> if \<not> fw_dropNullPlaceholders w then fw_put ''null'' w else w
     | IntV i \<Rightarrow> fw_put (valueToString_int i) w
     | UIntV u \<Rightarrow> fw_put (valueToString_uint u) w
     | RealV d \<Rightarrow> fw_put (valueToString_double d False 17 significantDigits) w
     | StringV s \<Rightarrow> fw_put (valueToQuotedStringN s False) w
     | BoolV b \<Rightarrow> fw_put (valueToString_bool b) w
     | ArrayV _ \<Rightarrow> fw_put '']'' (fw_elements True (array_children v) (fw_put ''['' w))
     | ObjectV _ \<Rightarrow> fw_put ''}'' (fw_members True (object_children v) (fw_put ''{'' w)))"
| "fw_elements first [] w = w"
| "fw_elements first (c # cs) w =
     fw_elements False cs (fw_writeValue c (if first then w else fw_put '','' w))"
| "fw_members first [] w = w"
| "fw_members first ((name, c) # cs) w =
     fw_members False cs
       (fw_writeValue c
         (fw_put (if fw_yamlCompatibilityEnabled w then '': '' else '':'')
           (fw_put (valueToQuotedStringN name False) (if first then w else fw_put '','' w))))"
  by pat_completeness auto
termination
  by (relation "inv_image (less_than <*lex*> less_than)
        (\<lambda>x. case x of Inl (v, w) \<Rightarrow> (size v, 0)
        | Inr (Inl (b, cs, w)) \<Rightarrow> (max_size cs, Suc (length cs))
        | Inr (Inr (b, cs, w)) \<Rightarrow> (max_size (map snd cs), Suc (length cs)))")
    (auto simp: child_sizes le_less)

declare fw_writeValue.simps [simp del]

definition fw_write :: "jvalue \<Rightarrow> fast_writer \<Rightarrow> fast_writer" where
  "fw_write root w =
     (let w1 = fw_writeValue root (w\<lparr>fw_document := []\<rparr>)
      in if \<not> fw_omitEndingLineFeed w1 then fw_put [LF] w1 else w1)"

section \<open>BuiltStyledStreamWriter\<close>

datatype comment_style = CS_None | CS_Most | CS_All

record styled_writer =
  bw_sout :: string
  bw_childValues :: "string list"
  bw_indentString :: string
  bw_rightMargin :: nat
  bw_indentation :: string
  bw_cs :: comment_style
  bw_colonSymbol :: string
  bw_nullSymbol :: string
  bw_endingLineFeedSymbol :: string
  bw_addChildValues :: bool
  bw_indented :: bool
  bw_useSpecialFloats :: bool
  bw_emitUTF8 :: bool
  bw_precision :: nat
  bw_precisionType :: precision_type

definition bw_new :: "string \<Rightarrow> comment_style \<Rightarrow> string \<Rightarrow> string \<Rightarrow> string \<Rightarrow> bool \<Rightarrow> bool \<Rightarrow> nat \<Rightarrow>
    precision_type \<Rightarrow> styled_writer" where
  "bw_new indentation cs colonSymbol nullSymbol endingLineFeedSymbol useSpecialFloats emitUTF8 precision pt =
     \<lparr>bw_sout = [], bw_childValues = [], bw_indentString = [], bw_rightMargin = 74,
      bw_indentation = indentation, bw_cs = cs, bw_colonSymbol = colonSymbol,
      bw_nullSymbol = nullSymbol, bw_endingLineFeedSymbol = endingLineFeedSymbol,
      bw_addChildValues = False, bw_indented = False, bw_useSpecialFloats = useSpecialFloats,
      bw_emitUTF8 = emitUTF8, bw_precision = precision, bw_precisionType = pt\<rparr>"

definition bw_put :: "string \<Rightarrow> styled_writer \<Rightarrow> styled_writer" where
  "bw_put s w = w\<lparr>bw_sout := bw_sout w @ s\<rparr>"

definition bw_pushValue :: "string \<Rightarrow> styled_writer \<Rightarrow> styled_writer" where
  "bw_pushValue value w =
     (if bw_addChildValues w then w\<lparr>bw_childValues := bw_childValues w @ [value]\<rparr> else bw_put value w)"

definition bw_writeIndent :: "styled_writer \<Rightarrow> styled_writer" where
  "bw_writeIndent w = (if bw_indentation w \<noteq> [] then bw_put (LF # bw_indentString w) w else w)"

definition bw_writeWithIndent :: "string \<Rightarrow> styled_writer \<Rightarrow> styled_writer" where
  "bw_writeWithIndent value w =
     (bw_put value (if \<not> bw_indented w then bw_writeIndent w else w))\<lparr>bw_indented := False\<rparr>"

definition bw_indent :: "styled_writer \<Rightarrow> styled_writer" where
  "bw_indent w = w\<lparr>bw_indentString := bw_indentString w @ bw_indentation w\<rparr>"

definition bw_unindent :: "styled_writer \<Rightarrow> styled_writer" where
  "bw_unindent w = w\<lparr>bw_indentString :=
     take (length (bw_indentString w) - length (bw_indentation w)) (bw_indentString w)\<rparr>"

text \<open>The text of a comment: every line that starts with a slash is indented.\<close>

fun comment_text :: "string \<Rightarrow> string \<Rightarrow> string" where
  "comment_text ind [] = []"
| "comment_text ind (c # cs) =
     c # (if c = LF \<and> cs \<noteq> [] \<and> hd cs = CHR ''/'' then ind else []) @ comment_text ind cs"

definition bw_writeCommentBeforeValue :: "jvalue \<Rightarrow> styled_writer \<Rightarrow> styled_writer" where
  "bw_writeCommentBeforeValue root w =
     (if bw_cs w = CS_None then w
      else if \<not> hasComment commentBefore root then w
      else (let w1 = (if \<not> bw_indented w then bw_writeIndent w else w)
            in (bw_put (comment_text (bw_indentString w1) (getComment commentBefore root)) w1)
                 \<lparr>bw_indented := False\<rparr>))"

definition bw_writeCommentAfterValueOnSameLine :: "jvalue \<Rightarrow> styled_writer \<Rightarrow> styled_writer" where
  "bw_writeCommentAfterValueOnSameLine root w =
     (if bw_cs w = CS_None then w
      else (let w1 = (if hasComment commentAfterOnSameLine root
                      then bw_put ('' '' @ getComment commentAfterOnSameLine root) w else w)
            in if hasComment commentAfter root
               then bw_put (getComment commentAfter root) (bw_writeIndent w1) else w1))"

definition hasCommentForValue :: "jvalue \<Rightarrow> bool" where
  "hasCommentForValue v \<longleftrightarrow> hasComment commentBefore v \<or> hasComment commentAfterOnSameLine v \<or>
     hasComment commentAfter v"

text \<open>The test of \<^verbatim>\<open>isMultilineArray\<close> that needs no text of the elements; 32-bit products wrap.\<close>

definition multiline_by_shape :: "nat \<Rightarrow> jvalue \<Rightarrow> bool" where
  "multiline_by_shape rightMargin v \<longleftrightarrow>
     (size_of v * 3) mod 2 ^ 32 \<ge> rightMargin \<or>
     list_ex (\<lambda>c. (isArray c \<or> isObject c) \<and> \<not> value_empty c) (array_children v)"

definition line_length :: "nat \<Rightarrow> string list \<Rightarrow> nat" where
  "line_length n childValues =
     fold (\<lambda>s len. (len + length s) mod 2 ^ 32) (take n childValues) ((4 + (n - 1) * 2) mod 2 ^ 32)"

definition child_value :: "nat \<Rightarrow> string list \<Rightarrow> string" where
  "child_value i cs = (if i < length cs then cs ! i else [])"

text \<open>
  \<open>bw_collect\<close> is the loop of \<^verbatim>\<open>isMultilineArray\<close> that writes the elements into \<^verbatim>\<open>childValues_\<close>;
  \<open>bw_elements\<close> and \<open>bw_members\<close> are the loops of \<^verbatim>\<open>writeArrayValue\<close> and \<^verbatim>\<open>writeValue\<close>.
\<close>

function bw_writeValue :: "jvalue \<Rightarrow> styled_writer \<Rightarrow> styled_writer"
  and bw_writeArrayValue :: "jvalue \<Rightarrow> styled_writer \<Rightarrow> styled_writer"
  and bw_isMultilineArray :: "jvalue \<Rightarrow> styled_writer \<Rightarrow> bool \<times> styled_writer"
  and bw_collect :: "jvalue list \<Rightarrow> styled_writer \<Rightarrow> styled_writer"
  and bw_elements :: "bool \<Rightarrow> nat \<Rightarrow> jvalue list \<Rightarrow> styled_writer \<Rightarrow> styled_writer"
  and bw_members :: "(string \<times> jvalue) list \<Rightarrow> styled_writer \<Rightarrow> styled_writer" where
  "bw_writeValue v w = (case payload v of
       NullV \<Rightarrow> bw_pushValue (bw_nullSymbol w) w
     | IntV i \<Rightarrow> bw_pushValue (valueToString_int i) w
     | UIntV u \<Rightarrow> bw_pushValue (valueToString_uint u) w
     | RealV d \<Rightarrow> bw_pushValue
         (valueToString_double d (bw_useSpecialFloats w) (bw_precision w) (bw_precisionType w)) w
     | StringV s \<Rightarrow> bw_pushValue (valueToQuotedStringN s (bw_emitUTF8 w)) w
     | BoolV b \<Rightarrow> bw_pushValue (valueToString_bool b) w
     | ArrayV _ \<Rightarrow> bw_writeArrayValue v w
     | ObjectV _ \<Rightarrow>
         (if object_children v = [] then bw_pushValue ''{}'' w
          else bw_writeWithIndent ''}'' (bw_unindent
                 (bw_members (object_children v) (bw_indent (bw_writeWithIndent ''{'' w))))))"
| "bw_writeArrayValue v w =
     (if size_of v = 0 then bw_pushValue ''[]'' w
      else let (isMultiLine, w1) = (if bw_cs w = CS_All then (True, w) else bw_isMultilineArray v w)
           in if isMultiLine
              then let w2 = bw_indent (bw_writeWithIndent ''['' w1)
                   in bw_writeWithIndent '']'' (bw_unindent
                        (bw_elements (bw_childValues w2 \<noteq> []) 0 (array_children v) w2))
              else bw_put '']'' (bw_put (if bw_indentation w1 \<noteq> [] then '' '' else [])
                     (bw_put (concat (map (\<lambda>i. (if 0 < i then (if bw_indentation w1 \<noteq> [] then '', '' else '','') else [])
                                                 @ child_value i (bw_childValues w1)) [0..<size_of v]))
                       (bw_put (if bw_indentation w1 \<noteq> [] then '' '' else []) (bw_put ''['' w1)))))"
| "bw_isMultilineArray v w =
     (let w1 = w\<lparr>bw_childValues := []\<rparr> in
      if multiline_by_shape (bw_rightMargin w) v then (True, w1)
      else let w2 = (bw_collect (array_children v) (w1\<lparr>bw_addChildValues := True\<rparr>))\<lparr>bw_addChildValues := False\<rparr>
           in (list_ex hasCommentForValue (array_children v) \<or>
               line_length (size_of v) (bw_childValues w2) \<ge> bw_rightMargin w2, w2))"
| "bw_collect [] w = w"
| "bw_collect (c # cs) w = bw_collect cs (bw_writeValue c w)"
| "bw_elements hasChildValue index [] w = w"
| "bw_elements hasChildValue index (c # cs) w =
     (let w1 = bw_writeCommentBeforeValue c w;
          w2 = (if hasChildValue then bw_writeWithIndent (child_value index (bw_childValues w1)) w1
                else (bw_writeValue c ((if \<not> bw_indented w1 then bw_writeIndent w1 else w1)
                        \<lparr>bw_indented := True\<rparr>))\<lparr>bw_indented := False\<rparr>)
      in if cs = [] then bw_writeCommentAfterValueOnSameLine c w2
         else bw_elements hasChildValue (Suc index) cs
                (bw_writeCommentAfterValueOnSameLine c (bw_put '','' w2)))"
| "bw_members [] w = w"
| "bw_members ((name, c) # cs) w =
     (let w1 = bw_writeWithIndent (valueToQuotedStringN name (bw_emitUTF8 w)) (bw_writeCommentBeforeValue c w);
          w2 = bw_writeValue c (bw_put (bw_colonSymbol w1) w1)
      in if cs = [] then bw_writeCommentAfterValueOnSameLine c w2
         else bw_members cs (bw_writeCommentAfterValueOnSameLine c (bw_put '','' w2)))"
  by pat_completeness auto
termination
  by (relation "inv_image (less_than <*lex*> less_than)
        (\<lambda>x. case x of
            Inl (Inl (v, w)) \<Rightarrow> (size v, 2)
          | Inl (Inr (Inl (v, w))) \<Rightarrow> (size v, 1)
          | Inl (Inr (Inr (v, w))) \<Rightarrow> (size v, 0)
          | Inr (Inl (cs, w)) \<Rightarrow> (max_size cs, 3 + length cs)
          | Inr (Inr (Inl (b, i, cs, w))) \<Rightarrow> (max_size cs, 3 + length cs)
          | Inr (Inr (Inr (cs, w))) \<Rightarrow> (max_size (map snd cs), 3 + length cs))")
    (auto simp: child_sizes le_less)

lemmas bw_value_simps = bw_writeValue.simps bw_writeArrayValue.simps bw_isMultilineArray.simps
declare bw_value_simps [simp del]

definition bw_write :: "jvalue \<Rightarrow> styled_writer \<Rightarrow> styled_writer" where
  "bw_write root w =
     (let w0 = w\<lparr>bw_sout := [], bw_addChildValues := False, bw_indented := True, bw_indentString := []\<rparr>;
          w1 = bw_writeCommentBeforeValue root w0;
          w2 = (if \<not> bw_indented w1 then bw_writeIndent w1 else w1)\<lparr>bw_indented := True\<rparr>;
          w3 = bw_writeCommentAfterValueOnSameLine root (bw_writeValue root w2)
      in bw_put (bw_endingLineFeedSymbol w3) w3)"

section \<open>StreamWriterBuilder\<close>

text \<open>\<^verbatim>\<open>settings_\<close> is itself a JSON value.\<close>

fun assign_members :: "(string \<times> jvalue) list \<Rightarrow> jvalue \<Rightarrow> jvalue res" where
  "assign_members [] v = Inr v"
| "assign_members ((k, x) # kxs) v = rbind (assign_member k x v) (assign_members kxs)"

definition swb_setDefaults :: "jvalue \<Rightarrow> jvalue res" where
  "swb_setDefaults settings = assign_members
     [(''commentStyle'', value_of_string ''All''),
      (''indentation'', value_of_string [TAB]),
      (''enableYAMLCompatibility'', value_of_bool False),
      (''dropNullPlaceholders'', value_of_bool False),
      (''useSpecialFloats'', value_of_bool False),
      (''emitUTF8'', value_of_bool False),
      (''precision'', value_of_int 17),
      (''precisionType'', value_of_string ''significant'')] settings"

definition swb_new :: "jvalue res" where
  "swb_new = swb_setDefaults nullSingleton"

definition in_quotes :: "string \<Rightarrow> string" where
  "in_quotes s = CHR 0x27 # s @ [CHR 0x27]"

definition newStreamWriter :: "jvalue \<Rightarrow> styled_writer res" where
  "newStreamWriter settings =
     rbind (rbind (at_member ''indentation'' settings) asString) (\<lambda>indentation.
     rbind (rbind (at_member ''commentStyle'' settings) asString) (\<lambda>cs_str.
     rbind (rbind (at_member ''precisionType'' settings) asString) (\<lambda>pt_str.
     rbind (rbind (at_member ''enableYAMLCompatibility'' settings) asBool) (\<lambda>eyc.
     rbind (rbind (at_member ''dropNullPlaceholders'' settings) asBool) (\<lambda>dnp.
     rbind (rbind (at_member ''useSpecialFloats'' settings) asBool) (\<lambda>usf.
     rbind (rbind (at_member ''emitUTF8'' settings) asBool) (\<lambda>emitUTF8.
     rbind (rbind (at_member ''precision'' settings) asUInt) (\<lambda>pre.
     rbind (if cs_str = ''All'' then Inr CS_All
            else if cs_str = ''None'' then Inr CS_None
            else Inl (RuntimeError (''commentStyle must be '' @ in_quotes ''All'' @ '' or '' @ in_quotes ''None''))) (\<lambda>cs.
     rbind (if pt_str = ''significant'' then Inr significantDigits
            else if pt_str = ''decimal'' then Inr decimalPlaces
            else Inl (RuntimeError (''precisionType must be '' @ in_quotes ''significant'' @ '' or '' @ in_quotes ''decimal''))) (\<lambda>pt.
     Inr (bw_new indentation cs
            (if eyc then '': '' else if indentation = [] then '':'' else '' : '')
            (if dnp then [] else ''null'') [] usf emitUTF8 (nat (min pre 17)) pt)))))))))))"

definition swb_valid_keys :: "string list" where
  "swb_valid_keys = [''indentation'', ''commentStyle'', ''enableYAMLCompatibility'',
     ''dropNullPlaceholders'', ''useSpecialFloats'', ''emitUTF8'', ''precision'', ''precisionType'']"

text \<open>What iterating over a value yields: the member name (empty for an array element) and the value.\<close>

definition value_entries :: "jvalue \<Rightarrow> (string \<times> jvalue) list" where
  "value_entries v = (case payload v of
       ObjectV m \<Rightarrow> m | ArrayV m \<Rightarrow> map (\<lambda>(i, w). ([], w)) m | _ \<Rightarrow> [])"

text \<open>
  \<^verbatim>\<open>validate(invalid)\<close>; the argument is None for a null pointer, and the result carries \<^verbatim>\<open>*invalid\<close>
  afterwards.
\<close>

definition swb_validate :: "jvalue option \<Rightarrow> jvalue \<Rightarrow> (bool \<times> jvalue option) res" where
  "swb_validate invalid settings =
     (let bad = filter (\<lambda>(k, v). k \<notin> set swb_valid_keys) (value_entries settings)
      in case invalid of
           None \<Rightarrow> Inr (bad = [], None)
         | Some found \<Rightarrow> rbind (assign_members bad found) (\<lambda>found'. Inr (value_empty found', Some found')))"

definition writeString :: "jvalue \<Rightarrow> jvalue \<Rightarrow> string res" where
  "writeString settings root =
     rbind (newStreamWriter settings) (\<lambda>w. Inr (bw_sout (bw_write root w)))"

definition toStyledString :: "jvalue \<Rightarrow> string res" where
  "toStyledString v =
     rbind swb_new (\<lambda>builder.
     rbind (writeString builder v) (\<lambda>text.
     Inr ((if hasComment commentBefore v then [LF] else []) @ text @ [LF])))"

text \<open>\<^verbatim>\<open>operator<<\<close>: the text is written after what the stream holds.\<close>

definition value_to_stream :: "string \<Rightarrow> jvalue \<Rightarrow> string res" where
  "value_to_stream sout root =
     rbind swb_new (\<lambda>builder.
     rbind (newStreamWriter builder) (\<lambda>writer. Inr (sout @ bw_sout (bw_write root writer))))"

section \<open>The styled text of a value\<close>

text \<open>
  What the default writer prints, as a function of the value alone. The flag says whether the
  line is already indented, as after the bracket of an array, or a container has to start a new
  line, as after the colon of a member.
\<close>

definition scalar_text :: "jvalue \<Rightarrow> string" where
  "scalar_text v = (case payload v of
       NullV \<Rightarrow> ''null''
     | IntV i \<Rightarrow> valueToString_int i
     | UIntV u \<Rightarrow> valueToString_uint u
     | RealV d \<Rightarrow> valueToString_double d False 17 significantDigits
     | StringV s \<Rightarrow> valueToQuotedStringN s False
     | BoolV b \<Rightarrow> valueToString_bool b
     | ArrayV _ \<Rightarrow> ''[]''
     | ObjectV _ \<Rightarrow> ''{}'')"

function styled_text :: "string \<Rightarrow> bool \<Rightarrow> jvalue \<Rightarrow> string"
  and styled_elements :: "string \<Rightarrow> jvalue list \<Rightarrow> string"
  and styled_members :: "string \<Rightarrow> (string \<times> jvalue) list \<Rightarrow> string" where
  "styled_text ind here v =
     (let start = (if here then [] else LF # ind) in
      case payload v of
        ArrayV _ \<Rightarrow> (if size_of v = 0 then ''[]''
                     else start @ ''['' @ styled_elements (ind @ [TAB]) (array_children v) @ LF # ind @ '']'')
      | ObjectV _ \<Rightarrow> (if object_children v = [] then ''{}''
                      else start @ ''{'' @ styled_members (ind @ [TAB]) (object_children v) @ LF # ind @ ''}'')
      | _ \<Rightarrow> scalar_text v)"
| "styled_elements ind [] = []"
| "styled_elements ind (c # cs) =
     LF # ind @ styled_text ind True c @ (if cs = [] then [] else '','') @ styled_elements ind cs"
| "styled_members ind [] = []"
| "styled_members ind ((name, c) # cs) =
     LF # ind @ valueToQuotedStringN name False @ '' : '' @ styled_text ind False c @
     (if cs = [] then [] else '','') @ styled_members ind cs"
  by pat_completeness auto
termination
  by (relation "inv_image (less_than <*lex*> less_than)
        (\<lambda>x. case x of Inl (i, b, v) \<Rightarrow> (size v, 0)
        | Inr (Inl (i, cs)) \<Rightarrow> (max_size cs, Suc (length cs))
        | Inr (Inr (i, cs)) \<Rightarrow> (max_size (map snd cs), Suc (length cs)))")
    (auto simp: child_sizes le_less)

declare styled_text.simps [simp del]

text \<open>No comment is attached to the value or to anything in it.\<close>

function comment_free :: "jvalue \<Rightarrow> bool" where
  "comment_free v \<longleftrightarrow> \<not> hasCommentForValue v \<and> list_all comment_free (array_children v) \<and>
     list_all (\<lambda>p. comment_free (snd p)) (object_children v)"
  by pat_completeness auto

lemma member_max_size: "v \<in> set vs \<Longrightarrow> size v \<le> max_size vs"
  by (induction vs) auto

termination comment_free
proof (relation "measure size", goal_cases)
  case (2 v z)
  then show ?case using member_max_size [of z "array_children v"] max_size_array_children [of v] by simp
next
  case (3 v z)
  then show ?case
    using member_max_size [of "snd z" "map snd (object_children v)"] max_size_object_children [of v] by simp
qed simp

declare comment_free.simps [simp del]

end
