(* ===== verification/Signal_Server.thy ===== *)
theory Signal_Server
  imports Ws_System Json_Reader Json_Writer
begin

text \<open>
  \<^verbatim>\<open>signal_server.{h,cpp}\<close>: the table of signed-in peers, the identifiers given to them, the pairs of
  peers that exchanged an offer, and the handlers of the four requests. The class derives from
  \<^verbatim>\<open>WebsocketServer\<close>, so its record extends the server's. The global \<^verbatim>\<open>g_ice_server\<close> is an argument.
  A handler that throws is \<open>Inl\<close> of the exception; nothing catches it. The search for a free
  identifier in \<^verbatim>\<open>NextID\<close> may run for ever when none is free; its result is then None, and the
  handler's is \<open>Inl OutOfFuel\<close>. The lines logged at level info are kept.
\<close>

record peer =
  peer_id :: int
  peer_hdl :: connection_hdl
  peer_name :: string

record pair =
  pair_from :: int
  pair_to :: int

record ice_server =
  ice_uri :: string
  ice_username :: string
  ice_password :: string

record signal_server = ws_server +
  m_map_peers :: "(connection_hdl, peer) smap"
  m_last_id :: int
  m_vPairID :: "pair list"
  info_log :: "string list"

definition ICE :: ice_server where
  "ICE = \<lparr>ice_uri = ''turn:115.231.220.242:8101?transport=tcp'', ice_username = ''ts1'',
     ice_password = ''12345678''\<rparr>"

definition SignalServer :: signal_server where
  "SignalServer = ws_server.extend WebsocketServer
     \<lparr>m_map_peers = [], m_last_id = - 1, m_vPairID = [], info_log = []\<rparr>"

abbreviation kSignal :: string where "kSignal \<equiv> ''signal''"
abbreviation kName :: string where "kName \<equiv> ''name''"
abbreviation kMessage :: string where "kMessage \<equiv> ''message''"
abbreviation kSignIn :: string where "kSignIn \<equiv> ''sign_in''"
abbreviation kSignOut :: string where "kSignOut \<equiv> ''sign_out''"
abbreviation kID :: string where "kID \<equiv> ''id''"

definition log_info :: "string \<Rightarrow> signal_server \<Rightarrow> signal_server" where
  "log_info line s = s\<lparr>info_log := info_log s @ [line]\<rparr>"

text \<open>An \<^verbatim>\<open>int\<close> written to a stream.\<close>

definition show_int :: "int \<Rightarrow> string" where
  "show_int i = valueToString_int i"

text \<open>A weak pointer expires with its connection; the empty one always has.\<close>

definition expired :: "ws_env \<Rightarrow> connection_hdl \<Rightarrow> bool" where
  "expired E h \<longleftrightarrow> h = 0 \<or> env_expired E h"

section \<open>The tables\<close>

definition IsExist_id :: "int \<Rightarrow> signal_server \<Rightarrow> bool" where
  "IsExist_id i s \<longleftrightarrow> list_ex (\<lambda>(h, p). peer_id p = i) (m_map_peers s)"

definition IsExist_name :: "string \<Rightarrow> signal_server \<Rightarrow> int" where
  "IsExist_name name s =
     (case find (\<lambda>(h, p). peer_name p = name) (m_map_peers s) of
        None \<Rightarrow> - 1
      | Some (h, p) \<Rightarrow> peer_id p)"

definition GetConnectionFromID :: "int \<Rightarrow> signal_server \<Rightarrow> connection_hdl" where
  "GetConnectionFromID i s =
     (case find (\<lambda>(h, p). peer_id p = i) (m_map_peers s) of
        None \<Rightarrow> 0
      | Some (h, p) \<Rightarrow> h)"

text \<open>\<^verbatim>\<open>id + 1\<close>, or 0 once that reaches \<^verbatim>\<open>INT_MAX\<close>.\<close>

definition succ_id :: "int \<Rightarrow> int" where
  "succ_id i = (if i + 1 \<ge> INT_MAX then 0 else i + 1)"

partial_function (option) next_id_loop :: "int \<Rightarrow> signal_server \<Rightarrow> int option" where
  "next_id_loop i s = (if IsExist_id i s then next_id_loop (succ_id i) s else Some i)"

definition NextID :: "signal_server \<Rightarrow> (int \<times> signal_server) option" where
  "NextID s =
     (case next_id_loop (succ_id (m_last_id s)) s of
        None \<Rightarrow> None
      | Some i \<Rightarrow> Some (i, s\<lparr>m_last_id := i\<rparr>))"

fun remove_pair :: "int \<Rightarrow> pair list \<Rightarrow> (pair \<times> pair list) option" where
  "remove_pair i [] = None"
| "remove_pair i (p # ps) =
     (if pair_from p = i \<or> pair_to p = i then Some (p, ps)
      else case remove_pair i ps of None \<Rightarrow> None | Some (q, qs) \<Rightarrow> Some (q, p # qs))"

definition RemovePairID :: "int \<Rightarrow> signal_server \<Rightarrow> int \<times> signal_server" where
  "RemovePairID i s =
     (case remove_pair i (m_vPairID s) of
        None \<Rightarrow> (- 1, s)
      | Some (p, ps) \<Rightarrow>
          (if pair_from p = i then pair_to p else pair_from p,
           (log_info (''remove pair:'' @ show_int (pair_from p) @ '':'' @ show_int (pair_to p)) s)
             \<lparr>m_vPairID := ps\<rparr>))"

section \<open>PrintPeers\<close>

text \<open>
  The box-drawing characters of the table in UTF-8, as written on systems other than Windows;
  \<^verbatim>\<open>std::setw\<close> pads to a number of bytes.
\<close>

definition utf8 :: "nat list \<Rightarrow> string" where "utf8 cps = concat (map codePointToUTF8 cps)"

definition box_line :: "nat \<Rightarrow> nat \<Rightarrow> nat \<Rightarrow> string" where
  "box_line left mid right =
     utf8 ([left] @ replicate 6 0x2500 @ [mid] @ replicate 46 0x2500 @ [right]) @ [LF]"

definition setw_left :: "nat \<Rightarrow> string \<Rightarrow> string" where
  "setw_left n t = t @ replicate (n - length t) (CHR '' '')"

definition peer_line :: "peer \<Rightarrow> string" where
  "peer_line p = utf8 [0x2502] @ '' '' @ setw_left 5 (show_int (peer_id p)) @ utf8 [0x2502] @ '' '' @
     setw_left 43 (peer_name p) @ ''  '' @ utf8 [0x2502] @ [LF]"

definition sort_peers :: "(connection_hdl, peer) smap \<Rightarrow> (int, peer) smap" where
  "sort_peers m = fold (\<lambda>(h, p). smap_put (peer_id p) p) m []"

definition peer_table :: "signal_server \<Rightarrow> string" where
  "peer_table s =
     box_line 0x250C 0x252C 0x2510 @
     utf8 [0x2502] @ setw_left 6 '' id'' @ utf8 [0x2502] @ setw_left 46 '' name'' @ utf8 [0x2502] @ [LF] @
     box_line 0x251C 0x253C 0x2524 @
     concat (map (\<lambda>(i, p). peer_line p) (sort_peers (m_map_peers s))) @
     box_line 0x2514 0x2534 0x2518"

definition PrintPeers :: "signal_server \<Rightarrow> signal_server" where
  "PrintPeers s = log_info (''peer list'' @ [LF] @ peer_table s @ ''  '' @ [LF]) s"

section \<open>Replies\<close>

definition peer_entry :: "peer \<Rightarrow> jvalue res" where
  "peer_entry p = assign_members [(''name'', value_of_string (peer_name p)), (''id'', value_of_int (peer_id p))]
     nullSingleton"

fun peer_list :: "(connection_hdl \<times> peer) list \<Rightarrow> jvalue \<Rightarrow> jvalue res" where
  "peer_list [] v = Inr v"
| "peer_list ((h, p) # ps) v = rbind (peer_entry p) (\<lambda>pv. rbind (append_value pv v) (peer_list ps))"

text \<open>Sending the text of a value, the result of \<^verbatim>\<open>Send\<close> being ignored.\<close>

definition send_value :: "ws_env \<Rightarrow> jvalue \<Rightarrow> connection_hdl \<Rightarrow> signal_server \<Rightarrow> signal_server res" where
  "send_value E v h s = rbind (toStyledString v) (\<lambda>text. Inr (snd (Send E text h s)))"

definition SignalServer_Broadcast :: "ws_env \<Rightarrow> string \<Rightarrow> signal_server \<Rightarrow> signal_server" where
  "SignalServer_Broadcast E text s = fold (\<lambda>(h, p) s. snd (Send E text h s)) (m_map_peers s) s"

section \<open>Requests\<close>

definition sign_in_reply :: "ice_server \<Rightarrow> int \<Rightarrow> string \<Rightarrow> bool \<Rightarrow> jvalue res" where
  "sign_in_reply ice i name repeat =
     rbind (assign_members
       [(kID, value_of_int i), (kName, value_of_string name), (kSignal, value_of_string ''return''),
        (''request'', value_of_string ''sign_in''), (''status'', value_of_string ''ok''),
        (''repeat'', value_of_bool repeat)] nullSingleton) (\<lambda>jreturn.
     if ice_uri ice \<noteq> []
     then rbind (assign_members
            [(''uri'', value_of_string (ice_uri ice)), (''username'', value_of_string (ice_username ice)),
             (''password'', value_of_string (ice_password ice))] nullSingleton) (\<lambda>jice.
          assign_member ''ice'' jice jreturn)
     else Inr jreturn)"

definition ProcessSignIn :: "ice_server \<Rightarrow> ws_env \<Rightarrow> connection_hdl \<Rightarrow> jvalue \<Rightarrow> signal_server \<Rightarrow>
    signal_server res" where
  "ProcessSignIn ice E hdl value s =
     rbind (resolveReference kName value) (\<lambda>(value', jname).
     rbind (asString jname) (\<lambda>name.
     case NextID s of
       None \<Rightarrow> Inl OutOfFuel
     | Some (i, s1) \<Rightarrow>
         (let p = \<lparr>peer_id = i, peer_hdl = hdl, peer_name = name\<rparr>;
              same_id = IsExist_name name s1;
              s2 = s1\<lparr>m_map_peers := smap_put hdl p (m_map_peers s1)\<rparr>
          in rbind (sign_in_reply ice i name (same_id \<noteq> - 1)) (\<lambda>jreturn.
             rbind (isMember ''nolist'' value') (\<lambda>nolist.
             rbind (if nolist then Inr jreturn
                    else rbind (peer_list (m_map_peers s1) nullSingleton) (\<lambda>peers.
                         assign_member ''peers'' peers jreturn)) (\<lambda>jreturn'.
             rbind (send_value E jreturn' hdl s2) (\<lambda>s3.
             Inr (PrintPeers (log_info (''--sign in:'' @ show_int i @ '' '' @ name) s3)))))))))"

text \<open>The notice that the peer \<open>i\<close> has gone, sent to its partner if there is one.\<close>

definition gone_notice :: "int \<Rightarrow> jvalue \<Rightarrow> jvalue res" where
  "gone_notice i v = assign_members [(kSignal, value_of_string kSignOut), (kID, value_of_int i)] v"

definition notify_partner :: "ws_env \<Rightarrow> int \<Rightarrow> jvalue \<Rightarrow> signal_server \<Rightarrow> signal_server res" where
  "notify_partner E i notice s =
     (let (pid, s1) = RemovePairID i s in
      if pid \<noteq> - 1
      then (let hdl_p = GetConnectionFromID pid s1
            in if \<not> expired E hdl_p then send_value E notice hdl_p s1 else Inr s1)
      else Inr s1)"

definition ProcessSignOut :: "ws_env \<Rightarrow> connection_hdl \<Rightarrow> jvalue \<Rightarrow> signal_server \<Rightarrow> signal_server res" where
  "ProcessSignOut E hdl value s =
     rbind (resolveReference kID value) (\<lambda>(value', jid).
     rbind (asInt jid) (\<lambda>i.
     let s1 = s\<lparr>m_map_peers := smap_erase hdl (m_map_peers s)\<rparr> in
     rbind (assign_members [(kSignal, value_of_string ''return''), (''request'', value_of_string ''sign_out''),
              (''status'', value_of_string ''ok'')] nullSingleton) (\<lambda>jreturn.
     rbind (send_value E jreturn hdl s1) (\<lambda>s2.
     rbind (clear_value jreturn) (\<lambda>jclear.
     rbind (gone_notice i jclear) (\<lambda>notice.
     rbind (notify_partner E i notice s2) (\<lambda>s3.
     Inr (PrintPeers (log_info (''--sign out:'' @ show_int i) s3)))))))))"

definition ProcessMessage :: "ws_env \<Rightarrow> connection_hdl \<Rightarrow> jvalue \<Rightarrow> signal_server \<Rightarrow> signal_server res" where
  "ProcessMessage E hdl value s =
     rbind (resolveReference ''to'' value) (\<lambda>(value1, jto).
     rbind (asInt jto) (\<lambda>i.
     let hdl_to = GetConnectionFromID i s in
     rbind (if \<not> expired E hdl_to then send_value E value1 hdl_to s else Inr s) (\<lambda>s1.
     rbind (isMember ''type'' value1) (\<lambda>has_type.
     rbind (if has_type
            then rbind (resolveReference ''type'' value1) (\<lambda>(_, jtype).
                 rbind (asString jtype) (\<lambda>type. Inr (type = ''offer'')))
            else Inr False) (\<lambda>is_offer.
     if is_offer
     then rbind (resolveReference ''from'' value1) (\<lambda>(_, jfrom).
          rbind (asInt jfrom) (\<lambda>from_id.
          Inr (s1\<lparr>m_vPairID := m_vPairID s1 @ [\<lparr>pair_from = from_id, pair_to = i\<rparr>]\<rparr>)))
     else Inr s1)))))"

definition ProcessExist :: "ws_env \<Rightarrow> connection_hdl \<Rightarrow> jvalue \<Rightarrow> signal_server \<Rightarrow> signal_server res" where
  "ProcessExist E hdl value s =
     rbind (resolveReference ''name'' value) (\<lambda>(value', jname).
     rbind (asString jname) (\<lambda>name.
     let i = IsExist_name name s in
     rbind (assign_members
       ([(kSignal, value_of_string ''return''), (''request'', value_of_string ''exist'')] @
        (if i \<ge> 0 then [(''id'', value_of_int i), (''exist'', value_of_bool True)]
         else [(''exist'', value_of_bool False)])) nullSingleton) (\<lambda>jreturn.
     send_value E jreturn hdl s)))"

definition dispatch :: "ice_server \<Rightarrow> ws_env \<Rightarrow> connection_hdl \<Rightarrow> string \<Rightarrow> jvalue \<Rightarrow> signal_server \<Rightarrow>
    signal_server res" where
  "dispatch ice E hdl type jinput s =
     (if type = kSignIn then ProcessSignIn ice E hdl jinput s
      else if type = kSignOut then ProcessSignOut E hdl jinput s
      else if type = kMessage then ProcessMessage E hdl jinput s
      else if type = ''exist'' then ProcessExist E hdl jinput s
      else Inr s)"

definition OnReceive :: "ice_server \<Rightarrow> ws_env \<Rightarrow> connection_hdl \<Rightarrow> string \<Rightarrow> signal_server \<Rightarrow>
    signal_server res" where
  "OnReceive ice E hdl text s =
     rbind (reader_parse text) (\<lambda>(parsed, jinput).
     rbind (if parsed then isMember kSignal jinput else Inr False) (\<lambda>has_signal.
     if has_signal
     then rbind (resolveReference kSignal jinput) (\<lambda>(jinput', jtype).
          rbind (asString jtype) (\<lambda>type. dispatch ice E hdl type jinput' s))
     else Inr s))"

definition OnClose :: "ws_env \<Rightarrow> connection_hdl \<Rightarrow> signal_server \<Rightarrow> signal_server res" where
  "OnClose E hdl s =
     (case smap_find (m_map_peers s) hdl of
        None \<Rightarrow> Inr s
      | Some p \<Rightarrow>
          rbind (gone_notice (peer_id p) nullSingleton) (\<lambda>jreturn.
          let s1 = log_info (''--disconnect:'' @ show_int (peer_id p) @ '' '' @ peer_name p) s;
              s2 = PrintPeers (s1\<lparr>m_map_peers := smap_erase hdl (m_map_peers s1)\<rparr>)
          in if peer_id p \<noteq> - 1 then notify_partner E (peer_id p) jreturn s2 else Inr s2))"

end
