(* ===== verification/Writer_Laws.thy ===== *)
theory Writer_Laws
  imports Json_Writer
begin

text \<open>
  The styled writer prints what the recursive definition \<open>styled_text\<close> says: the writer's state
  between two calls is described by \<open>bw_wrote\<close>, and one simultaneous induction covers values, the
  elements of arrays and the members of objects.
\<close>


definition bw_default :: "styled_writer \<Rightarrow> bool" where
  "bw_default w \<longleftrightarrow> bw_indentation w = [TAB] \<and> bw_cs w = CS_All \<and> bw_colonSymbol w = '' : '' \<and>
     bw_nullSymbol w = ''null'' \<and> \<not> bw_addChildValues w \<and> bw_childValues w = [] \<and>
     \<not> bw_useSpecialFloats w \<and> \<not> bw_emitUTF8 w \<and> bw_precision w = 17 \<and>
     bw_precisionType w = significantDigits"

text \<open>What a call that writes the text \<open>s\<close> leaves: the stream and the flag, nothing else.\<close>

definition bw_wrote :: "string \<Rightarrow> bool \<Rightarrow> styled_writer \<Rightarrow> styled_writer" where
  "bw_wrote s ind w = w\<lparr>bw_sout := bw_sout w @ s, bw_indented := ind\<rparr>"

lemma bw_wrote_wrote: "bw_wrote t b (bw_wrote s a w) = bw_wrote (s @ t) b w"
  by (simp add: bw_wrote_def)

lemma bw_wrote_sel [simp]:
  "bw_default (bw_wrote s b w) = bw_default w"
  "bw_indentString (bw_wrote s b w) = bw_indentString w"
  "bw_indented (bw_wrote s b w) = b"
  "bw_childValues (bw_wrote s b w) = bw_childValues w"
  "bw_cs (bw_wrote s b w) = bw_cs w"
  "bw_emitUTF8 (bw_wrote s b w) = bw_emitUTF8 w"
  "bw_colonSymbol (bw_wrote s b w) = bw_colonSymbol w"
  by (simp_all add: bw_wrote_def bw_default_def)

lemma bw_put_wrote: "bw_put s w = bw_wrote s (bw_indented w) w"
  by (simp add: bw_put_def bw_wrote_def)

lemma bw_writeIndent_default: "bw_default w \<Longrightarrow> bw_writeIndent w = bw_wrote (LF # bw_indentString w) (bw_indented w) w"
  by (simp add: bw_writeIndent_def bw_default_def bw_put_wrote)

lemma bw_writeWithIndent_default:
  "bw_default w \<Longrightarrow>
   bw_writeWithIndent s w = bw_wrote ((if bw_indented w then [] else LF # bw_indentString w) @ s) False w"
  by (simp add: bw_writeWithIndent_def bw_writeIndent_default bw_put_wrote bw_wrote_def)

lemma bw_pushValue_default: "bw_default w \<Longrightarrow> bw_pushValue s w = bw_wrote s (bw_indented w) w"
  by (simp add: bw_pushValue_def bw_default_def bw_put_wrote)

lemma bw_comment_free:
  assumes "\<not> hasCommentForValue v"
  shows "bw_writeCommentBeforeValue v w = w" "bw_writeCommentAfterValueOnSameLine v w = w"
  using assms by (simp_all add: hasCommentForValue_def bw_writeCommentBeforeValue_def
      bw_writeCommentAfterValueOnSameLine_def Let_def)

lemma bw_indent_default [simp]:
  "bw_default (bw_indent w) = bw_default w" "bw_indented (bw_indent w) = bw_indented w"
  "bw_childValues (bw_indent w) = bw_childValues w"
  "bw_default w \<Longrightarrow> bw_indentString (bw_indent w) = bw_indentString w @ [TAB]"
  by (simp_all add: bw_default_def bw_indent_def)

lemma bw_unindent_indent: "bw_unindent (bw_wrote t b (bw_indent (bw_wrote s a w))) = bw_wrote (s @ t) b w"
  by (simp add: bw_unindent_def bw_indent_def bw_wrote_def)

lemma bw_unindent_sel [simp]:
  "bw_default w \<Longrightarrow> bw_default (bw_unindent w)"
  by (simp add: bw_default_def bw_unindent_def)

lemmas bw_default_simps = bw_writeWithIndent_default bw_pushValue_default bw_writeIndent_default
  bw_wrote_wrote bw_put_wrote bw_unindent_indent

definition leaves_indented :: "bool \<Rightarrow> jvalue \<Rightarrow> bool" where
  "leaves_indented b v \<longleftrightarrow> b \<and> \<not> (isArray v \<and> size_of v \<noteq> 0) \<and> \<not> (isObject v \<and> object_children v \<noteq> [])"

lemma bw_default_childValues: "bw_default w \<Longrightarrow> bw_childValues w = []"
  by (simp add: bw_default_def)
lemma bw_default_text: "bw_default w \<Longrightarrow> bw_emitUTF8 w = False" "bw_default w \<Longrightarrow> bw_colonSymbol w = '' : ''"
  by (simp_all add: bw_default_def)
lemma bw_default_cs: "bw_default w \<Longrightarrow> bw_cs w = CS_All"
  by (simp add: bw_default_def)

lemma comment_freeD:
  "comment_free v \<Longrightarrow> \<not> hasCommentForValue v"
  "comment_free v \<Longrightarrow> c \<in> set (array_children v) \<Longrightarrow> comment_free c"
  "comment_free v \<Longrightarrow> p \<in> set (object_children v) \<Longrightarrow> comment_free (snd p)"
  by (auto simp: comment_free.simps [of v] list_all_iff)

lemma bw_wrote_flag: "(bw_wrote s a w)\<lparr>bw_indented := b\<rparr> = bw_wrote s b w"
  by (simp add: bw_wrote_def)

lemma bw_writes_styled:
  "bw_default w \<Longrightarrow> comment_free v \<Longrightarrow> bw_indentString w = ind \<Longrightarrow> bw_indented w = here \<Longrightarrow>
     bw_writeValue v w = bw_wrote (styled_text ind here v) (leaves_indented here v) w"
  "bw_default w' \<Longrightarrow> \<forall>c\<in>set cs. comment_free c \<Longrightarrow> bw_indentString w' = ind' \<Longrightarrow> \<not> bw_indented w' \<Longrightarrow>
     bw_elements False n cs w' = bw_wrote (styled_elements ind' cs) False w'"
  "bw_default w'' \<Longrightarrow> \<forall>p\<in>set ps. comment_free (snd p) \<Longrightarrow> bw_indentString w'' = ind'' \<Longrightarrow> \<not> bw_indented w'' \<Longrightarrow>
     bw_members ps w'' = bw_wrote (styled_members ind'' ps) False w''"
proof (induction ind here v and ind' cs and ind'' ps arbitrary: w and n w' and w''
    rule: styled_text_styled_elements_styled_members.induct)
  case (1 ind here v)
  note cf = comment_freeD [OF 1(4)]
  show ?case
  proof (cases "payload v")
    case (ArrayV m)
    show ?thesis using 1 cf ArrayV
      by (auto simp: bw_writeValue.simps bw_writeArrayValue.simps styled_text.simps bw_default_simps
          leaves_indented_def isArray_def isObject_def type_of_def bw_default_childValues bw_default_cs)
  next
    case (ObjectV m)
    then show ?thesis using 1 cf
      by (auto simp: bw_writeValue.simps styled_text.simps bw_default_simps
          leaves_indented_def isArray_def isObject_def type_of_def)
  qed (use 1 in \<open>auto simp: bw_writeValue.simps styled_text.simps bw_default_simps scalar_text_def
          leaves_indented_def isArray_def isObject_def type_of_def bw_default_def\<close>)
next
  case (2 ind)
  then show ?case by (simp add: bw_wrote_def)
next
  case (3 ind c cs)
  then show ?case 
    by (simp add: bw_comment_free comment_freeD bw_default_simps bw_wrote_flag Let_def)
next
  case (4 ind)
  then show ?case by (simp add: bw_wrote_def)
next
  case (5 ind name c cs)
  then show ?case 
    by (simp add: bw_comment_free comment_freeD bw_default_simps bw_wrote_flag Let_def
        bw_default_text leaves_indented_def)
qed

lemma swb_new_eq: "\<exists>s. swb_new = Inr s \<and> newStreamWriter s =
   Inr (bw_new [TAB] CS_All '' : '' ''null'' [] False False 17 significantDigits)"
  by (simp add: swb_new_def swb_setDefaults_def assign_member_def resolveReference_def initBasic_def
      replace_member_def set_payload_def newStreamWriter_def at_member_def find_member_def asString_def
      asBool_def asUInt_def isUInt_def int_limits)

lemma toStyledString_eq:
  "toStyledString v = Inr ((if hasComment commentBefore v then [LF] else []) @
     bw_sout (bw_write v (bw_new [TAB] CS_All '' : '' ''null'' [] False False 17 significantDigits)) @ [LF])"
proof -
  from swb_new_eq obtain s where s: "swb_new = Inr s" "newStreamWriter s =
    Inr (bw_new [TAB] CS_All '' : '' ''null'' [] False False 17 significantDigits)" by blast
  show ?thesis by (simp add: toStyledString_def writeString_def s)
qed

lemma styled_of_comment_free:
  "comment_free v \<Longrightarrow> toStyledString v = Inr (styled_text [] True v @ [LF])"
proof -
  assume cf: "comment_free v"
  let ?w = "bw_new [TAB] CS_All '' : '' ''null'' [] False False 17 significantDigits"
  have d: "bw_default (?w\<lparr>bw_sout := [], bw_addChildValues := False, bw_indented := True, bw_indentString := []\<rparr>)"
    by (simp add: bw_default_def bw_new_def)
  show ?thesis
    using comment_freeD(1) [OF cf] bw_writes_styled(1) [OF d cf refl refl]
    by (simp add: toStyledString_eq bw_write_def bw_comment_free Let_def bw_put_def bw_wrote_def
        bw_new_def hasCommentForValue_def)
qed

lemma stream_of_comment_free:
  assumes "comment_free v"
  shows "value_to_stream sout v = Inr (sout @ styled_text [] True v)"
proof -
  let ?w = "bw_new [TAB] CS_All '' : '' ''null'' [] False False 17 significantDigits"
  from swb_new_eq obtain s where s: "swb_new = Inr s" "newStreamWriter s = Inr ?w" by blast
  have "bw_sout (bw_write v ?w) = styled_text [] True v"
    using styled_of_comment_free [OF assms] comment_freeD(1) [OF assms] by (simp add: toStyledString_eq hasCommentForValue_def)
  then show ?thesis by (simp add: value_to_stream_def s)
qed

text \<open>Printing a value with the default settings never throws, whatever
  the value: the settings that \<^verbatim>\<open>setDefaults\<close> builds always pass the checks of \<^verbatim>\<open>newStreamWriter\<close>.\<close>

lemma toStyledString_total: "\<exists>text. toStyledString v = Inr (text @ [LF])"
  by (simp add: toStyledString_eq)

text \<open>C19 (toStyledString_refines_styled_text). For a value without comments the stateful writer (its
  output stream, indentation string and flag) prints exactly the recursively defined styled text.\<close>

theorem toStyledString_refines_styled_text:
  assumes "comment_free v"
  shows "toStyledString v = Inr (styled_text [] True v @ [LF])"
  using styled_of_comment_free [OF assms] .

theorem toStyledString_refines_styled_text_witness:
  "comment_free (initBasic (ArrayV [(0, value_of_bool True)])) \<and>
   toStyledString (initBasic (ArrayV [(0, value_of_bool True)])) =
     Inr (''['' @ [LF, TAB] @ ''true'' @ [LF] @ '']'' @ [LF])"
proof -
  let ?b = "value_of_bool True"
  let ?v = "initBasic (ArrayV [(0, ?b)])"
  have ch: "array_children ?v = [?b]" "object_children ?v = []"
    by (simp_all add: array_children_def object_children_def size_of_def elements_def getMemberNames_def
        initBasic_def)
  have chb: "array_children ?b = []" "object_children ?b = []"
    by (simp_all add: array_children_def object_children_def size_of_def getMemberNames_def initBasic_def)
  have nc: "\<not> hasCommentForValue ?v" "\<not> hasCommentForValue ?b"
    by (simp_all add: hasCommentForValue_def hasComment_def comments_has_def initBasic_def)
  have cf: "comment_free ?v"
    by (simp add: comment_free.simps [of ?v] comment_free.simps [of ?b] ch chb nc)
  have "styled_text [] True ?v = ''['' @ [LF, TAB] @ ''true'' @ [LF] @ '']''"
    by (simp add: styled_text.simps [of _ _ ?v] styled_text.simps [of _ _ ?b] ch)
       (simp add: initBasic_def scalar_text_def size_of_def valueToString_bool_def)
  with toStyledString_refines_styled_text [OF cf] cf show ?thesis by simp
qed

end
