(* ===== verification/Signal_Laws.thy ===== *)
theory Signal_Laws
  imports Signal_Server Writer_Laws
begin

text \<open>
  What holds of the signal server in every state it can reach: the frame conditions that make it a
  \<open>ws_client\<close>, unique identifiers within the range of \<^verbatim>\<open>int\<close>, peers only on live connections, and
  the effect of every request on the tables and on the network.
\<close>

section \<open>What the helpers leave alone\<close>

lemma send_value_eq:
  "send_value E v h s = Inr (snd (Send E (projr (toStyledString v)) h s))"
  using toStyledString_eq [of v] by (simp add: send_value_def)

lemma emit_sel [simp]:
  "m_map_peers (emit e s) = m_map_peers s" "m_last_id (emit e s) = m_last_id s"
  "m_vPairID (emit e s) = m_vPairID s"
  by (simp_all add: emit_def)

lemma Send_frame_sel [simp]:
  "m_map_peers (snd (Send_frame E opc d h s)) = m_map_peers s"
  "m_last_id (snd (Send_frame E opc d h s)) = m_last_id s"
  "m_vPairID (snd (Send_frame E opc d h s)) = m_vPairID s"
  by (simp_all add: Send_frame_def split: option.splits)

lemma Send_sel [simp]:
  "m_map_peers (snd (Send E d h s)) = m_map_peers s"
  "m_last_id (snd (Send E d h s)) = m_last_id s"
  "m_vPairID (snd (Send E d h s)) = m_vPairID s"
  by (simp_all add: Send_def)

lemma log_info_sel [simp]:
  "m_map_peers (log_info l s) = m_map_peers s" "m_last_id (log_info l s) = m_last_id s"
  "m_vPairID (log_info l s) = m_vPairID s" "framework (log_info l s) = framework s"
  "net_out (log_info l s) = net_out s"
  by (simp_all add: log_info_def framework_def)

lemma PrintPeers_sel [simp]:
  "m_map_peers (PrintPeers s) = m_map_peers s" "m_last_id (PrintPeers s) = m_last_id s"
  "m_vPairID (PrintPeers s) = m_vPairID s" "framework (PrintPeers s) = framework s"
  "net_out (PrintPeers s) = net_out s"
  by (simp_all add: PrintPeers_def)

lemma framework_upd [simp]:
  "framework (s\<lparr>m_map_peers := m\<rparr>) = framework (s :: signal_server)"
  "framework (s\<lparr>m_vPairID := ps\<rparr>) = framework s"
  "framework (s\<lparr>m_last_id := i\<rparr>) = framework s"
  by (simp_all add: framework_def)

lemma NextID_eq: "NextID s = Some (i, t) \<longleftrightarrow> next_id_loop (succ_id (m_last_id s)) s = Some i \<and> t = s\<lparr>m_last_id := i\<rparr>"
  by (auto simp: NextID_def split: option.splits)

lemma RemovePairID_sel [simp]:
  "m_map_peers (snd (RemovePairID i s)) = m_map_peers s" "m_last_id (snd (RemovePairID i s)) = m_last_id s"
  "framework (snd (RemovePairID i s)) = framework s" "net_out (snd (RemovePairID i s)) = net_out s"
  by (auto simp: RemovePairID_def split: option.splits prod.splits)


lemma notify_partner_sel:
  assumes "notify_partner E i n s = Inr t"
  shows "m_map_peers t = m_map_peers s" "m_last_id t = m_last_id s" "framework t = framework s"
proof -
  obtain pid u where r: "RemovePairID i s = (pid, u)" by (cases "RemovePairID i s")
  have u: "m_map_peers u = m_map_peers s" "m_last_id u = m_last_id s" "framework u = framework s"
    using RemovePairID_sel [of i s] r by simp_all
  from assms u show "m_map_peers t = m_map_peers s" "m_last_id t = m_last_id s" "framework t = framework s"
    by (auto simp: notify_partner_def send_value_eq Let_def r split: if_splits)
qed

text \<open>The effect of each handler on the table of peers and the last identifier.\<close>

definition only_peers :: "(connection_hdl, peer) smap \<Rightarrow> int \<Rightarrow> signal_server \<Rightarrow> signal_server \<Rightarrow> bool" where
  "only_peers m i s t \<longleftrightarrow> framework t = framework s \<and> m_map_peers t = m \<and> m_last_id t = i"

lemma ProcessSignIn_effect:
  "post (\<lambda>t. \<exists>i name. next_id_loop (succ_id (m_last_id s)) s = Some i \<and>
       only_peers (smap_put hdl \<lparr>peer_id = i, peer_hdl = hdl, peer_name = name\<rparr> (m_map_peers s)) i s t)
     (ProcessSignIn ice E hdl v s)"
  unfolding ProcessSignIn_def only_peers_def
  by (intro post_intros) (auto simp: NextID_eq send_value_eq)

lemma ProcessSignOut_effect:
  "post (only_peers (smap_erase hdl (m_map_peers s)) (m_last_id s) s) (ProcessSignOut E hdl v s)"
  unfolding ProcessSignOut_def only_peers_def
  by (intro post_intros) (auto simp: send_value_eq notify_partner_sel)

lemma ProcessMessage_effect:
  "post (only_peers (m_map_peers s) (m_last_id s) s) (ProcessMessage E hdl v s)"
  unfolding ProcessMessage_def only_peers_def
  by (intro post_intros) (auto simp: send_value_eq split: if_splits)

lemma ProcessExist_effect:
  "post (only_peers (m_map_peers s) (m_last_id s) s) (ProcessExist E hdl v s)"
  unfolding ProcessExist_def only_peers_def
  by (intro post_intros) (simp add: send_value_eq)

lemma OnClose_effect:
  "post (only_peers (smap_erase hdl (m_map_peers s)) (m_last_id s) s) (OnClose E hdl s)"
  unfolding OnClose_def
  apply (intro post_intros)
    apply (simp add: only_peers_def smap_erase_id)
  subgoal for p j s1 s2
    by (auto simp: post_def only_peers_def notify_partner_sel)
  apply (simp add: only_peers_def)
  done

definition received :: "connection_hdl \<Rightarrow> signal_server \<Rightarrow> signal_server \<Rightarrow> bool" where
  "received hdl s t \<longleftrightarrow>
     only_peers (m_map_peers s) (m_last_id s) s t \<or>
     only_peers (smap_erase hdl (m_map_peers s)) (m_last_id s) s t \<or>
     (\<exists>i name. next_id_loop (succ_id (m_last_id s)) s = Some i \<and>
        only_peers (smap_put hdl \<lparr>peer_id = i, peer_hdl = hdl, peer_name = name\<rparr> (m_map_peers s)) i s t)"

lemma dispatch_effect: "post (received hdl s) (dispatch ice E hdl type v s)"
  unfolding dispatch_def
  using ProcessSignIn_effect [of s hdl ice E v] ProcessSignOut_effect [of hdl s E v]
    ProcessMessage_effect [of s E hdl v] ProcessExist_effect [of s E hdl v]
  by (auto simp: post_def received_def only_peers_def)

lemma OnReceive_effect: "post (received hdl s) (OnReceive ice E hdl text s)"
  unfolding OnReceive_def
  by (intro post_intros) (auto intro: dispatch_effect simp: received_def only_peers_def)

lemma received_frame: "received hdl s t \<Longrightarrow> framework t = framework s"
  by (auto simp: received_def only_peers_def)

interpretation sig: ws_client "OnReceive ice" OnClose
  by unfold_locales
     (auto simp: only_peers_def dest: postD [OF OnReceive_effect] postD [OF OnClose_effect] received_frame)


section \<open>Identifiers\<close>

lemma IsExist_id_iff: "IsExist_id i s \<longleftrightarrow> i \<in> (\<lambda>(h, p). peer_id p) ` set (m_map_peers s)"
  by (force simp: IsExist_id_def list_ex_iff)

lemma next_id_loop_finds:
  assumes "0 \<le> i" "i < INT_MAX" "0 \<le> f" "f < INT_MAX" "\<not> IsExist_id f s"
  shows "\<exists>j. next_id_loop i s = Some j \<and> 0 \<le> j \<and> j < INT_MAX \<and> \<not> IsExist_id j s"
  using assms(1,2)
proof (induction "nat ((f - i) mod INT_MAX)" arbitrary: i rule: less_induct)
  case less
  show ?case
  proof (cases "IsExist_id i s")
    case True
    with assms(5) have ne: "i \<noteq> f" by blast
    have range: "0 \<le> succ_id i" "succ_id i < INT_MAX" using less.prems by (auto simp: succ_id_def int_limits)
    have "nat ((f - succ_id i) mod INT_MAX) < nat ((f - i) mod INT_MAX)"
    proof (cases "i + 1 \<ge> INT_MAX")
      case True
      then have i: "i = INT_MAX - 1" using less.prems by simp
      have "(f - i) mod INT_MAX = f + 1"
        using assms(3,4) ne i by (simp add: mod_below_zero)
      then show ?thesis using True assms(3,4) ne i by (simp add: succ_id_def)
    next
      case False
      show ?thesis
      proof (cases "i < f")
        case True
        then show ?thesis using False assms(3,4) less.prems by (simp add: succ_id_def)
      next
        case False2: False
        have "(f - i) mod INT_MAX = f - i + INT_MAX" "(f - (i + 1)) mod INT_MAX = f - (i + 1) + INT_MAX"
          using False2 ne assms(3,4) less.prems False by (simp_all add: mod_below_zero)
        then show ?thesis using False assms(3,4) less.prems by (simp add: succ_id_def)
      qed
    qed
    from less.hyps [OF this range] True show ?thesis by (simp add: next_id_loop.simps [of i s])
  qed (use less.prems in \<open>simp add: next_id_loop.simps [of i s]\<close>)
qed

lemma free_id:
  assumes "int (length (m_map_peers s)) < INT_MAX"
  shows "\<exists>f. 0 \<le> f \<and> f < INT_MAX \<and> \<not> IsExist_id f s"
proof (rule ccontr)
  assume "\<not> ?thesis"
  then have "{0..<INT_MAX} \<subseteq> (\<lambda>(h, p). peer_id p) ` set (m_map_peers s)"
    by (auto simp: IsExist_id_iff)
  then have "card {0..<INT_MAX} \<le> length (m_map_peers s)"
    using card_mono [of "(\<lambda>(h, p). peer_id p) ` set (m_map_peers s)"] card_image_le [of "set (m_map_peers s)"]
      card_length [of "m_map_peers s"] by (meson List.finite_set finite_imageI le_trans)
  with assms show False by simp
qed

definition sig_inv :: "signal_server \<Rightarrow> bool" where
  "sig_inv s \<longleftrightarrow> smap_ok (m_map_peers s) \<and>
     (\<forall>(h, p) \<in> set (m_map_peers s). 0 \<le> peer_id p \<and> peer_id p < INT_MAX \<and> peer_hdl p = h) \<and>
     distinct (map (\<lambda>(h, p). peer_id p) (m_map_peers s)) \<and>
     - 1 \<le> m_last_id s \<and> m_last_id s < INT_MAX"


lemma sig_inv_NextID:
  assumes "sig_inv s" "int (length (m_map_peers s)) < INT_MAX"
  shows "\<exists>i. next_id_loop (succ_id (m_last_id s)) s = Some i \<and> 0 \<le> i \<and> i < INT_MAX \<and> \<not> IsExist_id i s"
proof -
  obtain f where "0 \<le> f" "f < INT_MAX" "\<not> IsExist_id f s" using free_id [OF assms(2)] by blast
  moreover have "0 \<le> succ_id (m_last_id s)" "succ_id (m_last_id s) < INT_MAX"
    using assms(1) by (auto simp: sig_inv_def succ_id_def int_limits)
  ultimately show ?thesis by (intro next_id_loop_finds)
qed

text \<open>Whatever \<^verbatim>\<open>NextID\<close> returns is free.\<close>

lemma succ_id_range: "- 1 \<le> i \<Longrightarrow> i < INT_MAX \<Longrightarrow> 0 \<le> succ_id i \<and> succ_id i < INT_MAX"
  by (auto simp: succ_id_def int_limits)

lemma next_id_loop_free:
  assumes "next_id_loop i s = Some j"
  shows "- 1 \<le> i \<longrightarrow> i < INT_MAX \<longrightarrow> i \<noteq> - 1 \<longrightarrow> 0 \<le> j \<and> j < INT_MAX \<and> \<not> IsExist_id j s"
proof (rule next_id_loop.raw_induct [OF _ assms])
  fix f i s j
  assume IH: "\<And>i s j. f i s = Some j \<Longrightarrow>
      - 1 \<le> i \<longrightarrow> i < INT_MAX \<longrightarrow> i \<noteq> - 1 \<longrightarrow> 0 \<le> j \<and> j < INT_MAX \<and> \<not> IsExist_id j s"
    and body: "(if IsExist_id i s then f (succ_id i) s else Some i) = Some j"
  show "- 1 \<le> i \<longrightarrow> i < INT_MAX \<longrightarrow> i \<noteq> - 1 \<longrightarrow> 0 \<le> j \<and> j < INT_MAX \<and> \<not> IsExist_id j s"
    using IH [of "succ_id i" s j] body succ_id_range [of i] by (auto split: if_splits)
qed

lemma distinct_ids_put:
  assumes "smap_ok m" "distinct (map (\<lambda>(h, p). peer_id p) m)"
    "peer_id q \<notin> (\<lambda>(h, p). peer_id p) ` set m"
  shows "distinct (map (\<lambda>(h, p). peer_id p) (smap_put h q m))"
  using assms
proof (induction h q m rule: smap_put.induct)
  case (2 k v p m)
  then show ?case using set_smap_put_subset [of k v m] by (auto split: prod.splits) (force)+
qed simp

lemma sig_inv_put:
  assumes inv: "sig_inv s" and t: "only_peers (smap_put h \<lparr>peer_id = i, peer_hdl = h, peer_name = n\<rparr> (m_map_peers s)) i s t"
    and i: "0 \<le> i" "i < INT_MAX" "\<not> IsExist_id i s"
  shows "sig_inv t"
  using assms distinct_ids_put [of "m_map_peers s" "\<lparr>peer_id = i, peer_hdl = h, peer_name = n\<rparr>" h]
  by (auto simp: sig_inv_def only_peers_def smap_ok_put set_smap_put IsExist_id_iff)

lemma sig_inv_erase:
  assumes inv: "sig_inv s" and t: "only_peers (smap_erase h (m_map_peers s)) (m_last_id s) s t"
  shows "sig_inv t"
  using assms smap_ok_erase [of "m_map_peers s" h]
  by (auto simp: sig_inv_def only_peers_def smap_erase_def distinct_map_filter)

lemma sig_inv_same:
  assumes inv: "sig_inv s" and t: "only_peers (m_map_peers s) (m_last_id s) s t"
  shows "sig_inv t"
  using assms by (auto simp: sig_inv_def only_peers_def)

lemma sig_inv_next:
  assumes "sig_inv s" "next_id_loop (succ_id (m_last_id s)) s = Some i"
  shows "0 \<le> i" "i < INT_MAX" "\<not> IsExist_id i s"
  using next_id_loop_free [OF assms(2)] succ_id_range [of "m_last_id s"] assms(1)
  by (auto simp: sig_inv_def)

lemma sig_inv_received: 
  assumes inv: "sig_inv s" and r: "received h s t"
  shows "sig_inv t"
proof -
  from r consider "only_peers (m_map_peers s) (m_last_id s) s t"
    | "only_peers (smap_erase h (m_map_peers s)) (m_last_id s) s t"
    | i n where "next_id_loop (succ_id (m_last_id s)) s = Some i"
        "only_peers (smap_put h \<lparr>peer_id = i, peer_hdl = h, peer_name = n\<rparr> (m_map_peers s)) i s t"
    unfolding received_def by blast
  then show ?thesis
  proof cases
    case 3
    show ?thesis by (rule sig_inv_put [OF inv 3(2) sig_inv_next [OF inv 3(1)]])
  qed (use inv in \<open>auto intro: sig_inv_same sig_inv_erase\<close>)
qed

section \<open>The running server\<close>

text \<open>Every signed-in peer has a live connection.\<close>

definition peers_live :: "signal_server \<Rightarrow> bool" where
  "peers_live s \<longleftrightarrow>
     (\<forall>q\<in>set (m_map_peers s). fst q \<in> set (m_con_list_plain s) \<or> fst q \<in> set (m_con_list_tls s))"

definition sys_inv :: "signal_server ws_system \<Rightarrow> bool" where
  "sys_inv s \<longleftrightarrow> ws_inv s \<and> sig_inv (srv s) \<and> peers_live (srv s)"

lemma sys_inv_init: "sys_inv (ws_init SignalServer)"
  by (simp add: sys_inv_def ws_inv_def ws_init_def sig_inv_def peers_live_def SignalServer_def
      WebsocketServer_def ws_server.defs int_limits)

lemma received_keys:
  assumes "received h s t" "q \<in> set (m_map_peers t)"
  shows "fst q = h \<or> q \<in> set (m_map_peers s)"
proof -
  from assms(1) obtain v where "m_map_peers t = m_map_peers s \<or> m_map_peers t = smap_erase h (m_map_peers s) \<or>
      m_map_peers t = smap_put h v (m_map_peers s)"
    unfolding received_def only_peers_def by blast
  then show ?thesis using assms(2) set_smap_put_subset [of h v "m_map_peers s"]
    by (auto simp: set_smap_erase)
qed

lemma received_live:
  assumes "received h s t" "peers_live s" "h \<in> set (m_con_list_plain s) \<union> set (m_con_list_tls s)"
  shows "peers_live t"
proof -
  have "m_con_list_plain t = m_con_list_plain s" "m_con_list_tls t = m_con_list_tls s"
    using frameworkD(1,2) [OF received_frame [OF assms(1)]] by simp_all
  then show ?thesis
    using assms(2,3) unfolding peers_live_def by (metis received_keys [OF assms(1)] UnE)
qed

text \<open>The peers under one processed action.\<close>

lemma process_action_peers:
  assumes p: "process_action (OnReceive ice) OnClose E a s = Inr (go_on, t)"
    and inv: "sig_inv s" "peers_live s"
    and live: "act_type a = MESSAGE \<Longrightarrow> act_hdl a \<in> set (m_con_list_plain s) \<union> set (m_con_list_tls s)"
  shows "sig_inv t \<and> peers_live t"
proof (cases "act_type a")
  case UNSUBSCRIBE
  let ?u = "s\<lparr>m_con_list_plain := sset_erase (act_hdl a) (m_con_list_plain s),
               m_con_list_tls := sset_erase (act_hdl a) (m_con_list_tls s)\<rparr>"
  from p UNSUBSCRIBE have "OnClose E (act_hdl a) ?u = Inr t"
    by (simp add: process_action_def res_simps)
  from postD [OF OnClose_effect this]
  have t: "only_peers (smap_erase (act_hdl a) (m_map_peers s)) (m_last_id s) ?u t" by simp
  have "sig_inv ?u" using inv(1) by (simp add: sig_inv_def)
  then have "sig_inv t" using t by (auto intro: sig_inv_erase)
  moreover have "peers_live t"
    using t inv(2) by (simp add: only_peers_def peers_live_def framework_def set_smap_erase)
  ultimately show ?thesis by blast
next
  case MESSAGE
  then have "t = s \<or> (\<exists>text. OnReceive ice E (act_hdl a) text s = Inr t)"
    using p by (auto simp: process_action_def res_simps split: option.splits if_splits)
  then have "t = s \<or> received (act_hdl a) s t" by (blast dest: postD [OF OnReceive_effect])
  with inv live [OF MESSAGE] show ?thesis by (blast intro: sig_inv_received received_live)
qed (use p inv in \<open>fastforce simp: process_action_def sig_inv_def peers_live_def\<close>)+

lemma ping_sel [simp]:
  "m_map_peers (ping E ep h s) = m_map_peers s" "m_last_id (ping E ep h s) = m_last_id s"
  by (simp_all add: ping_def split: option.splits)

lemma ping_all_sel [simp]:
  "m_map_peers (ping_all E s) = m_map_peers s" "m_last_id (ping_all E s) = m_last_id s"
  by (simp_all add: ping_all_def fold_keeps)

lemma on_pong_timeout_sel [simp]:
  "m_map_peers (on_pong_timeout E h s) = m_map_peers s" "m_last_id (on_pong_timeout E h s) = m_last_id s"
  by (simp_all add: on_pong_timeout_def Let_def split: option.splits)

lemma sys_inv_step:
  assumes inv: "sys_inv s" and st: "ws_step (OnReceive ice) OnClose s e t"
  shows "sys_inv t"
proof -
  have ws: "ws_inv t" using inv st sig.ws_inv_step by (auto simp: sys_inv_def)
  from st have "sig_inv (srv t) \<and> peers_live (srv t)"
  proof (cases rule: ws_step.cases)
    case (step_process E go_on u)
    then obtain a as where q: "m_actions (srv s) = a # as"
      and p: "process_action (OnReceive ice) OnClose E a ((srv s)\<lparr>m_actions := as\<rparr>) = Inr (go_on, u)"
      by (auto simp: process_messages_step_def split: list.splits)
    have "sig_inv u \<and> peers_live u"
      by (rule process_action_peers [OF p])
         (use inv sig.message_from_live [OF _ q] in \<open>auto simp: sys_inv_def sig_inv_def peers_live_def\<close>)
    then show ?thesis using step_process by simp
  next
    case (step_pong_timeout E h)
    then show ?thesis using frameworkD [OF framework_on_pong_timeout [of E h "srv s"]] inv
      by (simp add: sys_inv_def sig_inv_def peers_live_def)
  next
    case (step_ping_all E)
    then show ?thesis using frameworkD [OF framework_ping_all [of E "srv s"]] inv
      by (simp add: sys_inv_def sig_inv_def peers_live_def)
  qed (use inv in \<open>auto simp: sys_inv_def sig_inv_def peers_live_def on_open_def on_open_tls_def on_close_def
        on_message_def push_action_def exit_notify_def exit_push_def\<close>)
  with ws show ?thesis by (simp add: sys_inv_def)
qed

interpretation server: invariant_system "\<lambda>s. s = ws_init SignalServer" "ws_step (OnReceive ice) OnClose" sys_inv
  by unfold_locales (auto simp: sys_inv_init intro: sys_inv_step)

text \<open>C12 (NextID_fresh). As long as fewer than INT_MAX peers are signed in, the search of \<^verbatim>\<open>NextID\<close> for an
  identifier ends, with one in the range from 0 to INT_MAX - 1 that no peer has, also after
  the counter has wrapped around.\<close>

theorem NextID_fresh:
  assumes "sig_inv s" "int (length (m_map_peers s)) < INT_MAX"
  shows "\<exists>i. NextID s = Some (i, s\<lparr>m_last_id := i\<rparr>) \<and> 0 \<le> i \<and> i < INT_MAX \<and> \<not> IsExist_id i s"
  using sig_inv_NextID [OF assms] by (auto simp: NextID_eq)

theorem NextID_fresh_witness:
  "\<exists>i. NextID (SignalServer\<lparr>m_last_id := INT_MAX - 1\<rparr>) = Some (i, SignalServer\<lparr>m_last_id := i\<rparr>) \<and> 0 \<le> i \<and> i < INT_MAX"
proof -
  let ?s = "SignalServer\<lparr>m_last_id := INT_MAX - 1\<rparr>"
  have "sig_inv ?s" "int (length (m_map_peers ?s)) < INT_MAX"
    by (simp_all add: sig_inv_def SignalServer_def ws_server.defs int_limits)
  from NextID_fresh [OF this] show ?thesis by auto
qed

end
