(* ===== verification/Signal_Requests.thy ===== *)
theory Signal_Requests
  imports Signal_Laws
begin

text \<open>
  The requests of the signal server one by one: when a request is handled without an exception, to
  whom its answers go, what the tables hold afterwards, and what the printed table shows.
\<close>

section \<open>Which requests return\<close>

definition member_or_null :: "string \<Rightarrow> jvalue \<Rightarrow> jvalue" where
  "member_or_null k v = (case members v k of None \<Rightarrow> nullSingleton | Some w \<Rightarrow> w)"

lemma returns_rbind [simp]: "returns (rbind m f) \<longleftrightarrow> (\<exists>x. m = Inr x \<and> returns (f x))"
  by (cases m) simp_all

lemma returns_iff: "returns m \<longleftrightarrow> (\<exists>x. m = Inr x)"
  by (cases m) simp_all

lemma resolveReference_object:
  assumes "isNull v \<or> isObject v"
  shows "\<exists>v'. resolveReference k v = Inr (v', member_or_null k v) \<and> isObject v' \<and>
     (\<forall>j. j \<noteq> k \<longrightarrow> members v' j = members v j)"
  using assms unfolding null_or_object
  by (auto simp: resolveReference_def member_or_null_def members_def isObject_def type_of_def map_of_smap_put
      split: option.splits)

lemma isMember_object: "isObject v \<Longrightarrow> isMember k v = Inr (members v k \<noteq> None)"
  by (simp add: isMember_members dom_def)

lemma assign_members_object:
  "isNull v \<or> isObject v \<Longrightarrow> \<exists>v'. assign_members kxs v = Inr v' \<and> (isNull v' \<or> isObject v')"
  by (induction kxs v rule: assign_members.induct) (use assign_member_members in fastforce)+

lemma assign_members_fresh:
  assumes "kxs \<noteq> []"
  shows "\<exists>v'. assign_members kxs nullSingleton = Inr v' \<and> isObject v'"
proof -
  obtain k x rest where kxs: "kxs = (k, x) # rest" using assms by (cases kxs) auto
  have "\<exists>v'. assign_members kxs v = Inr v' \<and> isObject v'" if "isObject v" for kxs v
    using that by (induction kxs v rule: assign_members.induct) (use assign_member_members in fastforce)+
  then show ?thesis
    using assign_member_members [of nullSingleton k x] by (auto simp: kxs isNull_def type_of_def)
qed

lemma sign_in_reply_total: "\<exists>j. sign_in_reply ice i name rep = Inr j \<and> isObject j"
proof -
  obtain j1 where j1: "assign_members
       [(kID, value_of_int i), (kName, value_of_string name), (kSignal, value_of_string ''return''),
        (''request'', value_of_string ''sign_in''), (''status'', value_of_string ''ok''),
        (''repeat'', value_of_bool rep)] nullSingleton = Inr j1" "isObject j1"
    using assign_members_fresh by blast
  obtain j2 where j2: "assign_members
            [(''uri'', value_of_string (ice_uri ice)), (''username'', value_of_string (ice_username ice)),
             (''password'', value_of_string (ice_password ice))] nullSingleton = Inr j2"
    using assign_members_fresh by blast
  show ?thesis
    using assign_member_members [of j1 "''ice''" j2] j1(2)
    unfolding sign_in_reply_def j1(1) j2 by auto
qed

lemma peer_list_total: "isNull v \<or> isArray v \<Longrightarrow> \<exists>v'. peer_list ps v = Inr v'"
proof (induction ps v rule: peer_list.induct)
  case (2 h p ps v)
  obtain pv where pv: "peer_entry p = Inr pv" unfolding peer_entry_def using assign_members_fresh by blast
  obtain v' where v': "append_value pv v = Inr v'" "isArray v'"
    using 2(2) by (cases "payload v") (auto simp: append_value_def isNull_def isArray_def type_of_def Let_def split: option.splits)
  then show ?case using 2(1) [OF pv v'(1)] pv by simp
qed simp

lemma ProcessSignIn_returns:
  assumes "isNull v \<or> isObject v" "returns (asString (member_or_null ''name'' v))"
    "next_id_loop (succ_id (m_last_id s)) s = Some i"
  shows "\<exists>t. ProcessSignIn ice E hdl v s = Inr t"
proof -
  obtain v' where v': "resolveReference ''name'' v = Inr (v', member_or_null ''name'' v)" "isObject v'"
    using resolveReference_object [OF assms(1)] by blast
  obtain name where name: "asString (member_or_null ''name'' v) = Inr name"
    using assms(2) by (auto simp: returns_iff)
  obtain j where j: "sign_in_reply ice i name (IsExist_name name (s\<lparr>m_last_id := i\<rparr>) \<noteq> - 1) = Inr j" "isObject j"
    using sign_in_reply_total by blast
  obtain ps where ps: "peer_list (m_map_peers s) nullSingleton = Inr ps"
    using peer_list_total [of nullSingleton] by (auto simp: isNull_def type_of_def)
  obtain j' where "assign_member ''peers'' ps j = Inr j'"
    using assign_member_members [of j "''peers''" ps] j(2) by blast
  then show ?thesis
    by (auto simp: ProcessSignIn_def v' name NextID_def assms(3) Let_def j ps isMember_object send_value_eq)
qed

lemma ProcessSignIn_throws:
  assumes "isNull v \<or> isObject v" "\<not> returns (asString (member_or_null ''name'' v))"
  shows "\<not> returns (ProcessSignIn ice E hdl v s)"
proof -
  obtain v' where v': "resolveReference ''name'' v = Inr (v', member_or_null ''name'' v)"
    using resolveReference_object [OF assms(1)] by blast
  from assms(2) show ?thesis
    by (cases "asString (member_or_null ''name'' v)") (simp_all add: ProcessSignIn_def v')
qed

lemma notify_partner_total: "\<exists>t. notify_partner E i n s = Inr t"
  by (auto simp: notify_partner_def Let_def send_value_eq split: prod.splits)

lemma ProcessSignOut_returns:
  assumes "isNull v \<or> isObject v"
  shows "returns (ProcessSignOut E hdl v s) \<longleftrightarrow> returns (asInt (member_or_null ''id'' v))"
proof -
  obtain v' where v': "resolveReference ''id'' v = Inr (v', member_or_null ''id'' v)"
    using resolveReference_object [OF assms(1)] by blast
  obtain j where j: "assign_members [(kSignal, value_of_string ''return''), (''request'', value_of_string ''sign_out''),
              (''status'', value_of_string ''ok'')] nullSingleton = Inr j" "isObject j"
    using assign_members_fresh by blast
  obtain c where c: "clear_value j = Inr c" "isObject c"
    using j(2) by (cases "payload j") (auto simp: clear_value_def isObject_def type_of_def)
  have "\<exists>n. gone_notice i c = Inr n" for i
    unfolding gone_notice_def using assign_members_object c(2) by blast
  note gone = this
  show ?thesis
  proof (cases "asInt (member_or_null ''id'' v)")
    case (Inr i)
    let ?s = "snd (Send E (projr (toStyledString j)) hdl (s\<lparr>m_map_peers := smap_erase hdl (m_map_peers s)\<rparr>))"
    obtain n where n: "gone_notice i c = Inr n" using gone by blast
    obtain t where t: "notify_partner E i n ?s = Inr t" using notify_partner_total by blast
    show ?thesis
      by (simp only: ProcessSignOut_def v' rbind_Inr Inr j(1) c(1) Let_def send_value_eq n t
         prod.case returns_simps)
  qed (simp add: ProcessSignOut_def v')
qed

lemma ProcessExist_returns:
  assumes "isNull v \<or> isObject v"
  shows "returns (ProcessExist E hdl v s) \<longleftrightarrow> returns (asString (member_or_null ''name'' v))"
proof -
  obtain v' where v': "resolveReference ''name'' v = Inr (v', member_or_null ''name'' v)"
    using resolveReference_object [OF assms(1)] by blast
  have "\<exists>j. assign_members ([(kSignal, value_of_string ''return''), (''request'', value_of_string ''exist'')] @ xs)
     nullSingleton = Inr j" for xs
  proof -
    have "[(kSignal, value_of_string ''return''), (''request'', value_of_string ''exist'')] @ xs \<noteq> []" by simp
    from assign_members_fresh [OF this] show ?thesis by blast
  qed
  note reply = this
  show ?thesis
  proof (cases "asString (member_or_null ''name'' v)")
    case (Inr name)
    obtain j where j: "assign_members ([(kSignal, value_of_string ''return''), (''request'', value_of_string ''exist'')] @
        (if IsExist_name name s \<ge> 0 then [(''id'', value_of_int (IsExist_name name s)), (''exist'', value_of_bool True)]
         else [(''exist'', value_of_bool False)])) nullSingleton = Inr j" using reply by blast
    show ?thesis
      by (simp only: ProcessExist_def v' rbind_Inr Inr j Let_def send_value_eq prod.case returns_simps)
  qed (simp add: ProcessExist_def v')
qed

definition message_acceptable :: "jvalue \<Rightarrow> bool" where
  "message_acceptable v \<longleftrightarrow> returns (asInt (member_or_null ''to'' v)) \<and>
     (case members v ''type'' of
        None \<Rightarrow> True
      | Some jtype \<Rightarrow> (case asString jtype of
            Inl _ \<Rightarrow> False
          | Inr type \<Rightarrow> type = ''offer'' \<longrightarrow> returns (asInt (member_or_null ''from'' v))))"

lemma ProcessMessage_returns:
  assumes "isNull v \<or> isObject v"
  shows "returns (ProcessMessage E hdl v s) \<longleftrightarrow> message_acceptable v"
proof -
  obtain v1 where v1: "resolveReference ''to'' v = Inr (v1, member_or_null ''to'' v)" "isObject v1"
    and same: "\<forall>j. j \<noteq> ''to'' \<longrightarrow> members v1 j = members v j"
    using resolveReference_object [OF assms(1)] by blast
  have m1: "members v1 ''type'' = members v ''type''" "members v1 ''from'' = members v ''from''"
    using same by simp_all
  then have n1: "member_or_null ''type'' v1 = member_or_null ''type'' v"
    "member_or_null ''from'' v1 = member_or_null ''from'' v"
    by (simp_all only: member_or_null_def)
  obtain v2 where v2: "resolveReference ''type'' v1 = Inr (v2, member_or_null ''type'' v)"
    using resolveReference_object [OF disjI2 [OF v1(2)], of "''type''"] unfolding n1 by blast
  obtain v3 where v3: "resolveReference ''from'' v1 = Inr (v3, member_or_null ''from'' v)"
    using resolveReference_object [OF disjI2 [OF v1(2)], of "''from''"] unfolding n1 by blast
  have im: "isMember ''type'' v1 = Inr (members v ''type'' \<noteq> None)"
    using isMember_object [OF v1(2), of "''type''"] by (simp only: m1)
  have type: "member_or_null ''type'' v = w" if "members v ''type'' = Some w" for w
    using that by (simp add: member_or_null_def)
  show ?thesis
  proof (cases "asInt (member_or_null ''to'' v)")
    case (Inr i)
    obtain u where u: "(if \<not> expired E (GetConnectionFromID i s)
        then send_value E v1 (GetConnectionFromID i s) s else Inr s) = Inr u"
      by (cases "expired E (GetConnectionFromID i s)") (simp_all add: send_value_eq)
    note ev = ProcessMessage_def v1 rbind_Inr rbind_Inl Inr Let_def u prod.case im message_acceptable_def
    show ?thesis
    proof (cases "members v ''type''")
      case None
      then show ?thesis by (simp only: ev option.case) simp
    next
      case (Some w)
      show ?thesis
        by (simp only: ev Some option.case v2 v3 type [OF Some])
           (cases "asString w"; cases "asInt (member_or_null ''from'' v)"; simp)
    qed
  qed (simp add: ProcessMessage_def v1 message_acceptable_def)
qed

text \<open>When a request that parsed is handled without an exception.\<close>

definition acceptable :: "jvalue \<Rightarrow> bool" where
  "acceptable v \<longleftrightarrow> isNull v \<or> isObject v \<and>
     (case members v ''signal'' of
        None \<Rightarrow> True
      | Some jtype \<Rightarrow> (case asString jtype of
            Inl _ \<Rightarrow> False
          | Inr type \<Rightarrow>
              if type = ''sign_in'' \<or> type = ''exist'' then returns (asString (member_or_null ''name'' v))
              else if type = ''sign_out'' then returns (asInt (member_or_null ''id'' v))
              else if type = ''message'' then message_acceptable v
              else True))"

lemma dispatch_returns:
  assumes "isNull v \<or> isObject v" "next_id_loop (succ_id (m_last_id s)) s = Some i"
  shows "returns (dispatch ice E hdl type v s) \<longleftrightarrow>
     (if type = ''sign_in'' \<or> type = ''exist'' then returns (asString (member_or_null ''name'' v))
      else if type = ''sign_out'' then returns (asInt (member_or_null ''id'' v))
      else if type = ''message'' then message_acceptable v
      else True)"
proof -
  have "returns (ProcessSignIn ice E hdl v s) \<longleftrightarrow> returns (asString (member_or_null ''name'' v))"
    using ProcessSignIn_returns [OF assms(1) _ assms(2), of ice E hdl] ProcessSignIn_throws [OF assms(1)]
    by (metis returns_simps(1))
  with ProcessSignOut_returns [OF assms(1)] ProcessExist_returns [OF assms(1)]
    ProcessMessage_returns [OF assms(1)]
  show ?thesis by (simp add: dispatch_def)
qed

lemma OnReceive_returns:
  assumes "reader_parse text = Inr (True, v)" "next_id_loop (succ_id (m_last_id s)) s = Some i"
  shows "returns (OnReceive ice E hdl text s) \<longleftrightarrow> acceptable v"
proof (cases "isNull v \<or> isObject v")
  case True
  have m: "isMember kSignal v = Inr (members v kSignal \<noteq> None)"
    using True by (simp add: isMember_members dom_def)
  show ?thesis
  proof (cases "members v ''signal''")
    case None
    then show ?thesis using True by (simp add: OnReceive_def assms(1) m acceptable_def)
  next
    case (Some w)
    then have o: "isObject v"
      by (cases "payload v") (simp_all add: members_def isObject_def type_of_def)
    have r: "resolveReference ''signal'' v = Inr (v, w)"
      using Some o by (cases "payload v") (auto simp: resolveReference_def members_def isObject_def type_of_def)
    have nn: "\<not> isNull v" using o by (simp add: isNull_def isObject_def)
    show ?thesis
      by (cases "asString w")
         (simp_all add: OnReceive_def assms(1) m Some r acceptable_def o nn dispatch_returns [OF True assms(2)])
  qed
next
  case False
  then show ?thesis using isMember_throws [of v kSignal]
    by (auto simp: OnReceive_def assms(1) acceptable_def)
qed

section \<open>Looking peers up\<close>

lemma find_SomeD: "find P xs = Some x \<Longrightarrow> x \<in> set xs \<and> P x"
  by (metis find_Some_iff nth_mem)

lemma ids_inj:
  assumes "sig_inv s" "(h, p) \<in> set (m_map_peers s)" "(k, q) \<in> set (m_map_peers s)" "peer_id p = peer_id q"
  shows "h = k" "p = q"
proof -
  have "inj_on (\<lambda>(h, p). peer_id p) (set (m_map_peers s))"
    using assms(1) by (simp add: sig_inv_def distinct_map)
  from inj_onD [OF this, of "(h, p)" "(k, q)"] assms(2-4) show "h = k" "p = q" by auto
qed

lemma GetConnectionFromID_peer:
  assumes inv: "sig_inv s" and p: "smap_find (m_map_peers s) h = Some p"
  shows "GetConnectionFromID (peer_id p) s = h"
proof -
  have mem: "(h, p) \<in> set (m_map_peers s)" using inv p by (simp add: sig_inv_def smap_find_iff)
  then obtain k q where f: "find (\<lambda>(k, q). peer_id q = peer_id p) (m_map_peers s) = Some (k, q)"
    by (cases "find (\<lambda>(k, q). peer_id q = peer_id p) (m_map_peers s)") (auto simp: find_None_iff)
  from find_SomeD [OF this] have "(k, q) \<in> set (m_map_peers s)" "peer_id q = peer_id p" by auto
  with ids_inj [OF inv mem] f show ?thesis by (simp add: GetConnectionFromID_def)
qed

lemma GetConnectionFromID_none:
  "\<not> IsExist_id i s \<Longrightarrow> GetConnectionFromID i s = 0"
  by (auto simp: GetConnectionFromID_def IsExist_id_def list_ex_iff find_None_iff dest!: find_SomeD split: option.splits)

lemma IsExist_name_iff:
  assumes "sig_inv s"
  shows "IsExist_name n s \<noteq> - 1 \<longleftrightarrow> (\<exists>(h, p) \<in> set (m_map_peers s). peer_name p = n)"
    "IsExist_name n s \<ge> 0 \<longleftrightarrow> (\<exists>(h, p) \<in> set (m_map_peers s). peer_name p = n)"
proof -
  have "IsExist_name n s \<ge> 0 \<and> (\<exists>(h, p) \<in> set (m_map_peers s). peer_name p = n) \<or>
        IsExist_name n s = - 1 \<and> \<not> (\<exists>(h, p) \<in> set (m_map_peers s). peer_name p = n)"
  proof (cases "find (\<lambda>(h, p). peer_name p = n) (m_map_peers s)")
    case None
    then have "IsExist_name n s = - 1" by (simp add: IsExist_name_def)
    with None show ?thesis by (auto simp: find_None_iff)
  next
    case (Some x)
    obtain h p where x: "x = (h, p)" by (cases x)
    from find_SomeD [OF Some] have "(h, p) \<in> set (m_map_peers s)" "peer_name p = n" by (auto simp: x)
    with assms Some show ?thesis by (auto simp: IsExist_name_def x sig_inv_def)
  qed
  then show "IsExist_name n s \<noteq> - 1 \<longleftrightarrow> (\<exists>(h, p) \<in> set (m_map_peers s). peer_name p = n)"
    "IsExist_name n s \<ge> 0 \<longleftrightarrow> (\<exists>(h, p) \<in> set (m_map_peers s). peer_name p = n)" by auto
qed

section \<open>What goes out\<close>

text \<open>The frames that sending a text to a connection puts on the network.\<close>

definition text_frames :: "ws_env \<Rightarrow> string \<Rightarrow> connection_hdl \<Rightarrow> 'a ws_server_scheme \<Rightarrow> net_event list" where
  "text_frames E text h s =
     (if env_send E (endpoint_of h s) h op_text text = None
      then [SendFrame (endpoint_of h s) h op_text text] else [])"

lemma net_out_Send: "net_out (snd (Send E text h s)) = net_out s @ text_frames E text h s"
  by (simp add: Send_def Send_frame_def text_frames_def emit_def split: option.splits)

lemma text_frames_framework: "framework t = framework s \<Longrightarrow> text_frames E text h t = text_frames E text h s"
  by (simp add: text_frames_def endpoint_of_def framework_def)

lemma net_out_Send_erase:
  "net_out (snd (Send E text h (s\<lparr>m_map_peers := ps\<rparr>))) = net_out s @ text_frames E text h s"
proof -
  have f: "framework (s\<lparr>m_map_peers := ps\<rparr>) = framework s" by (simp add: framework_def)
  have n: "net_out (s\<lparr>m_map_peers := ps\<rparr>) = net_out s" by simp
  show ?thesis by (simp only: net_out_Send text_frames_framework [OF f] n)
qed

abbreviation styled :: "jvalue \<Rightarrow> string" where "styled v \<equiv> projr (toStyledString v)"

lemma ProcessMessage_out:
  "post (\<lambda>t. \<exists>v' jto i. resolveReference ''to'' v = Inr (v', jto) \<and> asInt jto = Inr i \<and>
      net_out t = net_out s @ (if expired E (GetConnectionFromID i s) then []
                               else text_frames E (styled v') (GetConnectionFromID i s) s))
     (ProcessMessage E hdl v s)"
  unfolding ProcessMessage_def
  by (intro post_intros) (auto simp: send_value_eq net_out_Send split: if_splits)

text \<open>C2 (ProcessMessage_routes). A relayed message goes to the connection of the one peer whose
  identifier is the member \<^verbatim>\<open>to\<close>, unless that connection has expired, and to nobody else; when no
  peer has the identifier nothing is sent. A message without \<^verbatim>\<open>to\<close> counts as sent to
  peer 0.\<close>

theorem ProcessMessage_routes:
  assumes inv: "sig_inv s" and run: "ProcessMessage E hdl v s = Inr t"
    and to_id: "resolveReference ''to'' v = Inr (v', jto)" "asInt jto = Inr i"
  shows "(\<forall>h p. smap_find (m_map_peers s) h = Some p \<and> peer_id p = i \<longrightarrow>
            net_out t = net_out s @ (if expired E h then [] else text_frames E (styled v') h s)) \<and>
         (\<not> IsExist_id i s \<longrightarrow> net_out t = net_out s)"
  using postD [OF ProcessMessage_out run] to_id GetConnectionFromID_peer [OF inv] GetConnectionFromID_none
  by (fastforce simp: expired_def)

lemma sign_in_reply_members:
  assumes "sign_in_reply ice i name rep = Inr j"
  shows "members j ''id'' = Some (value_of_int i)" "members j ''name'' = Some (value_of_string name)"
    "members j ''repeat'' = Some (value_of_bool rep)" "isObject j"
  using assms
  by (auto simp: sign_in_reply_def assign_member_def resolveReference_def replace_member_def initBasic_def
      set_payload_def members_def isObject_def type_of_def map_of_smap_put res_simps split: if_splits)

lemma assign_member_other:
  "isObject j \<Longrightarrow> assign_member k x j = Inr j' \<Longrightarrow> n \<noteq> k \<Longrightarrow> members j' n = members j n"
  using assign_member_members [of j k x] by auto

lemma ProcessSignIn_out:
  "post (\<lambda>t. \<exists>v' jname name i reply. resolveReference ''name'' v = Inr (v', jname) \<and> asString jname = Inr name \<and>
      next_id_loop (succ_id (m_last_id s)) s = Some i \<and> 
      m_map_peers t = smap_put hdl \<lparr>peer_id = i, peer_hdl = hdl, peer_name = name\<rparr> (m_map_peers s) \<and>
      members reply ''id'' = Some (value_of_int i) \<and> members reply ''name'' = Some (value_of_string name) \<and>
      members reply ''repeat'' = Some (value_of_bool (IsExist_name name s \<noteq> - 1)) \<and>
      net_out t = net_out s @ text_frames E (styled reply) hdl s)
     (ProcessSignIn ice E hdl v s)"
  unfolding ProcessSignIn_def
proof (intro post_intros, goal_cases)
  case (2 x v' jname name y i s1 p same_id s2 j nolist j' s3)
  have r: "members j' ''id'' = Some (value_of_int i)" "members j' ''name'' = Some (value_of_string name)"
    "members j' ''repeat'' = Some (value_of_bool (same_id \<noteq> - 1))"
    using sign_in_reply_members [OF 2(9)] 2(11) assign_member_other [of j "''peers''" _ j']
    by (auto simp: res_simps split: if_splits)
  have n: "IsExist_name name s1 = IsExist_name name s"
    using 2 by (auto simp: NextID_eq IsExist_name_def)
  have "text_frames E (styled j') hdl s2 = text_frames E (styled j') hdl s"
    using 2 by (auto simp: NextID_eq intro!: text_frames_framework)
  then show ?case using 2 r n by (auto simp: NextID_eq send_value_eq net_out_Send)
qed auto

text \<open>C3 (sign_in_registers). Signing in gives the connection an identifier no other peer has, enters it
  in the table under that connection alone, and answers the requester only; the
  answer carries the identifier, the name and whether the name was already taken.\<close>

theorem sign_in_registers:
  assumes inv: "sig_inv s" and run: "ProcessSignIn ice E hdl v s = Inr t"
  shows "\<exists>p reply. smap_find (m_map_peers t) hdl = Some p \<and> peer_hdl p = hdl \<and> \<not> IsExist_id (peer_id p) s \<and>
    (\<forall>h. h \<noteq> hdl \<longrightarrow> smap_find (m_map_peers t) h = smap_find (m_map_peers s) h) \<and>
    members reply ''id'' = Some (value_of_int (peer_id p)) \<and>
    members reply ''name'' = Some (value_of_string (peer_name p)) \<and>
    members reply ''repeat'' =
      Some (value_of_bool (\<exists>(h, q) \<in> set (m_map_peers s). peer_name q = peer_name p)) \<and>
    net_out t = net_out s @ text_frames E (styled reply) hdl s"
proof -
  from postD [OF ProcessSignIn_out run] obtain name i reply where
    n: "next_id_loop (succ_id (m_last_id s)) s = Some i"
    and m: "m_map_peers t = smap_put hdl \<lparr>peer_id = i, peer_hdl = hdl, peer_name = name\<rparr> (m_map_peers s)"
    and r: "members reply ''id'' = Some (value_of_int i)" "members reply ''name'' = Some (value_of_string name)"
      "members reply ''repeat'' = Some (value_of_bool (IsExist_name name s \<noteq> - 1))"
      "net_out t = net_out s @ text_frames E (styled reply) hdl s"
    by blast
  show ?thesis
    using sig_inv_next(3) [OF inv n] m r IsExist_name_iff(1) [OF inv, of name]
    by (intro exI [of _ "\<lparr>peer_id = i, peer_hdl = hdl, peer_name = name\<rparr>"] exI [of _ reply])
       (simp add: map_of_smap_put)
qed


text \<open>Two peers on plain connections 1 and 2, with a pair between them.\<close>

definition two_peers :: signal_server where
  "two_peers = SignalServer\<lparr>m_con_list_plain := [1, 2],
     m_map_peers := [(1, \<lparr>peer_id = 0, peer_hdl = 1, peer_name = ''a''\<rparr>),
                     (2, \<lparr>peer_id = 1, peer_hdl = 2, peer_name = ''b''\<rparr>)],
     m_last_id := 1, m_vPairID := [\<lparr>pair_from = 0, pair_to = 1\<rparr>]\<rparr>"

definition good_net :: ws_env where
  "good_net = \<lparr>env_expired = (\<lambda>_. False), env_send = (\<lambda>_ _ _ _. None), env_ping = (\<lambda>_ _. None),
     env_close = (\<lambda>_ _. None)\<rparr>"

lemma two_peers_inv: "sig_inv two_peers"
  by (simp add: sig_inv_def two_peers_def int_limits)

lemma two_peers_sel:
  "m_map_peers two_peers = [(1, \<lparr>peer_id = 0, peer_hdl = 1, peer_name = ''a''\<rparr>),
     (2, \<lparr>peer_id = 1, peer_hdl = 2, peer_name = ''b''\<rparr>)]"
  "m_last_id two_peers = 1" "m_vPairID two_peers = [\<lparr>pair_from = 0, pair_to = 1\<rparr>]"
  "net_out two_peers = []" "m_con_list_plain two_peers = [1, 2]"
  by (simp_all add: two_peers_def SignalServer_def WebsocketServer_def ws_server.defs)

definition to_one :: jvalue where
  "to_one = initBasic (ObjectV [(''to'', value_of_int 1)])"

lemma to_one_to: "resolveReference ''to'' to_one = Inr (to_one, value_of_int 1)"
  by (simp add: to_one_def resolveReference_def initBasic_def)

lemma to_one_id: "asInt (value_of_int 1) = Inr 1"
  by (simp add: asInt_def isInt_def initBasic_def int_limits)

theorem ProcessMessage_routes_witness:
  "\<exists>t. ProcessMessage good_net 1 to_one two_peers = Inr t \<and>
     net_out t = [SendFrame plain 2 op_text (styled to_one)]"
proof -
  have m: "members to_one ''type'' = None" "member_or_null ''to'' to_one = value_of_int 1" "isObject to_one"
    by (simp_all add: members_def to_one_def initBasic_def isObject_def type_of_def member_or_null_def)
  then have "returns (ProcessMessage good_net 1 to_one two_peers)"
    by (simp add: ProcessMessage_returns message_acceptable_def to_one_id)
  then obtain t where t: "ProcessMessage good_net 1 to_one two_peers = Inr t" by (auto simp: returns_iff)
  from ProcessMessage_routes [OF two_peers_inv t to_one_to to_one_id, THEN conjunct1, rule_format,
      of 2 "\<lparr>peer_id = 1, peer_hdl = 2, peer_name = ''b''\<rparr>"] t
  show ?thesis by (simp add: two_peers_sel expired_def text_frames_def endpoint_of_def) (simp add: good_net_def)
qed

lemma two_peers_next: "next_id_loop (succ_id (m_last_id two_peers)) two_peers = Some 2"
  by (simp add: next_id_loop.simps succ_id_def int_limits IsExist_id_def two_peers_sel)

theorem sign_in_registers_witness:
  "\<exists>t p. ProcessSignIn ICE good_net 3 nullSingleton two_peers = Inr t \<and>
     smap_find (m_map_peers t) 3 = Some p \<and> \<not> IsExist_id (peer_id p) two_peers"
proof -
  have "isNull nullSingleton" "returns (asString (member_or_null ''name'' nullSingleton))"
    by (simp_all add: isNull_def type_of_def member_or_null_def members_def asString_def)
  then obtain t where t: "ProcessSignIn ICE good_net 3 nullSingleton two_peers = Inr t"
    using ProcessSignIn_returns [OF _ _ two_peers_next] by blast
  from sign_in_registers [OF two_peers_inv t] t show ?thesis by blast
qed

text \<open>C4 (OnReceive_throws_iff). The exact condition under which a text is handled without an exception, and
  so without ending the process: it is not nested too deeply, and if it parses, then the document is
  an object (or null), and the members that the request reads convert to the types it reads them
  as.\<close>

theorem OnReceive_throws_iff:
  assumes "sig_inv s" "int (length (m_map_peers s)) < INT_MAX"
  shows "returns (OnReceive ice E hdl text s) \<longleftrightarrow>
    (case reader_parse text of Inr (ok, v) \<Rightarrow> (if ok then acceptable v else True) | Inl e \<Rightarrow> False)"
proof (cases "reader_parse text")
  case (Inr p)
  obtain i where i: "next_id_loop (succ_id (m_last_id s)) s = Some i" using sig_inv_NextID [OF assms] by blast
  obtain ok v where p: "reader_parse text = Inr (ok, v)" using Inr by (cases p) simp
  show ?thesis
  proof (cases ok)
    case True
    then have v: "reader_parse text = Inr (True, v)" using p by simp
    show ?thesis using OnReceive_returns [OF v i] v by simp
  qed (simp add: p OnReceive_def)
qed (simp add: OnReceive_def)

theorem OnReceive_throws_iff_witness:
  "\<not> returns (OnReceive ICE good_net 1 ''[]'' two_peers) \<and> returns (OnReceive ICE good_net 1 ''['' two_peers)"
proof -
  have p: "reader_parse ''[]'' = Inr (True, Value (ArrayV []) NoComments 0 2)" by code_simp
  have "case reader_parse ''['' of Inr (ok, v) \<Rightarrow> \<not> ok | _ \<Rightarrow> False" by code_simp
  then obtain v where q: "reader_parse ''['' = Inr (False, v)" by (auto split: sum.splits)
  have n: "int (length (m_map_peers two_peers)) < INT_MAX" by (simp add: two_peers_sel int_limits)
  have "\<not> acceptable (Value (ArrayV []) NoComments 0 2)" by (simp add: acceptable_def isNull_def isObject_def type_of_def)
  then show ?thesis
    using OnReceive_throws_iff [OF two_peers_inv n, of ICE good_net 1 "''[]''"]
      OnReceive_throws_iff [OF two_peers_inv n, of ICE good_net 1 "''[''"] by (simp only: p q sum.case prod.case if_True if_False simp_thms)
qed

section \<open>Departures\<close>

lemma notify_partner_out:
  assumes run: "notify_partner E i notice s = Inr t"
  shows "net_out t = net_out s @
    (case remove_pair i (m_vPairID s) of
       None \<Rightarrow> []
     | Some (q, qs) \<Rightarrow>
         (let pid = (if pair_from q = i then pair_to q else pair_from q); h = GetConnectionFromID pid s
          in if pid = - 1 \<or> expired E h then [] else text_frames E (styled notice) h s))"
    "m_vPairID t = (case remove_pair i (m_vPairID s) of None \<Rightarrow> m_vPairID s | Some (q, qs) \<Rightarrow> qs)"
proof -
  obtain pid u where r: "RemovePairID i s = (pid, u)" by (cases "RemovePairID i s")
  have u: "m_map_peers u = m_map_peers s" "framework u = framework s" "net_out u = net_out s"
    using RemovePairID_sel [of i s] r by simp_all
  have g: "GetConnectionFromID k u = GetConnectionFromID k s" for k
    by (simp add: GetConnectionFromID_def u)
  have pid: "pid = (case remove_pair i (m_vPairID s) of None \<Rightarrow> - 1
      | Some (q, qs) \<Rightarrow> if pair_from q = i then pair_to q else pair_from q)"
    "m_vPairID u = (case remove_pair i (m_vPairID s) of None \<Rightarrow> m_vPairID s | Some (q, qs) \<Rightarrow> qs)"
    using r by (auto simp: RemovePairID_def split: option.splits prod.splits)
  have out: "net_out t = net_out s @ (if pid = - 1 \<or> expired E (GetConnectionFromID pid s) then []
      else text_frames E (styled notice) (GetConnectionFromID pid s) s)"
    using run u(3) text_frames_framework [OF u(2)]
    by (auto simp: notify_partner_def r g send_value_eq net_out_Send Let_def split: if_splits)
  show "net_out t = net_out s @
    (case remove_pair i (m_vPairID s) of
       None \<Rightarrow> []
     | Some (q, qs) \<Rightarrow>
         (let pid = (if pair_from q = i then pair_to q else pair_from q); h = GetConnectionFromID pid s
          in if pid = - 1 \<or> expired E h then [] else text_frames E (styled notice) h s))"
    unfolding out pid(1) by (simp split: option.split prod.split)
  show "m_vPairID t = (case remove_pair i (m_vPairID s) of None \<Rightarrow> m_vPairID s | Some (q, qs) \<Rightarrow> qs)"
    using run pid(2) by (auto simp: notify_partner_def r send_value_eq Let_def split: if_splits)
qed

lemma gone_notice_members:
  "gone_notice i v = Inr n \<Longrightarrow> isNull v \<or> isObject v \<Longrightarrow>
   members n ''signal'' = Some (value_of_string ''sign_out'') \<and> members n ''id'' = Some (value_of_int i)"
  using assign_member_members [of v kSignal "value_of_string kSignOut"]
    assign_member_members [of "projr (assign_member kSignal (value_of_string kSignOut) v)" kID "value_of_int i"]
  by (auto simp: gone_notice_def)

text \<open>C11 (OnClose_tells_partner). When the connection of a peer closes, the peer leaves the table, the
  other peers stay, its first pair is dropped, and the partner in that pair, if it is signed
  in on a live connection, and nobody else, is told that the peer has signed out.\<close>

theorem OnClose_tells_partner:
  assumes inv: "sig_inv s" and run: "OnClose E hdl s = Inr t"
    and p: "smap_find (m_map_peers s) hdl = Some p"
    and q: "remove_pair (peer_id p) (m_vPairID s) = Some (q, qs)"
    and other: "smap_find (m_map_peers s) h = Some p'" "h \<noteq> hdl"
      "{pair_from q, pair_to q} = {peer_id p, peer_id p'}"
  shows "m_vPairID t = qs \<and> smap_find (m_map_peers t) = (smap_find (m_map_peers s))(hdl := None) \<and>
    (\<exists>notice. members notice ''signal'' = Some (value_of_string ''sign_out'') \<and>
       members notice ''id'' = Some (value_of_int (peer_id p)) \<and>
       net_out t = net_out s @ (if expired E h then [] else text_frames E (styled notice) h s))"
proof -
  let ?s1 = "log_info (''--disconnect:'' @ show_int (peer_id p) @ '' '' @ peer_name p) s"
  let ?s2 = "PrintPeers (?s1\<lparr>m_map_peers := smap_erase hdl (m_map_peers ?s1)\<rparr>)"
  have ids: "peer_id p \<noteq> - 1" "peer_id p' \<noteq> - 1" "peer_id p' \<noteq> peer_id p"
    using inv p other(1,2) ids_inj [OF inv, of h p' hdl p]
    by (auto simp: sig_inv_def smap_find_iff)
  obtain n where n: "gone_notice (peer_id p) nullSingleton = Inr n"
    using run p by (auto simp: OnClose_def res_simps)
  have run2: "notify_partner E (peer_id p) n ?s2 = Inr t"
    using run p n ids(1) by (simp add: OnClose_def)
  have inv2: "sig_inv ?s2"
    by (rule sig_inv_erase [OF inv, of hdl]) (simp add: only_peers_def)
  have g: "GetConnectionFromID (peer_id p') ?s2 = h"
    using GetConnectionFromID_peer [OF inv2, of h p'] other(1,2) by (simp add: map_of_smap_erase)
  have pid: "(if pair_from q = peer_id p then pair_to q else pair_from q) = peer_id p'"
    using other(3) ids(3) by (auto simp: doubleton_eq_iff)
  have fr: "text_frames E (styled n) h ?s2 = text_frames E (styled n) h s"
    by (rule text_frames_framework) simp
  show ?thesis
    using notify_partner_out [OF run2] q pid g ids(2) fr postD [OF OnClose_effect run]
      gone_notice_members [OF n]
    by (auto simp: only_peers_def fun_eq_iff map_of_smap_erase isNull_def type_of_def Let_def)
qed

theorem OnClose_tells_partner_witness:
  "\<exists>t. OnClose good_net 1 two_peers = Inr t \<and> m_vPairID t = []"
proof -
  have "gone_notice 0 nullSingleton = Inr n \<Longrightarrow> \<exists>t. OnClose good_net 1 two_peers = Inr t" for n
    using notify_partner_total by (auto simp: OnClose_def two_peers_sel)
  moreover obtain n where "gone_notice 0 nullSingleton = Inr n"
    unfolding gone_notice_def using assign_members_fresh by blast
  ultimately obtain t where t: "OnClose good_net 1 two_peers = Inr t" by blast
  from OnClose_tells_partner [OF two_peers_inv t, of "\<lparr>peer_id = 0, peer_hdl = 1, peer_name = ''a''\<rparr>"
      "\<lparr>pair_from = 0, pair_to = 1\<rparr>" "[]" 2 "\<lparr>peer_id = 1, peer_hdl = 2, peer_name = ''b''\<rparr>"] t
  show ?thesis by (simp add: two_peers_sel)
qed

text \<open>Only the first pair of a departing peer is dropped: a second one stays in the
  table, so its partner is never told and a later holder of the identifier inherits
  the pair.\<close>

lemma pair_left_behind:
  "\<exists>t. OnClose good_net 1 (two_peers\<lparr>m_vPairID := [\<lparr>pair_from = 0, pair_to = 1\<rparr>, \<lparr>pair_from = 0, pair_to = 7\<rparr>]\<rparr>)
       = Inr t \<and> \<not> IsExist_id 0 t \<and> \<lparr>pair_from = 0, pair_to = 7\<rparr> \<in> set (m_vPairID t)"
proof -
  let ?s = "two_peers\<lparr>m_vPairID := [\<lparr>pair_from = 0, pair_to = 1\<rparr>, \<lparr>pair_from = 0, pair_to = 7\<rparr>]\<rparr>"
  obtain n where n: "gone_notice 0 nullSingleton = Inr n"
    unfolding gone_notice_def using assign_members_fresh by blast
  let ?u = "PrintPeers ((log_info (''--disconnect:'' @ show_int 0 @ '' '' @ ''a'') ?s)\<lparr>m_map_peers :=
     smap_erase 1 (m_map_peers ?s)\<rparr>)"
  obtain t where t: "notify_partner good_net 0 n ?u = Inr t" using notify_partner_total by blast
  have "OnClose good_net 1 ?s = Inr t" using t n by (simp add: OnClose_def two_peers_sel)
  moreover have "\<lparr>pair_from = 0, pair_to = 7\<rparr> \<in> set (m_vPairID t)"
    using notify_partner_out(2) [OF t] by simp
  moreover have "\<not> IsExist_id 0 t"
    using notify_partner_sel(1) [OF t] by (simp add: IsExist_id_def two_peers_sel smap_erase_def)
  ultimately show ?thesis by blast
qed

lemma ProcessSignOut_steps:
  assumes "ProcessSignOut E hdl v s = Inr t" "resolveReference ''id'' v = Inr (v', jid)" "asInt jid = Inr i"
  obtains reply notice u where
    "members reply ''signal'' = Some (value_of_string ''return'')"
    "members reply ''status'' = Some (value_of_string ''ok'')"
    "members notice ''signal'' = Some (value_of_string ''sign_out'')" "members notice ''id'' = Some (value_of_int i)"
    "notify_partner E i notice (snd (Send E (styled reply) hdl (s\<lparr>m_map_peers := smap_erase hdl (m_map_peers s)\<rparr>))) = Inr u"
    "m_map_peers t = m_map_peers u" "m_vPairID t = m_vPairID u" "net_out t = net_out u"
proof -
  let ?r = "assign_members [(kSignal, value_of_string ''return''), (''request'', value_of_string ''sign_out''),
      (''status'', value_of_string ''ok'')] nullSingleton"
  let ?s1 = "s\<lparr>m_map_peers := smap_erase hdl (m_map_peers s)\<rparr>"
  obtain j c n u where j: "?r = Inr j" and c: "clear_value j = Inr c" and n: "gone_notice i c = Inr n"
    and u: "notify_partner E i n (snd (Send E (styled j) hdl ?s1)) = Inr u"
    and t: "t = PrintPeers (log_info (''--sign out:'' @ show_int i) u)"
    using assms by (auto simp: ProcessSignOut_def res_simps send_value_eq Let_def)
  have m: "members j ''signal'' = Some (value_of_string ''return'')" "members j ''status'' = Some (value_of_string ''ok'')"
    "isObject j"
    using j by (auto simp: assign_member_def resolveReference_def replace_member_def initBasic_def
        set_payload_def members_def isObject_def type_of_def map_of_smap_put res_simps split: if_splits)
  have "isNull c \<or> isObject c" using c m(3) by (cases "payload j") (auto simp: clear_value_def isObject_def type_of_def)
  then show thesis using that [OF m(1,2) _ _ u] gone_notice_members [OF n] t by simp
qed

text \<open>C39 (sign_out_trusts_id). A request to sign out removes the peer of the connection it came from and
  answers it, but it is the member \<^verbatim>\<open>id\<close> of the message that decides whose pair is dropped and whose partner
  is told of a departure. Nothing relates the two: whoever sends the request, the
  partner of any peer can be told that this peer is gone.\<close>

theorem sign_out_trusts_id:
  assumes inv: "sig_inv s" and run: "ProcessSignOut E hdl v s = Inr t"
    and v: "resolveReference ''id'' v = Inr (v', jid)" "asInt jid = Inr i"
    and q: "remove_pair i (m_vPairID s) = Some (q, qs)"
    and p: "smap_find (m_map_peers s) h = Some p" "h \<noteq> hdl" "peer_id p \<noteq> i" "{pair_from q, pair_to q} = {i, peer_id p}"
  shows "smap_find (m_map_peers t) = (smap_find (m_map_peers s))(hdl := None) \<and> m_vPairID t = qs \<and>
    (\<exists>reply notice. members reply ''status'' = Some (value_of_string ''ok'') \<and>
       members notice ''signal'' = Some (value_of_string ''sign_out'') \<and> members notice ''id'' = Some (value_of_int i) \<and>
       net_out t = net_out s @ text_frames E (styled reply) hdl s @
         (if expired E h then [] else text_frames E (styled notice) h s))"
proof -
  obtain reply notice u where r: "members reply ''status'' = Some (value_of_string ''ok'')"
    "members notice ''signal'' = Some (value_of_string ''sign_out'')" "members notice ''id'' = Some (value_of_int i)"
    and u: "notify_partner E i notice (snd (Send E (styled reply) hdl (s\<lparr>m_map_peers := smap_erase hdl (m_map_peers s)\<rparr>))) = Inr u"
    and t: "m_map_peers t = m_map_peers u" "m_vPairID t = m_vPairID u" "net_out t = net_out u"
    by (rule ProcessSignOut_steps [OF run v])
  let ?s = "snd (Send E (styled reply) hdl (s\<lparr>m_map_peers := smap_erase hdl (m_map_peers s)\<rparr>))"
  have s: "m_map_peers ?s = smap_erase hdl (m_map_peers s)" "m_last_id ?s = m_last_id s" "framework ?s = framework s"
    "m_vPairID ?s = m_vPairID s" by simp_all
  have "sig_inv ?s" by (rule sig_inv_erase [OF inv, of hdl]) (simp add: only_peers_def s)
  then have g: "GetConnectionFromID (peer_id p) ?s = h"
    using GetConnectionFromID_peer [of ?s h p] p(1,2) by (simp add: map_of_smap_erase s)
  have pid: "(if pair_from q = i then pair_to q else pair_from q) = peer_id p"
    using p(3,4) by (auto simp: doubleton_eq_iff)
  have "peer_id p \<noteq> - 1" using inv p(1) by (auto simp: sig_inv_def smap_find_iff)
  then have "net_out u = net_out ?s @ (if expired E h then [] else text_frames E (styled notice) h s)"
    using notify_partner_out(1) [OF u] text_frames_framework [OF s(3), of E "styled notice" h]
    unfolding s(4) q option.case prod.case pid Let_def g by simp
  moreover have "net_out ?s = net_out s @ text_frames E (styled reply) hdl s"
    by (rule net_out_Send_erase)
  moreover have "m_vPairID u = qs" using notify_partner_out(2) [OF u] q by (simp add: s(4))
  moreover have "m_map_peers u = smap_erase hdl (m_map_peers s)" using notify_partner_sel(1) [OF u] s(1) by simp
  ultimately have "net_out t = net_out s @ text_frames E (styled reply) hdl s @
      (if expired E h then [] else text_frames E (styled notice) h s)" "m_vPairID t = qs"
    "m_map_peers t = smap_erase hdl (m_map_peers s)" using t by simp_all
  with r show ?thesis by (auto simp: map_of_smap_erase)
qed

definition id_zero :: jvalue where
  "id_zero = initBasic (ObjectV [(''id'', value_of_int 0)])"

text \<open>Connection 3 has not signed in; peer 1 is told that peer 0 has left, but peer 0 is still there.\<close>

theorem sign_out_trusts_id_witness:
  "\<exists>t notice. ProcessSignOut good_net 3 id_zero two_peers = Inr t \<and> IsExist_id 0 t \<and>
     members notice ''signal'' = Some (value_of_string ''sign_out'') \<and> members notice ''id'' = Some (value_of_int 0) \<and>
     SendFrame plain 2 op_text (styled notice) \<in> set (net_out t)"
proof -
  have m: "isObject id_zero" "member_or_null ''id'' id_zero = value_of_int 0"
    "resolveReference ''id'' id_zero = Inr (id_zero, value_of_int 0)" "asInt (value_of_int 0) = Inr 0"
    by (simp_all add: id_zero_def isObject_def type_of_def member_or_null_def members_def resolveReference_def
        asInt_def isInt_def initBasic_def int_limits)
  then obtain t where t: "ProcessSignOut good_net 3 id_zero two_peers = Inr t"
    using ProcessSignOut_returns [of id_zero good_net 3 two_peers] by (auto simp: returns_iff)
  have q: "remove_pair 0 (m_vPairID two_peers) = Some (\<lparr>pair_from = 0, pair_to = 1\<rparr>, [])" by (simp add: two_peers_sel)
  let ?p = "\<lparr>peer_id = 1, peer_hdl = 2, peer_name = ''b''\<rparr>"
  have p: "smap_find (m_map_peers two_peers) 2 = Some ?p" by (simp add: two_peers_sel)
  from sign_out_trusts_id [OF two_peers_inv t m(3,4) q p] obtain reply notice where
    f: "smap_find (m_map_peers t) = (smap_find (m_map_peers two_peers))(3 := None)"
    and n: "members notice ''signal'' = Some (value_of_string ''sign_out'')" "members notice ''id'' = Some (value_of_int 0)"
      "net_out t = net_out two_peers @ text_frames good_net (styled reply) 3 two_peers @
         text_frames good_net (styled notice) 2 two_peers" by (auto simp: expired_def good_net_def)
  have "smap_find (m_map_peers t) 1 = Some \<lparr>peer_id = 0, peer_hdl = 1, peer_name = ''a''\<rparr>"
    by (simp add: f two_peers_sel)
  then have "IsExist_id 0 t" by (force simp: IsExist_id_iff dest: map_of_SomeD)
  moreover have "text_frames good_net (styled notice) 2 two_peers = [SendFrame plain 2 op_text (styled notice)]"
    by (simp add: text_frames_def endpoint_of_def two_peers_sel) (simp add: good_net_def)
  ultimately show ?thesis using t n by (intro exI [of _ t] exI [of _ notice]) simp
qed

section \<open>The printed table\<close>

lemma sort_peers_find:
  assumes "sig_inv s"
  shows "map_of (sort_peers (m_map_peers s)) i = Some p \<longleftrightarrow> (\<exists>h. (h, p) \<in> set (m_map_peers s) \<and> peer_id p = i)"
proof -
  let ?kvs = "map (\<lambda>(h, p). (peer_id p, p)) (m_map_peers s)"
  have f: "sort_peers (m_map_peers s) = fold (\<lambda>(k, v). smap_put k v) ?kvs []"
    by (simp add: sort_peers_def fold_map comp_def case_prod_unfold)
  have d: "distinct (map fst (rev ?kvs))"
    using assms by (simp add: sig_inv_def rev_map [symmetric] comp_def case_prod_unfold)
  show ?thesis
    unfolding f sm.find_fold_put [OF smap_ok_Nil] using map_of_eq_Some_iff [OF d, of i p]
    by (force split: option.splits)
qed

text \<open>The table logged by \<^verbatim>\<open>PrintPeers\<close> has one line per signed-in peer, in
  ascending order of the identifiers.\<close>

lemma PrintPeers_lists_all:
  assumes "sig_inv s"
  shows "sorted_wrt (<) (map fst (sort_peers (m_map_peers s))) \<and>
    set (map snd (sort_peers (m_map_peers s))) = snd ` set (m_map_peers s) \<and>
    length (sort_peers (m_map_peers s)) = length (m_map_peers s)"
proof -
  let ?m = "m_map_peers s" and ?f = "\<lambda>(h, p). (peer_id p, p)"
  have ok: "smap_ok (sort_peers ?m)"
    using sm.ok_fold_put [OF smap_ok_Nil, of "map ?f ?m"]
    by (simp add: sort_peers_def fold_map comp_def case_prod_unfold)
  have "(i, p) \<in> set (sort_peers ?m) \<longleftrightarrow> (i, p) \<in> ?f ` set ?m" for i p
    using sort_peers_find [OF assms, of i p] by (force simp: smap_find_iff [OF ok])
  then have set: "set (sort_peers ?m) = ?f ` set ?m" by auto
  have inj: "inj_on ?f (set ?m)" using ids_inj [OF assms] by (auto intro!: inj_onI)
  have "distinct (sort_peers ?m)" "distinct ?m"
    using smap_ok_distinct [OF ok] smap_ok_distinct [of ?m] assms by (auto simp: sig_inv_def distinct_map)
  then have "length (sort_peers ?m) = length ?m"
    by (simp add: distinct_card [symmetric] set card_image [OF inj])
  then show ?thesis using ok by (auto simp: smap_ok_def set image_image case_prod_unfold)
qed

end
