(* ===== verification/Value_Pointers.thy ===== *)
theory Value_Pointers
  imports Reader_State Json_Laws "HOL-Library.Sublist"
begin

text \<open>
  Pointers into a value as paths from its root: how an update through one pointer is seen through
  another. An update that only attaches a comment or creates a child \<open>extends\<close> the value; replacing the
  value at a pointer leaves a \<open>frame\<close>, everything that is not below that pointer.
\<close>

section \<open>Paths\<close>

lemma elements_replace_index: "elements v i \<noteq> None \<Longrightarrow> elements (replace_index i x v) i = Some x"
  by (cases "payload v") (auto simp: elements_def replace_index_def map_of_smap_put)

lemma members_replace_member: "members v k \<noteq> None \<Longrightarrow> members (replace_member k x v) k = Some x"
  by (cases "payload v") (auto simp: members_def replace_member_def map_of_smap_put)

lemma smap_put_put: "smap_put k y (smap_put k x m) = smap_put k y m"
  by (induction k x m rule: smap_put.induct) auto

lemma replace_index_twice: "replace_index i y (replace_index i x v) = replace_index i y v"
  by (cases "payload v") (auto simp: replace_index_def smap_put_put set_payload_def)

lemma replace_member_twice: "replace_member k y (replace_member k x v) = replace_member k y v"
  by (cases "payload v") (auto simp: replace_member_def smap_put_put set_payload_def)

lemma value_at_update: "value_at p (update_at p f v) = map_option f (value_at p v)"
  by (induction p f v rule: update_at.induct)
    (auto split: option.splits simp: elements_replace_index members_replace_member)

lemma update_at_twice: "update_at p f (update_at p g v) = update_at p (\<lambda>w. f (g w)) v"
  by (induction p g v rule: update_at.induct)
    (auto split: option.splits simp: elements_replace_index members_replace_member replace_index_twice replace_member_twice)

lemma value_at_append: "value_at (p @ q) v = Option.bind (value_at p v) (value_at q)"
  by (induction p v rule: value_at.induct) (auto split: option.splits)

lemma update_at_append: "update_at (p @ q) f v = update_at p (update_at q f) v"
  by (induction p f v rule: update_at.induct) (auto split: option.splits)

lemma update_at_cong: "value_at p v = Some w \<Longrightarrow> f w = g w \<Longrightarrow> update_at p f v = update_at p g v"
  by (induction p f v rule: update_at.induct) (auto split: option.splits)

section \<open>Updates through pointers\<close>

lemma elements_replace: 
  "elements v i \<noteq> None \<Longrightarrow> elements (replace_index i x v) = (elements v)(i \<mapsto> x)"
  "members (replace_index i x v) = members v" "type_of (replace_index i x v) = type_of v"
  by (cases "payload v"; auto simp: elements_def members_def replace_index_def map_of_smap_put type_of_def fun_eq_iff)+

lemma members_replace: 
  "members v k \<noteq> None \<Longrightarrow> members (replace_member k x v) = (members v)(k \<mapsto> x)"
  "elements (replace_member k x v) = elements v" "type_of (replace_member k x v) = type_of v"
  by (cases "payload v"; auto simp: elements_def members_def replace_member_def map_of_smap_put type_of_def fun_eq_iff)+

text \<open>What is at a pointer, up to its type, and how an update elsewhere leaves it.\<close>

definition type_at :: "path \<Rightarrow> jvalue \<Rightarrow> value_type option" where
  "type_at p v = map_option type_of (value_at p v)"

lemma type_at_simps [simp]:
  "type_at [] v = Some (type_of v)"
  "type_at (KindIndex i # p) v = (case elements v i of None \<Rightarrow> None | Some w \<Rightarrow> type_at p w)"
  "type_at (KindKey k # p) v = (case members v k of None \<Rightarrow> None | Some w \<Rightarrow> type_at p w)"
  "type_at (KindNone # p) v = None"
  by (simp_all add: type_at_def split: option.splits)

lemma type_at_other: "\<not> prefix p q \<Longrightarrow> type_at q (update_at p f v) = type_at q v"
proof (induction p f v arbitrary: q rule: update_at.induct)
  case (2 i p f v)
  show ?case
  proof (cases q)
    case (Cons a q')
    then show ?thesis using 2 by (cases a) (auto simp: elements_replace split: option.splits)
  qed (simp add: elements_replace split: option.splits)
next
  case (3 k p f v)
  show ?case
  proof (cases q)
    case (Cons a q')
    then show ?thesis using 3 by (cases a) (auto simp: members_replace split: option.splits)
  qed (simp add: members_replace split: option.splits)
qed simp_all

lemma type_at_below: "value_at p v = Some w \<Longrightarrow> type_at (p @ q) (update_at p f v) = type_at q (f w)"
  by (simp add: type_at_def value_at_append value_at_update)

text \<open>\<open>extends\<close>: every pointer that was valid is valid and of the same type; \<open>frame p\<close>: that holds outside \<open>p\<close>,
  and \<open>p\<close> itself remains valid.\<close>

definition extends :: "jvalue \<Rightarrow> jvalue \<Rightarrow> bool" where
  "extends v v' \<longleftrightarrow> (\<forall>q t. type_at q v = Some t \<longrightarrow> type_at q v' = Some t)"

definition frame :: "path \<Rightarrow> jvalue \<Rightarrow> jvalue \<Rightarrow> bool" where
  "frame p v v' \<longleftrightarrow> (\<forall>q t. \<not> prefix p q \<longrightarrow> type_at q v = Some t \<longrightarrow> type_at q v' = Some t) \<and>
     (type_at p v \<noteq> None \<longrightarrow> type_at p v' \<noteq> None)"

lemma extends_refl [simp]: "extends v v" by (simp add: extends_def)
lemma extends_trans: "extends u v \<Longrightarrow> extends v w \<Longrightarrow> extends u w" by (simp add: extends_def)
lemma frame_refl [simp]: "frame p v v" by (simp add: frame_def)
lemma frame_trans: "frame p u v \<Longrightarrow> frame p v w \<Longrightarrow> frame p u w" by (simp add: frame_def)
lemma extends_frame: "extends v w \<Longrightarrow> frame p v w" by (auto simp: frame_def extends_def)

lemma frame_child: "frame (p @ [a]) v w \<Longrightarrow> type_at p v = Some t \<Longrightarrow> frame p v w \<and> type_at p w = Some t"
  unfolding frame_def by (metis append_prefixD option.distinct(1) prefix_length_le length_append_singleton not_less_eq_eq order_refl)

lemma extends_update:
  assumes "value_at p v = Some w" "extends w w'"
  shows "extends v (update_at p (\<lambda>_. w') v)"
  unfolding extends_def
proof (intro allI impI)
  fix q t
  assume t: "type_at q v = Some t"
  show "type_at q (update_at p (\<lambda>_. w') v) = Some t"
  proof (cases "prefix p q")
    case True
    then obtain s where q: "q = p @ s" by (auto simp: prefix_def)
    with t assms show ?thesis by (simp add: type_at_below extends_def) (simp add: type_at_def value_at_append)
  qed (use t in \<open>simp add: type_at_other\<close>)
qed

lemma frame_update: "frame p v (update_at p f v)"
  by (auto simp: frame_def type_at_other) (auto simp: type_at_def value_at_update)

lemma extends_payload: "payload w' = payload w \<Longrightarrow> extends w w'"
proof -
  assume "payload w' = payload w"
  then have "type_at q w' = type_at q w" for q
  proof (cases q)
    case (Cons a q')
    then show ?thesis using \<open>payload w' = payload w\<close> by (cases a) (simp_all add: elements_def members_def)
  qed (simp add: type_of_def)
  then show ?thesis by (simp add: extends_def)
qed

lemma extends_index_ref:
  assumes "type_of w = arrayValue"
  obtains w' x where "index_ref i w = Inr (w', x)" "extends w w'" "type_of w' = arrayValue" "type_at [KindIndex i] w' \<noteq> None"
proof -
  obtain m where m: "payload w = ArrayV m" using assms by (cases "payload w") (auto simp: type_of_def)
  show thesis
  proof (cases "map_of m i")
    case None
    let ?w = "set_payload (ArrayV (smap_put i nullSingleton m)) w"
    have "elements ?w = (elements w)(i \<mapsto> nullSingleton)" "elements w i = None" "members ?w = members w"
      "type_of ?w = type_of w"
      using m None by (auto simp: elements_def members_def map_of_smap_put type_of_def fun_eq_iff)
    then have "extends w ?w" unfolding extends_def
      by (intro allI impI, rename_tac q t, case_tac q; simp; case_tac a; auto split: option.splits)
    then show thesis using m None assms by (intro that [of ?w]) (simp_all add: index_ref_def elements_def map_of_smap_put type_of_def)
  next
    case (Some x)
    then show thesis using m assms by (intro that [of w]) (simp_all add: index_ref_def elements_def)
  qed
qed

lemma extends_resolveReference:
  assumes "type_of w = objectValue"
  obtains w' x where "resolveReference k w = Inr (w', x)" "extends w w'" "type_of w' = objectValue" "type_at [KindKey k] w' \<noteq> None"
proof -
  obtain m where m: "payload w = ObjectV m" using assms by (cases "payload w") (auto simp: type_of_def)
  show thesis
  proof (cases "map_of m k")
    case None
    let ?w = "set_payload (ObjectV (smap_put k nullSingleton m)) w"
    have "members ?w = (members w)(k \<mapsto> nullSingleton)" "members w k = None" "elements ?w = elements w"
      "type_of ?w = type_of w"
      using m None by (auto simp: elements_def members_def map_of_smap_put type_of_def fun_eq_iff)
    then have "extends w ?w" unfolding extends_def
      by (intro allI impI, rename_tac q t, case_tac q; simp; case_tac a; auto split: option.splits)
    then show thesis using m None assms by (intro that [of ?w]) (simp_all add: resolveReference_def members_def map_of_smap_put type_of_def)
  next
    case (Some x)
    then show thesis using m assms by (intro that [of w]) (simp_all add: resolveReference_def members_def)
  qed
qed


lemma jv_ok_elements: "jv_ok v \<Longrightarrow> elements v i = Some w \<Longrightarrow> jv_ok w"
  by (cases "payload v") (auto simp: elements_def jv_ok_payload [of v] dest: kids_ok_find)

lemma jv_ok_members: "jv_ok v \<Longrightarrow> members v k = Some w \<Longrightarrow> jv_ok w"
  by (cases "payload v") (auto simp: members_def jv_ok_payload [of v] dest: kids_ok_find)

lemma jv_ok_update:
  "jv_ok v \<Longrightarrow> (\<And>w. value_at p v = Some w \<Longrightarrow> jv_ok w \<Longrightarrow> jv_ok (f w)) \<Longrightarrow> jv_ok (update_at p f v)"
  by (induction p f v rule: update_at.induct)
    (auto split: option.splits intro: replace_index_ok replace_member_ok jv_ok_elements jv_ok_members)

end
