(* ===== verification/Reader_Loops.thy ===== *)
theory Reader_Loops
  imports Reader_State
begin

text \<open>
  How the readers end and report errors, proved once for both. \<open>quiet r s\<close> says that \<open>s\<close> is a later state
  of the same document with the same errors, \<open>result_of r ok s\<close> that errors were added exactly when
  \<open>ok\<close> is false, \<open>fine r m\<close> that the computation \<open>m\<close> does not exhaust its fuel and ends in such a
  result. The locale \<open>token_source\<close> is what the loops over tokens rely on of \<^verbatim>\<open>readToken\<close>: it keeps the
  errors and consumes at least a byte for every token but the end of the stream. Inside it are the
  lemmas on skipping comments, on recovering from an error, and on the parts of
  \<^verbatim>\<open>readArray\<close> and \<^verbatim>\<open>readObject\<close> around the recursive calls.
\<close>

section \<open>No operation of the reader runs out of fuel by itself\<close>

definition fuelled :: "'a res \<Rightarrow> bool" where
  "fuelled m \<longleftrightarrow> m \<noteq> Inl OutOfFuel"

lemma fuelled_simps [simp]: "fuelled (Inr x)" "fuelled (Inl e) \<longleftrightarrow> e \<noteq> OutOfFuel"
  by (simp_all add: fuelled_def)

lemma fuelled_rbind: "fuelled m \<Longrightarrow> (\<And>x. m = Inr x \<Longrightarrow> fuelled (f x)) \<Longrightarrow> fuelled (rbind m f)"
  by (cases m) auto

lemma fuelled_if: "(b \<Longrightarrow> fuelled m) \<Longrightarrow> (\<not> b \<Longrightarrow> fuelled n) \<Longrightarrow> fuelled (if b then m else n)"
  by simp

lemma fuelled_split: "(\<And>a b. p = (a, b) \<Longrightarrow> fuelled (f a b)) \<Longrightarrow> fuelled (case p of (a, b) \<Rightarrow> f a b)"
  by (cases p) simp

lemma fuelled_let: "(\<And>x. x = a \<Longrightarrow> fuelled (f x)) \<Longrightarrow> fuelled (let x = a in f x)"
  by simp

lemmas fuelled_intros = fuelled_rbind fuelled_if fuelled_split fuelled_let

lemma fuelled_setComment [simp]: "fuelled (setComment c p v)"
  by (simp add: setComment_def Let_def)

lemma fuelled_resolveReference [simp]: "fuelled (resolveReference k v)"
  by (auto simp: resolveReference_def split: jdata.splits option.splits)

lemma fuelled_index_ref [simp]: "fuelled (index_ref i v)"
  by (auto simp: index_ref_def split: jdata.splits option.splits)

lemma fuelled_asString [simp]: "fuelled (asString v)"
  by (auto simp: asString_def split: jdata.splits)

lemma fuelled_update_res: "(\<And>v. fuelled (f v)) \<Longrightarrow> fuelled (update_res p f r)"
  by (auto simp: update_res_def intro!: fuelled_rbind split: option.splits)

lemma fuelled_addComment: "fuelled (addComment b e p r)"
  by (auto simp: addComment_def Let_def intro!: fuelled_update_res split: option.splits)

lemma fuelled_takeCommentsBefore: "fuelled (takeCommentsBefore r)"
  unfolding takeCommentsBefore_def by (intro fuelled_intros fuelled_update_res) simp_all

section \<open>What the steps between the recursive calls keep\<close>

lemma quiet_takeCommentsBefore: "takeCommentsBefore r = Inr r' \<Longrightarrow> quiet r r'"
  by (auto simp: takeCommentsBefore_def res_simps keeps_def quiet_def dest!: quiet_update_res split: if_splits)

lemma quiet_set_current [simp]: "quiet r (set_current f r)"
  by (simp add: quiet_def keeps_def set_current_def)

section \<open>Errors are recorded exactly on failure\<close>

definition grows :: "bool \<Rightarrow> ('t, 'f, 'm) rstate \<Rightarrow> ('t, 'f, 'm) rstate \<Rightarrow> bool" where
  "grows ok r r' \<longleftrightarrow> (\<exists>es. rd_errors r' = rd_errors r @ es \<and> (ok \<longleftrightarrow> es = []))"

definition result_of :: "('t, 'f, 'm) rstate \<Rightarrow> bool \<Rightarrow> ('t, 'f, 'm) rstate \<Rightarrow> bool" where
  "result_of r ok r' \<longleftrightarrow> keeps r r' \<and> grows ok r r'"

lemma result_of_True: "result_of r True r' \<longleftrightarrow> quiet r r'"
  by (auto simp: result_of_def grows_def quiet_def)

lemma result_of_quiet: "quiet r s \<Longrightarrow> result_of s ok t \<Longrightarrow> result_of r ok t"
  by (auto simp: result_of_def grows_def quiet_def intro: keeps_trans)

lemma result_of_quiet2: "result_of r ok s \<Longrightarrow> quiet s t \<Longrightarrow> result_of r ok t"
  by (auto simp: result_of_def grows_def quiet_def intro: keeps_trans)

lemma failed_addError: "quiet r s \<Longrightarrow> result_of r False (addError m t e s)"
  by (auto simp: result_of_def grows_def quiet_def keeps_def addError_def)

lemma failed_again: "result_of r ok s \<Longrightarrow> result_of r False (addError m t e s)"
  by (auto simp: result_of_def grows_def keeps_def addError_def)

lemma decodeDouble_result: "decodeDouble tok r = (d, r') \<Longrightarrow> result_of r (d \<noteq> None) r'"
  by (auto simp: decodeDouble_def result_of_True intro!: failed_addError split: option.splits)

lemma decodeString_result: "decodeString tok r = (s, r') \<Longrightarrow> result_of r (s \<noteq> None) r'"
  by (auto simp: decodeString_def result_of_True intro!: failed_addError split: option.splits sum.splits)

section \<open>Enough fuel\<close>

definition fine :: "('t, 'f, 'm) rstate \<Rightarrow> (bool \<times> ('t, 'f, 'm) rstate) res \<Rightarrow> bool" where
  "fine r m \<longleftrightarrow> fuelled m \<and> post (\<lambda>(ok, r'). result_of r ok r') m"

definition within :: "('t, 'f, 'm) rstate \<Rightarrow> bool" where
  "within r \<longleftrightarrow> rd_current r \<le> length (rd_document r)"

definition left :: "('t, 'f, 'm) rstate \<Rightarrow> nat" where
  "left r = length (rd_document r) - rd_current r"

lemma fine_Inr: "result_of r ok r' \<Longrightarrow> fine r (Inr (ok, r'))"
  by (simp add: fine_def)

lemma fine_Inl: "e \<noteq> OutOfFuel \<Longrightarrow> fine r (Inl e)"
  by (simp add: fine_def)

lemma fine_rbind: "fuelled m \<Longrightarrow> (\<And>x. m = Inr x \<Longrightarrow> fine r (f x)) \<Longrightarrow> fine r (rbind m f)"
  by (cases m) (auto simp: fine_def)

lemma fine_split: "(\<And>a b. p = (a, b) \<Longrightarrow> fine r (f a b)) \<Longrightarrow> fine r (case p of (a, b) \<Rightarrow> f a b)"
  by (cases p) simp

lemma fine_if: "(b \<Longrightarrow> fine r m) \<Longrightarrow> (\<not> b \<Longrightarrow> fine r n) \<Longrightarrow> fine r (if b then m else n)"
  by simp

lemma fine_let: "(\<And>x. x = a \<Longrightarrow> fine r (f x)) \<Longrightarrow> fine r (let x = a in f x)"
  by simp

lemma fine_quiet: "quiet r s \<Longrightarrow> fine s m \<Longrightarrow> fine r m"
  by (auto simp: fine_def post_def intro: result_of_quiet)

lemma fineD: "fine r m \<Longrightarrow> fuelled m" "fine r m \<Longrightarrow> m = Inr (ok, r') \<Longrightarrow> result_of r ok r'"
  by (auto simp: fine_def post_def)

lemma quiet_within: "quiet r s \<Longrightarrow> within r \<Longrightarrow> within s"
  by (simp add: quiet_def keeps_def within_def)

lemma quiet_left: "quiet r s \<Longrightarrow> left s \<le> left r"
  by (auto simp: quiet_def keeps_def left_def)

lemma forward_left: "quiet r s \<Longrightarrow> rd_current r < rd_current s \<Longrightarrow> within r \<Longrightarrow> left s < left r"
  by (auto simp: quiet_def keeps_def left_def within_def)

lemma push_pop: "result_of (pushNode a r) ok s \<Longrightarrow> result_of r ok (popNode s)"
  by (simp add: result_of_def grows_def keeps_def pushNode_def popNode_def)

lemma push_sel [simp]: "within (pushNode a r) = within r" "left (pushNode a r) = left r"
  by (simp_all add: within_def left_def pushNode_def)

lemma fine_then:
  "fine r m \<Longrightarrow> (\<And>s. quiet s (g s)) \<Longrightarrow> fine r (rbind m (\<lambda>(ok, r'). Inr (ok, g r')))"
  by (intro fine_rbind fine_split fine_Inr) (auto dest: fineD intro: result_of_quiet2)

lemma fine_then_quiet:
  assumes "fine r m" "\<And>ok s. m = Inr (ok, s) \<Longrightarrow> result_of r ok s \<Longrightarrow> fine r (f (ok, s))"
  shows "fine r (rbind m f)"
  using assms by (cases m) (auto simp: fine_def)


section \<open>Loops over tokens\<close>

locale token_source =
  fixes readToken :: "('t, 'f, 'm) rstate \<Rightarrow> (bool \<times> 't basic_token \<times> ('t, 'f, 'm) rstate) res"
    and endOfStream comment :: 't
    and skipComments :: "bool \<Rightarrow> 't basic_token \<Rightarrow> ('t, 'f, 'm) rstate \<Rightarrow> (bool \<times> 't basic_token \<times> ('t, 'f, 'm) rstate) res"
    and recoverLoop :: "'t \<Rightarrow> ('t, 'f, 'm) rstate \<Rightarrow> ('t, 'f, 'm) rstate res"
    and recoverFromError :: "'t \<Rightarrow> ('t, 'f, 'm) rstate \<Rightarrow> (bool \<times> ('t, 'f, 'm) rstate) res"
    and addErrorAndRecover :: "string \<Rightarrow> 't basic_token \<Rightarrow> 't \<Rightarrow> ('t, 'f, 'm) rstate \<Rightarrow> (bool \<times> ('t, 'f, 'm) rstate) res"
  assumes token_fuelled: "fuelled (readToken r)"
    and token_quiet: "readToken r = Inr (ok, tok, r') \<Longrightarrow> quiet r r'"
    and token_forward: "readToken r = Inr (ok, tok, r') \<Longrightarrow> tok_type tok \<noteq> endOfStream \<Longrightarrow>
          rd_current r < rd_current r' \<and> rd_current r' \<le> length (rd_document r)"
    and comment_token: "comment \<noteq> endOfStream"
    and skipComments_eq: "skipComments ok tok r =
          (if tok_type tok = comment \<and> ok
           then rbind (readToken r) (\<lambda>(ok', tok', r').
                  if tok_type tok' = comment \<and> ok' then skipComments ok' tok' r' else Inr (ok', tok', r'))
           else Inr (ok, tok, r))"
    and recoverLoop_eq: "recoverLoop t r =
          rbind (readToken r) (\<lambda>(ok, skip, r').
          if tok_type skip = t \<or> tok_type skip = endOfStream then Inr r' else recoverLoop t r')"
    and recoverFromError_eq: "recoverFromError t r =
          rbind (recoverLoop t r) (\<lambda>r'. Inr (False, r'\<lparr>rd_errors := take (length (rd_errors r)) (rd_errors r')\<rparr>))"
    and addErrorAndRecover_eq: "addErrorAndRecover m tok t r = recoverFromError t (addError m tok None r)"
begin

lemma token_left:
  "readToken r = Inr (ok, tok, r') \<Longrightarrow> tok_type tok \<noteq> endOfStream \<Longrightarrow> left r' < left r"
  using token_forward [of r ok tok r'] token_quiet [of r ok tok r'] by (auto simp: left_def quiet_def keeps_def)

lemma skipComments_ends: "fuelled (skipComments ok tok r) \<and> post (\<lambda>(ok', tok', r'). quiet r r') (skipComments ok tok r)"
proof (induction "left r" arbitrary: ok tok r rule: less_induct)
  case less
  show ?case
  proof (cases "tok_type tok = comment \<and> ok")
    case True
    show ?thesis
    proof (cases "readToken r")
      case (Inr x)
      obtain ok1 tok1 s where x: "x = (ok1, tok1, s)" by (cases x)
      have t: "readToken r = Inr (ok1, tok1, s)" using Inr x by simp
      have q: "quiet r s" by (rule token_quiet [OF t])
      have "fuelled (skipComments ok1 tok1 s) \<and> post (\<lambda>(ok', tok', r'). quiet s r') (skipComments ok1 tok1 s)"
        if "tok_type tok1 = comment"
        using less(1) [of s] token_left [OF t] that comment_token by auto
      moreover have "skipComments ok tok r =
          (if tok_type tok1 = comment \<and> ok1 then skipComments ok1 tok1 s else Inr (ok1, tok1, s))"
        using True t by (subst skipComments_eq) simp
      ultimately show ?thesis using q by (auto simp: post_def intro: quiet_trans)
    next
      case (Inl e)
      then have "skipComments ok tok r = Inl e" using True by (subst skipComments_eq) simp
      with Inl show ?thesis using token_fuelled [of r] by simp
    qed
  next
    case False
    then have "skipComments ok tok r = Inr (ok, tok, r)" by (subst skipComments_eq) auto
    then show ?thesis by simp
  qed
qed

lemma fuelled_skipComments: "fuelled (skipComments ok tok r)"
  using skipComments_ends by blast

lemma quiet_skipComments: "skipComments ok tok r = Inr (ok', tok', r') \<Longrightarrow> quiet r r'"
  using skipComments_ends [of ok tok r] by (auto simp: post_def)

lemmas read_quiet = token_quiet quiet_skipComments quiet_update_res

text \<open>Reading a token and skipping comments moves forward, unless the stream has ended.\<close>

lemma token_progress:
  assumes "readToken r = Inr (ok0, tok0, r1)" "skipComments ok tok0 r1 = Inr (ok', tok', r2)"
    "tok_type tok' \<noteq> endOfStream"
  shows "rd_current r < rd_current r2"
proof -
  have "tok_type tok0 \<noteq> endOfStream"
    using assms(2,3) comment_token by (auto simp: skipComments_eq [of ok])
  with token_forward [OF assms(1)] quiet_skipComments [OF assms(2)]
  show ?thesis by (auto simp: quiet_def keeps_def)
qed

lemma recoverLoop_ends: "fuelled (recoverLoop t r) \<and> post (\<lambda>r'. quiet r r') (recoverLoop t r)"
proof (induction "left r" arbitrary: r rule: less_induct)
  case less
  show ?case
  proof (cases "readToken r")
    case (Inr x)
    obtain ok skip s where x: "x = (ok, skip, s)" by (cases x)
    have tk: "readToken r = Inr (ok, skip, s)" using Inr x by simp
    have "fuelled (recoverLoop t s) \<and> post (\<lambda>r'. quiet s r') (recoverLoop t s)" if "tok_type skip \<noteq> endOfStream"
      using less(1) [of s] token_left [OF tk that] by blast
    then show ?thesis
      using tk token_quiet [OF tk] by (auto simp: recoverLoop_eq [of t r] post_def intro: quiet_trans)
  qed (use token_fuelled [of r] in \<open>simp add: recoverLoop_eq [of t r]\<close>)
qed

lemma fuelled_recover: "fuelled (recoverFromError t r)" "fuelled (addErrorAndRecover m tok t r)"
  unfolding addErrorAndRecover_eq recoverFromError_eq
  using recoverLoop_ends by (intro fuelled_intros; simp)+

lemma failed_recover:
  assumes "result_of r False s" "recoverFromError t s = Inr (ok, r')"
  shows "result_of r ok r'"
proof -
  obtain u where u: "recoverLoop t s = Inr u" "ok = False" "r' = u\<lparr>rd_errors := take (length (rd_errors s)) (rd_errors u)\<rparr>"
    using assms(2) by (auto simp: recoverFromError_eq res_simps)
  have "quiet s u" using recoverLoop_ends [of t s] u(1) by (simp add: post_def)
  then have "quiet s r'" using u(3) by (simp add: quiet_def keeps_def)
  with assms(1) u(2) show ?thesis by (auto intro: result_of_quiet2)
qed

lemma fine_recover: "result_of r False s \<Longrightarrow> fine r (recoverFromError t s)"
  by (auto simp: fine_def fuelled_recover post_def intro: failed_recover)

lemma fine_addError: "quiet r s \<Longrightarrow> fine r (addErrorAndRecover m tok t s)"
  unfolding addErrorAndRecover_eq by (intro fine_recover failed_addError)

text \<open>A value read into a child node; what follows recovers from a failure or goes on.\<close>

lemma fine_child:
  assumes v: "fine (pushNode a r) (readValue (pushNode a r))"
    and r: "within r"
    and rest: "\<And>s. quiet r s \<Longrightarrow> within s \<Longrightarrow> left s \<le> left r \<Longrightarrow> fine s (f s)"
  shows "fine r (rbind (readValue (pushNode a r)) (\<lambda>(ok, s).
     if \<not> ok then recoverFromError t (popNode s) else f (popNode s)))"
proof (intro fine_rbind fine_split)
  fix x ok s
  assume "readValue (pushNode a r) = Inr x" "x = (ok, s)"
  then have res: "result_of r ok (popNode s)" using fineD(2) [OF v] push_pop by blast
  show "fine r (if \<not> ok then recoverFromError t (popNode s) else f (popNode s))"
  proof (cases ok)
    case True
    then have q: "quiet r (popNode s)" using res by (simp add: result_of_True)
    show ?thesis using True fine_quiet [OF q rest [OF q quiet_within [OF q r] quiet_left [OF q]]] by simp
  qed (use res in \<open>simp add: fine_recover\<close>)
qed (rule fineD(1) [OF v])

text \<open>What follows a value inside an array: the rest of the loop has consumed a byte.\<close>

lemma fine_array_tail:
  assumes s: "within s" and T: "endOfStream \<notin> T"
    and loop: "\<And>u. quiet s u \<Longrightarrow> within u \<Longrightarrow> left u < left s \<Longrightarrow> fine u (loop u)"
  shows "fine s (rbind (readToken s) (\<lambda>(ok0, tok0, r3).
     rbind (skipComments ok0 tok0 r3) (\<lambda>(ok1, currentToken, r4).
     if \<not> ok1 \<or> tok_type currentToken \<notin> T
     then addErrorAndRecover m currentToken t r4
     else if tok_type currentToken = e then Inr (True, r4) else loop r4)))"
proof (intro fine_if fine_rbind fine_split token_fuelled fuelled_skipComments, goal_cases)
  case (1 x ok0 y tok0 r3 x' ok1 y' tok r4)
  then show ?case using read_quiet by (blast intro: fine_addError quiet_trans)
next
  case (2 x ok0 y tok0 r3 x' ok1 y' tok r4)
  then have "quiet s r4" using read_quiet by (blast intro: quiet_trans)
  then show ?case by (simp add: fine_Inr result_of_True)
next
  case (3 x ok0 y tok0 r3 x' ok1 y' tok r4)
  then have q: "quiet s r4" using read_quiet by (blast intro: quiet_trans)
  have "rd_current s < rd_current r4" by (rule token_progress) (use 3 T in auto)
  then have "left r4 < left s" using forward_left [OF q] s by blast
  then show ?case by (intro fine_quiet [OF q] loop [OF q quiet_within [OF q s]])
qed

text \<open>What follows a value inside an object.\<close>

lemma fine_object_tail:
  assumes s: "within s"
    and loop: "\<And>u. quiet s u \<Longrightarrow> within u \<Longrightarrow> left u \<le> left s \<Longrightarrow> fine u (loop u)"
  shows "fine s (rbind (readToken s) (\<lambda>(okm, comma, r7).
     if \<not> okm \<or> tok_type comma \<notin> T
     then addErrorAndRecover m comma t r7
     else rbind (skipComments True comma r7) (\<lambda>(_, comma', r8).
     if tok_type comma' = e then Inr (True, r8) else loop r8)))"
proof (intro fine_if fine_rbind fine_split token_fuelled fuelled_skipComments, goal_cases)
  case (1 x okm y comma r7)
  then show ?case using read_quiet by (blast intro: fine_addError)
next
  case (2 x okm y comma r7 x' u y' comma' r8)
  then have "quiet s r8" using read_quiet by (blast intro: quiet_trans)
  then show ?case by (simp add: fine_Inr result_of_True)
next
  case (3 x okm y comma r7 x' u y' comma' r8)
  then have q: "quiet s r8" using read_quiet by (blast intro: quiet_trans)
  show ?case by (intro fine_quiet [OF q] loop [OF q quiet_within [OF q s] quiet_left [OF q]])
qed

text \<open>The colon and the value of a member.\<close>

lemma fine_object_member:
  assumes s: "within s"
    and v: "\<And>u. quiet s u \<Longrightarrow> within u \<Longrightarrow> left u \<le> left s \<Longrightarrow> fine (pushNode a u) (readValue (pushNode a u))"
    and rest: "\<And>u. quiet s u \<Longrightarrow> within u \<Longrightarrow> left u \<le> left s \<Longrightarrow> fine u (f u)"
    and g: "\<And>w. fuelled (g w)"
  shows "fine s (rbind (readToken s) (\<lambda>(okc, colon, r4).
     if \<not> okc \<or> tok_type colon \<noteq> c
     then addErrorAndRecover m colon t r4
     else rbind (update_res (current_path r4) g r4) (\<lambda>r5.
     rbind (readValue (pushNode a r5)) (\<lambda>(okv, r6).
     if \<not> okv then recoverFromError t (popNode r6) else f (popNode r6)))))"
proof (rule fine_rbind [OF token_fuelled], intro fine_split fine_if, goal_cases)
  case (1 x okc y colon r4)
  then show ?case using read_quiet by (blast intro: fine_addError)
next
  case (2 x okc y colon r4)
  then have q4: "quiet s r4" using read_quiet by blast
  show ?case
  proof (rule fine_rbind [OF fuelled_update_res [OF g]])
    fix r5
    assume "update_res (current_path r4) g r4 = Inr r5"
    then have q: "quiet s r5" by (rule quiet_trans [OF q4 quiet_update_res])
    have w: "within r5" "left r5 \<le> left s" using quiet_within [OF q s] quiet_left [OF q] by simp_all
    have "fine u (f u)" if "quiet r5 u" "within u" "left u \<le> left r5" for u
      by (rule rest) (use that q w in \<open>auto intro: quiet_trans\<close>)
    then show "fine s (rbind (readValue (pushNode a r5)) (\<lambda>(okv, r6).
        if \<not> okv then recoverFromError t (popNode r6) else f (popNode r6)))"
      by (intro fine_quiet [OF q] fine_child [where readValue = readValue, OF v [OF q w] w(1)])
  qed
qed

end

end
