(* ===== verification/Reader_Termination.thy ===== *)
theory Reader_Termination
  imports Json_Reader Reader_Loops
begin

text \<open>
  \<^verbatim>\<open>Json::Reader\<close> ends and reports what it does. A step of the mutual recursion
  \<open>readValue\<close>/\<open>readObjectLoop\<close>/\<open>readArrayLoop\<close> takes one unit of fuel; \<open>enough n\<close> says that fuel \<open>n\<close> is
  not exhausted when it exceeds twice the bytes left. Every token but the end of the document
  consumes a byte, so the fuel \<^term>\<open>parse_fuel doc\<close> of \<^term>\<open>parse\<close> suffices for every document.
\<close>

section \<open>The reader as a source of tokens\<close>

lemma fuelled_readComment: "fuelled (readComment r)"
  by (auto simp: readComment_def Let_def intro!: fuelled_rbind fuelled_addComment split: prod.splits)

lemma fuelled_tokenBody: "fuelled (tokenBody c r)"
  unfolding tokenBody_def
  by (intro if_both [where P = fuelled] fuelled_rbind fuelled_readComment fuelled_split) simp_all

lemma fuelled_readToken: "fuelled (readToken r)"
  unfolding readToken_def by (intro fuelled_intros fuelled_tokenBody) simp

interpretation rt: token_source readToken tokenEndOfStream tokenComment skipComments recoverLoop
    recoverFromError addErrorAndRecover
  by unfold_locales
    (rule fuelled_readToken skipComments.simps recoverLoop.simps recoverFromError_def addErrorAndRecover_def
      | erule readToken_quiet | erule (1) readToken_progress | simp)+

lemma fuelled_skipCommentTokens: "fuelled (skipCommentTokens r)"
  unfolding skipCommentTokens_def by (intro fuelled_intros fuelled_readToken rt.fuelled_skipComments) simp_all

lemma fuelled_memberName: "fuelled (memberName tok r)"
  by (auto simp: memberName_def intro!: fuelled_rbind split: prod.splits option.splits)

lemma quiet_skipCommentTokens: "skipCommentTokens r = Inr (tok, r') \<Longrightarrow> quiet r r'"
  by (auto simp: skipCommentTokens_def res_simps split: if_splits
      dest!: readToken_quiet rt.quiet_skipComments intro: quiet_trans)

lemma skipCommentTokens_progress:
  assumes "skipCommentTokens r = Inr (tok, r')" "tok_type tok \<noteq> tokenEndOfStream"
  shows "rd_current r < rd_current r'"
proof -
  from assms(1) obtain ok tok0 r1 where t: "readToken r = Inr (ok, tok0, r1)"
    and c: "(if allowComments (rd_features r)
             then rbind (skipComments ok tok0 r1) (\<lambda>(_, tok', r2). Inr (tok', r2)) else Inr (tok0, r1)) = Inr (tok, r')"
    by (auto simp: skipCommentTokens_def res_simps)
  show ?thesis
    using c assms(2) readToken_progress [OF t] rt.token_progress [OF t] by (auto simp: res_simps split: if_splits)
qed

lemma quiet_rememberLast [simp]: "quiet r (rememberLast r)"
  by (simp add: quiet_def keeps_def rememberLast_def)

lemma decodeNumber_result:
  assumes "decodeNumber tok r = (d, r')"
  shows "result_of r (d \<noteq> None) r'"
proof (cases "decodeInteger (token_text tok r)")
  case None
  with assms show ?thesis by (intro decodeDouble_result) (simp add: decodeNumber_def)
next
  case (Some n)
  with assms have "d = Some n" "r' = r" by (simp_all add: decodeNumber_def)
  then show ?thesis by (simp add: result_of_True)
qed

lemmas decode_result = decodeNumber_result decodeString_result

lemma memberName_result: "memberName tok r = Inr (Some (n, r')) \<Longrightarrow> result_of r (n \<noteq> None) r'"
  by (auto simp: memberName_def res_simps dest: decode_result split: if_splits prod.splits option.splits)

lemma storeDecoded_result:
  assumes "\<And>d r1. p = (d, r1) \<Longrightarrow> result_of r (d \<noteq> None) r1" "storeDecoded p tok = (ok, r')"
  shows "result_of r ok r'"
  using assms
  by (cases p) (auto simp: storeDecoded_def split: option.splits intro: result_of_quiet2)

lemma readScalar_result:
  assumes "readScalar tok r = (ok, r')"
  shows "result_of r ok r'"
proof -
  define p where "p = (case tok_type tok of
       tokenNumber \<Rightarrow> decodeNumber tok r
     | tokenString \<Rightarrow> (case decodeString tok r of (s, r') \<Rightarrow> (map_option StringV s, r'))
     | tokenTrue \<Rightarrow> (Some (BoolV True), r)
     | tokenFalse \<Rightarrow> (Some (BoolV False), r)
     | _ \<Rightarrow> (Some NullV, r))"
  have "result_of r (d \<noteq> None) r1" if "p = (d, r1)" for d r1
    using that decode_result(1) [of tok r] decode_result(2) [of tok r]
    by (auto simp: p_def result_of_True split: token_type.splits prod.splits)
  moreover have "storeDecoded p tok = (ok, r')"
    using assms by (auto simp: readScalar_def p_def split: token_type.splits)
  ultimately show ?thesis by (rule storeDecoded_result)
qed

section \<open>Enough fuel\<close>

text \<open>The induction hypothesis for one amount of fuel.\<close>

definition enough :: "nat \<Rightarrow> bool" where
  "enough fuel \<longleftrightarrow>
     (\<forall>r. within r \<longrightarrow> 2 * left r < fuel \<longrightarrow> fine r (readValue fuel r)) \<and>
     (\<forall>name r. within r \<longrightarrow> 2 * left r < fuel \<longrightarrow> fine r (readObjectLoop fuel name r)) \<and>
     (\<forall>i r. within r \<longrightarrow> 2 * left r + 1 < fuel \<longrightarrow> fine r (readArrayLoop fuel i r))"

lemma enough_value: "enough fuel \<Longrightarrow> within r \<Longrightarrow> 2 * left r < fuel \<Longrightarrow> fine r (readValue fuel r)"
  and enough_object: "enough fuel \<Longrightarrow> within r \<Longrightarrow> 2 * left r < fuel \<Longrightarrow> fine r (readObjectLoop fuel name r)"
  and enough_array: "enough fuel \<Longrightarrow> within r \<Longrightarrow> 2 * left r + 1 < fuel \<Longrightarrow> fine r (readArrayLoop fuel i r)"
  by (simp_all add: enough_def)

lemma enough_child: "enough fuel \<Longrightarrow> within r \<Longrightarrow> 2 * left r < fuel \<Longrightarrow> fine (pushNode a r) (readValue fuel (pushNode a r))"
  by (rule enough_value) simp_all

lemma enough_array_step:
  assumes e: "enough fuel" and r: "within r0" "2 * left r0 + 1 < Suc fuel"
  shows "fine r0 (readArrayLoop (Suc fuel) i r0)"
  unfolding readArrayLoop.simps
proof (rule fine_rbind)
  fix r1
  assume "update_res (current_path r0) (\<lambda>v. rbind (index_ref i v) (\<lambda>(v', _). Inr v')) r0 = Inr r1"
  then have q: "quiet r0 r1" by (rule quiet_update_res)
  have w: "within r1" and l: "2 * left r1 < fuel" using quiet_within [OF q r(1)] quiet_left [OF q] r(2) by simp_all
  have tail: "fine s (rbind (readToken s) (\<lambda>(ok0, tok0, r3).
     rbind (skipComments ok0 tok0 r3) (\<lambda>(ok1, currentToken, r4).
     if \<not> ok1 \<or> tok_type currentToken \<notin> {tokenArraySeparator, tokenArrayEnd}
     then addErrorAndRecover ''Missing ',' or ']' in array declaration'' currentToken tokenArrayEnd r4
     else if tok_type currentToken = tokenArrayEnd then Inr (True, r4) else readArrayLoop fuel (Suc i) r4)))"
    if "within s" "left s \<le> left r1" for s
    by (rule rt.fine_array_tail [OF that(1)]) (use that(2) l in \<open>auto intro: enough_array [OF e]\<close>)
  show "fine r0 (rbind (readValue fuel (pushNode (KindIndex i) r1)) (\<lambda>(ok, r2).
      if \<not> ok then recoverFromError tokenArrayEnd (popNode r2)
      else rbind (readToken (popNode r2)) (\<lambda>(ok0, tok0, r3).
     rbind (skipComments ok0 tok0 r3) (\<lambda>(ok1, currentToken, r4).
     if \<not> ok1 \<or> tok_type currentToken \<notin> {tokenArraySeparator, tokenArrayEnd}
     then addErrorAndRecover ''Missing ',' or ']' in array declaration'' currentToken tokenArrayEnd r4
     else if tok_type currentToken = tokenArrayEnd then Inr (True, r4) else readArrayLoop fuel (Suc i) r4))))"
    by (rule fine_quiet [OF q], rule rt.fine_child [where readValue = "readValue fuel",
        OF enough_child [OF e w l] w tail])
qed (intro fuelled_update_res fuelled_intros; simp)

abbreviation object_member :: "nat \<Rightarrow> string \<Rightarrow> reader \<Rightarrow> (bool \<times> reader) res" where
  "object_member fuel name s \<equiv> rbind (readToken s) (\<lambda>(okc, colon, r4).
     if \<not> okc \<or> tok_type colon \<noteq> tokenMemberSeparator
     then addErrorAndRecover ''Missing ':' after object member name'' colon tokenObjectEnd r4
     else rbind (update_res (current_path r4) (\<lambda>v. rbind (resolveReference name v) (\<lambda>(v', _). Inr v')) r4) (\<lambda>r5.
     rbind (readValue fuel (pushNode (KindKey name) r5)) (\<lambda>(okv, r6).
     if \<not> okv then recoverFromError tokenObjectEnd (popNode r6)
     else rbind (readToken (popNode r6)) (\<lambda>(okm, comma, r7).
     if \<not> okm \<or> tok_type comma \<notin> {tokenObjectEnd, tokenArraySeparator, tokenComment}
     then addErrorAndRecover ''Missing ',' or '}' in object declaration'' comma tokenObjectEnd r7
     else rbind (skipComments True comma r7) (\<lambda>(_, comma', r8).
     if tok_type comma' = tokenObjectEnd then Inr (True, r8)
     else readObjectLoop fuel name r8)))))"

lemma fine_member:
  assumes e: "enough fuel" and s: "within s" "2 * left s < fuel"
  shows "fine s (object_member fuel name s)"
proof (rule rt.fine_object_member [where readValue = "readValue fuel", OF s(1)], goal_cases)
  case (1 u)
  then show ?case using s by (intro enough_child [OF e]) simp_all
next
  case (2 u)
  show ?case
    by (rule rt.fine_object_tail [OF 2(2)]) (use 2 s in \<open>auto intro: enough_object [OF e]\<close>)
qed (intro fuelled_intros; simp)

lemma enough_object_step:
  assumes e: "enough fuel" and r: "within r0" "2 * left r0 < Suc fuel"
  shows "fine r0 (readObjectLoop (Suc fuel) name r0)"
  unfolding readObjectLoop.simps
proof (rule fine_rbind [OF fuelled_readToken], intro fine_split, rule fine_rbind, goal_cases)
  case (1 x ok0 y tok0 r1)
  show ?case by (simp add: rt.fuelled_skipComments)
next
  case (2 x ok0 y tok0 r1 z)
  obtain ok tokenName r2 where z: "z = (ok, tokenName, r2)" by (cases z)
  have q: "quiet r0 r2"
    using 2 z readToken_quiet [of r0 ok0 tok0 r1]
    by (auto split: if_splits dest!: rt.quiet_skipComments intro: quiet_trans)
  have fwd: "left r2 < left r0" if "ok" "tok_type tokenName \<noteq> tokenEndOfStream"
    by (rule forward_left [OF q _ r(1)]) (use 2 z that in \<open>auto split: if_splits intro: rt.token_progress\<close>)
  show ?case
    unfolding z prod.case
  proof (intro fine_if rt.fine_addError [OF q] fine_rbind fuelled_memberName, goal_cases)
    case 1
    show ?case by (simp add: fine_Inr result_of_True q)
  next
    case (2 decoded)
    have failed: "fine r0 (recoverFromError t r3)" if d: "decoded = Some (None, r3)" for r3 t
      using memberName_result [of tokenName r2 None r3] 2 d
      by (intro rt.fine_recover result_of_quiet [OF q]) simp
    have inner: "fine r0 (object_member fuel name' r3)" if d: "decoded = Some (Some n, r3)" for name' n r3
    proof -
      have q23: "quiet r2 r3" using memberName_result [of tokenName r2 "Some n" r3] 2 d by (simp add: result_of_True)
      have q3: "quiet r0 r3" by (rule quiet_trans [OF q q23])
      have "tok_type tokenName \<noteq> tokenEndOfStream" using 2 d by (auto simp: memberName_def)
      then have "2 * left r3 < fuel" using fwd 2(1) quiet_left [OF q23] r(2) by simp
      then show ?thesis
        using fine_quiet [OF q3 fine_member [OF e quiet_within [OF q3 r(1)]]] by blast
    qed
    show ?case using rt.fine_addError [OF q] failed inner by (auto split: option.split prod.split)
  qed
qed

lemma quiet_close: "quiet s (rememberLast (set_current f s))"
  by (rule quiet_trans [OF quiet_set_current quiet_rememberLast])

lemma quiet_back: "quiet r s \<Longrightarrow> rd_current r < rd_current s \<Longrightarrow>
   quiet r (rememberLast (set_current f (s\<lparr>rd_current := rd_current s - 1\<rparr>)))"
  by (rule quiet_trans [OF _ quiet_close]) (auto simp: quiet_def keeps_def)

lemma fine_array:
  assumes e: "enough fuel" and s: "within s" "2 * left s + 1 < fuel"
  shows "fine s (if b then rbind (readToken s) (\<lambda>(_, _, rb). Inr (True, rb)) else readArrayLoop fuel 0 s)"
  using enough_array [OF e s] fuelled_readToken
  by (auto intro!: fine_rbind fine_Inr simp: result_of_True dest: readToken_quiet)

lemma enough_value_step:
  assumes e: "enough fuel" and r: "within r0" "2 * left r0 < Suc fuel"
  shows "fine r0 (readValue (Suc fuel) r0)"
  unfolding readValue.simps
proof (rule fine_if, simp add: fine_Inl, rule fine_rbind [OF fuelled_skipCommentTokens], rule fine_split,
    rule fine_rbind [OF fuelled_takeCommentsBefore], goal_cases)
  case (1 x token r1 s)
  have q: "quiet r0 s" and q1: "quiet r1 s"
    using 1 quiet_skipCommentTokens [of r0 token r1] quiet_takeCommentsBefore [of r1 s]
    by (blast intro: quiet_trans)+
  have fwd: "rd_current r0 < rd_current s" if "tok_type token \<noteq> tokenEndOfStream"
    using skipCommentTokens_progress [of r0 token r1] 1 that q1 by (auto simp: quiet_def keeps_def)
  have begin_left: "2 * left t + 1 < fuel" if "quiet s t" "tok_type token \<noteq> tokenEndOfStream" for t
    using forward_left [OF q fwd [OF that(2)] r(1)] quiet_left [OF that(1)] r(2) by linarith
  have qt: "quiet r0 t" if "quiet s t" for t by (rule quiet_trans [OF q that])
  have opened: "quiet s (set_current f s)" "quiet s (skipSpaces (set_current f s))" for f
    using quiet_skipSpaces quiet_trans quiet_set_current by blast+
  show ?case
  proof (intro fine_if fine_let, goal_cases)
    case 1
    let ?t = "set_current (\<lambda>v. setOffsetStart (int (tok_start token)) (set_payload (ObjectV []) v)) s"
    have "2 * left ?t + 1 < fuel" by (rule begin_left [OF opened(1)]) (simp add: 1)
    then have "2 * left ?t < fuel" by simp
    from enough_object [OF e quiet_within [OF qt [OF opened(1)] r(1)] this]
    show ?case by (intro fine_then [OF fine_quiet [OF qt [OF opened(1)]]] quiet_close)
  next
    case (2 ra)
    have qra: "quiet s ra" using 2 opened(2) by blast
    have "2 * left ra + 1 < fuel" using begin_left [OF qra] 2 by simp
    from fine_array [OF e quiet_within [OF qt [OF qra] r(1)] this]
    show ?case by (intro fine_then [OF fine_quiet [OF qt [OF qra]]] quiet_close)
  next
    case 3
    have "result_of r0 ok (rememberLast r')" if "readScalar token s = (ok, r')" for ok r'
      by (rule result_of_quiet [OF q], rule result_of_quiet2 [OF readScalar_result [OF that]]) simp
    then show ?case by (auto intro!: fine_Inr split: prod.split)
  next
    case (4 r')
    have "tok_type token \<noteq> tokenEndOfStream" using 4 by auto
    then show ?case using quiet_back [OF q fwd] 4 by (auto intro!: fine_Inr simp: result_of_True)
  next
    case 5
    show ?case by (intro fine_Inr failed_addError qt opened)
  qed
qed

lemma enough_all: "enough fuel"
proof (induction fuel)
  case 0
  then show ?case by (simp add: enough_def)
next
  case (Suc fuel)
  then show ?case
    unfolding enough_def [of "Suc fuel"]
    using enough_value_step enough_object_step enough_array_step by blast
qed

lemma fine_readValue:
  "fine (mk_reader feats doc root collect) (readValue (parse_fuel doc) (mk_reader feats doc root collect))"
  by (rule enough_value [OF enough_all]) (simp_all add: within_def left_def mk_reader_def parse_fuel_def)

lemma fuelled_parse: "fuelled (parse feats doc root collect)"
  unfolding parse_def
  by (intro fuelled_intros fuelled_skipCommentTokens fuelled_update_res fineD(1) [OF fine_readValue]) simp_all

text \<open>Parsing ends for every document, every set of features and every root: the
  recursion never needs more than the fuel it is given, whatever the nesting and however
  many errors it recovers from.\<close>

lemma parse_terminates: "parse feats doc root collect \<noteq> Inl OutOfFuel"
  using fuelled_parse by (simp add: fuelled_def)

lemma fine_parse: "fine (mk_reader feats doc root collect) (parse feats doc root collect)"
  unfolding parse_def
proof (rule fine_then_quiet [OF fine_readValue], simp only: prod.case,
    rule fine_rbind [OF fuelled_skipCommentTokens], rule fine_split, rule fine_rbind, goal_cases)
  case (2 ok s x tok r2 r3)
  have "quiet r2 r3" using 2(5) by (auto split: if_splits dest: quiet_update_res)
  then have "quiet s r3" using quiet_skipCommentTokens [of s tok r2] 2(3,4) by (blast intro: quiet_trans)
  with 2(2) have "result_of (mk_reader feats doc root collect) ok r3" by (blast intro: result_of_quiet2)
  then show ?case by (intro fine_if fine_Inr failed_again)
qed (auto intro: fuelled_update_res)

lemma parse_result:
  assumes "parse feats doc root collect = Inr (ok, r)"
  shows "ok \<longleftrightarrow> rd_errors r = []" "rd_current r \<le> length doc" "rd_document r = doc"
  using fineD(2) [OF fine_parse assms]
  by (auto simp: result_of_def grows_def keeps_def mk_reader_def)

text \<open>C23 (parse_reports_errors). \<^verbatim>\<open>parse\<close> returns true exactly when it recorded no error (so \<^verbatim>\<open>good()\<close> agrees
  with its result), and it never reads past the end of the document.\<close>

theorem parse_reports_errors:
  assumes "parse feats doc root collect = Inr (ok, r)"
  shows "(ok \<longleftrightarrow> good r) \<and> rd_current r \<le> length (rd_document r)"
  using parse_result [OF assms] by (simp add: good_def)

theorem parse_reports_errors_witness:
  "\<exists>r. parse features_all ''[,'' nullSingleton True = Inr (False, r) \<and> \<not> good r"
proof -
  have "case parse features_all ''[,'' nullSingleton True of Inr (ok, r) \<Rightarrow> \<not> ok | _ \<Rightarrow> False" by code_simp
  then obtain r where r: "parse features_all ''[,'' nullSingleton True = Inr (False, r)"
    by (auto split: sum.splits)
  with parse_reports_errors [OF r] show ?thesis by blast
qed

end
