(* ===== verification/Text_Roundtrip.thy ===== *)
theory Text_Roundtrip
  imports Json_Reader
begin

text \<open>
  What the writers print, the reader reads back. Bit fields of UTF-8 and of hexadecimal escapes are
  turned into arithmetic once; \<open>encodes esc t\<close> says that the bytes \<open>esc\<close> inside a JSON string stand for
  the text \<open>t\<close>, whatever follows, and is closed under concatenation, so quoting is correct because
  every escape it writes is. Integers are decoded exactly, up to the limits of the 64-bit types. The
  interpretations of \<open>codec\<close> give that the texts are unambiguous.
\<close>

unbundle bit_operations_syntax

section \<open>Bit fields\<close>

lemma or_disjoint:
  fixes a b :: nat
  assumes "b < 2 ^ n"
  shows "push_bit n a OR b = push_bit n a + b"
proof -
  have "b = take_bit n b" using assms by (simp add: take_bit_nat_eq_self)
  then have "push_bit n a AND b = 0"
    by (intro bit_eqI) (metis bit_and_iff bit_push_bit_iff bit_take_bit_iff bit_0_eq bot_apply bot_bool_def linorder_not_less)
  then show ?thesis by (simp add: disjunctive_add_eq_or)
qed

lemma and_masks:
  fixes x :: nat
  shows "0x7 AND x = x mod 8" "0xF AND x = x mod 16" "0x1F AND x = x mod 32" "0x3F AND x = x mod 64"
    "0xFF AND x = x mod 256" "0x3FF AND x = x mod 1024"
    "x AND 0x7 = x mod 8" "x AND 0xF = x mod 16" "x AND 0x1F = x mod 32" "x AND 0x3F = x mod 64"
    "x AND 0xFF = x mod 256" "x AND 0x3FF = x mod 1024"
  using take_bit_eq_mask [of 3 x] take_bit_eq_mask [of 4 x] take_bit_eq_mask [of 5 x] take_bit_eq_mask [of 6 x]
    take_bit_eq_mask [of 8 x] take_bit_eq_mask [of 10 x]
  by (simp_all add: take_bit_eq_mod mask_eq_exp_minus_1 and.commute)

lemma or_leads:
  fixes x :: nat
  shows "x < 32 \<Longrightarrow> 0xC0 OR x = 0xC0 + x" "x < 16 \<Longrightarrow> 0xE0 OR x = 0xE0 + x"
    "x < 8 \<Longrightarrow> 0xF0 OR x = 0xF0 + x" "x < 64 \<Longrightarrow> 0x80 OR x = 0x80 + x"
  using or_disjoint [of x 5 6] or_disjoint [of x 4 14] or_disjoint [of x 3 30] or_disjoint [of x 6 2]
  by (simp_all add: push_bit_eq_mult)

lemma utf8_bytes: "codePointToUTF8 cp =
     (if cp \<le> 0x7F then [char_of cp]
      else if cp \<le> 0x7FF then [char_of (0xC0 + cp div 64), char_of (0x80 + cp mod 64)]
      else if cp \<le> 0xFFFF then
        [char_of (0xE0 + cp div 4096), char_of (0x80 + cp div 64 mod 64), char_of (0x80 + cp mod 64)]
      else if cp \<le> 0x10FFFF then
        [char_of (0xF0 + cp div 262144), char_of (0x80 + cp div 4096 mod 64),
         char_of (0x80 + cp div 64 mod 64), char_of (0x80 + cp mod 64)]
      else [])"
  by (simp add: codePointToUTF8_def and_masks or_leads drop_bit_eq_div)

definition scalar :: "nat \<Rightarrow> bool" where
  "scalar cp \<longleftrightarrow> cp \<le> 0x10FFFF \<and> \<not> (0xD800 \<le> cp \<and> cp \<le> 0xDFFF)"

lemma or_field: "b < 64 \<Longrightarrow> push_bit 6 a OR b = a * 64 + (b::nat)"
  using or_disjoint [of b 6 a] by (simp add: push_bit_eq_mult)

lemma or_field3:
  fixes a b c :: nat
  assumes "b < 64" "c < 64"
  shows "push_bit 12 a OR push_bit 6 b OR c = (a * 64 + b) * 64 + c"
proof -
  have "push_bit 12 a OR push_bit 6 b OR c = push_bit 6 (push_bit 6 a OR b) OR c"
    by (simp add: push_bit_or or.assoc push_bit_push_bit)
  with assms show ?thesis by (simp only: or_field)
qed

lemma or_field4:
  fixes a b c d :: nat
  assumes "b < 64" "c < 64" "d < 64"
  shows "push_bit 18 a OR push_bit 12 b OR push_bit 6 c OR d = ((a * 64 + b) * 64 + c) * 64 + d"
proof -
  have "push_bit 18 a OR push_bit 12 b OR push_bit 6 c OR d = push_bit 6 (push_bit 12 a OR push_bit 6 b OR c) OR d"
    by (simp add: push_bit_or or.assoc push_bit_push_bit)
  also have "\<dots> = (push_bit 12 a OR push_bit 6 b OR c) * 64 + d" by (rule or_field [OF assms(3)])
  finally show ?thesis by (simp only: or_field3 [OF assms(1,2)])
qed

lemma lead_mod:
  "x < 32 \<Longrightarrow> (192 + x) mod 32 = (x::nat)" "x < 16 \<Longrightarrow> (224 + x) mod 16 = (x::nat)"
  "x < 8 \<Longrightarrow> (240 + x) mod 8 = (x::nat)" "x < 64 \<Longrightarrow> (128 + x) mod 64 = (x::nat)"
  using mod_mult_self2 [of x 32 6] mod_mult_self2 [of x 16 14] mod_mult_self2 [of x 8 30] mod_mult_self2 [of x 64 2]
  by (simp_all add: add.commute)

lemma utf8_read1: "n < 128 \<Longrightarrow> utf8ToCodepoint (char_of n # s) = (n, 0)"
  by (simp add: utf8ToCodepoint_def)

lemma utf8_read2:
  assumes "a < 32" "b < 64" "n = a * 64 + b" "0x80 \<le> n"
  shows "utf8ToCodepoint (char_of (0xC0 + a) # char_of (0x80 + b) # s) = (n, 1)"
  using assms by (simp add: utf8ToCodepoint_def and_masks lead_mod or_field)

lemma utf8_read3:
  assumes "a < 16" "b < 64" "c < 64" "n = (a * 64 + b) * 64 + c" "0x800 \<le> n" "\<not> (0xD800 \<le> n \<and> n \<le> 0xDFFF)"
  shows "utf8ToCodepoint (char_of (0xE0 + a) # char_of (0x80 + b) # char_of (0x80 + c) # s) = (n, 2)"
  using assms(1-3) assms(4) [symmetric] assms(5,6)
  by (auto simp: utf8ToCodepoint_def and_masks lead_mod or_field3 Let_def)

lemma utf8_read4:
  assumes "a < 8" "b < 64" "c < 64" "d < 64" "n = ((a * 64 + b) * 64 + c) * 64 + d" "0x10000 \<le> n"
  shows "utf8ToCodepoint (char_of (0xF0 + a) # char_of (0x80 + b) # char_of (0x80 + c) # char_of (0x80 + d) # s) = (n, 3)"
  using assms(1-4) assms(5) [symmetric] assms(6)
  by (simp add: utf8ToCodepoint_def and_masks lead_mod or_field4 Let_def)

lemma base64_digits:
  fixes n :: nat
  shows "(n div 4096 * 64 + n div 64 mod 64) * 64 + n mod 64 = n"
    "((n div 262144 * 64 + n div 4096 mod 64) * 64 + n div 64 mod 64) * 64 + n mod 64 = n"
proof -
  have d: "n div 4096 = n div 64 div 64" "n div 262144 = n div 64 div 64 div 64"
    by (simp_all add: div_mult2_eq [symmetric])
  show "(n div 4096 * 64 + n div 64 mod 64) * 64 + n mod 64 = n"
    "((n div 262144 * 64 + n div 4096 mod 64) * 64 + n div 64 mod 64) * 64 + n mod 64 = n"
    unfolding d by (simp_all only: div_mult_mod_eq)
qed

lemma utf8_decodes:
  assumes "scalar cp"
  shows "utf8ToCodepoint (codePointToUTF8 cp @ s) = (cp, length (codePointToUTF8 cp) - 1)"
proof -
  consider "cp \<le> 0x7F" | "\<not> cp \<le> 0x7F" "cp \<le> 0x7FF" | "\<not> cp \<le> 0x7F" "\<not> cp \<le> 0x7FF" "cp \<le> 0xFFFF"
    | "\<not> cp \<le> 0x7F" "\<not> cp \<le> 0x7FF" "\<not> cp \<le> 0xFFFF" "cp \<le> 0x10FFFF" using assms by (auto simp: scalar_def)
  then show ?thesis
  proof cases
    case 1
    then show ?thesis by (simp add: utf8_bytes utf8_read1)
  next
    case 2
    have "utf8ToCodepoint (char_of (0xC0 + cp div 64) # char_of (0x80 + cp mod 64) # s) = (cp, 1)"
      by (rule utf8_read2) (use 2 in simp_all)
    with 2 show ?thesis by (simp add: utf8_bytes)
  next
    case 3
    have "utf8ToCodepoint (char_of (0xE0 + cp div 4096) # char_of (0x80 + cp div 64 mod 64) # char_of (0x80 + cp mod 64) # s)
       = (cp, 2)"
      by (rule utf8_read3 [OF _ _ _ base64_digits(1) [symmetric]]) (use 3 assms in \<open>simp_all add: scalar_def\<close>)
    with 3 show ?thesis by (simp add: utf8_bytes)
  next
    case 4
    have "utf8ToCodepoint (char_of (0xF0 + cp div 262144) # char_of (0x80 + cp div 4096 mod 64) #
       char_of (0x80 + cp div 64 mod 64) # char_of (0x80 + cp mod 64) # s) = (cp, 3)"
      by (rule utf8_read4 [OF _ _ _ _ base64_digits(2) [symmetric]]) (use 4 in simp_all)
    with 4 show ?thesis by (simp add: utf8_bytes)
  qed
qed


section \<open>Hexadecimal escapes\<close>

lemma hex_value_digit: "n < 16 \<Longrightarrow> hex_value (hex_digit n) = Some n"
proof -
  assume "n < 16"
  then have "n \<in> set [0..<16]" by simp
  moreover have "list_all (\<lambda>n. hex_value (hex_digit n) = Some n) [0..<16]" by code_simp
  ultimately show ?thesis by (simp only: list_all_iff)
qed

lemma toHex16Bit_digits: "x < 65536 \<Longrightarrow>
  toHex16Bit x = [hex_digit (x div 4096), hex_digit (x div 256 mod 16), hex_digit (x div 16 mod 16), hex_digit (x mod 16)]"
proof -
  assume "x < 65536"
  then have "x div 256 mod 256 = x div 256" by simp
  moreover have "x div 256 div 16 = x div 4096" by (simp add: div_mult2_eq [symmetric])
  moreover have "x mod 256 div 16 = x div 16 mod 16" using mod_mult2_eq [of x 16 16] by simp
  moreover have "x mod 256 mod 16 = x mod 16" by (simp add: mod_mod_cancel)
  ultimately show ?thesis by (simp add: toHex16Bit_def Let_def hex2_def and_masks drop_bit_eq_div)
qed

lemma base16_digits: "((n div 4096 * 16 + n div 256 mod 16) * 16 + n div 16 mod 16) * 16 + n mod 16 = (n::nat)"
proof -
  have d: "n div 256 = n div 16 div 16" "n div 4096 = n div 16 div 16 div 16"
    by (simp_all add: div_mult2_eq [symmetric])
  show ?thesis unfolding d by (simp only: div_mult_mod_eq)
qed

lemma hexLoop_digits:
  assumes "a < 16" "b < 16" "c < 16" "d < 16"
  shows "hexLoop (Suc (Suc (Suc (Suc 0)))) pos 0 (hex_digit a # hex_digit b # hex_digit c # hex_digit d # s) =
     Inr (((a * 16 + b) * 16 + c) * 16 + d)"
  using assms by (simp add: hex_value_digit)

lemma unescape_hex:
  assumes "x < 65536"
  shows "decodeUnicodeEscapeSequence pos (toHex16Bit x @ s) = Inr x"
proof -
  have four: "4 = Suc (Suc (Suc (Suc 0)))" by simp
  have "hexLoop 4 pos 0 (toHex16Bit x @ s) =
     Inr (((x div 4096 * 16 + x div 256 mod 16) * 16 + x div 16 mod 16) * 16 + x mod 16)"
    unfolding toHex16Bit_digits [OF assms] four append.simps
    by (rule hexLoop_digits) (use assms in simp_all)
  then have "hexLoop 4 pos 0 (toHex16Bit x @ s) = Inr x" by (simp only: base16_digits)
  then show ?thesis
    by (simp add: decodeUnicodeEscapeSequence_def toHex16Bit_digits [OF assms] del: hexLoop.simps)
qed

lemma length_toHex16Bit [simp]: "length (toHex16Bit x) = 4"
  by (simp add: toHex16Bit_def Let_def)

lemma hex_digit_plain: "n < 16 \<Longrightarrow> hex_digit n \<noteq> BACKSLASH \<and> hex_digit n \<noteq> DQUOTE"
proof -
  assume "n < 16"
  then have "n \<in> set [0..<16]" by simp
  moreover have "list_all (\<lambda>n. hex_digit n \<noteq> BACKSLASH \<and> hex_digit n \<noteq> DQUOTE) [0..<16]" by code_simp
  ultimately show ?thesis unfolding list_all_iff by blast
qed

section \<open>Texts that stand for others inside a JSON string\<close>

text \<open>Inside a string, the bytes \<open>esc\<close> are scanned to their end and decode to \<open>t\<close>, whatever follows.\<close>

definition encodes :: "string \<Rightarrow> string \<Rightarrow> bool" where
  "encodes esc t \<longleftrightarrow>
     (\<forall>pos s acc. \<exists>pos'. decodeString_loop pos (esc @ s) acc = decodeString_loop pos' s (acc @ t)) \<and>
     (\<forall>s. stringScan (esc @ s) = (fst (stringScan s) + length esc, snd (stringScan s)))"

lemma encodes_Nil: "encodes [] []"
  by (auto simp: encodes_def)

lemma encodes_append:
  assumes "encodes a s" "encodes b t"
  shows "encodes (a @ b) (s @ t)"
  unfolding encodes_def
proof (intro conjI allI)
  fix pos u acc
  obtain p1 where "decodeString_loop pos (a @ b @ u) acc = decodeString_loop p1 (b @ u) (acc @ s)"
    using assms(1) unfolding encodes_def by blast
  moreover obtain p2 where "decodeString_loop p1 (b @ u) (acc @ s) = decodeString_loop p2 u ((acc @ s) @ t)"
    using assms(2) unfolding encodes_def by blast
  ultimately show "\<exists>p. decodeString_loop pos ((a @ b) @ u) acc = decodeString_loop p u (acc @ s @ t)" by auto
next
  fix u
  show "stringScan ((a @ b) @ u) = (fst (stringScan u) + length (a @ b), snd (stringScan u))"
    using assms by (simp add: encodes_def)
qed

lemma encodes_plain: "c \<noteq> DQUOTE \<Longrightarrow> c \<noteq> BACKSLASH \<Longrightarrow> encodes [c] [c]"
  by (auto simp: encodes_def case_prod_unfold Let_def)

lemma encodes_plains: "list_all (\<lambda>c. c \<noteq> DQUOTE \<and> c \<noteq> BACKSLASH) s \<Longrightarrow> encodes s s"
proof (induction s)
  case (Cons c s)
  then show ?case using encodes_append [OF encodes_plain, of c s s] by simp
qed (simp add: encodes_Nil)

lemma encodes_simple: "simpleEscape e = Some d \<Longrightarrow> encodes [BACKSLASH, e] [d]"
  by (auto simp: encodes_def case_prod_unfold Let_def)

lemma simpleEscape_u: "simpleEscape CHR ''u'' = None"
  by code_simp

lemma decode_u:
  "decodeUnicodeCodePoint (pos + 2) s = Inr (cp, n) \<Longrightarrow>
   decodeString_loop pos (BACKSLASH # CHR ''u'' # s) acc = decodeString_loop (pos + 2 + n) (drop n s) (acc @ codePointToUTF8 cp)"
  by (simp add: simpleEscape_u)

lemma stringScan_plains: "list_all (\<lambda>c. c \<noteq> DQUOTE \<and> c \<noteq> BACKSLASH) a \<Longrightarrow>
  stringScan (a @ s) = (fst (stringScan s) + length a, snd (stringScan s))"
  by (induction a) (auto simp: case_prod_unfold Let_def)

lemma toHex16Bit_plain: "x < 65536 \<Longrightarrow> list_all (\<lambda>c. c \<noteq> DQUOTE \<and> c \<noteq> BACKSLASH) (toHex16Bit x)"
  by (simp add: toHex16Bit_digits hex_digit_plain)

lemma stringScan_appendHex:
  "x < 65536 \<Longrightarrow> stringScan (appendHex x @ s) = (fst (stringScan s) + length (appendHex x), snd (stringScan s))"
  using stringScan_plains [OF toHex16Bit_plain, of x s] by (simp add: appendHex_def case_prod_unfold Let_def)

lemma encodes_hex:
  assumes "x < 65536" "\<not> (0xD800 \<le> x \<and> x \<le> 0xDBFF)"
  shows "encodes (appendHex x) (codePointToUTF8 x)"
proof -
  have "decodeUnicodeCodePoint pos (toHex16Bit x @ s) = Inr (x, 4)" for pos s
    using assms by (auto simp: decodeUnicodeCodePoint_def unescape_hex)
  then show ?thesis
    using decode_u [of _ "toHex16Bit x @ _" x 4] stringScan_appendHex [OF assms(1)]
    by (fastforce simp: encodes_def appendHex_def)
qed

lemma encodes_pair:
  assumes "0x10000 \<le> cp" "cp \<le> 0x10FFFF"
  shows "encodes (appendHex (0xD800 + (drop_bit 10 (cp - 0x10000) AND 0x3FF)) @
     appendHex (0xDC00 + ((cp - 0x10000) AND 0x3FF))) (codePointToUTF8 cp)"
proof -
  define x where "x = cp - 0x10000"
  define h where "h = x div 1024"
  define l where "l = x mod 1024"
  have h: "h < 1024" and l: "l < 1024" using assms by (simp_all add: h_def l_def x_def)
  have fields: "drop_bit 10 x AND 0x3FF = h" "x AND 0x3FF = l"
    using h by (simp_all add: and_masks drop_bit_eq_div h_def l_def)
  have m: "(0xD800 + h) AND 0x3FF = h" "(0xDC00 + l) AND 0x3FF = l"
    using h l mod_mult_self2 [of h 1024 54] mod_mult_self2 [of l 1024 55] by (simp_all add: and_masks add.commute)
  have cp: "0x10000 + push_bit 10 h + l = cp"
    using assms div_mult_mod_eq [of x 1024] by (simp add: push_bit_eq_mult h_def l_def x_def)
  have "decodeUnicodeCodePoint pos (toHex16Bit (0xD800 + h) @ appendHex (0xDC00 + l) @ s) = Inr (cp, 10)" for pos s
    using h l m cp
    by (simp add: decodeUnicodeCodePoint_def unescape_hex appendHex_def)
  then have d: "decodeString_loop pos ((appendHex (0xD800 + h) @ appendHex (0xDC00 + l)) @ s) acc =
      decodeString_loop (pos + 2 + 10) s (acc @ codePointToUTF8 cp)" for pos s acc
    using decode_u [of pos "toHex16Bit (0xD800 + h) @ appendHex (0xDC00 + l) @ s" cp 10]
    by (simp add: appendHex_def del: decodeString_loop.simps)
  have "encodes (appendHex (0xD800 + h) @ appendHex (0xDC00 + l)) (codePointToUTF8 cp)"
    unfolding encodes_def
  proof (intro conjI allI)
    show "\<exists>p. decodeString_loop pos ((appendHex (0xD800 + h) @ appendHex (0xDC00 + l)) @ s) acc =
      decodeString_loop p s (acc @ codePointToUTF8 cp)" for pos s acc
      by (rule exI, rule d)
  qed (use h l in \<open>simp add: stringScan_appendHex\<close>)
  then show ?thesis using fields by (simp add: x_def)
qed


section \<open>Quoting\<close>

lemma codePointToUTF8_ascii: "n < 0x80 \<Longrightarrow> codePointToUTF8 n = [char_of n]"
  by (simp add: codePointToUTF8_def)

lemma encodes_control: "byte c < 0x80 \<Longrightarrow> encodes (appendHex (byte c)) [c]"
  using encodes_hex [of "byte c"] codePointToUTF8_ascii [of "byte c"] by simp

text \<open>The characters with an escape of their own.\<close>

definition short_escapes :: "(char \<times> char) list" where
  "short_escapes = [(DQUOTE, DQUOTE), (BACKSLASH, BACKSLASH), (CHR 0x08, CHR ''b''), (CHR 0x0C, CHR ''f''),
     (LF, CHR ''n''), (CR, CHR ''r''), (TAB, CHR ''t'')]"

lemma short_escapes_encode: "(c, e) \<in> set short_escapes \<Longrightarrow> encodes [BACKSLASH, e] [c]"
proof (rule encodes_simple)
  have "list_all (\<lambda>(c, e). simpleEscape e = Some c) short_escapes" by code_simp
  then show "(c, e) \<in> set short_escapes \<Longrightarrow> simpleEscape e = Some c" by (auto simp: list_all_iff)
qed

lemma quoteLoop_short: "(c, e) \<in> set short_escapes \<Longrightarrow> quoteLoop b (c # cs) = [BACKSLASH, e] @ quoteLoop b cs"
  by (auto simp: short_escapes_def)

lemma quoteLoop_other:
  assumes "c \<notin> fst ` set short_escapes"
  shows "quoteLoop b (c # cs) =
     (if b then (if byte c < 0x20 then appendHex (byte c) else [c]) @ quoteLoop b cs
      else (let (codepoint, adv) = utf8ToCodepoint (c # cs) in escapeCodepoint codepoint @ quoteLoop b (drop adv cs)))"
  using assms by (simp add: short_escapes_def)

lemma plain_other: "c \<notin> fst ` set short_escapes \<Longrightarrow> c \<noteq> DQUOTE \<and> c \<noteq> BACKSLASH"
  by (auto simp: short_escapes_def)

lemma quote_byte:
  "\<exists>esc. quoteLoop True (c # cs) = esc @ quoteLoop True cs \<and> encodes esc [c]"
proof (cases "c \<in> fst ` set short_escapes")
  case True
  then obtain e where "(c, e) \<in> set short_escapes" by auto
  then show ?thesis using quoteLoop_short [of c e True cs] short_escapes_encode by blast
next
  case False
  show ?thesis
  proof (cases "byte c < 0x20")
    case True
    then show ?thesis using quoteLoop_other [OF False, of True cs] encodes_control [of c] by auto
  next
    case sp: False
    then show ?thesis using quoteLoop_other [OF False, of True cs] encodes_plain plain_other [OF False] by auto
  qed
qed

lemma encodes_quote_bytes: "encodes (quoteLoop True s) s"
proof (induction s)
  case (Cons c s)
  then show ?case using quote_byte [of c s] encodes_append [of _ "[c]" "quoteLoop True s" s] by fastforce
qed (simp add: encodes_Nil)

lemma encodes_escapeCodepoint:
  assumes "scalar cp" "cp < 0x80 \<Longrightarrow> char_of cp \<noteq> DQUOTE \<and> char_of cp \<noteq> BACKSLASH"
  shows "encodes (escapeCodepoint cp) (codePointToUTF8 cp)"
proof -
  consider "cp < 0x20" | "0x20 \<le> cp" "cp < 0x80" | "0x80 \<le> cp" "cp < 0x10000" | "0x10000 \<le> cp" by linarith
  then show ?thesis
  proof cases
    case 2
    then show ?thesis using assms encodes_plain [of "char_of cp"]
      by (simp add: escapeCodepoint_def codePointToUTF8_ascii)
  next
    case 4
    then show ?thesis using assms encodes_pair [of cp] by (simp add: escapeCodepoint_def Let_def scalar_def)
  qed (use assms encodes_hex [of cp] in \<open>auto simp: escapeCodepoint_def scalar_def\<close>)
qed

lemma utf8_lead:
  assumes "0x80 \<le> cp" "cp \<le> 0x10FFFF"
  obtains c cs where "codePointToUTF8 cp = c # cs" "0x80 \<le> byte c"
proof -
  have "cp div 64 < 64" if "cp \<le> 0x7FF" using that by simp
  moreover have "cp div 4096 < 16" if "cp \<le> 0xFFFF" using that by simp
  moreover have "cp div 262144 < 16" using assms by simp
  ultimately have "codePointToUTF8 cp \<noteq> [] \<and> 0x80 \<le> byte (hd (codePointToUTF8 cp))"
    using assms by (simp add: utf8_bytes)
  then show thesis using that by (cases "codePointToUTF8 cp") auto
qed

lemma short_ascii: "c \<in> fst ` set short_escapes \<Longrightarrow> byte c < 0x80"
  by (auto simp: short_escapes_def)

lemma quote_codepoint:
  assumes "scalar cp"
  shows "\<exists>esc. quoteLoop False (codePointToUTF8 cp @ s) = esc @ quoteLoop False s \<and> encodes esc (codePointToUTF8 cp)"
proof -
  obtain c cs where c: "codePointToUTF8 cp = c # cs" "cp < 0x80 \<longrightarrow> c = char_of cp \<and> cs = []" "0x80 \<le> cp \<longrightarrow> 0x80 \<le> byte c"
    using assms utf8_lead [of cp] codePointToUTF8_ascii [of cp] by (cases "cp < 0x80") (auto simp: scalar_def)
  show ?thesis
  proof (cases "c \<in> fst ` set short_escapes")
    case True
    then obtain e where e: "(c, e) \<in> set short_escapes" by auto
    have "cp < 0x80" using c short_ascii [OF True] by fastforce
    then show ?thesis using c quoteLoop_short [OF e, of False s] short_escapes_encode [OF e] by auto
  next
    case False
    have "quoteLoop False (codePointToUTF8 cp @ s) = escapeCodepoint cp @ quoteLoop False s"
      using quoteLoop_other [OF False, of False "cs @ s"] utf8_decodes [OF assms, of s] c(1) by simp
    moreover have "encodes (escapeCodepoint cp) (codePointToUTF8 cp)"
      using assms c plain_other [OF False] by (intro encodes_escapeCodepoint) auto
    ultimately show ?thesis by blast
  qed
qed

definition utf8_of :: "nat list \<Rightarrow> string" where
  "utf8_of cps = concat (map codePointToUTF8 cps)"

lemma encodes_quote_utf8: "list_all scalar cps \<Longrightarrow> encodes (quoteLoop False (utf8_of cps)) (utf8_of cps)"
proof (induction cps)
  case (Cons cp cps)
  then show ?case
    using quote_codepoint [of cp "utf8_of cps"] encodes_append [of _ "codePointToUTF8 cp" "quoteLoop False (utf8_of cps)" "utf8_of cps"]
    by (fastforce simp: utf8_of_def)
qed (simp add: encodes_Nil utf8_of_def)


text \<open>A quoted string is a quote, a body that stands for the string, and a quote.\<close>

lemma unescaped_plain: "\<not> doesAnyCharRequireEscaping s \<Longrightarrow> encodes s s"
  by (rule encodes_plains) (auto simp: doesAnyCharRequireEscaping_def list_all_iff list_ex_iff)

lemma quoted_body:
  assumes "emitUTF8 \<or> (\<exists>cps. list_all scalar cps \<and> s = utf8_of cps)"
  obtains b where "valueToQuotedStringN s emitUTF8 = DQUOTE # b @ [DQUOTE]" "encodes b s"
proof (cases "doesAnyCharRequireEscaping s")
  case True
  have "encodes (quoteLoop emitUTF8 s) s"
    using assms encodes_quote_bytes encodes_quote_utf8 by (cases emitUTF8) auto
  with True show thesis by (intro that [of "quoteLoop emitUTF8 s"]) (simp_all add: valueToQuotedStringN_def)
next
  case False
  then show thesis by (intro that [of s]) (simp_all add: valueToQuotedStringN_def unescaped_plain)
qed

lemma encodes_end:
  assumes "encodes b s"
  shows "decodeString_loop pos b [] = Inr s" "stringScan (b @ DQUOTE # t) = (Suc (length b), True)"
proof -
  obtain p where "decodeString_loop pos (b @ []) [] = decodeString_loop p [] ([] @ s)"
    using assms unfolding encodes_def by blast
  then show "decodeString_loop pos b [] = Inr s" by simp
  show "stringScan (b @ DQUOTE # t) = (Suc (length b), True)" using assms by (simp add: encodes_def)
qed

lemma rest_advance [simp]: "rest (advance n r) = drop n (rest r)"
  by (simp add: rest_def advance_def add.commute)

lemma readToken_string:
  fixes r r' :: reader
  assumes "rest r = DQUOTE # b @ DQUOTE # t" "encodes b s"
  defines "tok \<equiv> \<lparr>tok_type = tokenString, tok_start = rd_current r, tok_end = rd_current r + length b + 2\<rparr>"
  shows "readToken r = Inr (True, tok, advance (length b + 2) r)"
    "rd_document r' = rd_document r \<Longrightarrow> decodeString tok r' = (Some s, r')"
proof -
  have sp: "skipSpaces r = r" using assms(1) by (simp add: skipSpaces_def is_space_def advance_def)
  show "readToken r = Inr (True, tok, advance (length b + 2) r)"
    using assms(1) encodes_end(2) [OF assms(2), of t]
    by (simp add: readToken_def sp getNextChar_def tokenBody_def readString_def tok_def Let_def)
      (simp add: advance_def)
  have "drop (Suc (rd_current r)) (rd_document r) = b @ DQUOTE # t"
    using assms(1) unfolding rest_def by (metis drop_Suc tl_drop list.sel(3))
  then have "slice (Suc (rd_current r)) (rd_current r + length b + 2 - 1) (rd_document r) = b"
    by (simp add: slice_def)
  then show "rd_document r' = rd_document r \<Longrightarrow> decodeString tok r' = (Some s, r')"
    by (simp add: decodeString_def tok_def encodes_end(1) [OF assms(2)])
qed


section \<open>Integers\<close>

lemma digit_range: "is_digit c \<Longrightarrow> 0 \<le> (of_char c :: int) - 48 \<and> (of_char c :: int) - 48 \<le> 9"
proof -
  assume "is_digit c"
  then have "48 \<le> byte c" "byte c \<le> 57" by (simp_all add: is_digit_def)
  moreover have "(of_char c :: int) = int (byte c)" by (simp only: of_nat_of_char)
  ultimately show ?thesis by linarith
qed

lemma dec_value_mono:
  "list_all is_digit ds \<Longrightarrow> 0 \<le> v \<Longrightarrow> v * 10 ^ length ds \<le> dec_value v ds"
proof (induction v ds rule: dec_value.induct)
  case (2 v c cs)
  have d: "0 \<le> (of_char c :: int) - 48" using digit_range [of c] "2.prems" by simp
  have "v * 10 * 10 ^ length cs \<le> (v * 10 + (of_char c - 48)) * 10 ^ length cs"
    using d by (intro mult_right_mono) simp_all
  also have "\<dots> \<le> dec_value (v * 10 + (of_char c - 48)) cs" using 2 d by simp
  finally show ?case by simp
qed simp

lemma decodeNumber_loop_exact:
  assumes "list_all is_digit ds" "0 \<le> v" "v \<le> m" "10 \<le> m" "m \<le> UINT64_MAX"
  shows "decodeNumber_loop m v ds = (if dec_value v ds \<le> m then Some (dec_value v ds) else None)"
  using assms
proof (induction m v ds rule: decodeNumber_loop.induct)
  case (2 m v c cs)
  define d where "d = (of_char c :: int) - 48"
  have c: "is_digit c" and d: "0 \<le> d" "d \<le> 9" and cs: "list_all is_digit cs"
    using digit_range [of c] "2.prems"(1) by (simp_all add: d_def)
  have big: "(v * 10 + d) * 10 ^ length cs \<le> dec_value (v * 10 + d) cs"
    using dec_value_mono [OF cs, of "v * 10 + d"] d "2.prems"(2) by simp
  have grow: "(v * 10 + d) \<le> dec_value (v * 10 + d) cs"
    by (rule order_trans [OF _ big]) (use d "2.prems"(2) in \<open>simp add: mult_le_cancel_left1\<close>)
  show ?case
  proof (cases "v \<ge> m div 10 \<and> (v > m div 10 \<or> cs \<noteq> [] \<or> d > m mod 10)")
    case True
    have "m < dec_value (v * 10 + d) cs"
    proof (cases "v = m div 10 \<and> cs \<noteq> []")
      case more: True
      then have "(10::int) ^ 1 \<le> 10 ^ length cs" by (intro power_increasing) (auto simp: Suc_le_eq)
      then have "(v * 10 + d) * 10 \<le> (v * 10 + d) * 10 ^ length cs"
        using d "2.prems"(2) by (intro mult_left_mono) simp_all
      moreover have "1 \<le> m div 10" using "2.prems"(4) by linarith
      then have "m < (v * 10 + d) * 10"
        using more d(1) div_mult_mod_eq [of m 10] pos_mod_bound [of 10 m] by (simp add: algebra_simps)
      ultimately show ?thesis using big by linarith
    next
      case False
      then consider "m div 10 < v" | "v = m div 10" "m mod 10 < d" using True by fastforce
      then have "m < v * 10 + d" using d div_mult_mod_eq [of m 10] by cases linarith+
      then show ?thesis using grow by linarith
    qed
    with True c show ?thesis by (simp add: Let_def d_def)
  next
    case False
    then consider "v < m div 10" | "v = m div 10" "d \<le> m mod 10" by fastforce
    then have le: "v * 10 + d \<le> m" using d div_mult_mod_eq [of m 10] pos_mod_sign [of 10 m] by cases linarith+
    have "u64 (v * 10 + d) = v * 10 + d" using le "2.prems"(2,5) d by (simp add: to_unsigned_def int_limits)
    with "2.IH" [OF _ refl refl] False le c cs d "2.prems" show ?thesis by (simp add: Let_def d_def)
  qed
qed simp


lemma decodeInteger_digits:
  assumes "list_all is_digit ds" "ds \<noteq> []"
  shows "decodeInteger ds = (if dec_value 0 ds \<le> UINT64_MAX
      then Some (if dec_value 0 ds \<le> INT_MAX then IntV (dec_value 0 ds) else UIntV (dec_value 0 ds)) else None)"
    and "decodeInteger (CHR ''-'' # ds) = (if dec_value 0 ds \<le> INT64_MAX + 1 then Some (IntV (- dec_value 0 ds)) else None)"
proof -
  have pos: "0 \<le> dec_value 0 ds" using dec_value_mono [OF assms(1), of 0] by simp
  have "hd ds \<noteq> CHR ''-''" using assms by (cases ds) (auto simp: is_digit_def)
  then show "decodeInteger ds = (if dec_value 0 ds \<le> UINT64_MAX
      then Some (if dec_value 0 ds \<le> INT_MAX then IntV (dec_value 0 ds) else UIntV (dec_value 0 ds)) else None)"
    using pos decodeNumber_loop_exact [OF assms(1), of 0 UINT64_MAX]
    by (simp add: decodeInteger_def int_limits)
  show "decodeInteger (CHR ''-'' # ds) = (if dec_value 0 ds \<le> INT64_MAX + 1 then Some (IntV (- dec_value 0 ds)) else None)"
    using pos decodeNumber_loop_exact [OF assms(1), of 0 "INT64_MAX + 1"]
    by (auto simp: decodeInteger_def int_limits)
qed

definition integer_of :: "jdata \<Rightarrow> int option" where
  "integer_of d = (case d of IntV i \<Rightarrow> Some i | UIntV u \<Rightarrow> Some u | _ \<Rightarrow> None)"

definition read_integer :: "string \<Rightarrow> int option" where
  "read_integer s = Option.bind (decodeInteger s) integer_of"

lemma read_valueToString_int:
  assumes "INT64_MIN \<le> i \<and> i \<le> INT64_MAX"
  shows "read_integer (valueToString_int i) = Some i"
  using assms decodeInteger_digits [OF dec_string_digits dec_string_nonempty]
  by (simp add: read_integer_def valueToString_int_text integer_of_def int_limits)

lemma read_valueToString_uint:
  assumes "0 \<le> u \<and> u \<le> UINT64_MAX"
  shows "read_integer (valueToString_uint u) = Some u"
  using assms decodeInteger_digits [OF dec_string_digits dec_string_nonempty]
  by (simp add: read_integer_def valueToString_uint_def uintToString_dec integer_of_def)

interpretation int_text: codec "\<lambda>i. INT64_MIN \<le> i \<and> i \<le> INT64_MAX" valueToString_int read_integer
  by unfold_locales (rule read_valueToString_int)

interpretation uint_text: codec "\<lambda>u. 0 \<le> u \<and> u \<le> UINT64_MAX" valueToString_uint read_integer
  by unfold_locales (rule read_valueToString_uint)


section \<open>Strings as tokens\<close>

definition utf8_text :: "string \<Rightarrow> bool" where
  "utf8_text s \<longleftrightarrow> (\<exists>cps. list_all scalar cps \<and> s = utf8_of cps)"

text \<open>The string that a document with a single string token denotes.\<close>

definition unquote :: "string \<Rightarrow> string option" where
  "unquote doc = (case readToken (mk_reader features_all doc nullSingleton False) of
       Inr (ok, tok, r) \<Rightarrow>
         if tok_type tok = tokenString \<and> tok_end tok = length doc then fst (decodeString tok r) else None
     | Inl e \<Rightarrow> None)"

lemma rd_document_advance [simp]: "rd_document (advance n r) = rd_document r"
  by (simp add: advance_def)

lemma quoted_token:
  fixes r r' :: reader
  assumes "emitUTF8 \<or> utf8_text s" "rest r = valueToQuotedStringN s emitUTF8 @ t"
  defines "n \<equiv> length (valueToQuotedStringN s emitUTF8)"
  shows "readToken r = Inr (True, \<lparr>tok_type = tokenString, tok_start = rd_current r, tok_end = rd_current r + n\<rparr>, advance n r)"
    "rd_document r' = rd_document r \<Longrightarrow>
     decodeString \<lparr>tok_type = tokenString, tok_start = rd_current r, tok_end = rd_current r + n\<rparr> r' = (Some s, r')"
proof -
  obtain b where b: "valueToQuotedStringN s emitUTF8 = DQUOTE # b @ [DQUOTE]" "encodes b s"
    using quoted_body [of emitUTF8 s] assms(1) by (auto simp: utf8_text_def)
  then have r: "rest r = DQUOTE # b @ DQUOTE # t" and n: "n = length b + 2"
    using assms(2) by (simp_all add: n_def)
  show "readToken r = Inr (True, \<lparr>tok_type = tokenString, tok_start = rd_current r, tok_end = rd_current r + n\<rparr>, advance n r)"
    "rd_document r' = rd_document r \<Longrightarrow>
     decodeString \<lparr>tok_type = tokenString, tok_start = rd_current r, tok_end = rd_current r + n\<rparr> r' = (Some s, r')"
    using readToken_string [OF r b(2)] by (simp_all add: n)
qed

lemma unquote_quoted:
  assumes "emitUTF8 \<or> utf8_text s"
  shows "unquote (valueToQuotedStringN s emitUTF8) = Some s"
proof -
  let ?q = "valueToQuotedStringN s emitUTF8"
  let ?r = "mk_reader features_all ?q nullSingleton False"
  have r: "rest ?r = ?q @ []" "rd_current ?r = 0" by (simp_all add: mk_reader_def rest_def)
  show ?thesis using quoted_token [OF assms r(1)] r(2) by (simp add: unquote_def)
qed

interpretation quoted_bytes: codec "\<lambda>_. True" "\<lambda>s. valueToQuotedStringN s True" unquote
  by unfold_locales (simp add: unquote_quoted)

interpretation quoted_text: codec utf8_text "\<lambda>s. valueToQuotedStringN s False" unquote
  by unfold_locales (simp add: unquote_quoted)

section \<open>Properties\<close>

text \<open>Wherever in a document the quoted form of a text stands, the reader takes
  exactly that form as one string token and decodes it to the text: always when UTF-8 is emitted,
  and for every well-formed UTF-8 text when it is escaped. Hence two such texts are quoted differently.\<close>

lemma quoted_string_roundtrip:
  assumes "emitUTF8 \<or> utf8_text s" "rest r = valueToQuotedStringN s emitUTF8 @ t"
  shows "(\<exists>tok r'. readToken r = Inr (True, tok, r') \<and> tok_type tok = tokenString \<and> rest r' = t \<and>
      decodeString tok r' = (Some s, r')) \<and>
    (utf8_text s' \<longrightarrow> utf8_text s \<longrightarrow> valueToQuotedStringN s' False = valueToQuotedStringN s False \<longrightarrow> s' = s)"
  using quoted_token [OF assms] assms(2) quoted_text.encode_inj [of s' s] by simp

text \<open>C29 (decodeInteger_exact). A sequence of digits decodes to the integer it denotes exactly when that
  fits in 64 unsigned bits, with a minus sign exactly when it is at least -2^63; otherwise the
  text is left to \<^verbatim>\<open>decodeDouble\<close>. No digit sequence overflows the accumulator, and what
  \<^verbatim>\<open>valueToString\<close> writes for a 64-bit integer reads back as that integer.\<close>

theorem decodeInteger_exact:
  assumes "list_all is_digit ds" "ds \<noteq> []"
  shows "decodeInteger ds = (if dec_value 0 ds \<le> UINT64_MAX
      then Some (if dec_value 0 ds \<le> INT_MAX then IntV (dec_value 0 ds) else UIntV (dec_value 0 ds)) else None) \<and>
    decodeInteger (CHR ''-'' # ds) =
      (if dec_value 0 ds \<le> INT64_MAX + 1 then Some (IntV (- dec_value 0 ds)) else None) \<and>
    (INT64_MIN \<le> i \<and> i \<le> INT64_MAX \<longrightarrow> read_integer (valueToString_int i) = Some i) \<and>
    (0 \<le> u \<and> u \<le> UINT64_MAX \<longrightarrow> read_integer (valueToString_uint u) = Some u)"
  using decodeInteger_digits [OF assms] int_text.decode_encode [of i] uint_text.decode_encode [of u] by simp

theorem decodeInteger_exact_witness:
  "decodeInteger ''-9223372036854775808'' = Some (IntV INT64_MIN) \<and>
   read_integer (valueToString_int INT64_MIN) = Some INT64_MIN"
proof -
  have d: "list_all is_digit ''9223372036854775808''" "''9223372036854775808'' \<noteq> ([] :: string)" by code_simp+
  have v: "dec_value 0 ''9223372036854775808'' = 9223372036854775808" by code_simp
  show ?thesis using decodeInteger_exact [OF d, of INT64_MIN 0] unfolding v by (simp add: int_limits)
qed

end
