(* ===== verification/Double_Text.thy ===== *)
theory Double_Text
  imports Double Complex_Main
begin

text \<open>
  Seventeen significant digits determine a double: what \<^verbatim>\<open>%.17g\<close> prints of a finite number is read
  back by \<^verbatim>\<open>>>\<close> as the same number. Rounding is characterised on the real line: \<open>fp_round\<close> maps
  every number that is closer to a double than half the distance to its neighbours to that double,
  and the 17 digits are that close, since \<open>2 ^ 53 < 10 ^ 16\<close>.
\<close>

section \<open>Doubles on the real line\<close>

definition magnitude :: "bool \<Rightarrow> int \<Rightarrow> int \<Rightarrow> real" where
  "magnitude s m e = of_int (if s then - m else m) * 2 powi e"

lemma at_exp_magnitude: "e0 \<le> e \<Longrightarrow> magnitude s m e = of_int (at_exp e0 s m e) * 2 powi e0"
proof -
  assume "e0 \<le> e"
  then have "(2::real) powi e = 2 ^ nat (e - e0) * 2 powi e0"
    using power_int_add [of "2::real" "e - e0" e0] by (simp add: power_int_def)
  then show ?thesis by (simp add: magnitude_def at_exp_def)
qed

lemma dbl_fin:
  "dbl_less (DFin s m e) (DFin t n f) \<longleftrightarrow> magnitude s m e < magnitude t n f"
  "dbl_eq (DFin s m e) (DFin t n f) \<longleftrightarrow> magnitude s m e = magnitude t n f"
  using at_exp_magnitude [of "min e f" e s m] at_exp_magnitude [of "min e f" f t n] by simp_all

section \<open>Rounding quotients\<close>

lemma round_div_near:
  assumes "0 < d"
  shows "\<bar>real_of_int n / d - round_div n d\<bar> \<le> 1 / 2"
proof -
  obtain q r where q: "n div d = q" "n mod d = r" "n = q * d + r" "0 \<le> r" "r < d"
    using assms div_mult_mod_eq [of n d] by (metis pos_mod_bound pos_mod_sign)
  define x where "x = real_of_int r / d"
  have n: "real_of_int n / d = q + x" using assms by (simp add: q(3) x_def field_simps)
  have x: "0 \<le> x" "x < 1" using q assms by (simp_all add: x_def)
  have c: "2 * r < d \<longleftrightarrow> x < 1 / 2" "d < 2 * r \<longleftrightarrow> 1 / 2 < x"
    using assms by (simp_all add: x_def field_simps) linarith+
  show ?thesis unfolding round_div_def Let_def q(1,2) c n using x by (auto simp: abs_le_iff)
qed

lemma round_div_unique:
  assumes "0 < d" "\<bar>real_of_int n / d - m\<bar> < 1 / 2"
  shows "round_div n d = m"
proof -
  have "\<bar>real_of_int (round_div n d) - m\<bar> < 1" using round_div_near [OF assms(1), of n] assms(2) by linarith
  then have "real_of_int \<bar>round_div n d - m\<bar> < real_of_int 1" by simp
  then show ?thesis unfolding of_int_less_iff by simp
qed

lemma pow_le_powi:
  assumes "0 < d" "0 < b"
  shows "pow_le b k n d \<longleftrightarrow> real_of_int b powi k \<le> real_of_int n / d"
proof (cases "0 \<le> k")
  case True
  have "pow_le b k n d \<longleftrightarrow> real_of_int (d * b ^ nat k) \<le> real_of_int n"
    using True by (simp only: pow_le_def if_True of_int_le_iff)
  then show ?thesis using True assms by (simp add: power_int_def field_simps)
next
  case False
  have "pow_le b k n d \<longleftrightarrow> real_of_int d \<le> real_of_int (n * b ^ nat (- k))"
    using False by (simp only: pow_le_def if_False of_int_le_iff)
  then show ?thesis using False assms by (simp add: power_int_def field_simps)
qed

lemma abs_scaled:
  fixes a b p :: real
  assumes "0 < p"
  shows "\<bar>a / p - b\<bar> = \<bar>a - b * p\<bar> / p"
proof -
  have "a / p - b = (a - b * p) / p" using assms by (simp add: field_simps)
  then show ?thesis using assms by simp
qed

text \<open>\<open>scale_round\<close> rounds the scaled quotient.\<close>

lemma scale_round_div:
  assumes "0 < d" "0 < b"
  obtains n' d' where "0 < d'" "scale_round b k n d = round_div n' d'"
    "real_of_int n' / d' = real_of_int n / d / real_of_int b powi k"
proof (cases "0 \<le> k")
  case True
  then show thesis using assms
    by (intro that [of "d * b ^ nat k" n]) (simp_all add: scale_round_def power_int_def field_simps)
next
  case False
  then show thesis using assms
    by (intro that [of d "n * b ^ nat (- k)"]) (simp_all add: scale_round_def power_int_def field_simps)
qed

lemma scale_round_near:
  assumes "0 < d" "0 < b"
  shows "\<bar>real_of_int n / d - scale_round b k n d * real_of_int b powi k\<bar> \<le> real_of_int b powi k / 2"
proof -
  obtain n' d' where e: "0 < d'" "scale_round b k n d = round_div n' d'"
    "real_of_int n' / d' = real_of_int n / d / real_of_int b powi k" using scale_round_div [OF assms] .
  have p: "0 < real_of_int b powi k" using assms(2) by simp
  have "\<bar>real_of_int n / d / real_of_int b powi k - round_div n' d'\<bar> \<le> 1 / 2"
    using round_div_near [OF e(1), of n'] by (simp add: e(3))
  then show ?thesis using p unfolding abs_scaled [OF p] e(2) by (simp add: field_simps)
qed

lemma scale_round_unique:
  assumes "0 < d" "0 < b" "\<bar>real_of_int n / d - m * real_of_int b powi k\<bar> < real_of_int b powi k / 2"
  shows "scale_round b k n d = m"
proof -
  obtain n' d' where e: "0 < d'" "scale_round b k n d = round_div n' d'"
    "real_of_int n' / d' = real_of_int n / d / real_of_int b powi k" using scale_round_div [OF assms(1,2)] .
  have p: "0 < real_of_int b powi k" using assms(2) by simp
  have "\<bar>real_of_int n / d / real_of_int b powi k - m\<bar> < 1 / 2"
    using assms(3) p unfolding abs_scaled [OF p] by (simp add: field_simps)
  then show ?thesis unfolding e(2) by (intro round_div_unique [OF e(1)]) (simp add: e(3))
qed

section \<open>Logarithms\<close>

lemma powi_step:
  fixes b :: real
  assumes "0 < b"
  shows "b powi (k + 1) = b powi k * b" "b powi (k - 1) = b powi k / b"
  using assms by (simp_all add: power_int_add_1 power_int_diff)

text \<open>From the numbers of digits of numerator and denominator to the integral logarithm of the quotient.\<close>

definition floor_log :: "int \<Rightarrow> int \<Rightarrow> int \<Rightarrow> int \<Rightarrow> int" where
  "floor_log b k0 n d = (if pow_le b k0 n d then k0 else k0 - 1)"

lemma floor_log:
  assumes b: "1 < b" and d: "0 < d"
    and n: "b ^ (p - 1) \<le> n" "n < b ^ p" "0 < p" and dd: "b ^ (q - 1) \<le> d" "d < b ^ q" "0 < q"
  shows "real_of_int b powi floor_log b (int p - int q) n d \<le> real_of_int n / d"
    "real_of_int n / d < real_of_int b powi (floor_log b (int p - int q) n d + 1)"
proof -
  let ?B = "real_of_int b"
  have B: "1 < ?B" "0 < ?B" using b by simp_all
  have r: "?B ^ (p - 1) \<le> real_of_int n" "real_of_int n < ?B ^ p" "?B ^ (q - 1) \<le> d" "real_of_int d < ?B ^ q"
    using n(1,2) dd(1,2) by (simp_all only: of_int_power [symmetric] of_int_le_iff of_int_less_iff)
  have nn: "0 \<le> real_of_int n" using r(1) B by (meson less_imp_le order_trans zero_le_power)
  have powi_diff: "?B powi (int x - int y) = ?B ^ x / ?B ^ y" for x y
    by (subst power_int_diff) (use B in simp_all)
  have e: "int p - int q - 1 = int (p - 1) - int q" using n(3) by simp
  have "?B powi (int p - int q - 1) = ?B ^ (p - 1) / ?B ^ q" unfolding e by (rule powi_diff)
  also have "\<dots> \<le> real_of_int n / d"
    by (rule frac_le) (use r nn d in simp_all)
  finally have lo: "?B powi (int p - int q - 1) \<le> real_of_int n / d" .
  have "real_of_int n / d < ?B ^ p / ?B ^ (q - 1)"
    by (rule frac_less) (use r nn B in simp_all)
  also have "\<dots> = ?B powi (int p - int (q - 1))" by (rule powi_diff [symmetric])
  also have "int p - int (q - 1) = int p - int q + 1" using dd(3) by simp
  finally have hi: "real_of_int n / d < ?B powi (int p - int q + 1)" .
  show "?B powi floor_log b (int p - int q) n d \<le> real_of_int n / d"
    using lo pow_le_powi [OF d, of b "int p - int q" n] b by (simp add: floor_log_def)
  show "real_of_int n / d < ?B powi (floor_log b (int p - int q) n d + 1)"
    using hi pow_le_powi [OF d, of b "int p - int q" n] b by (simp add: floor_log_def)
qed

lemma bit_count_bounds: "0 < n \<Longrightarrow> 0 < bit_count n \<and> 2 ^ nat (bit_count n - 1) \<le> n \<and> n < 2 ^ nat (bit_count n)"
proof (induction n rule: bit_count.induct)
  case (1 n)
  show ?case
  proof (cases "n = 1")
    case False
    then have h: "0 < n div 2" using 1 by simp
    let ?c = "bit_count (n div 2)"
    have c: "0 < ?c" "2 ^ nat (?c - 1) \<le> n div 2" "n div 2 < 2 ^ nat ?c" using 1 h by simp_all
    have "nat ?c = Suc (nat (?c - 1))" "nat (1 + ?c) = Suc (nat ?c)" using c(1) by simp_all
    moreover have "n = 2 * (n div 2) + n mod 2" "0 \<le> n mod 2" "n mod 2 < 2" by simp_all
    moreover have "bit_count n = 1 + ?c" using "1.prems" by (simp add: bit_count.simps [of n])
    ultimately show ?thesis using c(1) power_Suc [of "2::int" "nat (?c - 1)"] power_Suc [of "2::int" "nat ?c"] c(2,3)
      by (simp only: add_diff_cancel_left') (intro conjI; linarith)
  qed (simp add: bit_count.simps)
qed

lemma dec_string_bounds: "0 < n \<Longrightarrow> 10 ^ (length (dec_string n) - 1) \<le> n \<and> n < 10 ^ length (dec_string n)"
proof (induction n rule: dec_string.induct)
  case (1 n)
  show ?case
  proof (cases "n < 10")
    case True
    then show ?thesis using 1 by (simp add: dec_string.simps [of n])
  next
    case False
    let ?l = "length (dec_string (n div 10))"
    have c: "10 ^ (?l - 1) \<le> n div 10" "n div 10 < 10 ^ ?l" using 1 False by simp_all
    have "?l = Suc (?l - 1)" by (cases "dec_string (n div 10)") simp_all
    then have "(10::int) ^ ?l = 10 * 10 ^ (?l - 1)" by (metis power_Suc)
    moreover have "length (dec_string n) = Suc ?l" using False by (subst dec_string.simps) simp
    moreover have "n = 10 * (n div 10) + n mod 10" "0 \<le> n mod 10" "n mod 10 < 10" by simp_all
    ultimately show ?thesis using c power_Suc [of "10::int" ?l]
      by (simp only: diff_Suc_1) (intro conjI; linarith)
  qed
qed

section \<open>Correct rounding\<close>

text \<open>The finite doubles, and those of them that are normalised.\<close>

definition ieee :: "int \<Rightarrow> int \<Rightarrow> bool" where
  "ieee m e \<longleftrightarrow> 0 \<le> m \<and> m < 2 ^ 53 \<and> - 1074 \<le> e \<and> e \<le> 971"

definition normal :: "int \<Rightarrow> int \<Rightarrow> bool" where
  "normal m e \<longleftrightarrow> ieee m e \<and> 0 < m \<and> (2 ^ 52 \<le> m \<or> e = - 1074)"

lemma powi2_add: "(2::real) powi (e + int n) = 2 powi e * 2 ^ n"
  by (simp add: power_int_add)

lemma powi2_less: "(2::real) powi a < 2 powi b \<Longrightarrow> a < b"
  using power_int_increasing [of b a "2::real"] by fastforce

lemma dbl_round_log:
  assumes "0 < n" "0 < d"
  obtains k where "(2::real) powi k \<le> real_of_int n / d" "real_of_int n / d < 2 powi (k + 1)"
    "dbl_round s n d = (let e = max (- 1074) (k - 52); m = scale_round 2 e n d;
       (m', e') = (if m = 2 ^ 53 then (2 ^ 52, e + 1) else (m, e)) in if 971 < e' then DInf s else DFin s m' e')"
proof -
  let ?k = "floor_log 2 (bit_count n - bit_count d) n d"
  note bn = bit_count_bounds [OF assms(1)] and bd = bit_count_bounds [OF assms(2)]
  have "int (nat (bit_count n)) - int (nat (bit_count d)) = bit_count n - bit_count d" using bn bd by simp
  moreover have "nat (bit_count n - 1) = nat (bit_count n) - 1" "nat (bit_count d - 1) = nat (bit_count d) - 1" by simp_all
  ultimately have "real_of_int 2 powi ?k \<le> real_of_int n / d" "real_of_int n / d < real_of_int 2 powi (?k + 1)"
    using floor_log [of 2 d "nat (bit_count n)" n "nat (bit_count d)"] bn bd assms(2) by simp_all
  moreover have "dbl_round s n d = (let e = max (- 1074) (?k - 52); m = scale_round 2 e n d;
       (m', e') = (if m = 2 ^ 53 then (2 ^ 52, e + 1) else (m, e)) in if 971 < e' then DInf s else DFin s m' e')"
    using assms(1) by (simp add: dbl_round_def fp_round_def floor_log_def Let_def)
  ultimately show thesis using that by simp
qed

lemma dbl_round_near:
  assumes pos: "0 < n" "0 < d" and N: "normal M E"
    and near: "\<bar>real_of_int n / d - M * 2 powi E\<bar> < 2 powi E / 2"
      "E \<noteq> - 1074 \<Longrightarrow> M = 2 ^ 52 \<Longrightarrow> \<bar>real_of_int n / d - M * 2 powi E\<bar> < 2 powi E / 4"
  shows "dbl_round s n d = DFin s M E"
proof -
  define y where "y = real_of_int n / d"
  define P where "P = (2::real) powi E"
  have P: "0 < P" by (simp add: P_def)
  have M: "0 < M" "M < 2 ^ 53" "- 1074 \<le> E" "E \<le> 971" "2 ^ 52 \<le> M \<or> E = - 1074"
    using N by (simp_all add: normal_def ieee_def)
  have n0: "\<bar>y - M * P\<bar> < P / 2" using near(1) by (simp add: y_def P_def)
  then have n1: "y < M * P + P / 2" "M * P < y + P / 2" by (simp_all only: abs_less_iff) linarith+
  obtain k where k: "2 powi k \<le> y" "y < 2 powi (k + 1)"
    and r: "dbl_round s n d = (let e = max (- 1074) (k - 52); m = scale_round 2 e n d;
       (m', e') = (if m = 2 ^ 53 then (2 ^ 52, e + 1) else (m, e)) in if 971 < e' then DInf s else DFin s m' e')"
    using dbl_round_log [OF pos, of s] unfolding y_def by blast
  define e where "e = max (- 1074) (k - 52)"
  have "real_of_int M \<le> 2 ^ 53 - 1" using M(2) by (simp flip: of_int_le_iff)
  then have "real_of_int M * P \<le> (2 ^ 53 - 1) * P" using P by (intro mult_right_mono) simp_all
  then have "y < 2 ^ 53 * P" using n1(1) P unfolding left_diff_distrib by linarith
  then have "(2::real) powi k < 2 powi (E + int 53)" using k(1) unfolding powi2_add by (simp add: P_def mult.commute)
  then have le: "e \<le> E" using powi2_less [of k "E + int 53"] M(3) by (simp add: e_def)
  show ?thesis
  proof (cases "e = E")
    case True
    have "scale_round 2 E n d = M"
      by (rule scale_round_unique [OF pos(2)]) (use n0 in \<open>simp_all add: y_def P_def\<close>)
    then show ?thesis using r M True by (simp add: e_def [symmetric])
  next
    case False
    then have lt: "k - 52 < E" "- 1074 < E" using le by (auto simp: e_def max_def split: if_splits)
    then have ge: "2 ^ 52 \<le> M" using M(5) by simp
    have "y < 2 powi (E + int 52)"
      using k(2) lt power_int_increasing [of "k + 1" "E + int 52" "2::real"] by linarith
    then have hi: "y < 2 ^ 52 * P" unfolding powi2_add by (simp add: P_def mult.commute)
    have M52: "M = 2 ^ 52"
    proof (rule ccontr)
      assume "M \<noteq> 2 ^ 52"
      then have "2 ^ 52 + 1 \<le> real_of_int M" using ge by (simp flip: of_int_le_iff)
      then have "(2 ^ 52 + 1) * P \<le> M * P" using P by (intro mult_right_mono) simp_all
      then show False using n1(2) hi P unfolding distrib_right by linarith
    qed
    have n2: "\<bar>y - 2 ^ 52 * P\<bar> < P / 4" using near(2) lt(2) M52 by (simp add: y_def P_def)
    have "2 ^ 52 * P - P / 4 < y" using n2 unfolding abs_less_iff by linarith
    then have "2 ^ 51 * P < y" using P by simp
    then have "(2::real) powi (E + int 51) < 2 powi (k + 1)" using k(2) unfolding powi2_add by (simp add: P_def mult.commute)
    then have ke: "k = E + 51" using powi2_less [of "E + int 51" "k + 1"] lt(1) by simp
    have half: "real_of_int 2 powi (E - 1) = P / 2" by (simp add: P_def power_int_diff)
    have "\<bar>real_of_int n / d - real_of_int (2 ^ 53) * real_of_int 2 powi (E - 1)\<bar> < real_of_int 2 powi (E - 1) / 2"
      using n2 unfolding half y_def by simp
    then have "scale_round 2 (E - 1) n d = 2 ^ 53" by (intro scale_round_unique [OF pos(2)]) simp_all
    moreover have "max (- 1074) (k - 52) = E - 1" using ke lt(2) by simp
    ultimately show ?thesis using r M52 M(4) by simp
  qed
qed

section \<open>Seventeen digits\<close>

lemma normalise:
  "ieee m e \<Longrightarrow> 0 < m \<Longrightarrow> \<exists>M E. normal M E \<and> real_of_int M * 2 powi E = real_of_int m * 2 powi e"
proof (induction "nat (e + 1074)" arbitrary: m e)
  case 0
  then show ?case by (intro exI [of _ m] exI [of _ e]) (auto simp: normal_def ieee_def)
next
  case (Suc j)
  show ?case
  proof (cases "2 ^ 52 \<le> m")
    case False
    then have "ieee (2 * m) (e - 1)" using Suc(2,3) by (auto simp: ieee_def)
    moreover have "j = nat (e - 1 + 1074)" using Suc(2) by simp
    ultimately obtain M E where "normal M E" "real_of_int M * 2 powi E = real_of_int (2 * m) * 2 powi (e - 1)"
      using Suc(1) [of "e - 1" "2 * m"] Suc(4) by auto
    then show ?thesis by (auto simp: power_int_diff)
  next
    case True
    then have "normal m e" using Suc(3,4) by (simp add: normal_def)
    then show ?thesis by blast
  qed
qed

lemma frac_of_div:
  assumes "frac_of m e = (n, d)" "0 < m"
  shows "0 < n" "0 < d" "real_of_int n / d = m * 2 powi e"
  using assms by (auto simp: frac_of_def power_int_def field_simps split: if_splits)

lemma dbl_of_decimal_div:
  assumes "0 < N"
  obtains n d where "0 < n" "0 < d" "real_of_int n / d = N * 10 powi K" "dbl_of_decimal s N K = dbl_round s n d"
proof (cases "0 \<le> K")
  case True
  then show thesis using assms by (intro that [of "N * 10 ^ nat K" 1]) (simp_all add: dbl_of_decimal_def power_int_def)
next
  case False
  then show thesis using assms
    by (intro that [of N "10 ^ nat (- K)"]) (simp_all add: dbl_of_decimal_def power_int_def field_simps)
qed

text \<open>The digits of \<^verbatim>\<open>%.17g\<close> as a number, and the exponent of the first.\<close>

definition digits17 :: "int \<Rightarrow> int \<Rightarrow> int \<times> int" where
  "digits17 m e = (let (n, d) = frac_of m e;
       k = floor_log 10 (int (length (dec_string n)) - int (length (dec_string d))) n d;
       D = scale_round 10 (k - 16) n d
     in if D = 10 ^ 17 then (10 ^ 16, k + 1) else (D, k))"

lemma digits17_near:
  assumes "0 < m" "digits17 m e = (D, X)"
  shows "10 ^ 16 \<le> D" "D < 10 ^ 17"
    "\<bar>D * 10 powi (X - 16) - m * 2 powi e\<bar> \<le> real_of_int m * 2 powi e / 10 ^ 16 / 2"
proof -
  obtain n d where nd: "frac_of m e = (n, d)" by fastforce
  note f = frac_of_div [OF nd assms(1)]
  define k where "k = floor_log 10 (int (length (dec_string n)) - int (length (dec_string d))) n d"
  define C where "C = scale_round 10 (k - 16) n d"
  define x where "x = real_of_int m * 2 powi e"
  define Q where "Q = (10::real) powi (k - 16)"
  have Q: "0 < Q" by (simp add: Q_def)
  have "10 powi k \<le> x" "x < 10 powi (k + 1)"
    using floor_log [of 10 d "length (dec_string n)" n "length (dec_string d)"] dec_string_bounds [OF f(1)]
      dec_string_bounds [OF f(2)] f(2,3) by (simp_all add: k_def x_def)
  then have x: "10 ^ 16 * Q \<le> x" "x < 10 ^ 17 * Q"
    by (simp_all add: Q_def power_int_diff power_int_add field_simps)
  have near: "\<bar>x - C * Q\<bar> \<le> Q / 2"
    using scale_round_near [OF f(2), of 10 n "k - 16"] by (simp add: f(3) x_def Q_def C_def)
  have "(10 ^ 16 - 1) * Q < C * Q" "C * Q < (10 ^ 17 + 1) * Q"
    using near x Q unfolding abs_le_iff left_diff_distrib distrib_right by linarith+
  then have "real_of_int (10 ^ 16 - 1) < C" "C < real_of_int (10 ^ 17 + 1)" using Q by simp_all
  then have C: "10 ^ 16 \<le> C" "C \<le> 10 ^ 17" unfolding of_int_less_iff by simp_all
  have DX: "(D, X) = (if C = 10 ^ 17 then (10 ^ 16, k + 1) else (C, k))"
    using assms(2) unfolding digits17_def nd Let_def prod.case k_def [symmetric] C_def [symmetric] by simp
  then show "10 ^ 16 \<le> D" "D < 10 ^ 17" using C by (auto split: if_splits)
  have "real_of_int D * 10 powi (X - 16) = C * Q"
    using DX by (auto simp: Q_def power_int_diff power_int_add split: if_splits)
  moreover have "Q / 2 \<le> x / 10 ^ 16 / 2" using x(1) by simp
  ultimately show "\<bar>D * 10 powi (X - 16) - m * 2 powi e\<bar> \<le> real_of_int m * 2 powi e / 10 ^ 16 / 2"
    using near by (simp add: x_def [symmetric] abs_minus_commute)
qed

lemma decimal_reads_back:
  assumes "ieee m e" "0 < m" "digits17 m e = (D, X)" "real_of_int N * 10 powi K = D * 10 powi (X - 16)"
  shows "\<exists>M E. dbl_of_decimal s N K = DFin s M E \<and> real_of_int M * 2 powi E = m * 2 powi e"
proof -
  note dg = digits17_near [OF assms(2,3)]
  obtain M E where ME: "normal M E" "real_of_int M * 2 powi E = real_of_int m * 2 powi e" using normalise assms(1,2) by blast
  define P where "P = (2::real) powi E"
  have P: "0 < P" by (simp add: P_def)
  have "0 < real_of_int N * 10 powi K" using dg(1) by (simp add: assms(4))
  then have "0 < N" using zero_less_power_int [of "10::real" K] by (simp add: zero_less_mult_iff del: zero_less_power_int)
  then obtain n d where nd: "0 < n" "0 < d" "real_of_int n / d = N * 10 powi K" "dbl_of_decimal s N K = dbl_round s n d"
    by (rule dbl_of_decimal_div)
  have near: "\<bar>real_of_int n / d - M * P\<bar> \<le> M * P / 10 ^ 16 / 2"
    using dg(3) by (simp add: nd(3) assms(4) ME(2) P_def)
  have "dbl_round s n d = DFin s M E"
  proof (rule dbl_round_near [OF nd(1,2) ME(1)])
    have "real_of_int M < 10 ^ 16" using ME(1) by (simp add: normal_def ieee_def)
    then have "M * P < 10 ^ 16 * P" using P by simp
    then have "M * P / 10 ^ 16 / 2 < P / 2" by (simp add: mult.commute)
    then show "\<bar>real_of_int n / d - M * 2 powi E\<bar> < 2 powi E / 2" using near unfolding P_def [symmetric] by linarith
    show "\<bar>real_of_int n / d - M * 2 powi E\<bar> < 2 powi E / 4" if "M = 2 ^ 52"
      using near P that unfolding P_def [symmetric] by simp
  qed
  then show ?thesis using nd(4) ME(2) by auto
qed

end
