(* ===== verification/Real_Lexemes.thy ===== *)
theory Real_Lexemes
  imports Text_Roundtrip Double_Text
begin

text \<open>
  The texts of finite doubles: the shape of what \<^verbatim>\<open>valueToString\<close> prints with 17 significant digits, how
  the reader scans it, and that \<^verbatim>\<open>decodeDouble\<close> takes it back to the same number.
\<close>

section \<open>Digits\<close>

lemma dec_value_zeros: "dec_value a (replicate n (CHR ''0'') @ s) = dec_value (a * 10 ^ n) s"
  by (induction n arbitrary: a) (simp_all add: mult.assoc)

lemma dec_value_trailing: "dec_value a (s @ replicate n (CHR ''0'')) = dec_value a s * 10 ^ n"
  using dec_value_zeros [of "dec_value a s" n "[]"] by (simp add: dec_value_append)

lemma strip_zeros_split: "\<exists>n. s = strip_zeros s @ replicate n (CHR ''0'')"
proof -
  let ?t = "takeWhile (\<lambda>c. c = CHR ''0'') (rev s)"
  have "replicate (length ?t) (CHR ''0'') = ?t" by (rule replicate_length_same) (auto dest: set_takeWhileD)
  then have "rev ?t = replicate (length ?t) (CHR ''0'')" using rev_replicate by metis
  moreover have "s = strip_zeros s @ rev ?t" by (simp add: strip_zeros_def flip: rev_append)
  ultimately show ?thesis by metis
qed

lemma strip_zeros_digits: "list_all is_digit s \<Longrightarrow> list_all is_digit (strip_zeros s)"
  using strip_zeros_split [of s] by (metis list_all_append)

text \<open>Trailing zeros of a fraction do not count.\<close>

lemma strip_zeros_value:
  "real_of_int (dec_value 0 (a @ strip_zeros b)) * 10 powi (K - int (length (strip_zeros b))) =
   real_of_int (dec_value 0 (a @ b)) * 10 powi (K - int (length b))"
proof -
  obtain n where n: "b = strip_zeros b @ replicate n (CHR ''0'')" using strip_zeros_split by blast
  have "dec_value 0 (a @ b) = dec_value 0 (a @ strip_zeros b) * 10 ^ n"
    by (subst n) (simp add: dec_value_trailing flip: append_assoc)
  moreover have "length b = length (strip_zeros b) + n" by (subst n) simp
  moreover have "(10::real) powi (K - int (length (strip_zeros b))) = 10 ^ n * 10 powi (K - int (length (strip_zeros b)) - int n)"
    using power_int_add [of "10::real" "int n" "K - int (length (strip_zeros b)) - int n"] by simp
  ultimately show ?thesis by (simp add: algebra_simps)
qed

lemma dec_string_17:
  assumes "10 ^ 16 \<le> D" "D < 10 ^ 17"
  shows "length (dec_string D) = 17"
proof -
  let ?l = "length (dec_string D)"
  have b: "10 ^ (?l - 1) \<le> D" "D < 10 ^ ?l" using dec_string_bounds [of D] assms(1) by simp_all
  then have p: "(10::int) ^ (?l - 1) < 10 ^ 17" "(10::int) ^ 16 < 10 ^ ?l" using assms by linarith+
  have "?l - 1 < 17" "16 < ?l" using power_less_imp_less_exp [OF _ p(1)] power_less_imp_less_exp [OF _ p(2)] by simp_all
  then show ?thesis by simp
qed

lemma fmt_g_17:
  assumes "0 < m" "digits17 m e = (D, X)"
  shows "fmt_g 17 s m e = (if s then ''-'' else []) @
    (if - 4 \<le> X \<and> X < 17
     then (if 0 \<le> X then with_point (take (Suc (nat X)) (dec_string D)) (strip_zeros (drop (Suc (nat X)) (dec_string D)))
           else with_point ''0'' (strip_zeros (replicate (nat (- X) - 1) CHR ''0'' @ dec_string D)))
     else with_point (take 1 (dec_string D)) (strip_zeros (drop 1 (dec_string D))) @ exp_string X)"
proof -
  obtain n d where nd: "frac_of m e = (n, d)" by fastforce
  define k where "k = floor_log 10 (int (length (dec_string n)) - int (length (dec_string d))) n d"
  define C where "C = scale_round 10 (k - 16) n d"
  have DX: "(if C = 10 ^ 17 then (10 ^ 16, k + 1) else (C, k)) = (D, X)"
    using assms(2) unfolding digits17_def nd Let_def prod.case k_def [symmetric] C_def [symmetric] .
  have pad: "pad_left 17 (dec_string D) = dec_string D"
    using dec_string_17 [OF digits17_near(1,2) [OF assms]] by (simp add: pad_left_def)
  have n: "(17::nat) = 0 \<longleftrightarrow> False" "m = 0 \<longleftrightarrow> False" "k - int 17 + 1 = k - 16" "int 17 = 17" "(17::nat) - 1 = 16"
    using assms(1) by simp_all
  show ?thesis
    unfolding fmt_g_def Let_def n(1,2) if_False nd prod.case floor_log_def [symmetric] k_def [symmetric] n(3,5) C_def [symmetric] DX
      pad unfolding n(4) ..
qed

section \<open>The shape of a real\<close>

definition real_body :: "string \<Rightarrow> string \<Rightarrow> string \<Rightarrow> string" where
  "real_body ip fp ex = ip @ (if fp = [] then [] else CHR ''.'' # fp) @ ex"

definition exponent_text :: "int \<Rightarrow> string \<Rightarrow> bool" where
  "exponent_text X ex \<longleftrightarrow> (\<exists>neg ep. ex = CHR ''e'' # (if neg then CHR ''-'' else CHR ''+'') # ep \<and> list_all is_digit ep \<and>
     ep \<noteq> [] \<and> X = (if neg then - dec_value 0 ep else dec_value 0 ep))"

definition real_shape :: "string \<Rightarrow> string \<Rightarrow> int \<Rightarrow> string \<Rightarrow> bool" where
  "real_shape ip fp X ex \<longleftrightarrow> list_all is_digit ip \<and> ip \<noteq> [] \<and> list_all is_digit fp \<and>
     (ex = [] \<and> fp \<noteq> [] \<and> X = 0 \<or> exponent_text X ex)"

lemma exp_string_text: "exponent_text X (exp_string X)"
proof -
  let ?p = "pad_left 2 (dec_string \<bar>X\<bar>)"
  have "list_all is_digit ?p" "?p \<noteq> []" "dec_value 0 ?p = \<bar>X\<bar>"
    using dec_string_digits [of "\<bar>X\<bar>"] dec_value_zeros [of 0 "2 - length (dec_string \<bar>X\<bar>)" "dec_string \<bar>X\<bar>"]
    by (simp_all add: pad_left_def list_all_iff is_digit_def ball_Un)
  then show ?thesis unfolding exponent_text_def exp_string_def
    by (intro exI [of _ "X < 0"] exI [of _ ?p]) auto
qed

text \<open>The text after \<^verbatim>\<open>snprintf\<close>: no comma to replace, and \<^verbatim>\<open>.0\<close> appended to an integer.\<close>

definition as_real :: "string \<Rightarrow> string" where
  "as_real buffer = (let b = fixNumericLocale buffer
     in if CHR ''.'' \<notin> set b \<and> CHR ''e'' \<notin> set b then b @ ''.0'' else b)"

lemma digits_free:
  assumes "list_all is_digit ds"
  shows "CHR '','' \<notin> set ds" "CHR ''.'' \<notin> set ds" "CHR ''e'' \<notin> set ds"
  using assms by (auto simp: list_all_iff is_digit_def)

lemma fixNumericLocale_id: "CHR '','' \<notin> set s \<Longrightarrow> fixNumericLocale s = s"
  unfolding fixNumericLocale_def by (rule map_idI) auto

lemma real_text_shape:
  assumes "list_all is_digit ip" "ip \<noteq> []" "list_all is_digit b" "ex = [] \<and> K = 0 \<or> exponent_text K ex"
  shows "\<exists>fp. real_shape ip fp K ex \<and>
    as_real ((if s then ''-'' else []) @ with_point ip (strip_zeros b) @ ex) = (if s then ''-'' else []) @ real_body ip fp ex \<and>
    real_of_int (dec_value 0 (ip @ fp)) * 10 powi (K - int (length fp)) = dec_value 0 (ip @ b) * 10 powi (K - int (length b))"
proof -
  let ?sg = "if s then ''-'' else []" and ?f = "strip_zeros b"
  have f: "list_all is_digit ?f" by (rule strip_zeros_digits [OF assms(3)])
  note free = digits_free [OF assms(1)] digits_free [OF f]
  have ex: "CHR '','' \<notin> set ex" "CHR ''.'' \<notin> set ex" "CHR ''e'' \<in> set ex \<longleftrightarrow> ex \<noteq> []"
    using assms(4) digits_free by (auto simp: exponent_text_def split: if_splits)
  have nc: "fixNumericLocale (?sg @ with_point ip ?f @ ex) = ?sg @ with_point ip ?f @ ex"
    by (rule fixNumericLocale_id) (use free ex in \<open>simp add: with_point_def\<close>)
  have v: "real_of_int (dec_value 0 (ip @ ?f)) * 10 powi (K - int (length ?f)) = dec_value 0 (ip @ b) * 10 powi (K - int (length b))"
    by (rule strip_zeros_value)
  show ?thesis
  proof (cases "?f = [] \<and> ex = []")
    case True
    then have K: "K = 0" using assms(4) by (auto simp: exponent_text_def)
    have "as_real (?sg @ with_point ip ?f @ ex) = ?sg @ real_body ip ''0'' ex"
      unfolding as_real_def nc using True free by (simp add: with_point_def real_body_def)
    moreover have "dec_value 0 (ip @ ''0'') = dec_value 0 ip * 10" using dec_value_trailing [of 0 ip 1] by simp
    then have "real_of_int (dec_value 0 (ip @ ''0'')) * 10 powi (K - int (length ''0'')) = dec_value 0 (ip @ b) * 10 powi (K - int (length b))"
      using v True K by (simp add: power_int_minus)
    ultimately show ?thesis using True assms(1,2) K
      by (intro exI [of _ "''0''"]) (simp add: real_shape_def is_digit_def)
  next
    case False
    then have "as_real (?sg @ with_point ip ?f @ ex) = ?sg @ real_body ip ?f ex"
      unfolding as_real_def nc using ex by (auto simp: with_point_def real_body_def)
    then show ?thesis using v f assms(1,2,4) False by (intro exI [of _ ?f]) (auto simp: real_shape_def)
  qed
qed

lemma valueToString_double_finite:
  "valueToString_double (DFin s m e) sf 17 significantDigits = as_real (fmt_g 17 s m e)"
  by (simp add: as_real_def Let_def)

text \<open>The printed text, with the number that its digits denote.\<close>

lemma printed_shape:
  assumes "0 < m" "digits17 m e = (D, X)"
  obtains ip fp K ex where "real_shape ip fp K ex"
    "valueToString_double (DFin s m e) sf 17 significantDigits = (if s then ''-'' else []) @ real_body ip fp ex"
    "real_of_int (dec_value 0 (ip @ fp)) * 10 powi (K - int (length fp)) = D * 10 powi (X - 16)"
proof -
  let ?ds = "dec_string D"
  have D: "10 ^ 16 \<le> D" "D < 10 ^ 17" using digits17_near(1,2) [OF assms] .
  note ds = dec_string_digits [of D] dec_string_17 [OF D]
  have dv: "dec_value 0 ?ds = D" using D(1) by simp
  have all: "\<exists>ip b K ex. list_all is_digit ip \<and> ip \<noteq> [] \<and> list_all is_digit b \<and> (ex = [] \<and> K = 0 \<or> exponent_text K ex) \<and>
      fmt_g 17 s m e = (if s then ''-'' else []) @ with_point ip (strip_zeros b) @ ex \<and>
      real_of_int (dec_value 0 (ip @ b)) * 10 powi (K - int (length b)) = D * 10 powi (X - 16)"
  proof -
    consider (int) "0 \<le> X" "X < 17" | (small) "- 4 \<le> X" "X < 0" | (exp) "\<not> (- 4 \<le> X \<and> X < 17)" by linarith
    then show ?thesis
    proof cases
      case int
      let ?n = "Suc (nat X)"
      have "list_all is_digit (take ?n ?ds)" "list_all is_digit (drop ?n ?ds)"
        using ds(1) by (auto simp: list_all_iff dest: in_set_takeD in_set_dropD)
      moreover have "0 - int (length (drop ?n ?ds)) = X - 16" using ds(2) int by simp
      ultimately show ?thesis using int dv ds(2) fmt_g_17 [OF assms, of s]
        by (intro exI [of _ "take ?n ?ds"] exI [of _ "drop ?n ?ds"] exI [of _ 0] exI [of _ "[]"]) auto
    next
      case small
      let ?b = "replicate (nat (- X) - 1) CHR ''0'' @ ?ds"
      have "list_all is_digit ?b" using ds(1) by (auto simp: list_all_iff is_digit_def)
      moreover have "0 - int (length ?b) = X - 16" using ds(2) small by simp
      moreover have "dec_value 0 (''0'' @ ?b) = D" using dv dec_value_zeros [of 0 "nat (- X) - 1" ?ds] by simp
      ultimately show ?thesis using small fmt_g_17 [OF assms, of s]
        by (intro exI [of _ "''0''"] exI [of _ ?b] exI [of _ 0] exI [of _ "[]"]) (simp add: is_digit_def)
    next
      case exp
      have "list_all is_digit (take 1 ?ds)" "list_all is_digit (drop 1 ?ds)"
        using ds(1) by (auto simp: list_all_iff dest: in_set_takeD in_set_dropD)
      moreover have "X - int (length (drop 1 ?ds)) = X - 16" using ds(2) by simp
      moreover have "take 1 ?ds @ drop 1 ?ds = ?ds" by simp
      ultimately show ?thesis using exp dv ds(2) fmt_g_17 [OF assms, of s] exp_string_text [of X]
        by (intro exI [of _ "take 1 ?ds"] exI [of _ "drop 1 ?ds"] exI [of _ X] exI [of _ "exp_string X"]) auto
    qed
  qed
  then obtain ip b K ex where a: "list_all is_digit ip" "ip \<noteq> []" "list_all is_digit b" "ex = [] \<and> K = 0 \<or> exponent_text K ex"
    "fmt_g 17 s m e = (if s then ''-'' else []) @ with_point ip (strip_zeros b) @ ex"
    "real_of_int (dec_value 0 (ip @ b)) * 10 powi (K - int (length b)) = D * 10 powi (X - 16)" by blast
  from real_text_shape [OF a(1-4), of s] a(5,6) that show thesis
    by (auto simp: valueToString_double_finite simp del: valueToString_double.simps)
qed

section \<open>Scanning and decoding\<close>

text \<open>What may follow a value in a text, so that a number ends there.\<close>

definition delim :: "string \<Rightarrow> bool" where
  "delim t \<longleftrightarrow> t = [] \<or> \<not> is_digit (hd t) \<and> hd t \<noteq> CHR ''.'' \<and> hd t \<noteq> CHR ''e'' \<and> hd t \<noteq> CHR ''E''"

lemma digits_split:
  assumes "list_all is_digit ds" "t = [] \<or> \<not> is_digit (hd t)"
  shows "takeWhile is_digit (ds @ t) = ds" "dropWhile is_digit (ds @ t) = t" "digits_len (ds @ t) = length ds"
proof -
  have "takeWhile is_digit t = []" "dropWhile is_digit t = t" using assms(2) by (cases t; auto)+
  then show "takeWhile is_digit (ds @ t) = ds" "dropWhile is_digit (ds @ t) = t" "digits_len (ds @ t) = length ds"
    using assms(1) by (auto simp: digits_len_def takeWhile_append dropWhile_append list_all_iff)
qed

lemma not_digit [simp]: "\<not> is_digit (CHR ''.'')" "\<not> is_digit (CHR ''e'')" "\<not> is_digit (CHR ''E'')" "\<not> is_digit (CHR ''-'')"
    "\<not> is_digit (CHR ''+'')"
  by (simp_all add: is_digit_def)

lemma exponent_scan:
  assumes "exponent_text K ex" "delim t"
  shows "exponentScan (ex @ t) = length ex"
proof -
  obtain neg ep where e: "ex = CHR ''e'' # (if neg then CHR ''-'' else CHR ''+'') # ep" "list_all is_digit ep"
    using assms(1) by (auto simp: exponent_text_def)
  have "digits_len (ep @ t) = length ep" by (rule digits_split(3) [OF e(2)]) (use assms(2) in \<open>auto simp: delim_def\<close>)
  then show ?thesis by (simp add: e(1) exponentScan_def signScan_def)
qed

lemma numberScan_real:
  assumes "real_shape ip fp K ex" "list_all is_digit ip'" "delim t"
  shows "numberScan (real_body ip' fp ex @ t) = length (real_body ip' fp ex)"
proof -
  let ?fr = "if fp = [] then [] else CHR ''.'' # fp"
  have sh: "list_all is_digit fp" "ex = [] \<and> fp \<noteq> [] \<or> exponent_text K ex" using assms(1) by (auto simp: real_shape_def)
  have et: "ex @ t = [] \<or> \<not> is_digit (hd (ex @ t))" using sh(2) assms(3) by (auto simp: exponent_text_def delim_def)
  have a: "digits_len (ip' @ ?fr @ ex @ t) = length ip'"
    by (rule digits_split(3) [OF assms(2)]) (use et in auto)
  have b: "fractionScan (?fr @ ex @ t) = length ?fr"
    using digits_split(3) [OF sh(1) et] sh(2) by (auto simp: fractionScan_def exponent_text_def)
  have c: "exponentScan (ex @ t) = length ex"
  proof (cases "ex = []")
    case True
    then show ?thesis using assms(3) by (auto simp: exponentScan_def delim_def split: list.splits)
  next
    case False
    then show ?thesis using sh(2) exponent_scan [OF _ assms(3)] by blast
  qed
  have d: "drop (length ip') (ip' @ ?fr @ ex @ t) = ?fr @ ex @ t"
    "drop (length ip' + length ?fr) (ip' @ ?fr @ ex @ t) = ex @ t" by simp_all
  show ?thesis unfolding numberScan_def Let_def real_body_def append_assoc a d(1) b d(2) c by simp
qed

lemma istream_real:
  assumes "real_shape ip fp K ex"
  shows "istream_double ((if s then ''-'' else []) @ real_body ip fp ex) =
    (let v = dbl_of_decimal s (dec_value 0 (ip @ fp)) (K - int (length fp)) in if dbl_is_finite v then Some v else None)"
proof -
  have sh: "list_all is_digit ip" "ip \<noteq> []" "list_all is_digit fp" "ex = [] \<and> fp \<noteq> [] \<and> K = 0 \<or> exponent_text K ex"
    using assms by (auto simp: real_shape_def)
  let ?fr = "if fp = [] then [] else CHR ''.'' # fp"
  obtain c r where ip: "ip = c # r" "is_digit c" using sh(1,2) by (cases ip) auto
  have sg: "take_sign ((if s then ''-'' else []) @ real_body ip fp ex) = (s, real_body ip fp ex)"
    using ip by (auto simp: take_sign_def real_body_def is_digit_def)
  have ex: "ex = [] \<or> \<not> is_digit (hd ex)" using sh(4) by (auto simp: exponent_text_def)
  have i: "take_digits (real_body ip fp ex) = (ip, ?fr @ ex)"
    unfolding take_digits_def real_body_def using digits_split(1,2) [OF sh(1), of "?fr @ ex"] ex by auto
  have f: "(case ?fr @ ex of c # r \<Rightarrow> if c = CHR ''.'' then take_digits r else ([], ?fr @ ex) | [] \<Rightarrow> ([], [])) = (fp, ex)"
    using digits_split(1,2) [OF sh(3) ex] sh(4) by (auto simp: take_digits_def exponent_text_def)
  have x: "(case ex of c # r \<Rightarrow>
        if c = CHR ''e'' \<or> c = CHR ''E''
        then (let (eneg, r3) = take_sign r; (ep, _) = take_digits r3
              in if ep = [] then None else Some (if eneg then - dec_value 0 ep else dec_value 0 ep))
        else Some 0 | [] \<Rightarrow> Some 0) = Some K"
    using sh(4)
  proof
    assume "exponent_text K ex"
    then obtain neg ep where e: "ex = CHR ''e'' # (if neg then CHR ''-'' else CHR ''+'') # ep" "list_all is_digit ep" "ep \<noteq> []"
      "K = (if neg then - dec_value 0 ep else dec_value 0 ep)" unfolding exponent_text_def by blast
    have "take_sign ((if neg then CHR ''-'' else CHR ''+'') # ep) = (neg, ep)" by (simp add: take_sign_def)
    moreover have "take_digits ep = (ep, [])" using digits_split(1,2) [OF e(2), of "[]"] by (simp add: take_digits_def)
    ultimately show ?thesis using e by simp
  qed auto
  show ?thesis
    unfolding istream_double_def Let_def sg i f x [unfolded Let_def] prod.case using sh(2) by simp
qed

lemma decodeNumber_loop_stops:
  "list_all is_digit ds \<Longrightarrow> \<not> is_digit c \<Longrightarrow> decodeNumber_loop mx v (ds @ c # r) = None"
  by (induction ds arbitrary: v) (simp_all add: Let_def)

lemma decodeInteger_real:
  assumes "real_shape ip fp K ex"
  shows "decodeInteger ((if s then ''-'' else []) @ real_body ip fp ex) = None"
proof -
  have sh: "list_all is_digit ip" "ip \<noteq> []" "ex = [] \<and> fp \<noteq> [] \<or> exponent_text K ex" using assms by (auto simp: real_shape_def)
  have "\<exists>c r. real_body ip fp ex = ip @ c # r \<and> \<not> is_digit c"
  proof (cases "fp = []")
    case True
    then obtain r where "ex = CHR ''e'' # r" using sh(3) by (auto simp: exponent_text_def)
    then show ?thesis using True by (intro exI [of _ "CHR ''e''"] exI [of _ r]) (simp add: real_body_def)
  qed (simp add: real_body_def)
  then obtain c r where b: "real_body ip fp ex = ip @ c # r" "\<not> is_digit c" by blast
  have "decodeNumber_loop mx v (real_body ip fp ex) = None" for mx v
    unfolding b(1) by (rule decodeNumber_loop_stops [OF sh(1) b(2)])
  moreover obtain c' r' where "ip = c' # r'" "is_digit c'" using sh(1,2) by (cases ip) auto
  then have "hd (real_body ip fp ex) \<noteq> CHR ''-''" "real_body ip fp ex \<noteq> []" by (auto simp: real_body_def)
  ultimately show ?thesis by (simp add: decodeInteger_def)
qed

section \<open>What is printed is read back\<close>

lemma same_magnitude: "real_of_int M * 2 powi E = real_of_int m * 2 powi e \<Longrightarrow> dbl_eq (DFin s M E) (DFin s m e)"
  unfolding dbl_fin magnitude_def by (cases s) simp_all

lemma real_reads_back:
  assumes "ieee m e"
  obtains ip fp K ex d where "real_shape ip fp K ex"
    "valueToString_double (DFin s m e) sf 17 significantDigits = (if s then ''-'' else []) @ real_body ip fp ex"
    "istream_double ((if s then ''-'' else []) @ real_body ip fp ex) = Some d" "dbl_eq d (DFin s m e)"
proof (cases "m = 0")
  case True
  let ?sg = "if s then ''-'' else []"
  have z: "with_point ''0'' (strip_zeros []) @ [] = ''0''" by (simp add: strip_zeros_def with_point_def)
  have "valueToString_double (DFin s m e) sf 17 significantDigits = as_real (?sg @ ''0'')"
    by (simp add: valueToString_double_finite fmt_g_def True Let_def del: valueToString_double.simps)
  moreover obtain fp where f: "real_shape ''0'' fp 0 []" "as_real (?sg @ ''0'') = ?sg @ real_body ''0'' fp []"
    "real_of_int (dec_value 0 (''0'' @ fp)) * 10 powi (0 - int (length fp)) = dec_value 0 (''0'' @ []) * 10 powi (0 - int (length ([]::string)))"
    using real_text_shape [of "''0''" "[]" "[]" 0 s] unfolding z by (auto simp: is_digit_def)
  have "dec_value 0 (''0'' @ fp) = 0" using f(3) by simp
  then have "istream_double (?sg @ real_body ''0'' fp []) = Some (DFin s 0 0)"
    unfolding istream_real [OF f(1)] by (simp add: dbl_of_decimal_def dbl_round_def fp_round_def)
  moreover have "dbl_eq (DFin s 0 0) (DFin s m e)" by (simp add: True at_exp_def)
  ultimately show thesis using f(2) by (intro that [OF f(1)]) (simp_all del: valueToString_double.simps dbl_eq.simps)
next
  case False
  then have m: "0 < m" using assms by (simp add: ieee_def)
  obtain D X where DX: "digits17 m e = (D, X)" by fastforce
  from printed_shape [OF m DX, of s sf] obtain ip fp K ex where f: "real_shape ip fp K ex"
    "valueToString_double (DFin s m e) sf 17 significantDigits = (if s then ''-'' else []) @ real_body ip fp ex"
    "real_of_int (dec_value 0 (ip @ fp)) * 10 powi (K - int (length fp)) = D * 10 powi (X - 16)" .
  from decimal_reads_back [OF assms m DX f(3), of s] obtain M E where
    d: "dbl_of_decimal s (dec_value 0 (ip @ fp)) (K - int (length fp)) = DFin s M E" "real_of_int M * 2 powi E = m * 2 powi e" by blast
  show thesis by (rule that [OF f(1,2) _ same_magnitude [OF d(2)]]) (simp add: istream_real [OF f(1)] d(1) Let_def)
qed

lemma dbl_eq_unique: "dbl_eq d (DFin s m e) \<Longrightarrow> dbl_eq d (DFin s' m' e') \<Longrightarrow> dbl_eq (DFin s' m' e') (DFin s m e)"
  by (cases d) (simp_all del: dbl_eq.simps add: dbl_fin, simp_all)

text \<open>C30 (double_text_exact). The text that \<^verbatim>\<open>valueToString\<close> prints of a finite double with the 17 significant digits of
  the default precision is not taken for an integer, and \<^verbatim>\<open>decodeNumber\<close> decodes it to the same number without
  recording an error. Different numbers hence have different texts.\<close>

theorem double_text_exact:
  assumes "ieee m e" "token_text tok r = valueToString_double (DFin s m e) special 17 significantDigits"
  shows "(\<exists>d. decodeNumber tok r = (Some (RealV d), r) \<and> dbl_eq d (DFin s m e)) \<and>
    (ieee m' e' \<longrightarrow> valueToString_double (DFin s' m' e') special' 17 significantDigits = token_text tok r \<longrightarrow>
      dbl_eq (DFin s' m' e') (DFin s m e))"
proof -
  obtain d where d: "istream_double (token_text tok r) = Some d" "dbl_eq d (DFin s m e)" "decodeInteger (token_text tok r) = None"
    using real_reads_back [OF assms(1), of s special] decodeInteger_real assms(2) by metis
  have "dbl_eq (DFin s' m' e') (DFin s m e)"
    if i: "ieee m' e'" and t: "valueToString_double (DFin s' m' e') special' 17 significantDigits = token_text tok r"
  proof -
    obtain d' where "istream_double (token_text tok r) = Some d'" "dbl_eq d' (DFin s' m' e')"
      using real_reads_back [OF i, of s' special'] t by metis
    then show ?thesis using d(1,2) dbl_eq_unique by simp
  qed
  moreover have "decodeNumber tok r = (Some (RealV d), r)" using d by (simp add: decodeNumber_def decodeDouble_def)
  ultimately show ?thesis using d(2) by blast
qed

text \<open>The double next to 0.1.\<close>

theorem double_text_exact_witness:
  "let r = mk_reader features_all ''0.10000000000000001'' nullSingleton False in
   \<exists>d. decodeNumber \<lparr>tok_type = tokenNumber, tok_start = 0, tok_end = 19\<rparr> r = (Some (RealV d), r) \<and>
     dbl_eq d (DFin False 7205759403792794 (- 56))"
proof -
  have i: "ieee 7205759403792794 (- 56)" by (simp add: ieee_def)
  have "valueToString_double (DFin False 7205759403792794 (- 56)) False 17 significantDigits = ''0.10000000000000001''"
    by code_simp
  then have t: "token_text \<lparr>tok_type = tokenNumber, tok_start = 0, tok_end = 19\<rparr>
      (mk_reader features_all ''0.10000000000000001'' nullSingleton False) =
    valueToString_double (DFin False 7205759403792794 (- 56)) False 17 significantDigits"
    by (simp add: token_text_def mk_reader_def slice_def del: valueToString_double.simps)
  show ?thesis using double_text_exact [OF i t] unfolding Let_def by blast
qed

end
