(* ===== verification/Json_Grammar.thy ===== *)
theory Json_Grammar
  imports Real_Lexemes Writer_Laws
begin

text \<open>
  JSON texts of a value, as a grammar: the specification that the writers meet and the reader accepts.
  White space may stand wherever the grammar allows it. The texts of numbers are the canonical ones, those of reals the ones with 17 significant digits,
  strings are quoted as the writers quote them, and the members of an object come in the order
  of their names. The number is a bound on the levels of containers.
\<close>

abbreviation spaces :: "string \<Rightarrow> bool" where "spaces \<equiv> list_all is_space"

definition quoted_form :: "string \<Rightarrow> string \<Rightarrow> bool" where
  "quoted_form s q \<longleftrightarrow> (\<exists>emitUTF8. (emitUTF8 \<or> utf8_text s) \<and> q = valueToQuotedStringN s emitUTF8)"

text \<open>The scalars that the reader takes back to the same type: integers of the type it chooses, finite reals.\<close>

definition plain_scalar :: "jdata \<Rightarrow> bool" where
  "plain_scalar d = (case d of
       NullV \<Rightarrow> True
     | BoolV b \<Rightarrow> True
     | IntV i \<Rightarrow> INT64_MIN \<le> i \<and> i \<le> INT_MAX
     | UIntV u \<Rightarrow> INT_MAX < u \<and> u \<le> UINT64_MAX
     | RealV (DFin s m e) \<Rightarrow> ieee m e
     | _ \<Rightarrow> False)"

inductive json_text :: "nat \<Rightarrow> jvalue \<Rightarrow> string \<Rightarrow> bool"
  and json_elements :: "nat \<Rightarrow> jvalue list \<Rightarrow> string \<Rightarrow> bool"
  and json_members :: "nat \<Rightarrow> (string \<times> jvalue) list \<Rightarrow> string \<Rightarrow> bool" where
  json_scalar: "plain_scalar (payload v) \<Longrightarrow> json_text n v (scalar_text v)"
| json_string: "payload v = StringV s \<Longrightarrow> quoted_form s q \<Longrightarrow> json_text n v q"
| json_empty_array: "payload v = ArrayV [] \<Longrightarrow> spaces ws \<Longrightarrow> json_text n v (''['' @ ws @ '']'')"
| json_empty_object: "payload v = ObjectV [] \<Longrightarrow> spaces ws \<Longrightarrow> json_text n v (''{'' @ ws @ ''}'')"
| json_array: "dense cs v \<Longrightarrow> json_elements n cs s \<Longrightarrow> spaces ws \<Longrightarrow> json_text (Suc n) v (''['' @ ws @ s @ '']'')"
| json_object: "payload v = ObjectV m \<Longrightarrow> smap_ok m \<Longrightarrow> json_members n m s \<Longrightarrow> spaces ws \<Longrightarrow>
    json_text (Suc n) v (''{'' @ ws @ s @ ''}'')"
| json_last_element: "json_text n c a \<Longrightarrow> spaces ws \<Longrightarrow> json_elements n [c] (a @ ws)"
| json_element: "json_text n c a \<Longrightarrow> spaces ws \<Longrightarrow> spaces ws' \<Longrightarrow> json_elements n cs s \<Longrightarrow>
    json_elements n (c # cs) (a @ ws @ '','' @ ws' @ s)"
| json_last_member: "quoted_form k q \<Longrightarrow> spaces wk \<Longrightarrow> spaces wv \<Longrightarrow> json_text n c a \<Longrightarrow> spaces ws \<Longrightarrow>
    json_members n [(k, c)] (q @ wk @ '':'' @ wv @ a @ ws)"
| json_member: "quoted_form k q \<Longrightarrow> spaces wk \<Longrightarrow> spaces wv \<Longrightarrow> json_text n c a \<Longrightarrow> spaces ws \<Longrightarrow> spaces ws' \<Longrightarrow>
    json_members n m s \<Longrightarrow> json_members n ((k, c) # m) (q @ wk @ '':'' @ wv @ a @ ws @ '','' @ ws' @ s)"

section \<open>Lexemes\<close>

lemma quoted_form_quote: "quoted_form s q \<Longrightarrow> \<exists>b. q = DQUOTE # b"
  using quoted_body unfolding quoted_form_def utf8_text_def by metis

lemma int_lexeme:
  assumes "INT64_MIN \<le> i" "i \<le> INT_MAX"
  obtains sg ds where "valueToString_int i = sg @ ds" "sg \<in> {[], ''-''}" "list_all is_digit ds" "ds \<noteq> []"
    "decodeInteger (valueToString_int i) = Some (IntV i)"
proof -
  have "i \<le> INT64_MAX" using assms(2) by (simp add: int_limits)
  then have t: "valueToString_int i = (if i < 0 then ''-'' else []) @ dec_string \<bar>i\<bar>"
    using assms(1) by (simp add: valueToString_int_text)
  show thesis
    by (rule that [of "if i < 0 then ''-'' else []" "dec_string \<bar>i\<bar>"])
      (use assms t decodeInteger_digits [OF dec_string_digits dec_string_nonempty, of "\<bar>i\<bar>"] in
        \<open>auto simp: dec_string_digits int_limits\<close>)
qed

lemma uint_lexeme:
  assumes "INT_MAX < u" "u \<le> UINT64_MAX"
  shows "list_all is_digit (valueToString_uint u)" "valueToString_uint u \<noteq> []"
    "decodeInteger (valueToString_uint u) = Some (UIntV u)"
  using assms decodeInteger_digits [OF dec_string_digits dec_string_nonempty, of u]
  by (auto simp: valueToString_uint_def uintToString_dec dec_string_digits int_limits)

lemma real_scalar:
  assumes "payload v = RealV (DFin s m e)" "ieee m e"
  obtains ip fp K ex d where "real_shape ip fp K ex" "scalar_text v = (if s then ''-'' else []) @ real_body ip fp ex"
    "istream_double (scalar_text v) = Some d" "dbl_eq d (DFin s m e)"
proof -
  have t: "scalar_text v = valueToString_double (DFin s m e) False 17 significantDigits"
    by (simp only: scalar_text_def assms(1) jdata.case)
  show thesis
    by (rule real_reads_back [OF assms(2), of s False], rule that) (simp_all only: t)
qed

text \<open>No text starts with white space or with a closing bracket.\<close>

definition good_first :: "string \<Rightarrow> bool" where
  "good_first s \<longleftrightarrow> s \<noteq> [] \<and> \<not> is_space (hd s) \<and> hd s \<noteq> CHR '']''"

lemma good_first_digits: "list_all is_digit ds \<Longrightarrow> ds \<noteq> [] \<Longrightarrow> good_first (ds @ s)"
  by (cases ds) (auto simp: good_first_def is_space_def is_digit_def)

lemma good_first_words: "good_first (CHR ''-'' # s)" "good_first (DQUOTE # s)" "good_first ''null''"
  "good_first ''true''" "good_first ''false''"
  by (simp_all add: good_first_def is_space_def)

lemma good_first_scalar:
  assumes "plain_scalar (payload v)"
  shows "good_first (scalar_text v)"
proof (cases "payload v")
  case (IntV i)
  then have i: "INT64_MIN \<le> i" "i \<le> INT_MAX" "scalar_text v = valueToString_int i"
    using assms by (simp_all add: plain_scalar_def scalar_text_def)
  obtain sg ds where "scalar_text v = sg @ ds" "sg \<in> {[], ''-''}" "list_all is_digit ds" "ds \<noteq> []"
    unfolding i(3) using int_lexeme [OF i(1,2)] by blast
  then show ?thesis using good_first_digits [of ds "[]"] good_first_words(1) [of ds] by fastforce
next
  case (UIntV u)
  then show ?thesis using assms uint_lexeme [of u] good_first_digits [of "valueToString_uint u" "[]"]
    by (simp add: plain_scalar_def scalar_text_def)
next
  case (BoolV b)
  then show ?thesis by (simp add: scalar_text_def valueToString_bool_def good_first_words)
next
  case (RealV d)
  then obtain s m e where d: "d = DFin s m e" "ieee m e" using assms by (cases d) (auto simp: plain_scalar_def)
  from real_scalar [OF RealV [unfolded d(1)] d(2)] obtain ip fp K ex where "real_shape ip fp K ex"
    "scalar_text v = (if s then ''-'' else []) @ real_body ip fp ex" .
  then show ?thesis using good_first_digits [of ip] good_first_words(1)
    by (cases s) (simp_all add: real_shape_def real_body_def)
qed (use assms in \<open>simp_all add: plain_scalar_def scalar_text_def good_first_words\<close>)

lemma good_first_append: "good_first s \<Longrightarrow> good_first (s @ t)"
  by (cases s) (simp_all add: good_first_def)

lemma json_good_first:
  "json_text n v a \<Longrightarrow> good_first a"
  "json_elements n cs s \<Longrightarrow> good_first s"
  "json_members n m s \<Longrightarrow> True"
proof (induction rule: json_text_json_elements_json_members.inducts)
  case (json_string v s q n)
  then show ?case using quoted_form_quote good_first_words(2) by blast
qed (simp_all add: good_first_scalar good_first_append, simp_all add: good_first_def is_space_def)

end
