(* ===== verification/Reading_Values.thy ===== *)
theory Reading_Values
  imports Value_Pointers Reader_Termination Json_Grammar
begin

text \<open>
  What \<^verbatim>\<open>Json::Reader\<close> makes of well-formed input. \<open>focus\<close> is the value that the top of the stack
  \<^verbatim>\<open>nodes_\<close> points to and \<open>put_focus\<close> an update through it; \<open>reads r a w r'\<close> says that from the state \<open>r\<close>
  the text \<open>a\<close> was consumed and the value \<open>w\<close> put in place, with nothing else changed. \<open>lexes\<close> is
  the same for a token: punctuation, words, numbers and strings, each after white space. The last
  section reads the scalars that the printer writes.
\<close>

section \<open>The value at the top of the stack\<close>

definition focus :: "('t, 'f, 'm) rstate \<Rightarrow> jvalue option" where
  "focus r = value_at (current_path r) (rd_root r)"

definition put_focus :: "jvalue \<Rightarrow> ('t, 'f, 'm) rstate \<Rightarrow> ('t, 'f, 'm) rstate" where
  "put_focus w r = r\<lparr>rd_root := update_at (current_path r) (\<lambda>_. w) (rd_root r)\<rparr>"

lemma focus_put [simp]: "focus r = Some w0 \<Longrightarrow> focus (put_focus w r) = Some w"
  by (simp add: focus_def put_focus_def value_at_update)

lemma put_put [simp]: "put_focus w (put_focus u r) = put_focus w r"
  by (simp add: put_focus_def update_at_twice)

lemma set_current_focus: "focus r = Some w \<Longrightarrow> set_current f r = put_focus (f w) r"
  unfolding focus_def set_current_def put_focus_def
  using update_at_cong [of "current_path r" "rd_root r" w f "\<lambda>_. f w"] by simp

lemma update_res_focus:
  "focus r = Some w \<Longrightarrow> update_res (current_path r) f r = rbind (f w) (\<lambda>w'. Inr (put_focus w' r))"
  by (simp add: focus_def update_res_def put_focus_def)

section \<open>What reading a value leaves\<close>

text \<open>
  Reading the text \<open>a\<close> and leaving the value \<open>w\<close>: the same document, nodes and settings, no comments
  collected, no further errors.
\<close>

definition reads :: "reader \<Rightarrow> string \<Rightarrow> jvalue \<Rightarrow> reader \<Rightarrow> bool" where
  "reads r a w r' \<longleftrightarrow> rd_document r' = rd_document r \<and> rd_nodes r' = rd_nodes r \<and>
     rd_features r' = rd_features r \<and> rd_collectComments r' = rd_collectComments r \<and>
     rd_errors r' = rd_errors r \<and> rd_commentsBefore r' = [] \<and>
     rd_current r' = rd_current r + length a \<and> rd_root r' = rd_root (put_focus w r)"

lemma reads_rest: "reads r a w r' \<Longrightarrow> rest r = a @ b \<Longrightarrow> rest r' = b"
  unfolding reads_def rest_def by (metis add.commute append_eq_conv_conj drop_drop)

lemma reads_clean: "reads r a w r' \<Longrightarrow> rd_commentsBefore r' = []"
  by (simp add: reads_def)

lemma reads_nodes: "reads r a w r' \<Longrightarrow> rd_nodes r' = rd_nodes r"
  by (simp add: reads_def)

lemma focus_root: "rd_nodes r' = rd_nodes r \<Longrightarrow> rd_root r' = rd_root r \<Longrightarrow> focus r' = focus r"
  by (simp add: focus_def)

lemma reads_focus:
  assumes "reads r a w r'" "focus r = Some w0"
  shows "focus r' = Some w"
proof -
  have "focus r' = focus (put_focus w r)"
    using assms(1) by (intro focus_root) (simp_all add: reads_def put_focus_def)
  with focus_put [OF assms(2)] show ?thesis by simp
qed

lemma root_put_put: "rd_root (put_focus w (put_focus u r)) = rd_root (put_focus w r)"
  by simp

lemma reads_trans:
  assumes "reads r a u s" "reads s b w t"
  shows "reads r (a @ b) w t"
proof -
  have "rd_root (put_focus w s) = rd_root (put_focus w (put_focus u r))"
    using assms(1) by (simp add: reads_def put_focus_def)
  then show ?thesis using assms root_put_put [of w u r] by (simp add: reads_def)
qed

lemma reads_put: "rd_commentsBefore r = [] \<Longrightarrow> reads r [] w (put_focus w r)"
  by (simp add: reads_def put_focus_def)

lemma reads_advance: "reads r a w s \<Longrightarrow> reads r (a @ b) w (advance (length b) s)"
  by (simp add: reads_def advance_def)

lemma reads_advance_put: "rd_commentsBefore r = [] \<Longrightarrow> reads r a w (put_focus w (advance (length a) r))"
  by (simp add: reads_def put_focus_def advance_def)

lemma reads_remember: "reads r a w s \<Longrightarrow> reads r a w (rememberLast s)"
  by (simp add: reads_def rememberLast_def)

lemma reads_set:
  assumes "reads r a w s" "focus r = Some w0"
  shows "reads r a (f w) (set_current f s)"
proof -
  have "reads s [] (f w) (put_focus (f w) s)" using assms(1) by (intro reads_put) (simp add: reads_def)
  from reads_trans [OF assms(1) this] show ?thesis
    by (simp add: set_current_focus [OF reads_focus [OF assms]])
qed

text \<open>Reading a child is an update of the parent.\<close>

lemma reads_child:
  assumes "reads (pushNode a r) s w r'" "focus r = Some u" "rd_nodes r \<noteq> []"
  shows "reads r s (update_at [a] (\<lambda>_. w) u) (popNode r')"
proof -
  have "rd_root (put_focus w (pushNode a r)) = update_at (current_path r) (update_at [a] (\<lambda>_. w)) (rd_root r)"
    by (simp add: put_focus_def pushNode_def update_at_append)
  also have "\<dots> = rd_root (put_focus (update_at [a] (\<lambda>_. w) u) r)"
    using assms(2) update_at_cong [of "current_path r" "rd_root r" u "update_at [a] (\<lambda>_. w)" "\<lambda>_. update_at [a] (\<lambda>_. w) u"]
    by (simp add: put_focus_def focus_def)
  finally show ?thesis using assms(1) by (simp add: reads_def pushNode_def popNode_def)
qed

lemma focus_pushNode: "focus r = Some u \<Longrightarrow> focus (pushNode a r) = value_at [a] u"
  by (simp add: focus_def pushNode_def value_at_append)

text \<open>The outcome of a call: its fuel ran out, or it succeeded with \<open>P\<close>.\<close>

definition unless_fuel :: "(reader \<Rightarrow> bool) \<Rightarrow> (bool \<times> reader) res \<Rightarrow> bool" where
  "unless_fuel P m \<longleftrightarrow> m = Inl OutOfFuel \<or> (\<exists>r'. m = Inr (True, r') \<and> P r')"

lemma unless_fuel_simps [simp]:
  "unless_fuel P (Inl OutOfFuel)" "unless_fuel P (Inr (True, r')) \<longleftrightarrow> P r'"
  by (simp_all add: unless_fuel_def)

lemma unless_fuel_rbind:
  "unless_fuel P m \<Longrightarrow> (\<And>r'. P r' \<Longrightarrow> unless_fuel Q (k (True, r'))) \<Longrightarrow> unless_fuel Q (rbind m k)"
  unfolding unless_fuel_def by (elim disjE exE conjE) auto

lemma unless_fuel_mono: "unless_fuel P m \<Longrightarrow> (\<And>r'. P r' \<Longrightarrow> Q r') \<Longrightarrow> unless_fuel Q m"
  by (auto simp: unless_fuel_def)

section \<open>Tokens after white space\<close>

lemma advance_advance [simp]: "advance n (advance m r) = advance (m + n) r"
  by (simp add: advance_def add.assoc)

lemma skipSpaces_exact:
  "rest r = ws @ c # t \<Longrightarrow> spaces ws \<Longrightarrow> \<not> is_space c \<Longrightarrow> skipSpaces r = advance (length ws) r"
  by (simp add: skipSpaces_def takeWhile_append list_all_iff)

lemma advance_0 [simp]: "advance 0 r = r"
  by (simp add: advance_def)

lemma skipSpaces_none: "rest r = c # t \<Longrightarrow> \<not> is_space c \<Longrightarrow> skipSpaces r = r"
  by (simp add: skipSpaces_def)

lemma readToken_skip:
  assumes "rest r = ws @ c # t" "spaces ws" "\<not> is_space c"
  shows "readToken r = readToken (advance (length ws) r)"
  using assms skipSpaces_none [of "advance (length ws) r" c t]
  by (simp add: readToken_def skipSpaces_exact [OF assms])

definition lexes :: "reader \<Rightarrow> string \<Rightarrow> token \<Rightarrow> bool" where
  "lexes r a tok \<longleftrightarrow> readToken r = Inr (True, tok, advance (length a) r)"

lemma lexes_after:
  assumes "rest r = ws @ c # t" "spaces ws" "\<not> is_space c" "lexes (advance (length ws) r) a tok"
  shows "lexes r (ws @ a) tok"
  using assms readToken_skip [OF assms(1-3)] by (simp add: lexes_def add.commute)

definition punctuation :: "(char \<times> token_type) list" where
  "punctuation = [(CHR ''{'', tokenObjectBegin), (CHR ''}'', tokenObjectEnd), (CHR ''['', tokenArrayBegin),
     (CHR '']'', tokenArrayEnd), (CHR '','', tokenArraySeparator), (CHR '':'', tokenMemberSeparator)]"

lemma token_content:
  assumes "rest r = ws @ s @ t" "rd_document r' = rd_document r"
  shows "token_text \<lparr>tok_type = ty, tok_start = rd_current r + length ws, tok_end = rd_current r + length ws + length s\<rparr> r' = s"
proof -
  have "drop (rd_current r + length ws) (rd_document r) = s @ t"
    using assms(1) unfolding rest_def by (metis add.commute append_eq_conv_conj drop_drop)
  then show ?thesis using assms(2) by (simp add: token_text_def slice_def)
qed

text \<open>A token whose first character decides on its kind, and whose other characters the scan takes.\<close>

lemma lexes_token:
  assumes "rest r = ws @ (c # s) @ t" "spaces ws" "\<not> is_space c"
    and "\<And>r' :: reader. rest r' = s @ t \<Longrightarrow> tokenBody c r' = Inr (ty, True, advance (length s) r')"
  defines "tok \<equiv> \<lparr>tok_type = ty, tok_start = rd_current r + length ws, tok_end = rd_current r + length ws + length (c # s)\<rparr>"
  shows "lexes r (ws @ c # s) tok"
proof -
  let ?s = "advance (length ws) r"
  have rs: "rest ?s = c # s @ t" using assms(1) by simp
  have "tokenBody c (advance 1 ?s) = Inr (ty, True, advance (length s) (advance 1 ?s))"
    by (rule assms(4)) (use assms(1) in simp)
  then have "readToken ?s = Inr (True, tok, advance (length (c # s)) ?s)"
    using rs skipSpaces_none [OF rs assms(3)]
    by (simp add: readToken_def getNextChar_def tok_def) (simp add: advance_def)
  then have "lexes ?s (c # s) tok" by (simp add: lexes_def)
  with assms(1) show ?thesis by (intro lexes_after [OF _ assms(2,3)]) simp_all
qed

lemma tokenBody_punctuation:
  "tokenBody (CHR ''{'') r = Inr (tokenObjectBegin, True, r)"
  "tokenBody (CHR ''}'') r = Inr (tokenObjectEnd, True, r)"
  "tokenBody (CHR ''['') r = Inr (tokenArrayBegin, True, r)"
  "tokenBody (CHR '']'') r = Inr (tokenArrayEnd, True, r)"
  "tokenBody (CHR '','') r = Inr (tokenArraySeparator, True, r)"
  "tokenBody (CHR '':'') r = Inr (tokenMemberSeparator, True, r)"
  by (simp_all add: tokenBody_def is_digit_def)

lemma tokenBody_words:
  "tokenBody (CHR ''t'') r = Inr (tokenTrue, match_pattern ''rue'' r)"
  "tokenBody (CHR ''f'') r = Inr (tokenFalse, match_pattern ''alse'' r)"
  "tokenBody (CHR ''n'') r = Inr (tokenNull, match_pattern ''ull'' r)"
  by (simp_all add: tokenBody_def is_digit_def)

lemma lexes_punctuation:
  assumes "(c, ty) \<in> set punctuation" "rest r = ws @ c # t" "spaces ws"
  obtains tok where "lexes r (ws @ [c]) tok" "tok_type tok = ty"
proof -
  have "\<not> is_space c" "\<And>r' :: reader. tokenBody c r' = Inr (ty, True, r')"
    using assms(1) by (auto simp: punctuation_def is_space_def tokenBody_punctuation)
  then show thesis using assms(2,3) that lexes_token [of r ws c "[]" t ty] by simp
qed

definition words :: "(string \<times> token_type) list" where
  "words = [(''true'', tokenTrue), (''false'', tokenFalse), (''null'', tokenNull)]"

lemma lexes_word:
  assumes "(s, ty) \<in> set words" "rest r = ws @ s @ t" "spaces ws"
  obtains tok where "lexes r (ws @ s) tok" "tok_type tok = ty"
proof -
  consider "s = ''true''" "ty = tokenTrue" | "s = ''false''" "ty = tokenFalse" | "s = ''null''" "ty = tokenNull"
    using assms(1) by (auto simp: words_def)
  then have "lexes r (ws @ s) \<lparr>tok_type = ty, tok_start = rd_current r + length ws,
      tok_end = rd_current r + length ws + length s\<rparr>"
  proof cases
    case 1
    show ?thesis unfolding 1 by (rule lexes_token [where t = t, OF _ assms(3)])
        (use assms(2) 1 in \<open>simp_all add: is_space_def tokenBody_words match_pattern_def\<close>)
  next
    case 2
    show ?thesis unfolding 2 by (rule lexes_token [where t = t, OF _ assms(3)])
        (use assms(2) 2 in \<open>simp_all add: is_space_def tokenBody_words match_pattern_def\<close>)
  next
    case 3
    show ?thesis unfolding 3 by (rule lexes_token [where t = t, OF _ assms(3)])
        (use assms(2) 3 in \<open>simp_all add: is_space_def tokenBody_words match_pattern_def\<close>)
  qed
  then show thesis by (rule that) simp
qed

lemma numberScan_digits:
  assumes "list_all is_digit ds" "delim t"
  shows "numberScan (ds @ t) = length ds"
proof -
  have "takeWhile is_digit t = []" using assms(2) by (cases t) (auto simp: delim_def)
  then have "digits_len (ds @ t) = length ds" using assms(1) by (simp add: digits_len_def takeWhile_append list_all_iff)
  moreover have "fractionScan t = 0" "exponentScan t = 0"
    using assms(2) by (auto simp: delim_def fractionScan_def exponentScan_def split: list.splits)
  ultimately show ?thesis by (simp add: numberScan_def)
qed

lemma lexes_scanned:
  assumes "rest r = ws @ s @ t" "spaces ws"
    and "s = sg @ ds" "sg \<in> {[], ''-''}" "ds \<noteq> []" "is_digit (hd ds)"
    and scan: "numberScan (ds @ t) = length ds" "numberScan (tl ds @ t) = length (tl ds)"
  obtains tok where "lexes r (ws @ s) tok" "tok_type tok = tokenNumber"
    "\<And>r' :: reader. rd_document r' = rd_document r \<Longrightarrow> token_text tok r' = s"
proof -
  obtain c s' where s: "s = c # s'" "numberScan (s' @ t) = length s'" "is_digit c \<or> c = CHR ''-''"
    using assms(3-8) by (cases ds) auto
  have "\<not> is_space c" "\<And>r' :: reader. rest r' = s' @ t \<Longrightarrow> tokenBody c r' = Inr (tokenNumber, True, advance (length s') r')"
    using s by (auto simp: is_space_def is_digit_def tokenBody_def readNumber_def)
  from lexes_token [OF _ assms(2) this] assms(1) s(1) token_content [OF assms(1)] show thesis
    by (intro that [of "\<lparr>tok_type = tokenNumber, tok_start = rd_current r + length ws, tok_end = rd_current r + length ws + length (c # s')\<rparr>"])
      simp_all
qed

lemma lexes_number:
  assumes "rest r = ws @ s @ t" "spaces ws" "delim t"
    and "s = sg @ ds" "sg \<in> {[], ''-''}" "list_all is_digit ds" "ds \<noteq> []"
  obtains tok where "lexes r (ws @ s) tok" "tok_type tok = tokenNumber"
    "\<And>r' :: reader. rd_document r' = rd_document r \<Longrightarrow> token_text tok r' = s"
proof -
  have d: "is_digit (hd ds)" "list_all is_digit (tl ds)" using assms(6,7) by (cases ds; simp)+
  show thesis
    by (rule lexes_scanned [OF assms(1,2,4,5,7) d(1) numberScan_digits [OF assms(6,3)] numberScan_digits [OF d(2) assms(3)]])
      (rule that)
qed

lemma lexes_real:
  assumes "rest r = ws @ s @ t" "spaces ws" "delim t"
    and "s = sg @ real_body ip fp ex" "sg \<in> {[], ''-''}" "real_shape ip fp K ex"
  obtains tok where "lexes r (ws @ s) tok" "tok_type tok = tokenNumber"
    "\<And>r' :: reader. rd_document r' = rd_document r \<Longrightarrow> token_text tok r' = s"
proof -
  obtain c ip' where ip: "ip = c # ip'" "is_digit c" "list_all is_digit ip'"
    using assms(6) by (cases ip) (auto simp: real_shape_def)
  have h: "real_body ip fp ex \<noteq> []" "is_digit (hd (real_body ip fp ex))" "tl (real_body ip fp ex) = real_body ip' fp ex"
    using ip by (simp_all add: real_body_def)
  have "list_all is_digit ip" using assms(6) by (simp add: real_shape_def)
  note scan = numberScan_real [OF assms(6) this assms(3)] numberScan_real [OF assms(6) ip(3) assms(3)]
  show thesis
    by (rule lexes_scanned [OF assms(1,2,4,5) h(1,2) scan(1) scan(2) [folded h(3)]]) (rule that)
qed

lemma lexes_string:
  assumes "rest r = ws @ q @ t" "spaces ws" "quoted_form s q"
  obtains tok where "lexes r (ws @ q) tok" "tok_type tok = tokenString"
    "\<And>r' :: reader. rd_document r' = rd_document r \<Longrightarrow> decodeString tok r' = (Some s, r')"
proof -
  obtain e where e: "e \<or> utf8_text s" "q = valueToQuotedStringN s e" using assms(3) by (auto simp: quoted_form_def)
  let ?s = "advance (length ws) r"
  let ?tok = "\<lparr>tok_type = tokenString, tok_start = rd_current ?s, tok_end = rd_current ?s + length q\<rparr>"
  have rs: "rest ?s = valueToQuotedStringN s e @ t" using assms(1) e(2) by simp
  obtain b where b: "q = DQUOTE # b" using quoted_form_quote [OF assms(3)] by blast
  have "lexes ?s q ?tok" using quoted_token(1) [OF e(1) rs] e(2) by (simp add: lexes_def)
  then have "lexes r (ws @ q) ?tok"
    using assms(1) b by (intro lexes_after [of r ws DQUOTE "b @ t", OF _ assms(2)]) (simp_all add: is_space_def)
  then show thesis by (rule that) (use quoted_token(2) [OF e(1) rs] e(2) in simp_all)
qed


section \<open>Scalars\<close>

lemma skipCommentTokens_lexes:
  "lexes r a tok \<Longrightarrow> tok_type tok \<noteq> tokenComment \<Longrightarrow> skipCommentTokens r = Inr (tok, advance (length a) r)"
  by (simp add: skipCommentTokens_def lexes_def skipComments.simps [of _ tok])

lemma takeCommentsBefore_clean: "rd_commentsBefore r = [] \<Longrightarrow> takeCommentsBefore r = Inr r"
  by (simp add: takeCommentsBefore_def)

lemma rd_commentsBefore_advance [simp]: "rd_commentsBefore (advance n r) = rd_commentsBefore r"
  by (simp add: advance_def)

lemma focus_advance [simp]: "focus (advance n r) = focus r"
  by (simp add: focus_def advance_def)

lemma readValue_scalar:
  assumes "lexes r a tok" "isScalarToken (tok_type tok)" "rd_commentsBefore r = []" "focus r = Some w0"
    and "length (rd_nodes r) \<le> 1000"
    and "readScalar tok (advance (length a) r) = storeDecoded (Some d, advance (length a) r) tok'"
  shows "\<exists>w r'. readValue (Suc fuel) r = Inr (True, r') \<and> reads r a w r' \<and> payload w = d"
proof -
  let ?w = "offsets tok' (set_payload d w0)"
  have "reads r a ?w (rememberLast (put_focus ?w (advance (length a) r)))"
    using assms(3) by (intro reads_remember reads_advance_put)
  moreover have "readValue (Suc fuel) r = Inr (True, rememberLast (put_focus ?w (advance (length a) r)))"
    using assms(2,5) by (auto simp: skipCommentTokens_lexes [OF assms(1)] takeCommentsBefore_clean assms(3,6)
        stackLimit_g_def isScalarToken_def storeDecoded_def set_current_focus [of _ w0] assms(4))
  ultimately show ?thesis
    by (auto simp: offsets_def set_payload_def setOffsetLimit_def setOffsetStart_def)
qed

lemma value_eq_scalar:
  "plain_scalar (payload v) \<Longrightarrow> payload w = payload v \<Longrightarrow> value_eq w v"
  by (cases v; cases w) (auto simp: plain_scalar_def czstring_eq_iff split: jdata.splits double.splits)

lemma readScalar_token:
  assumes "plain_scalar (payload v)" "rest r = ws @ scalar_text v @ t" "spaces ws" "delim t"
  obtains tok d where "lexes r (ws @ scalar_text v) tok" "isScalarToken (tok_type tok)"
    "\<And>r' :: reader. rd_document r' = rd_document r \<Longrightarrow> readScalar tok r' = storeDecoded (Some d, r') tok"
    "\<And>w. payload w = d \<Longrightarrow> value_eq w v"
proof (cases "payload v")
  case NullV
  then obtain tok where "lexes r (ws @ scalar_text v) tok" "tok_type tok = tokenNull"
    using lexes_word [of "''null''" tokenNull r ws t] assms by (auto simp: words_def scalar_text_def)
  with NullV show thesis by (intro that [of tok "payload v", OF _ _ _ value_eq_scalar [OF assms(1)]]) (simp_all add: isScalarToken_def readScalar_def)
next
  case (BoolV b)
  then obtain tok where "lexes r (ws @ scalar_text v) tok" "tok_type tok = (if b then tokenTrue else tokenFalse)"
    using lexes_word [of "''true''" tokenTrue r ws t] lexes_word [of "''false''" tokenFalse r ws t] assms
    by (cases b) (auto simp: words_def scalar_text_def valueToString_bool_def)
  with BoolV show thesis by (intro that [of tok "payload v", OF _ _ _ value_eq_scalar [OF assms(1)]]) (simp_all add: isScalarToken_def readScalar_def)
next
  case (IntV i)
  then have i: "INT64_MIN \<le> i" "i \<le> INT_MAX" using assms(1) by (simp_all add: plain_scalar_def)
  have x: "scalar_text v = valueToString_int i" by (simp add: scalar_text_def IntV)
  obtain sg ds where e: "valueToString_int i = sg @ ds" "sg \<in> {[], ''-''}" "list_all is_digit ds" "ds \<noteq> []"
    and dec: "decodeInteger (valueToString_int i) = Some (IntV i)" using int_lexeme [OF i] by blast
  from lexes_number [OF assms(2-4) e(1) [folded x] e(2-4)] obtain tok where
    "lexes r (ws @ scalar_text v) tok" "tok_type tok = tokenNumber"
    "\<And>r' :: reader. rd_document r' = rd_document r \<Longrightarrow> token_text tok r' = scalar_text v" by blast
  then show thesis by (intro that [of tok "payload v", OF _ _ _ value_eq_scalar [OF assms(1)]]) (simp_all add: isScalarToken_def readScalar_def decodeNumber_def x dec IntV)
next
  case (UIntV u)
  then have u: "INT_MAX < u" "u \<le> UINT64_MAX" using assms(1) by (simp_all add: plain_scalar_def)
  have x: "scalar_text v = valueToString_uint u" by (simp add: scalar_text_def UIntV)
  from lexes_number [OF assms(2-4), of "[]"] uint_lexeme [OF u] x obtain tok where
    "lexes r (ws @ scalar_text v) tok" "tok_type tok = tokenNumber"
    "\<And>r' :: reader. rd_document r' = rd_document r \<Longrightarrow> token_text tok r' = scalar_text v" by auto
  then show thesis
    by (intro that [of tok "payload v", OF _ _ _ value_eq_scalar [OF assms(1)]]) (simp_all add: isScalarToken_def readScalar_def decodeNumber_def x uint_lexeme [OF u] UIntV)
next
  case (RealV x)
  then obtain s m e where x: "x = DFin s m e" "ieee m e" using assms(1) by (cases x) (auto simp: plain_scalar_def)
  from real_scalar [OF RealV [unfolded x(1)] x(2)] obtain ip fp K ex d where f: "real_shape ip fp K ex"
    "scalar_text v = (if s then ''-'' else []) @ real_body ip fp ex" "istream_double (scalar_text v) = Some d"
    "dbl_eq d (DFin s m e)" .
  have "(if s then ''-'' else []) \<in> {[], ''-''}" by simp
  from lexes_real [OF assms(2-4) f(2) this f(1)] obtain tok where
    t: "lexes r (ws @ scalar_text v) tok" "tok_type tok = tokenNumber"
    "\<And>r' :: reader. rd_document r' = rd_document r \<Longrightarrow> token_text tok r' = scalar_text v" by blast
  have "value_eq w v" if "payload w = RealV d" for w
    using that RealV f(4) x(1) by (cases v; cases w) (simp del: dbl_eq.simps)
  moreover have "decodeInteger (scalar_text v) = None" unfolding f(2) by (rule decodeInteger_real [OF f(1)])
  ultimately show thesis using t f(3)
    by (intro that [of tok "RealV d"]) (simp_all add: isScalarToken_def readScalar_def decodeNumber_def decodeDouble_def)
qed (use assms(1) in \<open>simp_all add: plain_scalar_def\<close>)

lemma readScalar_string:
  assumes "payload v = StringV s" "quoted_form s q" "rest r = ws @ q @ t" "spaces ws"
  obtains tok where "lexes r (ws @ q) tok" "isScalarToken (tok_type tok)"
    "\<And>r' :: reader. rd_document r' = rd_document r \<Longrightarrow> readScalar tok r' = storeDecoded (Some (payload v), r') tok"
proof -
  from lexes_string [OF assms(3,4,2)] obtain tok where "lexes r (ws @ q) tok"
    "tok_type tok = tokenString" "\<And>r' :: reader. rd_document r' = rd_document r \<Longrightarrow> decodeString tok r' = (Some s, r')"
    by blast
  with assms(1) show thesis by (intro that [of tok]) (simp_all add: isScalarToken_def readScalar_def)
qed

lemma value_eq_string: "payload v = StringV s \<Longrightarrow> payload w = payload v \<Longrightarrow> value_eq w v"
  by (cases v; cases w) (auto simp: czstring_eq_iff)

end
