(* ===== verification/Grammar_Reading.thy ===== *)
theory Grammar_Reading
  imports Reading_Values
begin

text \<open>
  \<^verbatim>\<open>Json::Reader\<close> accepts the grammar \<open>json_text\<close>, whatever the white space, and its value is equal to
  the one the text stands for. The calls of \<^verbatim>\<open>readValue\<close>, \<^verbatim>\<open>readArray\<close> and \<^verbatim>\<open>readObject\<close> are followed with
  any fuel: they exhaust it or leave the value (\<open>unless_fuel\<close>); that the fuel of \<open>parse\<close> suffices is the
  result of \<open>Reader_Termination\<close>. \<open>reads_as k v a\<close> is the claim for one value \<open>v\<close> with text \<open>a\<close>, in any
  surroundings and with room for \<open>k\<close> more entries of \<^verbatim>\<open>nodes_\<close>; \<open>elements_read\<close> and \<open>members_read\<close> are
  the claims for the two loops, and one induction over the grammar proves all three.
\<close>

section \<open>Arrays\<close>

definition reads_as :: "nat \<Rightarrow> jvalue \<Rightarrow> string \<Rightarrow> bool" where
  "reads_as k v a \<longleftrightarrow> (\<forall>fuel r ws t w0. rd_commentsBefore r = [] \<longrightarrow> focus r = Some w0 \<longrightarrow>
     rd_nodes r \<noteq> [] \<longrightarrow> length (rd_nodes r) + k \<le> 1000 \<longrightarrow> spaces ws \<longrightarrow> delim t \<longrightarrow> rest r = ws @ a @ t \<longrightarrow>
     unless_fuel (\<lambda>r'. \<exists>w. reads r (ws @ a) w r' \<and> value_eq w v) (readValue fuel r))"

lemma reads_asD:
  assumes "reads_as k v a" "rd_commentsBefore r = []" "focus r = Some w0" "rd_nodes r \<noteq> []"
    "length (rd_nodes r) + k \<le> 1000" "spaces ws" "delim t" "rest r = ws @ a @ t"
  shows "unless_fuel (\<lambda>r'. \<exists>w. reads r (ws @ a) w r' \<and> value_eq w v) (readValue fuel r)"
  using assms(1) [unfolded reads_as_def, rule_format, OF assms(2-)] .

text \<open>A scalar, from the token that \<^verbatim>\<open>readScalar\<close> decodes.\<close>

lemma reads_as_scalar:
  assumes tok: "\<And>r ws t. rest r = ws @ a @ t \<Longrightarrow> spaces ws \<Longrightarrow> delim t \<Longrightarrow> \<exists>tok d. lexes r (ws @ a) tok \<and>
      isScalarToken (tok_type tok) \<and>
      (\<forall>r' :: reader. rd_document r' = rd_document r \<longrightarrow> readScalar tok r' = storeDecoded (Some d, r') tok) \<and>
      (\<forall>w. payload w = d \<longrightarrow> value_eq w v)"
  shows "reads_as k v a"
  unfolding reads_as_def
proof (intro allI impI)
  fix fuel ws t w0 and r :: reader
  assume a: "rd_commentsBefore r = []" "focus r = Some w0" "length (rd_nodes r) + k \<le> 1000" "spaces ws" "delim t"
    and rest: "rest r = ws @ a @ t"
  from tok [OF rest a(4,5)] obtain tok d where
    tok: "lexes r (ws @ a) tok" "isScalarToken (tok_type tok)"
    and read: "\<And>r' :: reader. rd_document r' = rd_document r \<Longrightarrow> readScalar tok r' = storeDecoded (Some d, r') tok"
    and eq: "\<And>w. payload w = d \<Longrightarrow> value_eq w v"
    by blast
  show "unless_fuel (\<lambda>r'. \<exists>w. reads r (ws @ a) w r' \<and> value_eq w v) (readValue fuel r)"
  proof (cases fuel)
    case (Suc f)
    have "length (rd_nodes r) \<le> 1000" using a(3) by simp
    from readValue_scalar [OF tok a(1,2) this read, of f] obtain w r' where
      "readValue (Suc f) r = Inr (True, r')" "reads r (ws @ a) w r'" "payload w = d" by auto
    then show ?thesis unfolding Suc using eq by (auto simp del: readValue.simps)
  qed simp
qed

lemma reads_as_plain: "plain_scalar (payload v) \<Longrightarrow> reads_as k v (scalar_text v)"
  by (rule reads_as_scalar) (metis readScalar_token)

lemma reads_as_string: "payload v = StringV s \<Longrightarrow> quoted_form s q \<Longrightarrow> reads_as k v q"
  by (rule reads_as_scalar) (metis readScalar_string value_eq_string)

text \<open>Between two tokens of a container: the separator or the end.\<close>

lemma skipComments_other: "tok_type tok \<noteq> tokenComment \<Longrightarrow> skipComments ok tok r = Inr (ok, tok, r)"
  by (simp add: skipComments.simps)

lemma delim_after: "t \<noteq> [] \<Longrightarrow> is_space (hd t) \<or> hd t \<in> {CHR '','', CHR '']'', CHR ''}''} \<Longrightarrow> delim t"
  by (auto simp: delim_def is_space_def is_digit_def)

lemma array_step:
  assumes "focus r = Some u" "dense xs u" "rd_commentsBefore r = []" "rd_nodes r \<noteq> []"
    and "length (rd_nodes r) + Suc k \<le> 1000" "reads_as k c a" "spaces ws" "delim t"
    and "rest r = ws @ a @ t"
    and step: "\<And>r' w x. reads r (ws @ a) w r' \<Longrightarrow> dense (xs @ [x]) w \<Longrightarrow> value_eq x c \<Longrightarrow>
       unless_fuel Q (rbind (readToken r') (\<lambda>(ok0, tok0, r3).
         rbind (skipComments ok0 tok0 r3) (\<lambda>(ok1, currentToken, r4).
         if \<not> ok1 \<or> tok_type currentToken \<notin> {tokenArraySeparator, tokenArrayEnd}
         then addErrorAndRecover ''Missing ',' or ']' in array declaration'' currentToken tokenArrayEnd r4
         else if tok_type currentToken = tokenArrayEnd then Inr (True, r4)
         else readArrayLoop fuel (Suc (length xs)) r4)))"
  shows "unless_fuel Q (readArrayLoop (Suc fuel) (length xs) r)"
proof -
  from dense_index_ref_end [OF assms(2)] obtain u' where
    u': "index_ref (length xs) u = Inr (u', nullSingleton)" "dense (xs @ [nullSingleton]) u'" by blast
  let ?r1 = "put_focus u' r" and ?i = "KindIndex (length xs)"
  have r1: "update_res (current_path r) (\<lambda>v. rbind (index_ref (length xs) v) (\<lambda>(v', _). Inr v')) r = Inr ?r1"
    using update_res_focus [OF assms(1)] u'(1) by simp
  have f1: "focus ?r1 = Some u'" using assms(1) by simp
  have nodes: "rd_nodes ?r1 = rd_nodes r" by (simp add: put_focus_def)
  have child: "unless_fuel (\<lambda>r'. \<exists>w. reads (pushNode ?i ?r1) (ws @ a) w r' \<and> value_eq w c)
      (readValue fuel (pushNode ?i ?r1))"
  proof (rule reads_asD [OF assms(6) _ _ _ _ assms(7,8)])
    show "focus (pushNode ?i ?r1) = Some nullSingleton"
      by (simp add: focus_pushNode [OF f1] dense_elements [OF u'(2)])
    show "rest (pushNode ?i ?r1) = ws @ a @ t"
      using assms(9) by (simp add: rest_def pushNode_def put_focus_def)
  qed (use assms(3,5) in \<open>simp_all add: pushNode_def put_focus_def\<close>)
  show ?thesis unfolding readArrayLoop.simps r1 rbind_Inr
  proof (rule unless_fuel_rbind [OF child], elim exE conjE, goal_cases)
    case (1 r2 x)
    have "reads ?r1 (ws @ a) (replace_index (length xs) x u') (popNode r2)"
      using reads_child [OF 1(1) f1] nodes assms(4) by (simp add: dense_elements [OF u'(2)])
    from reads_trans [OF reads_put [OF assms(3)] this]
    have "reads r (ws @ a) (replace_index (length xs) x u') (popNode r2)" by simp
    moreover have "dense (xs @ [x]) (replace_index (length xs) x u')"
      using dense_replace_index [OF u'(2), of "length xs" x] by simp
    ultimately show ?case using step 1(2) by simp
  qed
qed

text \<open>The rest of the loop after an element: the end of the array, or the comma and the next element.\<close>

lemma array_next:
  assumes "(c, ty) \<in> {(CHR '']'', tokenArrayEnd), (CHR '','', tokenArraySeparator)}"
    and "rest r = ws @ c # t" "spaces ws"
  shows "rbind (readToken r) (\<lambda>(ok0, tok0, r3).
         rbind (skipComments ok0 tok0 r3) (\<lambda>(ok1, currentToken, r4).
         if \<not> ok1 \<or> tok_type currentToken \<notin> {tokenArraySeparator, tokenArrayEnd}
         then addErrorAndRecover ''Missing ',' or ']' in array declaration'' currentToken tokenArrayEnd r4
         else if tok_type currentToken = tokenArrayEnd then Inr (True, r4)
         else readArrayLoop fuel i r4))
    = (if ty = tokenArrayEnd then Inr (True, advance (length (ws @ [c])) r)
       else readArrayLoop fuel i (advance (length (ws @ [c])) r))"
proof -
  obtain tok where tok: "lexes r (ws @ [c]) tok" "tok_type tok = ty"
    using lexes_punctuation [OF _ assms(2,3), of ty] assms(1) by (auto simp: punctuation_def)
  then have "skipComments True tok r' = Inr (True, tok, r')" for r'
    using assms(1) by (intro skipComments_other) auto
  with tok assms(1) show ?thesis by (auto simp: lexes_def)
qed

definition elements_read :: "nat \<Rightarrow> jvalue list \<Rightarrow> string \<Rightarrow> bool" where
  "elements_read k cs s \<longleftrightarrow> (\<forall>fuel r u xs ws t. focus r = Some u \<longrightarrow> dense xs u \<longrightarrow> rd_commentsBefore r = [] \<longrightarrow>
     rd_nodes r \<noteq> [] \<longrightarrow> length (rd_nodes r) + Suc k \<le> 1000 \<longrightarrow> spaces ws \<longrightarrow> rest r = ws @ s @ CHR '']'' # t \<longrightarrow>
     unless_fuel (\<lambda>r'. \<exists>w ys. reads r (ws @ s @ [CHR '']'']) w r' \<and> dense (xs @ ys) w \<and> list_all2 value_eq ys cs)
       (readArrayLoop fuel (length xs) r))"

lemma elements_readD:
  assumes "elements_read k cs s" "focus r = Some u" "dense xs u" "rd_commentsBefore r = []"
    "rd_nodes r \<noteq> []" "length (rd_nodes r) + Suc k \<le> 1000" "spaces ws" "rest r = ws @ s @ CHR '']'' # t"
  shows "unless_fuel (\<lambda>r'. \<exists>w ys. reads r (ws @ s @ [CHR '']'']) w r' \<and> dense (xs @ ys) w \<and> list_all2 value_eq ys cs)
       (readArrayLoop fuel (length xs) r)"
  using assms(1) [unfolded elements_read_def, rule_format, OF assms(2-)] .

lemma delim_spaces: "spaces ws \<Longrightarrow> c \<in> {CHR '','', CHR '']'', CHR ''}''} \<Longrightarrow> delim (ws @ c # t)"
  by (rule delim_after) (cases ws; auto)+

lemma last_element_read:
  assumes "reads_as k c a" "spaces ws'"
  shows "elements_read k [c] (a @ ws')"
  unfolding elements_read_def
proof (intro allI impI)
  fix fuel u xs ws t and r :: reader
  assume p: "focus r = Some u" "dense xs u" "rd_commentsBefore r = []" "rd_nodes r \<noteq> []"
    "length (rd_nodes r) + Suc k \<le> 1000" "spaces ws" and rest0: "rest r = ws @ (a @ ws') @ CHR '']'' # t"
  show "unless_fuel (\<lambda>r'. \<exists>w ys. reads r (ws @ (a @ ws') @ [CHR '']'']) w r' \<and> dense (xs @ ys) w \<and>
     list_all2 value_eq ys [c]) (readArrayLoop fuel (length xs) r)"
  proof (cases fuel)
    case (Suc f)
    have dl: "delim (ws' @ CHR '']'' # t)" by (rule delim_spaces [OF assms(2)]) simp
    have rest: "rest r = ws @ a @ ws' @ CHR '']'' # t" using rest0 by simp
    show ?thesis unfolding Suc
    proof (rule array_step [OF p(1-5) assms(1) p(6) dl rest], goal_cases)
      case (1 r' w x)
      have rest': "rest r' = ws' @ CHR '']'' # t" using reads_rest [OF 1(1)] rest by simp
      show ?case
        using reads_advance [OF 1(1), of "ws' @ [CHR '']'']"] 1(2,3)
        by (subst array_next [OF _ rest' assms(2), of tokenArrayEnd]) (auto intro!: exI [of _ w])
    qed
  qed simp
qed

lemma element_read:
  assumes "reads_as k c a" "spaces ws1" "spaces ws2" "elements_read k cs s"
  shows "elements_read k (c # cs) (a @ ws1 @ '','' @ ws2 @ s)"
  unfolding elements_read_def
proof (intro allI impI)
  fix fuel u xs ws t and r :: reader
  assume p: "focus r = Some u" "dense xs u" "rd_commentsBefore r = []" "rd_nodes r \<noteq> []"
    "length (rd_nodes r) + Suc k \<le> 1000" "spaces ws"
    and rest0: "rest r = ws @ (a @ ws1 @ '','' @ ws2 @ s) @ CHR '']'' # t"
  show "unless_fuel (\<lambda>r'. \<exists>w ys. reads r (ws @ (a @ ws1 @ '','' @ ws2 @ s) @ [CHR '']'']) w r' \<and> dense (xs @ ys) w \<and>
     list_all2 value_eq ys (c # cs)) (readArrayLoop fuel (length xs) r)"
  proof (cases fuel)
    case (Suc f)
    let ?t = "ws2 @ s @ CHR '']'' # t"
    have rest: "rest r = ws @ a @ ws1 @ CHR '','' # ?t" using rest0 by simp
    have dl: "delim (ws1 @ CHR '','' # ?t)" by (rule delim_spaces [OF assms(2)]) simp
    show ?thesis unfolding Suc
    proof (rule array_step [OF p(1-5) assms(1) p(6) dl rest], goal_cases)
      case (1 r' w x)
      let ?r2 = "advance (length (ws1 @ '','')) r'"
      have rest': "rest r' = ws1 @ CHR '','' # ?t" using reads_rest [OF 1(1)] rest by simp
      have r2: "reads r ((ws @ a) @ ws1 @ '','') w ?r2" by (rule reads_advance [OF 1(1)])
      have "unless_fuel (\<lambda>r3. \<exists>w' ys. reads ?r2 (ws2 @ s @ [CHR '']'']) w' r3 \<and>
            dense ((xs @ [x]) @ ys) w' \<and> list_all2 value_eq ys cs) (readArrayLoop f (length (xs @ [x])) ?r2)"
        by (rule elements_readD [OF assms(4) reads_focus [OF r2 p(1)] 1(2) reads_clean [OF r2] _ _ assms(3)])
          (use p(4,5) rest' reads_nodes [OF r2] in simp_all)
      then have "unless_fuel (\<lambda>r3. \<exists>w ys. reads r (ws @ (a @ ws1 @ '','' @ ws2 @ s) @ [CHR '']'']) w r3 \<and>
            dense (xs @ ys) w \<and> list_all2 value_eq ys (c # cs)) (readArrayLoop f (length (xs @ [x])) ?r2)"
      proof (rule unless_fuel_mono, elim exE conjE)
        fix r3 w' ys
        assume a: "reads ?r2 (ws2 @ s @ [CHR '']'']) w' r3" "dense ((xs @ [x]) @ ys) w'" "list_all2 value_eq ys cs"
        from reads_trans [OF r2 a(1)] a(2,3) 1(3)
        show "\<exists>w ys. reads r (ws @ (a @ ws1 @ '','' @ ws2 @ s) @ [CHR '']'']) w r3 \<and>
            dense (xs @ ys) w \<and> list_all2 value_eq ys (c # cs)"
          by (intro exI [of _ w'] exI [of _ "x # ys"]) simp
      qed
      then show ?case by (subst array_next [OF _ rest' assms(2), of tokenArraySeparator]) simp_all
    qed
  qed simp
qed

section \<open>Objects\<close>

lemma smap_put_end: "\<forall>p\<in>set m. fst p < k \<Longrightarrow> smap_put k x m = m @ [(k, x)]"
  by (induction m) auto

lemma smap_put_last: "\<forall>p\<in>set m. fst p < k \<Longrightarrow> smap_put k x (m @ [(k, y)]) = m @ [(k, x)]"
  by (induction m) auto

lemma map_of_end: "\<forall>p\<in>set m. fst p < (k :: 'a :: linorder) \<Longrightarrow> map_of m k = None"
  by (auto simp: map_of_eq_None_iff)

lemma resolveReference_end:
  assumes "payload u = ObjectV m" "\<forall>p\<in>set m. fst p < key"
  obtains u' where "resolveReference key u = Inr (u', nullSingleton)" "payload u' = ObjectV (m @ [(key, nullSingleton)])"
  using assms by (simp add: resolveReference_def map_of_end smap_put_end set_payload_def)

definition object_tail :: "nat \<Rightarrow> string \<Rightarrow> reader \<Rightarrow> (bool \<times> reader) res" where
  "object_tail fuel name r =
     rbind (readToken r) (\<lambda>(okm, comma, r7).
         if \<not> okm \<or> tok_type comma \<notin> {tokenObjectEnd, tokenArraySeparator, tokenComment}
         then addErrorAndRecover ''Missing ',' or '}' in object declaration'' comma tokenObjectEnd r7
         else rbind (skipComments True comma r7) (\<lambda>(_, comma', r8).
         if tok_type comma' = tokenObjectEnd then Inr (True, r8)
         else readObjectLoop fuel name r8))"

lemma object_tail:
  assumes "(c, ty) \<in> {(CHR ''}'', tokenObjectEnd), (CHR '','', tokenArraySeparator)}"
    and "rest r = ws @ c # t" "spaces ws"
  shows "object_tail fuel name r =
    (if ty = tokenObjectEnd then Inr (True, advance (length (ws @ [c])) r)
     else readObjectLoop fuel name (advance (length (ws @ [c])) r))"
proof -
  obtain tok where tok: "lexes r (ws @ [c]) tok" "tok_type tok = ty"
    using lexes_punctuation [OF _ assms(2,3), of ty] assms(1) by (auto simp: punctuation_def)
  then have "skipComments True tok r' = Inr (True, tok, r')" for r'
    using assms(1) by (intro skipComments_other) auto
  with tok assms(1) show ?thesis by (auto simp: lexes_def object_tail_def)
qed

text \<open>The name, the colon and the creation of the member.\<close>

lemma object_name:
  assumes "focus r = Some u" "payload u = ObjectV m" "\<forall>p\<in>set m. fst p < key" "quoted_form key q" "spaces ws" "spaces wk"
    and "rest r = ws @ q @ wk @ '':'' @ t"
  obtains u' where "payload u' = ObjectV (m @ [(key, nullSingleton)])"
    "\<And>r1. r1 = put_focus u' (advance (length (ws @ q @ wk @ '':'')) r) \<Longrightarrow>
     readObjectLoop (Suc fuel) name r = rbind (readValue fuel (pushNode (KindKey key) r1)) (\<lambda>(okv, r6).
         if \<not> okv then recoverFromError tokenObjectEnd (popNode r6)
         else object_tail fuel key (popNode r6))"
proof -
  let ?r2 = "advance (length (ws @ q)) r" and ?r4 = "advance (length (ws @ q @ wk @ '':'')) r"
  obtain tok where tok: "lexes r (ws @ q) tok" "tok_type tok = tokenString"
    "decodeString tok ?r2 = (Some key, ?r2)"
    using lexes_string [OF assms(7,5,4)] by (metis rd_document_advance)
  have "rest ?r2 = wk @ CHR '':'' # t" using assms(7) by simp
  then obtain colon where colon: "lexes ?r2 (wk @ [CHR '':'']) colon" "tok_type colon = tokenMemberSeparator"
    using lexes_punctuation [of "CHR '':''" tokenMemberSeparator ?r2 wk t] assms(6)
    by (auto simp: punctuation_def)
  from resolveReference_end [OF assms(2,3)] obtain u' where
    u': "resolveReference key u = Inr (u', nullSingleton)" "payload u' = ObjectV (m @ [(key, nullSingleton)])" .
  have f4: "focus ?r4 = Some u" using assms(1) by simp
  have upd: "update_res (current_path ?r4) (\<lambda>v. rbind (resolveReference key v) (\<lambda>(v', _). Inr v')) ?r4 = Inr (put_focus u' ?r4)"
    using update_res_focus [OF f4] u'(1) by simp
  have sk: "skipComments True tok ?r2 = Inr (True, tok, ?r2)" using tok(2) by (intro skipComments_other) simp
  have mem: "memberName tok ?r2 = Inr (Some (Some key, ?r2))" using tok by (simp add: memberName_def)
  have rd: "readToken r = Inr (True, tok, ?r2)" "readToken ?r2 = Inr (True, colon, ?r4)"
    using tok(1) colon(1) by (simp_all add: lexes_def add.assoc)
  show thesis
    by (rule that [OF u'(2)]) (simp only: readObjectLoop.simps rd sk mem upd rbind_Inr tok(2) colon(2) object_tail_def
        prod.case option.case if_True simp_thms token_type.distinct if_False)
qed

definition same_member :: "string \<times> jvalue \<Rightarrow> string \<times> jvalue \<Rightarrow> bool" where
  "same_member p q \<longleftrightarrow> fst p = fst q \<and> value_eq (snd p) (snd q)"

lemma object_step:
  assumes "focus r = Some u" "payload u = ObjectV m" "\<forall>p\<in>set m. fst p < key" "quoted_form key q"
    "rd_commentsBefore r = []" "rd_nodes r \<noteq> []" "length (rd_nodes r) + Suc k \<le> 1000" "reads_as k c a"
    "spaces ws" "spaces wk" "spaces wv" "delim t"
    and rest: "rest r = ws @ q @ wk @ '':'' @ wv @ a @ t"
    and step: "\<And>r' w x. reads r (ws @ q @ wk @ '':'' @ wv @ a) w r' \<Longrightarrow>
      payload w = ObjectV (m @ [(key, x)]) \<Longrightarrow> value_eq x c \<Longrightarrow> unless_fuel Q (object_tail fuel key r')"
  shows "unless_fuel Q (readObjectLoop (Suc fuel) name r)"
proof -
  let ?a = "ws @ q @ wk @ '':''"
  from object_name [OF assms(1-4,9,10) rest, of fuel name] obtain u' where
    u': "payload u' = ObjectV (m @ [(key, nullSingleton)])"
    and eq: "readObjectLoop (Suc fuel) name r = rbind (readValue fuel (pushNode (KindKey key) (put_focus u' (advance (length ?a) r))))
      (\<lambda>(okv, r6). if \<not> okv then recoverFromError tokenObjectEnd (popNode r6) else object_tail fuel key (popNode r6))"
    by blast
  let ?r1 = "put_focus u' (advance (length ?a) r)" and ?k = "KindKey key"
  have r1: "reads r ?a u' ?r1" by (rule reads_advance_put [OF assms(5)])
  have f1: "focus ?r1 = Some u'" by (rule reads_focus [OF r1 assms(1)])
  have mem: "members u' key = Some nullSingleton" using assms(3) by (simp add: members_def u' map_of_end map_add_def)
  have child: "unless_fuel (\<lambda>r'. \<exists>w. reads (pushNode ?k ?r1) (wv @ a) w r' \<and> value_eq w c)
      (readValue fuel (pushNode ?k ?r1))"
  proof (rule reads_asD [OF assms(8) _ _ _ _ assms(11,12)])
    show "focus (pushNode ?k ?r1) = Some nullSingleton"
      unfolding focus_pushNode [OF f1] by (simp add: mem)
    have "rest ?r1 = wv @ a @ t" using reads_rest [OF r1] rest by simp
    then show "rest (pushNode ?k ?r1) = wv @ a @ t" by (simp add: rest_def pushNode_def)
  qed (use reads_clean [OF r1] reads_nodes [OF r1] assms(7) in \<open>simp_all add: pushNode_def\<close>)
  show ?thesis unfolding eq
  proof (rule unless_fuel_rbind [OF child], elim exE conjE, goal_cases)
    case (1 r2 x)
    have "reads ?r1 (wv @ a) (replace_member key x u') (popNode r2)"
      using reads_child [OF 1(1) f1] reads_nodes [OF r1] assms(6) by (simp add: mem)
    from reads_trans [OF r1 this] have "reads r (ws @ q @ wk @ '':'' @ wv @ a)
        (replace_member key x u') (popNode r2)" by simp
    moreover have "payload (replace_member key x u') = ObjectV (m @ [(key, x)])"
      using assms(3) by (simp add: replace_member_def u' smap_put_last set_payload_def)
    ultimately show ?case using step 1(2) by simp
  qed
qed

definition members_read :: "nat \<Rightarrow> (string \<times> jvalue) list \<Rightarrow> string \<Rightarrow> bool" where
  "members_read k cs s \<longleftrightarrow> (\<forall>fuel name r u m ws t. focus r = Some u \<longrightarrow> payload u = ObjectV m \<longrightarrow> smap_ok cs \<longrightarrow>
     (\<forall>p\<in>set m. \<forall>q\<in>set cs. fst p < fst q) \<longrightarrow> rd_commentsBefore r = [] \<longrightarrow> rd_nodes r \<noteq> [] \<longrightarrow>
     length (rd_nodes r) + Suc k \<le> 1000 \<longrightarrow> spaces ws \<longrightarrow> rest r = ws @ s @ CHR ''}'' # t \<longrightarrow>
     unless_fuel (\<lambda>r'. \<exists>w ms. reads r (ws @ s @ [CHR ''}'']) w r' \<and> payload w = ObjectV (m @ ms) \<and>
       list_all2 same_member ms cs) (readObjectLoop fuel name r))"

lemma members_readD:
  assumes "members_read k cs s" "focus r = Some u" "payload u = ObjectV m" "smap_ok cs"
    "\<forall>p\<in>set m. \<forall>q\<in>set cs. fst p < fst q" "rd_commentsBefore r = []" "rd_nodes r \<noteq> []"
    "length (rd_nodes r) + Suc k \<le> 1000" "spaces ws" "rest r = ws @ s @ CHR ''}'' # t"
  shows "unless_fuel (\<lambda>r'. \<exists>w ms. reads r (ws @ s @ [CHR ''}'']) w r' \<and> payload w = ObjectV (m @ ms) \<and>
       list_all2 same_member ms cs) (readObjectLoop fuel name r)"
  using assms unfolding members_read_def by blast

lemma last_member_read:
  assumes "quoted_form key q" "spaces wk" "spaces wv" "reads_as k c a" "spaces ws1"
  shows "members_read k [(key, c)] (q @ wk @ '':'' @ wv @ a @ ws1)"
  unfolding members_read_def
proof (intro allI impI)
  fix fuel name u m ws t and r :: reader
  assume p: "focus r = Some u" "payload u = ObjectV m" "\<forall>p\<in>set m. \<forall>q\<in>set [(key, c)]. fst p < fst q"
    "rd_commentsBefore r = []" "rd_nodes r \<noteq> []" "length (rd_nodes r) + Suc k \<le> 1000" "spaces ws"
    and rest0: "rest r = ws @ (q @ wk @ '':'' @ wv @ a @ ws1) @ CHR ''}'' # t"
  show "unless_fuel (\<lambda>r'. \<exists>w ms. reads r (ws @ (q @ wk @ '':'' @ wv @ a @ ws1) @ [CHR ''}'']) w r' \<and>
     payload w = ObjectV (m @ ms) \<and> list_all2 same_member ms [(key, c)]) (readObjectLoop fuel name r)"
  proof (cases fuel)
    case (Suc f)
    have rest: "rest r = ws @ q @ wk @ '':'' @ wv @ a @ ws1 @ CHR ''}'' # t" using rest0 by simp
    have dl: "delim (ws1 @ CHR ''}'' # t)" by (rule delim_spaces [OF assms(5)]) simp
    have small: "\<forall>p\<in>set m. fst p < key" using p(3) by simp
    show ?thesis unfolding Suc
    proof (rule object_step [OF p(1,2) small assms(1) p(4-6) assms(4) p(7) assms(2,3) dl rest], goal_cases)
      case (1 r' w x)
      have rest': "rest r' = ws1 @ CHR ''}'' # t" using reads_rest [OF 1(1)] rest by simp
      show ?case
        using reads_advance [OF 1(1), of "ws1 @ [CHR ''}'']"] 1(2,3)
        by (subst object_tail [OF _ rest' assms(5), of tokenObjectEnd]) (auto intro!: exI [of _ w] simp: same_member_def)
    qed
  qed simp
qed

lemma member_read:
  assumes "quoted_form key q" "spaces wk" "spaces wv" "reads_as k c a" "spaces ws1" "spaces ws2" "members_read k cs s"
  shows "members_read k ((key, c) # cs) (q @ wk @ '':'' @ wv @ a @ ws1 @ '','' @ ws2 @ s)"
  unfolding members_read_def
proof (intro allI impI)
  fix fuel name u m ws t and r :: reader
  let ?q = "q @ wk @ '':'' @ wv @ a @ ws1 @ '','' @ ws2 @ s"
  assume p: "focus r = Some u" "payload u = ObjectV m" "\<forall>p\<in>set m. \<forall>q\<in>set ((key, c) # cs). fst p < fst q"
    "rd_commentsBefore r = []" "rd_nodes r \<noteq> []" "length (rd_nodes r) + Suc k \<le> 1000" "spaces ws"
    and ok: "smap_ok ((key, c) # cs)" and rest0: "rest r = ws @ ?q @ CHR ''}'' # t"
  show "unless_fuel (\<lambda>r'. \<exists>w ms. reads r (ws @ ?q @ [CHR ''}'']) w r' \<and>
     payload w = ObjectV (m @ ms) \<and> list_all2 same_member ms ((key, c) # cs)) (readObjectLoop fuel name r)"
  proof (cases fuel)
    case (Suc f)
    let ?t = "ws2 @ s @ CHR ''}'' # t"
    have rest: "rest r = ws @ q @ wk @ '':'' @ wv @ a @ ws1 @ CHR '','' # ?t" using rest0 by simp
    have dl: "delim (ws1 @ CHR '','' # ?t)" by (rule delim_spaces [OF assms(5)]) simp
    have small: "\<forall>p\<in>set m. fst p < key" using p(3) by simp
    show ?thesis unfolding Suc
    proof (rule object_step [OF p(1,2) small assms(1) p(4-6) assms(4) p(7) assms(2,3) dl rest], goal_cases)
      case (1 r' w x)
      let ?r2 = "advance (length (ws1 @ '','')) r'"
      have rest': "rest r' = ws1 @ CHR '','' # ?t" using reads_rest [OF 1(1)] rest by simp
      have r2: "reads r ((ws @ q @ wk @ '':'' @ wv @ a) @ ws1 @ '','') w ?r2" by (rule reads_advance [OF 1(1)])
      have "smap_ok cs" "\<forall>p\<in>set (m @ [(key, x)]). \<forall>q\<in>set cs. fst p < fst q" using ok p(3) by auto
      then have "unless_fuel (\<lambda>r3. \<exists>w' ms. reads ?r2 (ws2 @ s @ [CHR ''}'']) w' r3 \<and> payload w' = ObjectV ((m @ [(key, x)]) @ ms) \<and>
            list_all2 same_member ms cs) (readObjectLoop f key ?r2)"
        by (rule members_readD [OF assms(7) reads_focus [OF r2 p(1)] 1(2) _ _ reads_clean [OF r2] _ _ assms(6)])
          (use p(5,6) rest' reads_nodes [OF r2] in simp_all)
      then have "unless_fuel (\<lambda>r3. \<exists>w ms. reads r (ws @ ?q @ [CHR ''}'']) w r3 \<and> payload w = ObjectV (m @ ms) \<and>
          list_all2 same_member ms ((key, c) # cs)) (readObjectLoop f key ?r2)"
      proof (rule unless_fuel_mono, elim exE conjE)
        fix r3 w' ms
        assume a: "reads ?r2 (ws2 @ s @ [CHR ''}'']) w' r3" "payload w' = ObjectV ((m @ [(key, x)]) @ ms)" "list_all2 same_member ms cs"
        from reads_trans [OF r2 a(1)] a(2,3) 1(3)
        show "\<exists>w ms. reads r (ws @ ?q @ [CHR ''}'']) w r3 \<and> payload w = ObjectV (m @ ms) \<and>
          list_all2 same_member ms ((key, c) # cs)"
          by (intro exI [of _ w'] exI [of _ "(key, x) # ms"]) (simp add: same_member_def)
      qed
      then show ?case by (subst object_tail [OF _ rest' assms(5), of tokenArraySeparator]) simp_all
    qed
  qed simp
qed

section \<open>Values\<close>

text \<open>A container reads back when its loop does.\<close>

definition close_value :: "bool \<times> reader \<Rightarrow> (bool \<times> reader) res" where
  "close_value = (\<lambda>(ok, r'). Inr (ok, rememberLast (set_current (setOffsetLimit (int (rd_current r'))) r')))"

lemma closes:
  assumes "unless_fuel (\<lambda>r'. \<exists>w. reads r a w r' \<and> P (payload w)) m" "focus r = Some w0"
    "\<And>w. P (payload w) \<Longrightarrow> value_eq w v"
  shows "unless_fuel (\<lambda>r'. \<exists>w. reads r a w r' \<and> value_eq w v) (rbind m close_value)"
proof (rule unless_fuel_rbind [OF assms(1)], elim exE conjE)
  fix r' w
  assume "reads r a w r'" "P (payload w)"
  moreover from this(2) have "value_eq (setOffsetLimit (int (rd_current r')) w) v"
    by (intro assms(3)) (simp add: setOffsetLimit_def)
  ultimately show "unless_fuel (\<lambda>r'. \<exists>w. reads r a w r' \<and> value_eq w v) (close_value (True, r'))"
    using assms(2) by (auto simp: close_value_def intro!: exI reads_remember reads_set)
qed

text \<open>The opening bracket.\<close>

lemma readValue_open:
  assumes "rd_commentsBefore r = []" "focus r = Some w0" "length (rd_nodes r) \<le> 1000" "spaces ws"
    and "rest r = ws @ c # t"
  shows "c = CHR ''{'' \<Longrightarrow> \<exists>w r1. payload w = ObjectV [] \<and> reads r (ws @ [c]) w r1 \<and>
      readValue (Suc fuel) r = rbind (readObjectLoop fuel [] r1) close_value"
    and "c = CHR ''['' \<Longrightarrow> \<exists>w r1. payload w = ArrayV [] \<and> reads r (ws @ [c]) w r1 \<and>
      readValue (Suc fuel) r = rbind (if rest (skipSpaces r1) \<noteq> [] \<and> hd (rest (skipSpaces r1)) = CHR '']''
          then rbind (readToken (skipSpaces r1)) (\<lambda>(_, _, rb). Inr (True, rb))
          else readArrayLoop fuel 0 (skipSpaces r1)) close_value"
proof -
  let ?r = "advance (length (ws @ [c])) r"
  have lim: "\<not> stackLimit_g < length (rd_nodes r)" using assms(3) by (simp add: stackLimit_g_def)
  have f: "focus ?r = Some w0" using assms(2) by simp
  have tc: "takeCommentsBefore ?r = Inr ?r" using assms(1) by (intro takeCommentsBefore_clean) simp
  { assume c: "c = CHR ''{''"
    obtain tok where tok: "lexes r (ws @ [c]) tok" "tok_type tok = tokenObjectBegin"
      using lexes_punctuation [OF _ assms(5,4), of tokenObjectBegin] c by (auto simp: punctuation_def)
    let ?w = "setOffsetStart (int (tok_start tok)) (set_payload (ObjectV []) w0)"
    have "readValue (Suc fuel) r = rbind (readObjectLoop fuel [] (put_focus ?w ?r)) close_value"
      using tok(2) skipCommentTokens_lexes [OF tok(1)] tc set_current_focus [OF f] lim
      by (simp add: close_value_def)
    then show "\<exists>w r1. payload w = ObjectV [] \<and> reads r (ws @ [c]) w r1 \<and>
      readValue (Suc fuel) r = rbind (readObjectLoop fuel [] r1) close_value"
      using reads_advance_put [OF assms(1), of "ws @ [c]" ?w]
      by (intro exI [of _ ?w] exI [of _ "put_focus ?w ?r"]) (simp add: setOffsetStart_def set_payload_def del: readValue.simps)
  }
  { assume c: "c = CHR ''[''"
    obtain tok where tok: "lexes r (ws @ [c]) tok" "tok_type tok = tokenArrayBegin"
      using lexes_punctuation [OF _ assms(5,4), of tokenArrayBegin] c by (auto simp: punctuation_def)
    let ?w = "setOffsetStart (int (tok_start tok)) (set_payload (ArrayV []) w0)"
    let ?r1 = "put_focus ?w ?r"
    have "readValue (Suc fuel) r = rbind (if rest (skipSpaces ?r1) \<noteq> [] \<and> hd (rest (skipSpaces ?r1)) = CHR '']''
          then rbind (readToken (skipSpaces ?r1)) (\<lambda>(_, _, rb). Inr (True, rb))
          else readArrayLoop fuel 0 (skipSpaces ?r1)) close_value"
      using tok(2) skipCommentTokens_lexes [OF tok(1)] tc set_current_focus [OF f] lim
      by (simp add: close_value_def Let_def)
    then show "\<exists>w r1. payload w = ArrayV [] \<and> reads r (ws @ [c]) w r1 \<and>
      readValue (Suc fuel) r = rbind (if rest (skipSpaces r1) \<noteq> [] \<and> hd (rest (skipSpaces r1)) = CHR '']''
          then rbind (readToken (skipSpaces r1)) (\<lambda>(_, _, rb). Inr (True, rb))
          else readArrayLoop fuel 0 (skipSpaces r1)) close_value"
      using reads_advance_put [OF assms(1), of "ws @ [c]" ?w]
      by (intro exI [of _ ?w] exI [of _ ?r1]) (simp add: setOffsetStart_def set_payload_def del: readValue.simps)
  }
qed


lemma amap_eq_list: "list_all2 value_eq ys cs \<Longrightarrow> amap_eq (enumerate n ys) (enumerate n cs)"
  by (induction ys cs arbitrary: n rule: list_all2_induct) auto

lemma omap_eq_list: "list_all2 same_member ms cs \<Longrightarrow> omap_eq ms cs"
  by (induction ms cs rule: list_all2_induct) (auto simp: same_member_def czstring_eq_iff)

lemma value_eq_array:
  "payload w = ArrayV (enumerate 0 ys) \<Longrightarrow> payload v = ArrayV (enumerate 0 cs) \<Longrightarrow> list_all2 value_eq ys cs \<Longrightarrow> value_eq w v"
  by (cases w; cases v) (auto simp: amap_eq_list list_all2_lengthD)

lemma value_eq_object:
  "payload w = ObjectV ms \<Longrightarrow> payload v = ObjectV cs \<Longrightarrow> list_all2 same_member ms cs \<Longrightarrow> value_eq w v"
  by (cases w; cases v) (auto simp: omap_eq_list list_all2_lengthD)

lemma array_read:
  assumes v: "dense cs v" and cs: "elements_read k cs s" "good_first s" and ws': "spaces ws'"
  shows "reads_as (Suc k) v (''['' @ ws' @ s @ '']'')"
  unfolding reads_as_def
proof (intro allI impI)
  fix fuel ws t w0 and r :: reader
  assume a: "rd_commentsBefore r = []" "focus r = Some w0" "rd_nodes r \<noteq> []" "length (rd_nodes r) + Suc k \<le> 1000"
    "spaces ws" and rest: "rest r = ws @ (''['' @ ws' @ s @ '']'') @ t"
  have rest': "rest r = ws @ CHR ''['' # ws' @ s @ CHR '']'' # t" using rest by simp
  show "unless_fuel (\<lambda>r'. \<exists>w. reads r (ws @ ''['' @ ws' @ s @ '']'') w r' \<and> value_eq w v) (readValue fuel r)"
  proof (cases fuel)
    case (Suc f)
    have "length (rd_nodes r) \<le> 1000" using a(4) by simp
    from readValue_open(2) [OF a(1,2) this a(5) rest' refl, of f] obtain w1 r1 where
      w1: "payload w1 = ArrayV []" and r1: "reads r (ws @ ''['') w1 r1" and
      eq: "readValue (Suc f) r = rbind (if rest (skipSpaces r1) \<noteq> [] \<and> hd (rest (skipSpaces r1)) = CHR '']''
          then rbind (readToken (skipSpaces r1)) (\<lambda>(_, _, rb). Inr (True, rb))
          else readArrayLoop f 0 (skipSpaces r1)) close_value" by blast
    let ?r2 = "skipSpaces r1"
    obtain ch s' where ch: "s = ch # s'" "\<not> is_space ch" "ch \<noteq> CHR '']''"
      using cs(2) unfolding good_first_def by (cases s) simp_all
    have rest1: "rest r1 = ws' @ s @ CHR '']'' # t" using reads_rest [OF r1] rest' by simp
    have sk: "?r2 = advance (length ws') r1"
      by (rule skipSpaces_exact [of _ _ ch]) (use rest1 ch ws' in simp_all)
    have r2: "reads r ((ws @ ''['') @ ws') w1 ?r2" unfolding sk by (rule reads_advance [OF r1])
    have rest2: "rest ?r2 = s @ CHR '']'' # t" unfolding sk using rest1 by simp
    have "unless_fuel (\<lambda>r'. \<exists>w ys. reads ?r2 ([] @ s @ [CHR '']'']) w r' \<and> dense ([] @ ys) w \<and> list_all2 value_eq ys cs)
        (readArrayLoop f (length ([] :: jvalue list)) ?r2)"
      by (rule elements_readD [OF cs(1) reads_focus [OF r2 a(2)] _ reads_clean [OF r2]])
        (use w1 rest2 reads_nodes [OF r2] a(3,4) in \<open>simp_all add: dense_def\<close>)
    then have "unless_fuel (\<lambda>r'. \<exists>w. reads r (ws @ ''['' @ ws' @ s @ '']'') w r' \<and>
        (\<exists>ys. payload w = ArrayV (enumerate 0 ys) \<and> list_all2 value_eq ys cs)) (readArrayLoop f 0 ?r2)"
      using reads_trans [OF r2] by (fastforce elim!: unless_fuel_mono simp: dense_def)
    then have "unless_fuel (\<lambda>r'. \<exists>w. reads r (ws @ ''['' @ ws' @ s @ '']'') w r' \<and> value_eq w v)
        (rbind (readArrayLoop f 0 ?r2) close_value)"
      by (rule closes [OF _ a(2)]) (use v(1) value_eq_array in \<open>unfold dense_def, blast\<close>)
    then show ?thesis unfolding Suc eq using rest2 ch by simp
  qed simp
qed

lemma object_read:
  assumes v: "payload v = ObjectV m" "smap_ok m" and m: "members_read k m s" and ws': "spaces ws'"
  shows "reads_as (Suc k) v (''{'' @ ws' @ s @ ''}'')"
  unfolding reads_as_def
proof (intro allI impI)
  fix fuel ws t w0 and r :: reader
  assume a: "rd_commentsBefore r = []" "focus r = Some w0" "rd_nodes r \<noteq> []" "length (rd_nodes r) + Suc k \<le> 1000"
    "spaces ws" and rest: "rest r = ws @ (''{'' @ ws' @ s @ ''}'') @ t"
  have rest': "rest r = ws @ CHR ''{'' # ws' @ s @ CHR ''}'' # t" using rest by simp
  show "unless_fuel (\<lambda>r'. \<exists>w. reads r (ws @ ''{'' @ ws' @ s @ ''}'') w r' \<and> value_eq w v) (readValue fuel r)"
  proof (cases fuel)
    case (Suc f)
    have "length (rd_nodes r) \<le> 1000" using a(4) by simp
    from readValue_open(1) [OF a(1,2) this a(5) rest' refl, of f] obtain w1 r1 where
      w1: "payload w1 = ObjectV []" and r1: "reads r (ws @ ''{'') w1 r1" and
      eq: "readValue (Suc f) r = rbind (readObjectLoop f [] r1) close_value" by blast
    have rest1: "rest r1 = ws' @ s @ CHR ''}'' # t" using reads_rest [OF r1] rest' by simp
    have "unless_fuel (\<lambda>r'. \<exists>w ms. reads r1 (ws' @ s @ [CHR ''}'']) w r' \<and> payload w = ObjectV ([] @ ms) \<and> list_all2 same_member ms m)
        (readObjectLoop f [] r1)"
      by (rule members_readD [OF m reads_focus [OF r1 a(2)] w1 v(2) _ reads_clean [OF r1] _ _ ws' rest1])
        (use reads_nodes [OF r1] a(3,4) in simp_all)
    then have "unless_fuel (\<lambda>r'. \<exists>w. reads r (ws @ ''{'' @ ws' @ s @ ''}'') w r' \<and>
        (\<exists>ms. payload w = ObjectV ms \<and> list_all2 same_member ms m)) (readObjectLoop f [] r1)"
      using reads_trans [OF r1] by (fastforce elim!: unless_fuel_mono)
    then show ?thesis unfolding Suc eq by (rule closes [OF _ a(2)]) (use v(1) value_eq_object in blast)
  qed simp
qed

text \<open>Empty containers.\<close>

lemma value_eq_empty: "payload v \<in> {ArrayV [], ObjectV []} \<Longrightarrow> payload w = payload v \<Longrightarrow> value_eq w v"
  by (cases v; cases w) auto

lemma empty_close:
  assumes "reads r b w1 r1" "payload w1 = payload v" "payload v \<in> {ArrayV [], ObjectV []}" "focus r = Some w0"
  shows "unless_fuel (\<lambda>r'. \<exists>w. reads r (b @ e) w r' \<and> value_eq w v)
    (rbind (Inr (True, advance (length e) r1)) close_value)"
  by (rule closes [where P = "\<lambda>d. d = payload v", OF _ assms(4)])
    (use reads_advance [OF assms(1), of e] assms(2) value_eq_empty [OF assms(3)] in \<open>auto simp del: rbind_Inr\<close>)

lemma empty_object_read:
  assumes v: "payload v = ObjectV []" and ws': "spaces ws'"
  shows "reads_as k v (''{'' @ ws' @ ''}'')"
  unfolding reads_as_def
proof (intro allI impI)
  fix fuel ws t w0 and r :: reader
  assume a: "rd_commentsBefore r = []" "focus r = Some w0" "length (rd_nodes r) + k \<le> 1000"
    "spaces ws" and rest: "rest r = ws @ (''{'' @ ws' @ ''}'') @ t"
  have n: "length (rd_nodes r) \<le> 1000" using a(3) by simp
  have rest': "rest r = ws @ CHR ''{'' # ws' @ CHR ''}'' # t" using rest by simp
  show "unless_fuel (\<lambda>r'. \<exists>w. reads r (ws @ ''{'' @ ws' @ ''}'') w r' \<and> value_eq w v) (readValue fuel r)"
  proof (cases fuel)
    case (Suc f)
    from readValue_open(1) [OF a(1,2) n a(4) rest' refl, of f] obtain w1 r1 where
      w1: "payload w1 = ObjectV []" and r1: "reads r (ws @ ''{'') w1 r1" and
      eq: "readValue (Suc f) r = rbind (readObjectLoop f [] r1) close_value" by blast
    have rest1: "rest r1 = ws' @ CHR ''}'' # t" using reads_rest [OF r1] rest' by simp
    have "unless_fuel (\<lambda>r'. \<exists>w. reads r (ws @ ''{'' @ ws' @ ''}'') w r' \<and> value_eq w v) (rbind (readObjectLoop f [] r1) close_value)"
    proof (cases f)
      case (Suc f')
      obtain tok where tok: "lexes r1 (ws' @ ''}'') tok" "tok_type tok = tokenObjectEnd"
        using lexes_punctuation [OF _ rest1 ws', of tokenObjectEnd] by (auto simp: punctuation_def)
      then have "readObjectLoop (Suc f') [] r1 = Inr (True, advance (length (ws' @ ''}'')) r1)"
        by (simp add: lexes_def skipComments_other)
      with empty_close [OF r1, of v w0 "ws' @ ''}''"] show ?thesis unfolding Suc by (simp add: w1 v a(2))
    qed simp
    then show ?thesis unfolding Suc eq .
  qed simp
qed

lemma empty_array_read:
  assumes v: "payload v = ArrayV []" and ws': "spaces ws'"
  shows "reads_as k v (''['' @ ws' @ '']'')"
  unfolding reads_as_def
proof (intro allI impI)
  fix fuel ws t w0 and r :: reader
  assume a: "rd_commentsBefore r = []" "focus r = Some w0" "length (rd_nodes r) + k \<le> 1000"
    "spaces ws" and rest: "rest r = ws @ (''['' @ ws' @ '']'') @ t"
  have n: "length (rd_nodes r) \<le> 1000" using a(3) by simp
  have rest': "rest r = ws @ CHR ''['' # ws' @ CHR '']'' # t" using rest by simp
  show "unless_fuel (\<lambda>r'. \<exists>w. reads r (ws @ ''['' @ ws' @ '']'') w r' \<and> value_eq w v) (readValue fuel r)"
  proof (cases fuel)
    case (Suc f)
    from readValue_open(2) [OF a(1,2) n a(4) rest' refl, of f] obtain w1 r1 where
      w1: "payload w1 = ArrayV []" and r1: "reads r (ws @ ''['') w1 r1" and
      eq: "readValue (Suc f) r = rbind (if rest (skipSpaces r1) \<noteq> [] \<and> hd (rest (skipSpaces r1)) = CHR '']''
          then rbind (readToken (skipSpaces r1)) (\<lambda>(_, _, rb). Inr (True, rb))
          else readArrayLoop f 0 (skipSpaces r1)) close_value" by blast
    have rest1: "rest r1 = ws' @ CHR '']'' # t" using reads_rest [OF r1] rest' by simp
    have sk: "skipSpaces r1 = advance (length ws') r1"
      by (rule skipSpaces_exact [OF rest1 ws']) (simp add: is_space_def)
    obtain tok where "lexes (advance (length ws') r1) ([] @ '']'') tok"
      using lexes_punctuation [of "CHR '']''" tokenArrayEnd "advance (length ws') r1" "[]" t] rest1 by (auto simp: punctuation_def)
    then have "readToken (advance (length ws') r1) = Inr (True, tok, advance (length (ws' @ '']'')) r1)"
      by (simp add: lexes_def)
    with empty_close [OF r1, of v w0 "ws' @ '']''"] show ?thesis unfolding Suc eq sk using rest1 by (simp add: w1 v a(2))
  qed simp
qed

section \<open>The grammar is accepted\<close>

lemma grammar_read:
  "json_text n v a \<Longrightarrow> reads_as n v a"
  "json_elements n cs s \<Longrightarrow> elements_read n cs s"
  "json_members n m s \<Longrightarrow> members_read n m s"
proof (induction rule: json_text_json_elements_json_members.inducts)
  case (json_array cs v n s ws)
  then show ?case using array_read json_good_first(2) by blast
qed (blast intro: reads_as_plain reads_as_string empty_array_read empty_object_read object_read
    last_element_read element_read last_member_read member_read)+

lemma readToken_end:
  assumes "rest r = ws" "spaces ws"
  shows "readToken r = Inr (True, \<lparr>tok_type = tokenEndOfStream, tok_start = rd_current r + length ws,
    tok_end = rd_current r + length ws\<rparr>, advance (length ws) r)"
proof -
  have "takeWhile is_space ws = ws" using assms(2) by (simp add: list_all_iff takeWhile_eq_all_conv)
  then have "skipSpaces r = advance (length ws) r"
    using assms(1) by (simp add: skipSpaces_def del: takeWhile_eq_all_conv)
  then show ?thesis using assms by (simp add: readToken_def getNextChar_def tokenBody_def is_digit_def)
    (simp add: advance_def)
qed

lemma reader_accepts:
  assumes "json_text n v a" "n \<le> 999" "spaces ws" "spaces ws'"
  shows "\<exists>w. reader_parse (ws @ a @ ws') = Inr (True, w) \<and> value_eq w v"
proof -
  let ?doc = "ws @ a @ ws'"
  let ?r = "mk_reader features_all ?doc nullSingleton True"
  have rest: "rest ?r = ws @ a @ ws'" by (simp add: rest_def mk_reader_def)
  have dl: "delim ws'" using assms(4) by (cases ws') (auto simp: delim_def is_space_def is_digit_def)
  have "unless_fuel (\<lambda>r'. \<exists>w. reads ?r (ws @ a) w r' \<and> value_eq w v) (readValue (parse_fuel ?doc) ?r)"
    by (rule reads_asD [OF grammar_read(1) [OF assms(1)] _ _ _ _ assms(3) dl rest])
      (use assms(2) in \<open>simp_all add: mk_reader_def focus_def\<close>)
  moreover have "readValue (parse_fuel ?doc) ?r \<noteq> Inl OutOfFuel"
    using fineD(1) [OF fine_readValue] by (simp add: fuelled_def)
  ultimately obtain w r' where r': "readValue (parse_fuel ?doc) ?r = Inr (True, r')"
    "reads ?r (ws @ a) w r'" "value_eq w v" by (auto simp: unless_fuel_def)
  have "rest r' = ws'" using reads_rest [OF r'(2)] rest by simp
  from readToken_end [OF this assms(4)] have "skipCommentTokens r' =
      Inr (\<lparr>tok_type = tokenEndOfStream, tok_start = rd_current r' + length ws', tok_end = rd_current r' + length ws'\<rparr>,
        advance (length ws') r')"
    by (simp add: skipCommentTokens_def skipComments_other)
  moreover have "rd_root r' = w" using r'(2) by (simp add: reads_def put_focus_def mk_reader_def)
  ultimately have "reader_parse ?doc = Inr (True, w)"
    using reads_clean [OF r'(2)] by (simp add: reader_parse_def parse_def r'(1)) (simp add: advance_def features_all_def)
  with r'(3) show ?thesis by blast
qed

end
