(* ===== verification/Print_Parse.thy ===== *)
theory Print_Parse
  imports Grammar_Reading
begin

text \<open>
  The writers print texts of the grammar, so the reader takes back what they print. \<open>printable K n v\<close>
  describes the values for which that holds: no comments, integers of the type that the
  reader chooses, reals that are finite, strings in UTF-8, arrays without holes, at most \<open>n\<close> levels of containers, and
  names of members that satisfy \<open>K\<close>, a restriction that only the deprecated writers need.
\<close>

section \<open>Printable values\<close>

definition printable_scalar :: "jdata \<Rightarrow> bool" where
  "printable_scalar d \<longleftrightarrow> plain_scalar d \<or> (\<exists>s. d = StringV s \<and> utf8_text s)"

primrec printable :: "(string \<Rightarrow> bool) \<Rightarrow> nat \<Rightarrow> jvalue \<Rightarrow> bool" where
  "printable K 0 v \<longleftrightarrow> \<not> hasCommentForValue v \<and>
     (printable_scalar (payload v) \<or> payload v = ArrayV [] \<or> payload v = ObjectV [])"
| "printable K (Suc n) v \<longleftrightarrow> \<not> hasCommentForValue v \<and> (case payload v of
       ArrayV m \<Rightarrow> map fst m = [0..<length m] \<and> length m < 2 ^ 32 \<and> (\<forall>p\<in>set m. printable K n (snd p))
     | ObjectV m \<Rightarrow> smap_ok m \<and> (\<forall>p\<in>set m. K (fst p) \<and> utf8_text (fst p) \<and> printable K n (snd p))
     | d \<Rightarrow> printable_scalar d)"

lemma printable_no_comment: "printable K n v \<Longrightarrow> \<not> hasCommentForValue v"
  by (cases n) simp_all

lemma printable_cases:
  assumes "printable K n v"
  obtains (scalar) "plain_scalar (payload v)"
  | (str) s where "payload v = StringV s" "utf8_text s"
  | (empty_array) "payload v = ArrayV []"
  | (empty_object) "payload v = ObjectV []"
  | (array) k c cs where "n = Suc k" "dense (c # cs) v" "length (c # cs) < 2 ^ 32" "\<forall>c'\<in>set (c # cs). printable K k c'"
  | (object) k m where "n = Suc k" "payload v = ObjectV m" "smap_ok m" "m \<noteq> []"
      "\<forall>p\<in>set m. K (fst p) \<and> utf8_text (fst p) \<and> printable K k (snd p)"
proof (cases "printable_scalar (payload v)")
  case True
  then show thesis using scalar str by (auto simp: printable_scalar_def)
next
  case False
  then consider (a) m where "payload v = ArrayV m" | (b) m where "payload v = ObjectV m"
    using assms by (cases n) (auto split: jdata.splits)
  then show thesis
  proof cases
    case (a m)
    show thesis
    proof (cases m)
      case (Cons p m')
      obtain k where n: "n = Suc k" using assms False a Cons by (cases n) auto
      have "map fst m = [0..<length (map snd m)]" using assms n a by simp
      then have "m = enumerate 0 (map snd m)" unfolding enumerate_eq_zip by (metis add_0 zip_map_fst_snd)
      then have "dense (map snd m) v" using a by (simp add: dense_def)
      with array [of k "snd p" "map snd m'"] show thesis using assms n a Cons by auto
    qed (use empty_array a in simp)
  next
    case (b m)
    show thesis
    proof (cases "m = []")
      case ne: False
      then obtain k where n: "n = Suc k" using assms False b by (cases n) auto
      with object [of k m] assms ne b show thesis by simp
    qed (use empty_object b in simp)
  qed
qed

lemma dense_children:
  assumes "dense cs v" "length cs < 2 ^ 32"
  shows "array_children v = cs"
  using assms by (intro nth_equalityI) (simp_all add: array_children_def dense_size dense_elements)

lemma object_children_map:
  assumes "payload v = ObjectV m" "smap_ok m"
  shows "object_children v = m"
proof -
  have "members v (fst p) = Some (snd p)" if "p \<in> set m" for p
    using assms that by (simp add: members_def smap_find_iff)
  then show ?thesis using assms by (simp add: object_children_def getMemberNames_def map_idI)
qed

lemma quoted_plain: "utf8_text s \<Longrightarrow> quoted_form s (valueToQuotedStringN s False)"
  by (auto simp: quoted_form_def)

lemma json_scalars:
  "plain_scalar (payload v) \<Longrightarrow> json_text n v (scalar_text v)"
  "payload v = StringV s \<Longrightarrow> utf8_text s \<Longrightarrow> json_text n v (scalar_text v)"
  "payload v = ArrayV [] \<Longrightarrow> json_text n v ''[]''"
  "payload v = ObjectV [] \<Longrightarrow> json_text n v ''{}''"
  using json_scalar [of v n] json_string [of v s "valueToQuotedStringN s False" n]
    json_empty_array [of v "[]" n] json_empty_object [of v "[]" n]
  by (simp_all add: quoted_plain) (simp add: scalar_text_def quoted_plain)

section \<open>The styled text\<close>

definition lead_in :: "string \<Rightarrow> bool \<Rightarrow> string" where
  "lead_in ind here = (if here then [] else LF # ind)"

lemma spaces_LF: "is_space LF" "is_space TAB" "is_space (CHR '' '')"
  by (simp_all add: is_space_def)

lemma styled_array:
  assumes "dense cs v" "length cs < 2 ^ 32"
  shows "styled_text ind here v = (if cs = [] then ''[]''
     else lead_in ind here @ ''['' @ styled_elements (ind @ [TAB]) cs @ LF # ind @ '']'')"
  using assms(1) dense_children [OF assms] dense_size [OF assms]
  by (simp add: styled_text.simps [of ind here v] dense_def lead_in_def)

lemma styled_object:
  assumes "payload v = ObjectV m" "smap_ok m"
  shows "styled_text ind here v = (if m = [] then ''{}''
     else lead_in ind here @ ''{'' @ styled_members (ind @ [TAB]) m @ LF # ind @ ''}'')"
  using assms(1) object_children_map [OF assms] by (simp add: styled_text.simps [of ind here v] lead_in_def)

lemma styled_lead_in: "spaces ind \<Longrightarrow> \<exists>ws. spaces ws \<and> styled_text ind here v = ws @ styled_text ind True v"
proof -
  assume "spaces ind"
  then have "spaces (LF # ind)" by (simp add: spaces_LF)
  then show ?thesis
    by (cases here) (auto simp: styled_text.simps [of ind _ v] Let_def split: jdata.splits if_splits
        intro: exI [of _ "LF # ind"] exI [of _ "[]"])
qed

text \<open>The leading white space of the first element belongs to the bracket.\<close>

lemma styled_elements_json:
  assumes "cs \<noteq> []" "\<forall>c\<in>set cs. json_text n c (styled_text ind True c)" "spaces ind" "spaces ws"
  shows "\<exists>s. styled_elements ind cs @ ws = (LF # ind) @ s \<and> json_elements n cs s"
  using assms(1,2)
proof (induction cs)
  case (Cons c cs)
  show ?case
  proof (cases "cs = []")
    case True
    then show ?thesis using Cons.prems(2) json_last_element [OF _ assms(4), of n c] by auto
  next
    case False
    then obtain s where s: "styled_elements ind cs @ ws = (LF # ind) @ s" "json_elements n cs s" using Cons by auto
    have "json_elements n (c # cs) (styled_text ind True c @ [] @ '','' @ (LF # ind) @ s)"
      by (rule json_element) (use Cons.prems(2) s(2) assms(3) spaces_LF in auto)
    then show ?thesis using s(1) False by auto
  qed
qed simp

lemma styled_members_json:
  assumes "m \<noteq> []" "\<forall>p\<in>set m. utf8_text (fst p) \<and> json_text n (snd p) (styled_text ind True (snd p))"
    "spaces ind" "spaces ws"
  shows "\<exists>s. styled_members ind m @ ws = (LF # ind) @ s \<and> json_members n m s"
  using assms(1,2)
proof (induction m)
  case (Cons p m)
  obtain k c where p: "p = (k, c)" by force
  let ?q = "valueToQuotedStringN k False"
  have q: "quoted_form k ?q" and c: "json_text n c (styled_text ind True c)"
    using Cons.prems(2) p quoted_plain by auto
  have sp: "spaces '' ''" by (simp add: is_space_def)
  obtain wv where wv: "spaces wv" "styled_text ind False c = wv @ styled_text ind True c"
    using styled_lead_in [OF assms(3)] by blast
  have sp2: "spaces ('' '' @ wv)" using wv(1) by (simp add: is_space_def)
  show ?case
  proof (cases "m = []")
    case True
    have "json_members n [(k, c)] (?q @ '' '' @ '':'' @ ('' '' @ wv) @ styled_text ind True c @ ws)"
      by (rule json_last_member [OF q sp sp2 c assms(4)])
    then show ?thesis using True p wv(2) by (intro exI conjI) auto
  next
    case False
    then obtain s where s: "styled_members ind m @ ws = (LF # ind) @ s" "json_members n m s" using Cons by auto
    have "spaces (LF # ind)" using assms(3) by (simp add: spaces_LF)
    from json_member [OF q sp sp2 c _ this s(2), of "[]"] False p wv(2) s(1) show ?thesis
      by (intro exI conjI) auto
  qed
qed simp

lemma styled_text_json: "printable K n v \<Longrightarrow> spaces ind \<Longrightarrow> json_text n v (styled_text ind True v)"
proof (induction n arbitrary: v ind rule: less_induct)
  case (less n)
  have sp: "spaces (ind @ [TAB])" "spaces (LF # ind @ [TAB])" "spaces (LF # ind)" using less.prems(2) by (simp_all add: spaces_LF)
  from less.prems(1) show ?case
  proof (cases rule: printable_cases)
    case scalar
    then have "styled_text ind True v = scalar_text v"
      by (auto simp: styled_text.simps plain_scalar_def split: jdata.splits)
    then show ?thesis using json_scalars(1) [OF scalar] by simp
  next
    case (str s)
    then show ?thesis using json_scalars(2) [OF str] by (simp add: styled_text.simps)
  next
    case (array k c cs)
    have "\<exists>s. styled_elements (ind @ [TAB]) (c # cs) @ (LF # ind) = (LF # ind @ [TAB]) @ s \<and> json_elements k (c # cs) s"
      by (rule styled_elements_json) (use array(1,4) less.IH sp in auto)
    then obtain s where s: "styled_elements (ind @ [TAB]) (c # cs) @ (LF # ind) = (LF # ind @ [TAB]) @ s" "json_elements k (c # cs) s"
      by blast
    have "styled_text ind True v = ''['' @ (styled_elements (ind @ [TAB]) (c # cs) @ (LF # ind)) @ '']''"
      using styled_array [OF array(2,3)] by (simp add: lead_in_def del: styled_elements.simps)
    also have "\<dots> = ''['' @ (LF # ind @ [TAB]) @ s @ '']''" unfolding s(1) by simp
    finally show ?thesis using json_array [OF array(2) s(2) sp(2)] by (simp add: array(1))
  next
    case (object k m)
    have "\<exists>s. styled_members (ind @ [TAB]) m @ (LF # ind) = (LF # ind @ [TAB]) @ s \<and> json_members k m s"
      by (rule styled_members_json) (use object less.IH sp in auto)
    then obtain s where s: "styled_members (ind @ [TAB]) m @ (LF # ind) = (LF # ind @ [TAB]) @ s" "json_members k m s"
      by blast
    have "styled_text ind True v = ''{'' @ (styled_members (ind @ [TAB]) m @ (LF # ind)) @ ''}''"
      using styled_object [OF object(2,3)] object(4) by (simp add: lead_in_def)
    also have "\<dots> = ''{'' @ (LF # ind @ [TAB]) @ s @ ''}''" unfolding s(1) by simp
    finally show ?thesis using json_object [OF object(2,3) s(2) sp(2)] by (simp add: object(1))
  qed (simp_all add: json_scalars styled_array [of "[]"] dense_def styled_object [of v "[]"])
qed

lemma printable_comment_free: "printable K n v \<Longrightarrow> comment_free v"
proof (induction n arbitrary: v rule: less_induct)
  case (less n)
  note nc = printable_no_comment [OF less.prems]
  have leaf: "comment_free v" if "array_children v = []" "object_children v = []" "\<not> hasCommentForValue v" for v
    using that by (simp add: comment_free.simps [of v])
  from less.prems show ?case
  proof (cases rule: printable_cases)
    case (array k c cs)
    then have "array_children v = c # cs" "object_children v = []"
      using dense_children [of "c # cs" v] by (auto simp: dense_def object_children_def getMemberNames_def)
    then show ?thesis using nc less.IH [of k] array(1,4) by (simp add: comment_free.simps [of v] list_all_iff)
  next
    case (object k m)
    then have "set (array_children v) \<subseteq> {nullSingleton}" "object_children v = m"
      using object_children_map [of v m] by (auto simp: array_children_def elements_def)
    moreover have "comment_free nullSingleton"
      by (rule less.IH [of 0])
        (use object(1) in \<open>simp_all add: printable_scalar_def plain_scalar_def initBasic_def hasCommentForValue_def hasComment_def comments_has_def\<close>)
    ultimately show ?thesis using nc less.IH [of k] object(1,5) by (auto simp: comment_free.simps [of v] list_all_iff)
  qed (use nc in \<open>auto intro!: leaf simp: plain_scalar_def array_children_def size_of_def object_children_def
      getMemberNames_def split: jdata.splits\<close>)
qed

section \<open>FastWriter\<close>

lemma fw_put_put: "fw_put t (fw_put s w) = fw_put (s @ t) w"
  by (simp add: fw_put_def)

lemma fw_put_sel [simp]:
  "fw_dropNullPlaceholders (fw_put s w) = fw_dropNullPlaceholders w"
  "fw_yamlCompatibilityEnabled (fw_put s w) = fw_yamlCompatibilityEnabled w"
  "fw_omitEndingLineFeed (fw_put s w) = fw_omitEndingLineFeed w"
  by (simp_all add: fw_put_def)

definition fw_prints :: "nat \<Rightarrow> jvalue \<Rightarrow> bool" where
  "fw_prints n v \<longleftrightarrow> (\<forall>w. \<not> fw_dropNullPlaceholders w \<longrightarrow> (\<exists>a. json_text n v a \<and> fw_writeValue v w = fw_put a w))"

lemma fw_elements_json:
  assumes "cs \<noteq> []" "\<forall>c\<in>set cs. fw_prints n c" "\<not> fw_dropNullPlaceholders w"
  shows "\<exists>s. json_elements n cs s \<and> fw_elements first cs w = fw_put ((if first then [] else '','') @ s) w"
  using assms
proof (induction cs arbitrary: first w)
  case (Cons c cs)
  let ?w = "if first then w else fw_put '','' w"
  have dn: "\<not> fw_dropNullPlaceholders ?w" using Cons.prems(3) by (cases first) simp_all
  obtain a where a: "json_text n c a" "fw_writeValue c ?w = fw_put a ?w"
    using Cons.prems(2) dn unfolding fw_prints_def by (metis list.set_intros(1))
  show ?case
  proof (cases "cs = []")
    case True
    then show ?thesis using json_last_element [OF a(1), of "[]"] a(2) by (auto simp: fw_put_put intro!: exI)
  next
    case False
    obtain s where s: "json_elements n cs s" "fw_elements False cs (fw_put a ?w) = fw_put ('','' @ s) (fw_put a ?w)"
      using Cons.IH [OF False, of "fw_put a ?w" False] Cons.prems(2) dn by auto
    have "json_elements n (c # cs) (a @ [] @ '','' @ [] @ s)" by (rule json_element [OF a(1) _ _ s(1)]) simp_all
    then show ?thesis using s(2) a(2) by (auto simp: fw_put_put intro!: exI)
  qed
qed simp

lemma fw_members_json:
  assumes "m \<noteq> []" "\<forall>p\<in>set m. utf8_text (fst p) \<and> fw_prints n (snd p)" "\<not> fw_dropNullPlaceholders w"
  shows "\<exists>s. json_members n m s \<and> fw_members first m w = fw_put ((if first then [] else '','') @ s) w"
  using assms
proof (induction m arbitrary: first w)
  case (Cons p m)
  obtain k c where p: "p = (k, c)" by force
  let ?q = "valueToQuotedStringN k False" and ?wv = "if fw_yamlCompatibilityEnabled w then '' '' else []"
  let ?w = "fw_put ('':'' @ ?wv) (fw_put ?q (if first then w else fw_put '','' w))"
  have q: "quoted_form k ?q" using Cons.prems(2) p quoted_plain by simp
  have sp: "spaces ?wv" by (simp add: is_space_def)
  have dn: "\<not> fw_dropNullPlaceholders ?w" using Cons.prems(3) by (cases first) simp_all
  then obtain a where a: "json_text n c a" "fw_writeValue c ?w = fw_put a ?w"
    using Cons.prems(2) p unfolding fw_prints_def by (metis list.set_intros(1) snd_conv)
  have colon: "(if fw_yamlCompatibilityEnabled w then '': '' else '':'') = '':'' @ ?wv" by simp
  show ?case
  proof (cases "m = []")
    case True
    have "json_members n [(k, c)] (?q @ [] @ '':'' @ ?wv @ a @ [])"
      by (rule json_last_member [OF q _ sp a(1)]) simp_all
    then show ?thesis using True p a(2) by (auto simp: fw_put_put intro!: exI)
  next
    case False
    obtain s where s: "json_members n m s" "fw_members False m (fw_put a ?w) = fw_put ('','' @ s) (fw_put a ?w)"
      using Cons.IH [OF False, of "fw_put a ?w" False] Cons.prems(2) dn by auto
    have "json_members n ((k, c) # m) (?q @ [] @ '':'' @ ?wv @ a @ [] @ '','' @ [] @ s)"
      by (rule json_member [OF q _ sp a(1) _ _ s(1)]) simp_all
    then show ?thesis using False p a(2) s(2) by (auto simp: fw_put_put intro!: exI)
  qed
qed simp

lemma fw_prints_printable: "printable K n v \<Longrightarrow> fw_prints n v"
proof (induction n arbitrary: v rule: less_induct)
  case (less n)
  show ?case unfolding fw_prints_def
  proof (intro allI impI)
    fix w :: fast_writer
    assume w: "\<not> fw_dropNullPlaceholders w"
    from less.prems show "\<exists>a. json_text n v a \<and> fw_writeValue v w = fw_put a w"
    proof (cases rule: printable_cases)
      case scalar
      then have "fw_writeValue v w = fw_put (scalar_text v) w"
        using w by (auto simp: fw_writeValue.simps plain_scalar_def scalar_text_def split: jdata.splits double.splits)
      then show ?thesis using json_scalars(1) [OF scalar] by blast
    next
      case (str s)
      then have "fw_writeValue v w = fw_put (scalar_text v) w" by (simp add: fw_writeValue.simps scalar_text_def)
      then show ?thesis using json_scalars(2) [OF str] by blast
    next
      case (array k c cs)
      have ne: "c # cs \<noteq> []" by simp
      have fp: "\<forall>c'\<in>set (c # cs). fw_prints k c'" using array(1,4) less.IH by blast
      have w1: "\<not> fw_dropNullPlaceholders (fw_put ''['' w)" using w by simp
      from fw_elements_json [OF ne fp w1, of True] obtain s where
        s: "json_elements k (c # cs) s" "fw_elements True (c # cs) (fw_put ''['' w) = fw_put s (fw_put ''['' w)" by auto
      have "json_text (Suc k) v (''['' @ [] @ s @ '']'')" by (rule json_array [OF array(2) s(1)]) simp
      then show ?thesis using s(2) array(1,2) dense_children [OF array(2,3)]
        by (auto simp: fw_writeValue.simps [of v] dense_def fw_put_put simp del: fw_elements.simps intro!: exI)
    next
      case (object k m)
      have fp: "\<forall>p\<in>set m. utf8_text (fst p) \<and> fw_prints k (snd p)" using object(1,5) less.IH by blast
      have w1: "\<not> fw_dropNullPlaceholders (fw_put ''{'' w)" using w by simp
      from fw_members_json [OF object(4) fp w1, of True] obtain s where
        s: "json_members k m s" "fw_members True m (fw_put ''{'' w) = fw_put s (fw_put ''{'' w)" by auto
      have "json_text (Suc k) v (''{'' @ [] @ s @ ''}'')" by (rule json_object [OF object(2,3) s(1)]) simp
      then show ?thesis using s(2) object(1,2) object_children_map [OF object(2,3)]
        by (auto simp: fw_writeValue.simps [of v] fw_put_put intro!: exI)
    next
      case empty_array
      then show ?thesis using json_scalars(3) [OF empty_array]
        by (auto simp: fw_writeValue.simps [of v] array_children_def size_of_def fw_put_put intro!: exI)
    next
      case empty_object
      then show ?thesis using json_scalars(4) [OF empty_object]
        by (auto simp: fw_writeValue.simps [of v] object_children_def getMemberNames_def fw_put_put intro!: exI)
    qed
  qed
qed

section \<open>Round trips\<close>

lemma styled_roundtrip:
  assumes "printable K n v" "n \<le> 999"
  shows "\<exists>text w. toStyledString v = Inr text \<and> reader_parse text = Inr (True, w) \<and> value_eq w v"
proof -
  have st: "toStyledString v = Inr ([] @ styled_text [] True v @ [LF])"
    using styled_of_comment_free [OF printable_comment_free [OF assms(1)]] by simp
  have "json_text n v (styled_text [] True v)" by (rule styled_text_json [OF assms(1)]) simp
  from reader_accepts [OF this assms(2), of "[]" "[LF]"] st show ?thesis by (auto simp: spaces_LF)
qed

lemma fast_roundtrip:
  fixes w :: fast_writer
  assumes "printable K n v" "n \<le> 999" "\<not> fw_dropNullPlaceholders w"
  shows "\<exists>x. reader_parse (fw_document (fw_write v w)) = Inr (True, x) \<and> value_eq x v"
proof -
  obtain a where a: "json_text n v a" "fw_writeValue v (w\<lparr>fw_document := []\<rparr>) = fw_put a (w\<lparr>fw_document := []\<rparr>)"
    using fw_prints_printable [OF assms(1), unfolded fw_prints_def, THEN spec, of "w\<lparr>fw_document := []\<rparr>"] assms(3) by auto
  have "fw_document (fw_write v w) = [] @ a @ (if fw_omitEndingLineFeed w then [] else [LF])"
    using a(2) by (simp add: fw_write_def fw_put_def)
  with reader_accepts [OF a(1) assms(2), of "[]" "if fw_omitEndingLineFeed w then [] else [LF]"] show ?thesis
    by (simp add: spaces_LF)
qed

lemma utf8_ascii:
  assumes "list_all (\<lambda>c. byte c < 128) s"
  shows "utf8_text s"
proof -
  have "utf8_of (map of_char s) = s \<and> list_all scalar (map of_char s)" using assms
    by (induction s) (auto simp: utf8_of_def codePointToUTF8_ascii scalar_def)
  then show ?thesis unfolding utf8_text_def by metis
qed

text \<open>C14 (print_parse_roundtrip). A value that \<^verbatim>\<open>toStyledString\<close> prints, or \<^verbatim>\<open>FastWriter\<close> when it does not drop
  null values, is read back by \<^verbatim>\<open>Reader::parse\<close>, which succeeds and yields a value equal to the printed one.
  This holds for values without comments
  whose integers have the type that the reader would choose, whose reals are finite (any double: 17 digits are
  printed), whose strings are UTF-8 and whose arrays have no holes, up to 999 levels deep, where the reader reaches its stack limit.\<close>

theorem print_parse_roundtrip:
  assumes "printable (\<lambda>_. True) n v" "n \<le> 999"
  shows "(\<exists>text w. toStyledString v = Inr text \<and> reader_parse text = Inr (True, w) \<and> value_eq w v) \<and>
    (\<not> fw_dropNullPlaceholders fw \<longrightarrow>
      (\<exists>w. reader_parse (fw_document (fw_write v fw)) = Inr (True, w) \<and> value_eq w v))"
  using styled_roundtrip [OF assms] fast_roundtrip [OF assms] by blast

theorem print_parse_roundtrip_witness:
  "let v = initBasic (ObjectV [(''id'', value_of_int 7), (''to'', initBasic (ArrayV [(0, value_of_string ''a'')])),
    (''x'', initBasic (RealV (DFin False 7205759403792794 (- 56))))])
   in (\<exists>text w. toStyledString v = Inr text \<and> reader_parse text = Inr (True, w) \<and> value_eq w v) \<and>
    (\<exists>w. reader_parse (fw_document (fw_write v fast_writer_init)) = Inr (True, w) \<and> value_eq w v)"
proof -
  let ?v = "initBasic (ObjectV [(''id'', value_of_int 7), (''to'', initBasic (ArrayV [(0, value_of_string ''a'')])),
    (''x'', initBasic (RealV (DFin False 7205759403792794 (- 56))))])"
  have "utf8_text ''id''" "utf8_text ''to''" "utf8_text ''x''" "utf8_text ''a''" by (rule utf8_ascii; simp)+
  then have "printable (\<lambda>_. True) (Suc (Suc 0)) ?v"
    by (simp add: initBasic_def plain_scalar_def ieee_def printable_scalar_def int_limits smap_ok_def hasCommentForValue_def
        hasComment_def comments_has_def)
  from print_parse_roundtrip [OF this, of fast_writer_init] show ?thesis by (simp add: fast_writer_init_def Let_def)
qed

end
