(* ===== verification/Server_Runs.thy ===== *)
theory Server_Runs
  imports Signal_Requests Print_Parse
begin

text \<open>
  Whole runs of the server: what can end the process, how the server shuts down, and how a message
  gets from one client to another. The steps of the threads (\<open>Ws_System\<close>), the requests
  (\<open>Signal_Requests\<close>) and the JSON library (\<open>Print_Parse\<close>) meet here.
\<close>

abbreviation server_step :: "ice_server \<Rightarrow> signal_server ws_system \<Rightarrow> ws_event \<Rightarrow> signal_server ws_system \<Rightarrow> bool" where
  "server_step ice \<equiv> ws_step (OnReceive ice) OnClose"

abbreviation server_reach :: "ice_server \<Rightarrow> signal_server ws_system \<Rightarrow> bool" where
  "server_reach ice \<equiv> reach (\<lambda>s. s = ws_init SignalServer) (server_step ice)"

section \<open>Some states\<close>

lemma server_start: "ws_init SignalServer = s \<Longrightarrow> server_reach ice s"
  by (auto intro: reach_init)

text \<open>A connection is open, and its first message waits.\<close>

definition opened :: "signal_server ws_system" where
  "opened = (ws_init SignalServer)\<lparr>srv := on_open 1 SignalServer, phase_of := (\<lambda>_. Fresh)(1 := OpenPlain),
     pushed := [mk_action SUBSCRIBE 1 None]\<rparr>"

lemma opened_reach: "server_reach ice opened"
proof -
  have "server_step ice (ws_init SignalServer) (EvOpen 1) opened"
    using ws_step.step_open [of "ws_init SignalServer" 1 "OnReceive ice" OnClose]
    by (simp add: opened_def ws_init_def)
  then show ?thesis by (blast intro: reach_step reach_init)
qed

definition bracket :: message where
  "bracket = \<lparr>msg_opcode = op_text, msg_payload = ''[]''\<rparr>"

definition hello :: message where
  "hello = \<lparr>msg_opcode = op_text, msg_payload = ''{}''\<rparr>"

text \<open>The same connection once its opening has been processed and a message waits.\<close>

definition greeted_with :: "message \<Rightarrow> signal_server ws_system" where
  "greeted_with m = opened\<lparr>srv := SignalServer\<lparr>m_con_list_plain := [1], m_actions := [mk_action MESSAGE 1 (Some m)]\<rparr>,
     pushed := [mk_action SUBSCRIBE 1 None, mk_action MESSAGE 1 (Some m)],
     processed := [mk_action SUBSCRIBE 1 None]\<rparr>"

lemma greeted_reach: "server_reach ice (greeted_with m)"
proof -
  let ?t = "opened\<lparr>srv := on_message 1 m (srv opened), pushed := pushed opened @ [mk_action MESSAGE 1 (Some m)]\<rparr>"
  have t: "server_step ice opened (EvMessage 1 m) ?t"
    by (rule ws_step.step_message) (simp_all add: opened_def ws_init_def is_open_def)
  have "server_step ice ?t (EvProcess good_net) (greeted_with m)"
    using ws_step.step_process [of ?t "OnReceive ice" OnClose good_net True "srv (greeted_with m)"]
    by (simp add: greeted_with_def opened_def ws_init_def process_messages_step_def process_action_def on_open_def
        on_message_def push_action_def SignalServer_def WebsocketServer_def ws_server.defs)
  with t opened_reach [of ice] show ?thesis by (blast intro: reach_step)
qed

definition exiting :: "signal_server ws_system \<Rightarrow> signal_server ws_system" where
  "exiting s = s\<lparr>srv := exit_notify (srv s), exit_at := ExitStopPlain\<rparr>"

lemma exit_step: "crashed s = None \<Longrightarrow> exit_at s = ExitWaiting \<Longrightarrow> server_step ice s (EvExit True) (exiting s)"
  unfolding exiting_def by (rule ws_step.step_exit_message)

section \<open>Which actions throw\<close>

text \<open>A text that the server handles without an exception, whatever its state.\<close>

definition harmless :: "string \<Rightarrow> bool" where
  "harmless text \<longleftrightarrow> (case reader_parse text of Inr (ok, v) \<Rightarrow> (if ok then acceptable v else True) | Inl e \<Rightarrow> False)"

definition harmless_action :: "action \<Rightarrow> bool" where
  "harmless_action a \<longleftrightarrow> (act_type a = MESSAGE \<longrightarrow>
     (case act_msg a of None \<Rightarrow> True | Some m \<Rightarrow> msg_opcode m = op_text \<longrightarrow> harmless (msg_payload m)))"

lemma OnReceive_harmless:
  assumes "sig_inv s" "int (length (m_map_peers s)) < INT_MAX"
  shows "returns (OnReceive ice E h text s) \<longleftrightarrow> harmless text"
proof (cases "reader_parse text")
  case (Inr p)
  obtain i where i: "next_id_loop (succ_id (m_last_id s)) s = Some i" using sig_inv_NextID [OF assms] by blast
  obtain ok v where p: "reader_parse text = Inr (ok, v)" using Inr by (cases p) simp
  show ?thesis
  proof (cases ok)
    case True
    then have v: "reader_parse text = Inr (True, v)" using p by simp
    show ?thesis using OnReceive_returns [OF v i] v by (simp add: harmless_def)
  qed (simp add: p OnReceive_def harmless_def)
qed (simp add: OnReceive_def harmless_def)

lemma OnClose_total: "returns (OnClose E h s)"
proof (cases "smap_find (m_map_peers s) h")
  case (Some p)
  obtain n where n: "gone_notice (peer_id p) nullSingleton = Inr n"
    unfolding gone_notice_def using assign_members_fresh by blast
  have "returns (notify_partner E i n u)" for i u by (simp add: returns_iff notify_partner_total)
  then show ?thesis by (simp add: OnClose_def Some n Let_def)
qed (simp add: OnClose_def)

lemma process_action_returns:
  assumes "sig_inv s" "int (length (m_map_peers s)) < INT_MAX"
  shows "returns (process_action (OnReceive ice) OnClose E a s) \<longleftrightarrow> harmless_action a"
proof (cases "act_type a")
  case UNSUBSCRIBE
  moreover have "\<exists>t. OnClose E (act_hdl a) u = Inr t" for u using OnClose_total returns_iff by blast
  ultimately show ?thesis by (simp add: process_action_def harmless_action_def)
next
  case MESSAGE
  then show ?thesis using OnReceive_harmless [OF assms, of ice E "act_hdl a"]
    by (auto simp: process_action_def harmless_action_def returns_iff [of "OnReceive ice E h x y" for E h x y] split: option.splits)
qed (simp_all add: process_action_def harmless_action_def)

text \<open>The table grows by at most one peer with each action.\<close>

lemma length_smap_put: "length (smap_put k v m) \<le> Suc (length m)"
  by (induction k v m rule: smap_put.induct) auto

lemma length_smap_erase: "length (smap_erase k m) \<le> length m"
  by (simp add: smap_erase_def)

lemma process_action_length:
  assumes "process_action (OnReceive ice) OnClose E a s = Inr (go_on, t)"
  shows "length (m_map_peers t) \<le> Suc (length (m_map_peers s))"
proof (cases "act_type a")
  case UNSUBSCRIBE
  let ?u = "s\<lparr>m_con_list_plain := sset_erase (act_hdl a) (m_con_list_plain s),
               m_con_list_tls := sset_erase (act_hdl a) (m_con_list_tls s)\<rparr>"
  have "OnClose E (act_hdl a) ?u = Inr t" using assms UNSUBSCRIBE by (simp add: process_action_def res_simps)
  then show ?thesis
    using postD [OF OnClose_effect, of E "act_hdl a" ?u t] length_smap_erase [of "act_hdl a" "m_map_peers s"]
    by (simp add: only_peers_def)
next
  case MESSAGE
  then have "t = s \<or> (\<exists>text. OnReceive ice E (act_hdl a) text s = Inr t)"
    using assms by (auto simp: process_action_def res_simps split: option.splits if_splits)
  then have "t = s \<or> received (act_hdl a) s t" by (blast dest: postD [OF OnReceive_effect])
  then show ?thesis using length_smap_put [of "act_hdl a" _ "m_map_peers s"] length_smap_erase [of "act_hdl a" "m_map_peers s"]
    by (auto simp: received_def only_peers_def)
qed (use assms in \<open>auto simp: process_action_def\<close>)

section \<open>What ends the process\<close>

lemma crash_action:
  assumes "server_reach ice s" "crashed s = Some e"
  obtains a as E where "m_actions (srv s) = a # as" "sys_inv s"
    "process_action (OnReceive ice) OnClose E a ((srv s)\<lparr>m_actions := as\<rparr>) = Inl e"
  using assms(1)
proof (cases rule: reach.cases)
  case reach_init
  then show thesis using assms(2) by (simp add: ws_init_def)
next
  case (reach_step s0 ev)
  have inv: "sys_inv s" by (rule server.reach_inv [OF assms(1)])
  from reach_step(2) show thesis
  proof (cases rule: ws_step.cases)
    case (step_crash E e')
    then show thesis using that assms(2) inv by (auto simp: process_messages_step_def split: list.splits)
  qed (use assms(2) in auto)
qed

text \<open>C5 (only_bad_messages_crash). Whatever clients do and however the threads interleave, when an exception has
  left the processing thread, and with it ended the process, then the action it was processing is a text
  message that is not harmless, and every message that is not harmless would have ended it. No opening or closing of a connection,
  no binary message, no failure to send and no state of the peer table can do it (below INT_MAX
  signed-in peers).\<close>

theorem only_bad_messages_crash:
  assumes "server_reach ice s" "int (length (m_map_peers (srv s))) < INT_MAX"
  shows "(crashed s \<noteq> None \<longrightarrow> (\<exists>h m as. m_actions (srv s) = mk_action MESSAGE h (Some m) # as \<and>
      msg_opcode m = op_text \<and> \<not> harmless (msg_payload m))) \<and>
    (\<forall>a as. crashed s = None \<and> processing s \<and> m_actions (srv s) = a # as \<longrightarrow>
      ((\<exists>t. server_step ice s (EvProcess E) t \<and> crashed t = None) \<longleftrightarrow> harmless_action a))"
proof (intro conjI impI allI)
  assume "crashed s \<noteq> None"
  then obtain e where "crashed s = Some e" by blast
  from crash_action [OF assms(1) this] obtain a as E where q: "m_actions (srv s) = a # as" and i: "sys_inv s"
    and p: "process_action (OnReceive ice) OnClose E a ((srv s)\<lparr>m_actions := as\<rparr>) = Inl e" .
  have "\<not> harmless_action a"
    using process_action_returns [of "(srv s)\<lparr>m_actions := as\<rparr>" ice E a] p i assms(2)
    by (simp add: sys_inv_def sig_inv_def)
  then show "\<exists>h m as. m_actions (srv s) = mk_action MESSAGE h (Some m) # as \<and>
      msg_opcode m = op_text \<and> \<not> harmless (msg_payload m)"
    using q by (cases a) (auto simp: harmless_action_def split: option.splits)
next
  fix a as assume a: "crashed s = None \<and> processing s \<and> m_actions (srv s) = a # as"
  have "sys_inv s" by (rule server.reach_inv [OF assms(1)])
  then have r: "returns (process_action (OnReceive ice) OnClose E a ((srv s)\<lparr>m_actions := as\<rparr>)) \<longleftrightarrow> harmless_action a"
    using process_action_returns [of "(srv s)\<lparr>m_actions := as\<rparr>" ice E a] assms(2) by (simp add: sys_inv_def sig_inv_def)
  show "(\<exists>t. server_step ice s (EvProcess E) t \<and> crashed t = None) \<longleftrightarrow> harmless_action a"
  proof
    assume "\<exists>t. server_step ice s (EvProcess E) t \<and> crashed t = None"
    then show "harmless_action a"
      using a r by (auto elim!: ws_stepE simp: process_messages_step_def)
  next
    assume "harmless_action a"
    then obtain go_on t where "process_messages_step (OnReceive ice) OnClose E (srv s) = Some (Inr (go_on, t))"
      using a r by (auto simp: process_messages_step_def returns_iff)
    then have "server_step ice s (EvProcess E)
        (s\<lparr>srv := t, processing := go_on, processed := processed s @ [hd (m_actions (srv s))]\<rparr>)"
      using a by (intro ws_step.step_process) simp_all
    then show "\<exists>t. server_step ice s (EvProcess E) t \<and> crashed t = None" using a by fastforce
  qed
qed

text \<open>The document \<^verbatim>\<open>[]\<close> ends the process.\<close>

theorem only_bad_messages_crash_witness:
  "\<exists>s. server_reach ICE s \<and> crashed s \<noteq> None \<and>
     (\<exists>h m as. m_actions (srv s) = mk_action MESSAGE h (Some m) # as \<and> \<not> harmless (msg_payload m))"
proof -
  let ?s = "greeted_with bracket"
  have r: "server_reach ICE ?s" by (rule greeted_reach)
  have p: "reader_parse ''[]'' = Inr (True, Value (ArrayV []) NoComments 0 2)" by code_simp
  obtain e where "process_messages_step (OnReceive ICE) OnClose good_net (srv ?s) = Some (Inl e)"
    by (simp add: greeted_with_def bracket_def process_messages_step_def process_action_def OnReceive_def p isMember_def
        find_member_def)
  then have "server_step ICE ?s (EvProcess good_net) (?s\<lparr>crashed := Some e\<rparr>)"
    by (intro ws_step.step_crash) (simp_all add: greeted_with_def opened_def ws_init_def)
  with r have c: "server_reach ICE (?s\<lparr>crashed := Some e\<rparr>)" by (rule reach_step)
  moreover have "int (length (m_map_peers (srv (?s\<lparr>crashed := Some e\<rparr>)))) < INT_MAX"
    by (simp add: greeted_with_def SignalServer_def WebsocketServer_def ws_server.defs int_limits)
  ultimately show ?thesis using only_bad_messages_crash [OF c]
    by (intro exI [of _ "?s\<lparr>crashed := Some e\<rparr>"]) fastforce
qed

section \<open>Shutting down\<close>

text \<open>A run with its events.\<close>

inductive exec :: "('s \<Rightarrow> 'e \<Rightarrow> 's \<Rightarrow> bool) \<Rightarrow> 's \<Rightarrow> 'e list \<Rightarrow> 's \<Rightarrow> bool" for step where
  exec_Nil: "exec step s [] s"
| exec_Cons: "step s e t \<Longrightarrow> exec step t es u \<Longrightarrow> exec step s (e # es) u"

inductive_simps exec_Nil_iff [simp]: "exec step s [] u"

definition exits :: "action list \<Rightarrow> nat" where
  "exits as = length (filter (\<lambda>a. act_type a = EXIT) as)"

lemma exits_simps [simp]:
  "exits [] = 0" "exits (a # as) = (if act_type a = EXIT then Suc (exits as) else exits as)"
  "exits (as @ bs) = exits as + exits bs"
  by (simp_all add: exits_def)

lemma exits_0: "exits as = 0 \<longleftrightarrow> (\<forall>a\<in>set as. act_type a \<noteq> EXIT)"
  by (simp add: exits_def filter_empty_conv)

text \<open>Until the exit action is queued, the processing thread runs.\<close>

definition before_exit :: "signal_server ws_system \<Rightarrow> bool" where
  "before_exit s \<longleftrightarrow> (exit_at s \<noteq> ExitDone \<longrightarrow> processing s \<and> exits (pushed s) = 0)"

lemma process_stepE:
  assumes "process_messages_step (OnReceive ice) OnClose E s = Some (Inr (go_on, t))"
  obtains a as where "m_actions s = a # as" "m_actions t = as" "go_on \<longleftrightarrow> act_type a \<noteq> EXIT"
    "process_action (OnReceive ice) OnClose E a (s\<lparr>m_actions := as\<rparr>) = Inr (go_on, t)" "m_mutex_exit t = m_mutex_exit s"
  using assms sig.process_action_frame(1,2,4) [of ice E] by (fastforce simp: process_messages_step_def split: list.splits)

lemma sys_inv_history: "sys_inv s \<Longrightarrow> pushed s = processed s @ m_actions (srv s)"
  by (simp add: sys_inv_def ws_inv_def)

lemma reach_before_exit: "server_reach ice s \<Longrightarrow> before_exit s"
proof (induction rule: reach.induct)
  case (reach_step s e t)
  have q: "pushed s = processed s @ m_actions (srv s)" by (rule sys_inv_history [OF server.reach_inv [OF reach_step(1)]])
  from reach_step(2) show ?case
  proof (cases rule: ws_step.cases)
    case (step_process E go_on u)
    from step_process(5) obtain a as where "m_actions (srv s) = a # as" "go_on \<longleftrightarrow> act_type a \<noteq> EXIT"
      by (rule process_stepE)
    then show ?thesis using reach_step(3) step_process q by (auto simp: before_exit_def split: if_splits)
  qed (use reach_step(3) in \<open>auto simp: before_exit_def\<close>)
qed (simp add: before_exit_def ws_init_def)

text \<open>The steps of the network thread, and those of them that queue an action.\<close>

fun queueing :: "ws_event \<Rightarrow> bool" where
  "queueing (EvOpen h) = True"
| "queueing (EvOpenTls h) = True"
| "queueing (EvClose h) = True"
| "queueing (EvMessage h m) = True"
| "queueing _ = False"

fun network :: "ws_event \<Rightarrow> bool" where
  "network (EvPongTimeout E h) = True"
| "network EvIoReturn = True"
| "network e = queueing e"

fun harmless_event :: "ws_event \<Rightarrow> bool" where
  "harmless_event (EvMessage h m) = harmless_action (mk_action MESSAGE h (Some m))"
| "harmless_event _ = True"

text \<open>
  The state of a server on its way out: the ping thread has been told, no queued message can end the process, and
  there is at most one exit action, queued by the last step of the exit thread; the processing thread runs until it
  has taken it.
\<close>

definition leaving :: "signal_server ws_system \<Rightarrow> bool" where
  "leaving s \<longleftrightarrow> sys_inv s \<and> crashed s = None \<and> exit_at s \<noteq> ExitWaiting \<and> (exit_at s \<noteq> ExitStopPlain \<longrightarrow> io_stopped s) \<and>
     ping_told s \<and> (\<forall>a\<in>set (m_actions (srv s)). harmless_action a) \<and>
     exits (pushed s) = (if exit_at s = ExitDone then 1 else 0) \<and>
     (processing s \<longleftrightarrow> (exit_at s = ExitDone \<longrightarrow> exits (m_actions (srv s)) = 1))"

text \<open>Identifiers for the peers that the next \<open>k\<close> steps may sign in.\<close>

definition room :: "nat \<Rightarrow> signal_server ws_system \<Rightarrow> bool" where
  "room k s \<longleftrightarrow> int (length (m_map_peers (srv s)) + length (m_actions (srv s)) + k) < INT_MAX"

text \<open>What the exit thread, the ping thread and the processing thread still have to do.\<close>

definition exit_left :: "exit_pc \<Rightarrow> nat" where
  "exit_left p = (case p of ExitWaiting \<Rightarrow> 4 | ExitStopPlain \<Rightarrow> 3 | ExitStopTls \<Rightarrow> 2 | ExitPush \<Rightarrow> 1 | ExitDone \<Rightarrow> 0)"

definition remaining :: "signal_server ws_system \<Rightarrow> nat" where
  "remaining s = exit_left (exit_at s) + (if ping_at s = PingExited then 0 else 1) +
     (if processing s then Suc (length (takeWhile (\<lambda>a. act_type a \<noteq> EXIT) (m_actions (srv s)))) else 0)"

definition ended :: "signal_server ws_system \<Rightarrow> bool" where
  "ended s \<longleftrightarrow> exit_at s = ExitDone \<and> ping_at s = PingExited \<and> \<not> processing s"

lemma remaining_0: "remaining s = 0 \<longleftrightarrow> ended s"
  by (cases "exit_at s") (auto simp: remaining_def ended_def exit_left_def)

lemma takeWhile_no_exit:
  "exits as = 0 \<Longrightarrow> takeWhile (\<lambda>a. act_type a \<noteq> EXIT) (as @ bs) = as @ takeWhile (\<lambda>a. act_type a \<noteq> EXIT) bs"
  "exits as = 0 \<Longrightarrow> takeWhile (\<lambda>a. act_type a \<noteq> EXIT) as = as"
  "exits as = 1 \<Longrightarrow> takeWhile (\<lambda>a. act_type a \<noteq> EXIT) (as @ bs) = takeWhile (\<lambda>a. act_type a \<noteq> EXIT) as"
  by (induction as) (auto split: if_splits)

lemma room_step:
  assumes "room (Suc k) s" "server_step ice s e t"
  shows "room k t"
  using assms(2)
proof (cases rule: ws_step.cases)
  case (step_process E go_on u)
  from step_process(5) obtain a as where a: "m_actions (srv s) = a # as" "m_actions u = as"
    and p: "process_action (OnReceive ice) OnClose E a ((srv s)\<lparr>m_actions := as\<rparr>) = Inr (go_on, u)"
    by (rule process_stepE)
  have "length (m_map_peers u) \<le> Suc (length (m_map_peers (srv s)))" using process_action_length [OF p] by simp
  then show ?thesis using assms(1) step_process a by (simp add: room_def)
next
  case (step_pong_timeout E h)
  then show ?thesis using assms(1) frameworkD(3) [OF framework_on_pong_timeout [of E h "srv s"]] by (simp add: room_def)
next
  case (step_ping_all E)
  then show ?thesis using assms(1) frameworkD(3) [OF framework_ping_all [of E "srv s"]] by (simp add: room_def)
qed (use assms(1) in \<open>simp_all add: room_def on_open_def on_open_tls_def on_close_def on_message_def push_action_def
      exit_notify_def exit_push_def\<close>)

lemma leaving_no_crash:
  assumes "leaving s" "room 0 s" "m_actions (srv s) = a # as"
  shows "\<exists>x. process_action (OnReceive ice) OnClose E a ((srv s)\<lparr>m_actions := as\<rparr>) = Inr x"
  using process_action_returns [of "(srv s)\<lparr>m_actions := as\<rparr>" ice E a] assms
  by (simp add: leaving_def room_def sys_inv_def sig_inv_def returns_iff)

text \<open>A handler that queues an action: before the exit action there is one more to process, after it not.\<close>

lemma leaving_push:
  assumes l: "leaving s" and inv: "sys_inv t" and a: "harmless_action a" "act_type a \<noteq> EXIT"
    and f: "m_actions (srv t) = m_actions (srv s) @ [a]" "pushed t = pushed s @ [a]" "m_mutex_exit (srv t) = m_mutex_exit (srv s)"
      "crashed t = None" "exit_at t = exit_at s" "io_stopped t = io_stopped s" "ping_at t = ping_at s" "processing t = processing s"
  shows "leaving t \<and> remaining t \<le> Suc (remaining s)"
proof
  show "leaving t" using l inv a f by (simp add: leaving_def ping_told_def)
  show "remaining t \<le> Suc (remaining s)"
  proof (cases "exit_at s = ExitDone \<and> processing s")
    case True
    then have "exits (m_actions (srv s)) = 1" using l by (simp add: leaving_def)
    then show ?thesis using f by (simp add: remaining_def takeWhile_no_exit)
  next
    case False
    have "exits (m_actions (srv s)) = 0" if "processing s"
      using that False l sys_inv_history [of s] by (simp add: leaving_def)
    then show ?thesis using f a(2) by (simp add: remaining_def takeWhile_no_exit)
  qed
qed

lemma leaving_same:
  assumes "leaving s" "sys_inv t" "m_actions (srv t) = m_actions (srv s)" "pushed t = pushed s"
    "m_mutex_exit (srv t) = m_mutex_exit (srv s)" "crashed t = None" "exit_at t = exit_at s" "io_stopped t = io_stopped s"
    "ping_at t = ping_at s \<or> ping_at t = PingExited" "processing t = processing s"
  shows "leaving t"
  using assms by (auto simp: leaving_def ping_told_def)

lemma leaving_step:
  assumes "leaving s" "room 0 s" "server_step ice s e t" "harmless_event e"
  shows "leaving t \<and> prefix (pushed s) (pushed t) \<and>
    (if network e then remaining t \<le> remaining s + (if queueing e then 1 else 0) else remaining s = Suc (remaining t))"
proof -
  have inv: "sys_inv t" using server.inv_step [OF _ assms(3)] assms(1) by (simp add: leaving_def)
  note l = assms(1) [unfolded leaving_def]
  from assms(3) show ?thesis
  proof (cases rule: ws_step.cases)
    case (step_open h)
    then show ?thesis using leaving_push [OF assms(1) inv, of "mk_action SUBSCRIBE h None"]
      by (simp add: harmless_action_def on_open_def push_action_def)
  next
    case (step_open_tls h)
    then show ?thesis using leaving_push [OF assms(1) inv, of "mk_action TLS_SUBSCRIBE h None"]
      by (simp add: harmless_action_def on_open_tls_def push_action_def)
  next
    case (step_close h)
    then show ?thesis using leaving_push [OF assms(1) inv, of "mk_action UNSUBSCRIBE h None"]
      by (simp add: harmless_action_def on_close_def push_action_def)
  next
    case (step_message h m)
    then show ?thesis using leaving_push [OF assms(1) inv, of "mk_action MESSAGE h (Some m)"] assms(4)
      by (simp add: on_message_def push_action_def)
  next
    case (step_pong_timeout E h)
    then show ?thesis using frameworkD(3,4) [OF framework_on_pong_timeout [of E h "srv s"]] leaving_same [OF assms(1) inv]
      by (simp add: remaining_def)
  next
    case (step_process E go_on u)
    from step_process(5) obtain a as where a: "m_actions (srv s) = a # as" "m_actions u = as" "go_on \<longleftrightarrow> act_type a \<noteq> EXIT"
      "m_mutex_exit u = m_mutex_exit (srv s)" by (rule process_stepE)
    have "exit_at s = ExitDone" if "act_type a = EXIT"
      using l that a(1) sys_inv_history [of s] by (auto split: if_splits)
    then show ?thesis using a inv l step_process by (auto simp: leaving_def remaining_def ping_told_def)
  next
    case (step_crash E e')
    then obtain a as where a: "m_actions (srv s) = a # as"
      "process_action (OnReceive ice) OnClose E a ((srv s)\<lparr>m_actions := as\<rparr>) = Inl e'"
      by (auto simp: process_messages_step_def split: list.splits)
    then have False using leaving_no_crash [OF assms(1,2) a(1), of ice E] by simp
    then show ?thesis ..
  next
    case (step_ping_exit timeout)
    then show ?thesis using leaving_same [OF assms(1) inv] by (simp add: remaining_def)
  next
    case (step_exit_push)
    have "exits (m_actions (srv s)) = 0" "processing s"
      using l step_exit_push(4) sys_inv_history [of s] by simp_all
    then show ?thesis using inv l step_exit_push
      by (simp add: leaving_def remaining_def exit_left_def ping_told_def exit_push_def push_action_def harmless_action_def takeWhile_no_exit)
  next
    case step_io_return
    then show ?thesis using leaving_same [OF assms(1) inv] by (simp add: remaining_def)
  qed (use l inv in \<open>auto simp: leaving_def remaining_def exit_left_def ping_told_def cm_wait_leave_def\<close>)
qed

lemma leaving_run:
  assumes "exec (server_step ice) s es t" "leaving s" "room (length es) s" "\<forall>e\<in>set es. harmless_event e"
  shows "leaving t \<and> room 0 t \<and> prefix (pushed s) (pushed t) \<and>
    length (filter (\<lambda>e. \<not> network e) es) + remaining t \<le> remaining s + length (filter queueing es)"
  using assms
proof (induction rule: exec.induct)
  case (exec_Cons s e t es u)
  have r: "room (length es) t" "room 0 s" using exec_Cons(5) room_step [OF _ exec_Cons(1)] by (simp_all add: room_def)
  have st: "leaving t \<and> prefix (pushed s) (pushed t) \<and>
      (if network e then remaining t \<le> remaining s + (if queueing e then 1 else 0) else remaining s = Suc (remaining t))"
    using exec_Cons(6) by (intro leaving_step [OF exec_Cons(4) r(2) exec_Cons(1)]) simp
  have n: "queueing e \<Longrightarrow> network e" by (cases e) simp_all
  show ?case using exec_Cons(3) r(1) st exec_Cons(6) n by (auto split: if_splits)
qed simp

lemma leaving_goes_on:
  assumes "leaving s" "room 0 s" "\<not> ended s"
  shows "\<exists>e t. \<not> network e \<and> server_step ice s e t"
proof (cases "exit_at s = ExitDone")
  case True
  show ?thesis
  proof (cases "processing s")
    case True
    then obtain a as where a: "m_actions (srv s) = a # as"
      using assms(1) \<open>exit_at s = ExitDone\<close> by (cases "m_actions (srv s)") (auto simp: leaving_def)
    obtain go_on u where "process_messages_step (OnReceive ice) OnClose good_net (srv s) = Some (Inr (go_on, u))"
      using leaving_no_crash [OF assms(1,2) a, of ice good_net] by (auto simp: process_messages_step_def a)
    from ws_step.step_process [OF _ True this] assms(1) show ?thesis by (intro exI [of _ "EvProcess good_net"]) (auto simp: leaving_def)
  next
    case False
    then have "ping_at s = PingWaiting \<and> cm_ready (m_mutex_exit (srv s))"
      using assms(1,3) True by (auto simp: leaving_def ended_def ping_told_def)
    then show ?thesis using ws_step.step_ping_exit [of s False "OnReceive ice" OnClose] assms(1)
      by (intro exI [of _ "EvPingWake False"]) (auto simp: leaving_def cm_wait_leave_def)
  qed
next
  case False
  have "crashed s = None" "exit_at s \<noteq> ExitWaiting" using assms(1) by (simp_all add: leaving_def)
  then show ?thesis using False ws_step.step_stop_plain [of s "OnReceive ice" OnClose]
      ws_step.step_stop_tls [of s "OnReceive ice" OnClose] ws_step.step_exit_push [of s "OnReceive ice" OnClose]
    by (cases "exit_at s") (fastforce intro: exI [of _ "EvStop plain"] exI [of _ "EvStop tls"] exI [of _ EvExitPush])+
qed

lemma own_harmless: "\<not> network e \<Longrightarrow> harmless_event e"
  by (cases e) simp_all

lemma leaving_stuck:
  assumes "leaving s" "room 0 s"
  shows "(\<exists>e t. \<not> network e \<and> server_step ice s e t) \<longleftrightarrow> \<not> ended s"
    "(\<forall>e t. \<not> server_step ice s e t) \<longleftrightarrow> ended s \<and> \<not> io_running s"
proof -
  have no: "network e" if e: "ended s" "server_step ice s e t" for e t
  proof (rule ccontr)
    assume n: "\<not> network e"
    from leaving_step [OF assms(1,2) e(2) own_harmless [OF n]] n have "remaining s = Suc (remaining t)" by simp
    then show False using e(1) remaining_0 [of s] by simp
  qed
  then show "(\<exists>e t. \<not> network e \<and> server_step ice s e t) \<longleftrightarrow> \<not> ended s" using leaving_goes_on [OF assms(1,2)] by blast
  have "io_running s" if "server_step ice s e t" "network e" for e t using that by (cases rule: ws_step.cases) simp_all
  moreover have "server_step ice s EvIoReturn (s\<lparr>io_running := False\<rparr>)" if "ended s" "io_running s"
    using that assms(1) by (intro ws_step.step_io_return) (simp_all add: leaving_def ended_def)
  ultimately show "(\<forall>e t. \<not> server_step ice s e t) \<longleftrightarrow> ended s \<and> \<not> io_running s"
    using no leaving_goes_on [OF assms(1,2), of ice] by blast
qed

lemma exit_leaving:
  assumes "server_reach ice s" "ping_at s = PingWaiting" "server_step ice s (EvExit True) t"
    "\<forall>a\<in>set (m_actions (srv s)). harmless_action a"
  shows "leaving t" "remaining t \<le> length (m_actions (srv s)) + 5" "pushed t = pushed s" "exits (pushed s) = 0"
    "room k t = room k s"
proof -
  have t: "exit_at s = ExitWaiting" "crashed s = None" "t = exiting s" using assms(3) by (auto simp: exiting_def elim!: ws_stepE)
  have inv: "sys_inv s" by (rule server.reach_inv [OF assms(1)])
  have b: "processing s" "exits (pushed s) = 0" using reach_before_exit [OF assms(1)] t(1) by (simp_all add: before_exit_def)
  show "leaving t"
    using assms(2,4) server.inv_step [OF inv assms(3)] b t(2)
    by (simp add: t(3) leaving_def ping_told_def exiting_def exit_notify_def cm_notify_def)
  show "remaining t \<le> length (m_actions (srv s)) + 5"
    using assms(2) length_takeWhile_le [of "\<lambda>a. act_type a \<noteq> EXIT" "m_actions (srv s)"]
    by (simp add: t(3) remaining_def exit_left_def exiting_def exit_notify_def)
  show "pushed t = pushed s" "exits (pushed s) = 0" "room k t = room k s"
    using b by (simp_all add: t(3) exiting_def exit_notify_def room_def)
qed

text \<open>When all three threads have ended, everything queued before the exit action was processed, and nothing after it.\<close>

lemma ended_history:
  assumes "leaving s" "ended s"
  shows "\<exists>as e. processed s = as @ [e] \<and> act_type e = EXIT \<and> exits as = 0"
proof -
  have "exits (pushed s) = 1" "exits (m_actions (srv s)) \<noteq> 1" using assms by (simp_all add: leaving_def ended_def)
  moreover have "pushed s = processed s @ m_actions (srv s)" and b: "exits (butlast (processed s)) = 0"
    using assms(1) by (simp_all add: leaving_def sys_inv_history exits_0) (simp add: sys_inv_def ws_inv_def)
  ultimately have "exits (processed s) = 1" by auto
  then have "processed s = butlast (processed s) @ [last (processed s)]" by (cases "processed s") auto
  moreover from this have "act_type (last (processed s)) = EXIT"
    using b \<open>exits (processed s) = 1\<close> by (metis add.right_neutral exits_simps(1-3) zero_neq_one)
  ultimately show ?thesis using b by blast
qed

lemma prefix_before_exit:
  assumes "prefix xs (as @ e # bs)" "act_type e = EXIT" "exits xs = 0"
  shows "prefix xs as"
proof (rule ccontr)
  assume "\<not> prefix xs as"
  then have "prefix (as @ [e]) xs" using assms(1) by (auto simp: prefix_append prefix_Cons)
  then show False using assms(2,3) by (auto simp: prefix_def)
qed

text \<open>C7 (shutdown_completes). When the exit message arrives while the ping thread waits, the server shuts down in
  an orderly way, however its threads interleave and whatever handlers the network thread runs meanwhile, before the
  endpoints are stopped or, in flight, after that. In every run from there: the steps of the exit, the ping and the processing thread
  number at most five more than the actions queued, then and by handlers since; one of these threads can
  take a step until all three have ended; when they have, the processing thread has processed every action queued before
  the exit action, among them all that were queued when the message arrived, and none after it; and no thread at all can take a step
  exactly when also \<^verbatim>\<open>m_ios.run()\<close> has returned, so that \<^verbatim>\<open>Listen\<close> joins its threads and returns. No message may be one
  that ends the process, and the identifiers must not run out.\<close>

theorem shutdown_completes:
  assumes "server_reach ice s" "ping_at s = PingWaiting" "server_step ice s (EvExit True) t"
    "exec (server_step ice) t es u"
    "\<forall>a\<in>set (m_actions (srv s)). harmless_action a" "\<forall>e\<in>set es. harmless_event e"
    "int (length (m_map_peers (srv s)) + length (m_actions (srv s)) + length es) < INT_MAX"
  shows "crashed u = None \<and>
    length (filter (\<lambda>e. \<not> network e) es) \<le> length (m_actions (srv s)) + length (filter queueing es) + 5 \<and>
    ((\<exists>e v. \<not> network e \<and> server_step ice u e v) \<longleftrightarrow> \<not> ended u) \<and>
    (ended u \<longrightarrow> (\<exists>as e. pushed u = as @ e # m_actions (srv u) \<and> processed u = as @ [e] \<and> act_type e = EXIT \<and>
       prefix (pushed s) as)) \<and>
    ((\<forall>e v. \<not> server_step ice u e v) \<longleftrightarrow> ended u \<and> \<not> io_running u)"
proof -
  note l = exit_leaving [OF assms(1-3,5)]
  have "room (length es) t" unfolding l(5) unfolding room_def using assms(7) by simp
  note run = leaving_run [OF assms(4) l(1) this assms(6)]
  have u: "leaving u" "room 0 u" using run by blast+
  have pre: "prefix (pushed s) (pushed u)" using run unfolding l(3) by blast
  have "length (filter (\<lambda>e. \<not> network e) es) \<le> length (m_actions (srv s)) + length (filter queueing es) + 5"
    using run l(2) by linarith
  moreover have "\<exists>as e. pushed u = as @ e # m_actions (srv u) \<and> processed u = as @ [e] \<and> act_type e = EXIT \<and> prefix (pushed s) as"
    if en: "ended u"
  proof -
    obtain as e where p: "processed u = as @ [e]" "act_type e = EXIT" using ended_history [OF u(1) en] by blast
    have "sys_inv u" using u(1) unfolding leaving_def by blast
    from sys_inv_history [OF this] have q: "pushed u = as @ e # m_actions (srv u)" unfolding p(1) by simp
    from pre have "prefix (pushed s) as" unfolding q by (rule prefix_before_exit [OF _ p(2) l(4)])
    with p q show ?thesis by blast
  qed
  moreover have "crashed u = None" using u(1) unfolding leaving_def by blast
  ultimately show ?thesis using leaving_stuck [OF u, of ice] by (intro conjI impI)
qed

text \<open>A server without clients, its ping thread asleep.\<close>

definition asleep :: "signal_server ws_system" where
  "asleep = (ws_init SignalServer)\<lparr>srv := SignalServer\<lparr>m_mutex_exit := cm_wait_enter cm_init\<rparr>, ping_at := PingWaiting\<rparr>"

lemma asleep_reach: "server_reach ice asleep"
proof -
  have "server_step ice (ws_init SignalServer) EvPingEnter asleep"
    using ws_step.step_ping_enter [of "ws_init SignalServer" "OnReceive ice" OnClose]
    by (simp add: asleep_def ws_init_def SignalServer_def WebsocketServer_def ws_server.defs)
  then show ?thesis by (blast intro: reach_step reach_init)
qed

text \<open>A connection is opened by a handler in flight when the endpoints are already stopped.\<close>

definition stopping :: "signal_server ws_system" where
  "stopping = (exiting asleep)\<lparr>io_stopped := True, exit_at := ExitPush,
     srv := on_open 1 (srv (exiting asleep)), phase_of := (\<lambda>_. Fresh)(1 := OpenPlain), pushed := [mk_action SUBSCRIBE 1 None]\<rparr>"

lemma stopping_run: "exec (server_step ICE) (exiting asleep) [EvStop plain, EvOpen 1, EvStop tls] stopping"
proof -
  let ?t = "(exiting asleep)\<lparr>io_stopped := True, exit_at := ExitStopTls\<rparr>"
  let ?u = "?t\<lparr>srv := on_open 1 (srv ?t), phase_of := (phase_of ?t)(1 := OpenPlain), pushed := pushed ?t @ [mk_action SUBSCRIBE 1 None]\<rparr>"
  have st: "crashed asleep = None" "phase_of asleep = (\<lambda>_. Fresh)" "io_running asleep" "pushed asleep = []"
    by (simp_all add: asleep_def ws_init_def)
  have "server_step ICE (exiting asleep) (EvStop plain) ?t"
    by (rule ws_step.step_stop_plain) (simp_all add: exiting_def st)
  moreover have "server_step ICE ?t (EvOpen 1) ?u" by (rule ws_step.step_open) (simp_all add: exiting_def st)
  moreover have "server_step ICE ?u (EvStop tls) (?u\<lparr>io_stopped := True, exit_at := ExitPush\<rparr>)"
    by (rule ws_step.step_stop_tls) (simp_all add: exiting_def st)
  moreover have "?u\<lparr>io_stopped := True, exit_at := ExitPush\<rparr> = stopping" by (simp add: stopping_def exiting_def st)
  ultimately show ?thesis by (metis exec.intros)
qed

theorem shutdown_completes_witness:
  "crashed stopping = None \<and> \<not> ended stopping \<and> (\<exists>e v. \<not> network e \<and> server_step ICE stopping e v)"
proof -
  have st: "crashed asleep = None" "exit_at asleep = ExitWaiting" "ping_at asleep = PingWaiting" "m_actions (srv asleep) = []"
    "m_map_peers (srv asleep) = []"
    by (simp_all add: asleep_def ws_init_def SignalServer_def WebsocketServer_def ws_server.defs)
  have "server_step ICE asleep (EvExit True) (exiting asleep)" by (rule exit_step) (simp_all add: st)
  from shutdown_completes [OF asleep_reach st(3) this stopping_run] show ?thesis
    by (simp add: st int_limits) (simp add: stopping_def ended_def)
qed

section \<open>From one client to another\<close>

lemma resolve_present:
  "members v k = Some w \<Longrightarrow> resolveReference k v = Inr (v, w)"
  by (auto simp: members_def resolveReference_def split: jdata.splits)

lemma relayed_out:
  assumes "reader_parse text = Inr (True, v)" "acceptable v" "int (length (m_map_peers s)) < INT_MAX" "sig_inv s"
    "members v ''signal'' = Some jt" "asString jt = Inr ''message''"
    "members v ''to'' = Some jto" "asInt jto = Inr i"
  shows "\<exists>t. OnReceive ice E hdl text s = Inr t \<and>
    net_out t = net_out s @ (if expired E (GetConnectionFromID i s) then []
                             else text_frames E (styled v) (GetConnectionFromID i s) s)"
proof -
  have "returns (OnReceive ice E hdl text s)" using OnReceive_harmless [OF assms(4,3)] assms(1,2) by (simp add: harmless_def)
  then obtain t where t: "OnReceive ice E hdl text s = Inr t" by (auto simp: returns_iff)
  have "isObject v" using assms(5) by (cases "payload v") (simp_all add: members_def isObject_def type_of_def)
  then have "isMember ''signal'' v = Inr True" using assms(5) by (simp add: isMember_object)
  then have "ProcessMessage E hdl v s = Inr t"
    using t assms(1,6) resolve_present [OF assms(5)] by (simp add: OnReceive_def dispatch_def)
  from postD [OF ProcessMessage_out this] resolve_present [OF assms(7)] assms(8) t show ?thesis by auto
qed

text \<open>C6 (relayed_message_arrives). A message that one client sends to another arrives: when a text that parses to a
  value with \<^verbatim>\<open>signal\<close> \<open>message\<close> and the identifier of a signed-in peer in \<^verbatim>\<open>to\<close> is handled, exactly one frame goes out,
  to the connection of that peer and through its endpoint, and the text in it is again a document that parses, to a value equal to
  the one that was sent. This composes the request, the peer table, the writer and
  the reader; the value is one of those of \<open>print_parse_roundtrip\<close>, and the send itself does not fail.\<close>

theorem relayed_message_arrives:
  assumes "sig_inv s" "int (length (m_map_peers s)) < INT_MAX"
    and v: "reader_parse text = Inr (True, v)" "acceptable v" "printable (\<lambda>_. True) n v" "n \<le> 999"
      "members v ''signal'' = Some jt" "asString jt = Inr ''message''"
      "members v ''to'' = Some jto" "asInt jto = Inr (peer_id p)"
    and p: "smap_find (m_map_peers s) h = Some p" "\<not> expired E h"
      "\<And>out. env_send E (endpoint_of h s) h op_text out = None"
  shows "\<exists>t out w. OnReceive ice E hdl text s = Inr t \<and> net_out t = net_out s @ [SendFrame (endpoint_of h s) h op_text out] \<and>
    reader_parse out = Inr (True, w) \<and> value_eq w v"
proof -
  have h: "GetConnectionFromID (peer_id p) s = h" by (rule GetConnectionFromID_peer [OF assms(1) p(1)])
  obtain out w where o: "toStyledString v = Inr out" "reader_parse out = Inr (True, w)" "value_eq w v"
    using styled_roundtrip [OF v(3,4)] by blast
  from relayed_out [OF v(1,2) assms(2,1) v(5-8), of ice E hdl] show ?thesis
    using o p(2,3) by (auto simp: h text_frames_def)
qed

definition relay_text :: string where
  "relay_text = ''{\"signal\":\"message\",\"to\":1}''"

definition relay_value :: jvalue where
  "relay_value = Value (ObjectV [(''signal'', Value (StringV ''message'') NoComments 10 19),
     (''to'', Value (IntV 1) NoComments 25 26)]) NoComments 0 27"

theorem relayed_message_arrives_witness:
  "\<exists>t out w. OnReceive ICE good_net 1 relay_text two_peers = Inr t \<and> net_out t = [SendFrame plain 2 op_text out] \<and>
     reader_parse out = Inr (True, w) \<and> value_eq w relay_value"
proof -
  have r: "reader_parse relay_text = Inr (True, relay_value)" by code_simp
  have "utf8_text ''signal''" "utf8_text ''to''" "utf8_text ''message''" by (rule utf8_ascii; simp)+
  then have pr: "printable (\<lambda>_. True) (Suc 0) relay_value"
    by (simp add: relay_value_def plain_scalar_def printable_scalar_def int_limits smap_ok_def hasCommentForValue_def
        hasComment_def comments_has_def)
  have m: "members relay_value ''signal'' = Some (Value (StringV ''message'') NoComments 10 19)"
    "members relay_value ''to'' = Some (Value (IntV 1) NoComments 25 26)" "members relay_value ''type'' = None"
    "isObject relay_value" "\<not> isNull relay_value"
    by (simp_all add: relay_value_def members_def isObject_def isNull_def type_of_def)
  have i: "asString (Value (StringV ''message'') NoComments 10 19) = Inr ''message''"
    "asInt (Value (IntV 1) NoComments 25 26) = Inr 1"
    by (simp_all add: asString_def asInt_def isInt_def int_limits)
  have a: "acceptable relay_value" using m i by (simp add: acceptable_def message_acceptable_def member_or_null_def)
  let ?p = "\<lparr>peer_id = 1, peer_hdl = 2, peer_name = ''b''\<rparr>"
  have p: "smap_find (m_map_peers two_peers) 2 = Some ?p" "\<not> expired good_net 2"
    "\<And>out. env_send good_net (endpoint_of 2 two_peers) 2 op_text out = None"
    by (simp_all add: two_peers_sel expired_def good_net_def)
  have l: "int (length (m_map_peers two_peers)) < INT_MAX" by (simp add: two_peers_sel int_limits)
  from relayed_message_arrives [OF two_peers_inv l r a pr _ m(1) i(1) m(2) _ p, of ICE 1] i(2)
  show ?thesis by (simp add: two_peers_sel endpoint_of_def)
qed

end
