(* ===== verification/Main_Program.thy ===== *)
theory Main_Program
  imports Signal_Server
begin

text \<open>
  \<^verbatim>\<open>WebsocketSignalServer.cpp\<close>: the command line, the configuration file that overrides it, the text
  that describes the ICE server, the log filter and the choice of what to run. The content of the
  configuration file (None when the stream is not good) and the result of \<^verbatim>\<open>daemon\<close> are arguments.
  The model is that of the build for systems other than Windows.
\<close>

section \<open>The command line\<close>

fun get_option :: "string \<Rightarrow> string \<Rightarrow> string list \<Rightarrow> string" where
  "get_option command dflt (a # b # args) = (if a = command then b else get_option command dflt (b # args))"
| "get_option command dflt _ = dflt"

text \<open>\<^verbatim>\<open>atoi\<close>: white space, a sign, digits up to the first other byte; \<^verbatim>\<open>strtol\<close> saturates at the
  limits of \<^verbatim>\<open>long\<close> and the result is cut to \<^verbatim>\<open>int\<close>.\<close>

definition c_isspace :: "char \<Rightarrow> bool" where
  "c_isspace c \<longleftrightarrow> c = CHR '' '' \<or> (9 \<le> byte c \<and> byte c \<le> 13)"

definition digits_value :: "string \<Rightarrow> int" where
  "digits_value s = foldl (\<lambda>n c. 10 * n + (int (byte c) - 48)) 0 (takeWhile is_digit s)"

definition atoi :: "string \<Rightarrow> int" where
  "atoi s =
     (let t = dropWhile c_isspace s;
          n = (case t of
                 c # u \<Rightarrow> if c = CHR ''-'' then - digits_value u
                          else if c = CHR ''+'' then digits_value u else digits_value t
               | [] \<Rightarrow> 0)
      in s32 (max INT64_MIN (min INT64_MAX n)))"

section \<open>Settings\<close>

record settings =
  set_port :: int
  set_command :: string
  set_log_filter :: string
  set_ice_server :: string

definition DAEMON :: string where "DAEMON = ''daemon''"
definition STOP :: string where "STOP = ''stop''"
definition START :: string where "START = ''start''"
definition SERVICE :: string where "SERVICE = ''service''"

definition default_ice :: string where
  "default_ice = ''turn:115.231.220.242:8101?transport=tcp [ts1:12345678]''"

definition settings_of_args :: "string list \<Rightarrow> settings" where
  "settings_of_args args =
     \<lparr>set_port = atoi (get_option ''-p'' ''2000'' args),
      set_command = get_option ''-c'' START args,
      set_log_filter = get_option ''-l'' ''info'' args,
      set_ice_server = get_option ''-i'' default_ice args\<rparr>"

text \<open>\<^verbatim>\<open>if (value.isMember(key)) x = value[key].as...()\<close>.\<close>

definition override :: "string \<Rightarrow> (jvalue \<Rightarrow> 'b res) \<Rightarrow> ('b \<Rightarrow> settings \<Rightarrow> settings) \<Rightarrow> jvalue \<Rightarrow>
    settings \<Rightarrow> settings res" where
  "override key conv upd value cfg =
     rbind (isMember key value) (\<lambda>there.
     if there then rbind (resolveReference key value) (\<lambda>(_, w). rbind (conv w) (\<lambda>x. Inr (upd x cfg)))
     else Inr cfg)"

definition override_all :: "jvalue \<Rightarrow> settings \<Rightarrow> settings res" where
  "override_all value cfg =
     rbind (override ''command'' asString (\<lambda>x c. c\<lparr>set_command := x\<rparr>) value cfg) (\<lambda>cfg1.
     rbind (override ''port'' asInt (\<lambda>x c. c\<lparr>set_port := x\<rparr>) value cfg1) (\<lambda>cfg2.
     rbind (override ''log_filter'' asString (\<lambda>x c. c\<lparr>set_log_filter := x\<rparr>) value cfg2) (\<lambda>cfg3.
     override ''ice_server'' asString (\<lambda>x c. c\<lparr>set_ice_server := x\<rparr>) value cfg3)))"

definition load_config :: "(string \<Rightarrow> string option) \<Rightarrow> string \<Rightarrow> settings \<Rightarrow> settings res" where
  "load_config files json_file cfg =
     (if json_file \<noteq> [] then
        (case files json_file of
           None \<Rightarrow> Inr cfg
         | Some content \<Rightarrow>
             rbind (reader_parse content) (\<lambda>(parsed, value).
             if parsed then override_all value cfg else Inr cfg))
      else Inr cfg)"

section \<open>The ICE server\<close>

text \<open>\<^verbatim>\<open>std::string::find\<close> (None is \<^verbatim>\<open>npos\<close>) and \<^verbatim>\<open>substr\<close>, whose count is a 64-bit unsigned number.\<close>

fun find_char :: "char \<Rightarrow> string \<Rightarrow> nat option" where
  "find_char c [] = None"
| "find_char c (d # s) = (if c = d then Some 0 else map_option Suc (find_char c s))"

definition substr :: "string \<Rightarrow> nat \<Rightarrow> nat \<Rightarrow> string" where
  "substr s pos n = take n (drop pos s)"

definition size_diff :: "nat \<Rightarrow> nat \<Rightarrow> nat" where
  "size_diff a b = nat (u64 (int a - int b))"

definition parse_ice :: "string \<Rightarrow> ice_server \<Rightarrow> ice_server" where
  "parse_ice text ice =
     (if text \<noteq> [] then
        (case find_char (CHR '' '') text of
           None \<Rightarrow> ice
         | Some ef \<Rightarrow>
             (let ice1 = ice\<lparr>ice_uri := substr text 0 ef\<rparr>; rest = drop ef text
              in case (find_char (CHR ''['') rest, find_char (CHR '']'') rest, find_char (CHR '':'') rest) of
                   (Some i1, Some i2, Some i3) \<Rightarrow>
                     ice1\<lparr>ice_username := substr rest (i1 + 1) (size_diff i3 (i1 + 1)),
                          ice_password := substr rest (i3 + 1) (size_diff i2 (i3 + 1))\<rparr>
                 | _ \<Rightarrow> ice1))
      else ice)"

section \<open>What to run\<close>

datatype severity = sev_trace | sev_debug | sev_info | sev_warning | sev_error | sev_fatal

definition filter_of :: "string \<Rightarrow> severity" where
  "filter_of log_filter =
     (if log_filter = ''debug'' then sev_debug
      else if log_filter = ''info'' then sev_info
      else if log_filter = ''warning'' then sev_warning
      else if log_filter = ''error'' then sev_error
      else if log_filter = ''fatal'' then sev_fatal
      else sev_info)"

datatype log_type = LOG_CONSOLE | LOG_FILE_USER | LOG_FILE_SERVICE

text \<open>
  \<^verbatim>\<open>init_log\<close>: the sink records are written to; the time stamp in the file name is an argument.
\<close>

definition init_log :: "string \<Rightarrow> log_type \<Rightarrow> string option" where
  "init_log timestamp type = (case type of
       LOG_CONSOLE \<Rightarrow> None
     | LOG_FILE_USER \<Rightarrow> Some (''log/wsSignalServer_'' @ timestamp @ ''_%N.log'')
     | LOG_FILE_SERVICE \<Rightarrow> Some (''/root/log/wsSignalServer_'' @ timestamp @ ''_%N.log''))"

datatype plan =
    Serve log_type severity int int
  | SendStop
  | Exit int

text \<open>\<^verbatim>\<open>listen(port)\<close> serves with TLS on port 9002.\<close>

definition listen :: "log_type \<Rightarrow> severity \<Rightarrow> int \<Rightarrow> plan" where
  "listen type sev port = Serve type sev port 9002"

definition choose_plan :: "bool \<Rightarrow> settings \<Rightarrow> plan" where
  "choose_plan daemon_fails cfg =
     (let sev = filter_of (set_log_filter cfg); port = set_port cfg in
      if set_command cfg = DAEMON then
        (if daemon_fails then Exit (- 1) else listen LOG_FILE_USER sev port)
      else if set_command cfg = START then listen LOG_CONSOLE sev port
      else if set_command cfg = STOP then SendStop
      else if set_command cfg = SERVICE then
        (if daemon_fails then Exit (- 1) else listen LOG_FILE_SERVICE sev port)
      else Exit 1)"

definition main :: "(string \<Rightarrow> string option) \<Rightarrow> bool \<Rightarrow> string list \<Rightarrow> (plan \<times> ice_server) res" where
  "main files daemon_fails args =
     rbind (load_config files (get_option ''-f'' ''config.json'' args) (settings_of_args args)) (\<lambda>cfg.
     Inr (choose_plan daemon_fails cfg, parse_ice (set_ice_server cfg) ICE))"

section \<open>Theorems\<close>

lemma find_char_append:
  "c \<notin> set xs \<Longrightarrow> find_char c (xs @ c # ys) = Some (length xs)"
  by (induction xs) auto

text \<open>C40 (parse_ice_roundtrip). A description built from a URI, a user name and a password is taken apart
  into exactly these, for a URI without space, a user name without colon, and
  neither of them with a closing bracket.\<close>

theorem parse_ice_roundtrip:
  assumes "CHR '' '' \<notin> set uri" "CHR '':'' \<notin> set user" "CHR '']'' \<notin> set user" "CHR '']'' \<notin> set pass"
    and len: "length user + length pass < 2 ^ 60"
  shows "parse_ice (uri @ '' ['' @ user @ '':'' @ pass @ '']'') ice =
     \<lparr>ice_uri = uri, ice_username = user, ice_password = pass\<rparr>"
proof -
  let ?rest = "'' ['' @ user @ '':'' @ pass @ '']''"
  have sp: "find_char (CHR '' '') (uri @ ?rest) = Some (length uri)"
    using find_char_append [OF assms(1)] by simp
  have i1: "find_char (CHR ''['') ?rest = Some 1" by simp
  have i2: "find_char (CHR '']'') ?rest = Some (length user + length pass + 3)"
    using find_char_append [of "CHR '']''" "'' ['' @ user @ '':'' @ pass" "[]"] assms(3,4) by simp
  have i3: "find_char (CHR '':'') ?rest = Some (length user + 2)"
    using find_char_append [of "CHR '':''" "'' ['' @ user" "pass @ '']''"] assms(2) by simp
  have d: "size_diff (length user + 2) 2 = length user"
    "size_diff (length user + length pass + 3) (length user + 3) = length pass"
    using len by (simp_all add: size_diff_def to_unsigned_def)
  have "parse_ice (uri @ ?rest) ice =
      ice\<lparr>ice_uri := uri, ice_username := substr ?rest 2 (size_diff (length user + 2) 2),
          ice_password := substr ?rest (length user + 3) (size_diff (length user + length pass + 3) (length user + 3))\<rparr>"
    unfolding parse_ice_def sp using i1 i2 i3 by (simp add: substr_def Let_def numeral_2_eq_2 numeral_3_eq_3)
  also have "\<dots> = \<lparr>ice_uri = uri, ice_username = user, ice_password = pass\<rparr>"
    unfolding d by (simp add: substr_def numeral_2_eq_2 numeral_3_eq_3)
  finally show ?thesis by simp
qed

theorem parse_ice_roundtrip_witness:
  "parse_ice (''stun:h'' @ '' ['' @ ''u'' @ '':'' @ ''p'' @ '']'') ICE =
     \<lparr>ice_uri = ''stun:h'', ice_username = ''u'', ice_password = ''p''\<rparr>"
  by (rule parse_ice_roundtrip) simp_all

text \<open>A description of the ICE server without a space, which is what a
  plain URI is, changes nothing: clients keep being sent the server compiled in.\<close>

lemma ice_without_space_ignored:
  "parse_ice ''stun:stun.example.org:3478'' ICE = ICE"
  by (simp add: parse_ice_def)

lemma override_object:
  assumes "isObject v"
  shows "override key conv upd v cfg =
     (case members v key of None \<Rightarrow> Inr cfg | Some w \<Rightarrow> rbind (conv w) (\<lambda>x. Inr (upd x cfg)))"
proof -
  obtain m where m: "payload v = ObjectV m" using assms by (cases "payload v") (auto simp: isObject_def type_of_def)
  have "isMember key v = Inr (members v key \<noteq> None)"
    using assms by (simp add: isMember_members dom_def)
  then show ?thesis
    by (auto simp: override_def resolveReference_def m members_def split: option.splits)
qed

lemma override_returned:
  assumes "isObject v" "override key conv upd v cfg = Inr cfg'"
  shows "cfg' = (case members v key of None \<Rightarrow> cfg | Some w \<Rightarrow> upd (projr (conv w)) cfg)"
  using assms(2) unfolding override_object [OF assms(1)] by (auto simp: res_simps split: option.splits)

text \<open>What the configuration file names overrides the command line, setting by
  setting, and what it does not name keeps the value of the command line.\<close>

lemma config_file_wins:
  assumes obj: "isObject v" and run: "override_all v cfg = Inr cfg'"
  shows "set_command cfg' = (case members v ''command'' of None \<Rightarrow> set_command cfg | Some w \<Rightarrow> projr (asString w)) \<and>
    set_port cfg' = (case members v ''port'' of None \<Rightarrow> set_port cfg | Some w \<Rightarrow> projr (asInt w)) \<and>
    set_log_filter cfg' =
      (case members v ''log_filter'' of None \<Rightarrow> set_log_filter cfg | Some w \<Rightarrow> projr (asString w)) \<and>
    set_ice_server cfg' =
      (case members v ''ice_server'' of None \<Rightarrow> set_ice_server cfg | Some w \<Rightarrow> projr (asString w))"
proof -
  from run obtain c1 c2 c3 where
    "override ''command'' asString (\<lambda>x c. c\<lparr>set_command := x\<rparr>) v cfg = Inr c1"
    "override ''port'' asInt (\<lambda>x c. c\<lparr>set_port := x\<rparr>) v c1 = Inr c2"
    "override ''log_filter'' asString (\<lambda>x c. c\<lparr>set_log_filter := x\<rparr>) v c2 = Inr c3"
    "override ''ice_server'' asString (\<lambda>x c. c\<lparr>set_ice_server := x\<rparr>) v c3 = Inr cfg'"
    by (simp only: override_all_def rbind_eq_Inr) blast
  from this [THEN override_returned [OF obj]]
  show ?thesis by (simp split: option.split)
qed

text \<open>The configuration file that comes with the program.\<close>

definition shipped_config :: string where
  \<open>shipped_config = ''{'' @ [CR, LF, TAB] @ ''"comand":"start",'' @ [CR, LF, TAB] @ ''"port":2000,'' @ [CR, LF, TAB] @
     ''"log_filter":"info",'' @ [CR, LF, TAB] @
     ''"ice_server":"turn:115.231.220.242:8101?transport=tcp [ts1:12345678]"'' @ [CR, LF] @ ''}''\<close>

lemma shipped_parse:
  "case reader_parse shipped_config of
     Inl e \<Rightarrow> False
   | Inr (parsed, v) \<Rightarrow> parsed \<and> isObject v \<and> members v ''command'' = None \<and>
       map_option payload (members v ''port'') = Some (IntV 2000) \<and>
       map_option payload (members v ''log_filter'') = Some (StringV ''info'') \<and>
       map_option payload (members v ''ice_server'') = Some (StringV default_ice)"
  by code_simp

text \<open>The configuration file that comes with the program sets the port,
  the log filter and the ICE server; its misspelt \<^verbatim>\<open>comand\<close> sets nothing.\<close>

lemma shipped_config_sets_no_command:
  "load_config (\<lambda>f. Some shipped_config) ''config.json'' cfg =
     Inr (cfg\<lparr>set_port := 2000, set_log_filter := ''info'', set_ice_server := default_ice\<rparr>)"
proof -
  obtain v where v: "reader_parse shipped_config = Inr (True, v)" "isObject v" "members v ''command'' = None"
    "map_option payload (members v ''port'') = Some (IntV 2000)"
    "map_option payload (members v ''log_filter'') = Some (StringV ''info'')"
    "map_option payload (members v ''ice_server'') = Some (StringV default_ice)"
    using shipped_parse by (auto split: sum.splits)
  then obtain p l i where "members v ''port'' = Some p" "asInt p = Inr 2000"
    "members v ''log_filter'' = Some l" "asString l = Inr ''info''"
    "members v ''ice_server'' = Some i" "asString i = Inr default_ice"
    by (auto simp: asInt_def isInt_def asString_def int_limits)
  then show ?thesis
    using v(3) by (simp add: load_config_def v(1) override_all_def override_object [OF v(2)])
qed

text \<open>Only the four commands do anything: every other command ends the program
  with status 1, whatever the rest of the settings, and only \<^verbatim>\<open>stop\<close> sends the exit
  message.\<close>

lemma unknown_command_exits:
  "(choose_plan daemon_fails cfg = Exit 1 \<longleftrightarrow> set_command cfg \<notin> {''daemon'', ''start'', ''stop'', ''service''}) \<and>
   (choose_plan daemon_fails cfg = SendStop \<longleftrightarrow> set_command cfg = ''stop'')"
  by (simp add: choose_plan_def Let_def listen_def DAEMON_def START_def STOP_def SERVICE_def)

end
