(* ===== verification/Reading_Safely.thy ===== *)
theory Reading_Safely
  imports Value_Pointers Reader_Loops
begin

text \<open>
  How the readers keep their pointers into the value valid, proved once for both. \<open>steady\<close> says that the
  pointers of a state are valid and the collected comments well formed, \<open>calm\<close> that reading tokens
  changes nothing but comments. The contract of \<^verbatim>\<open>readValue\<close> is that \<^verbatim>\<open>lastValue_\<close> is not inside the value
  that is about to be replaced (\<open>value_pre\<close>, \<open>value_post\<close>); the loops (\<open>loop_pre\<close>, \<open>loop_post\<close>) keep it for each
  of their children, because a child that was read leaves \<^verbatim>\<open>lastValue_\<close> at the child itself and a child
  that failed ends the loop. The same conditions carry the type invariant \<open>jv_ok\<close> of values. The locale
  \<open>safe_source\<close> adds to \<open>token_source\<close> that reading a token is safe; inside it are the loops over tokens
  and the parts of \<^verbatim>\<open>readArray\<close> and \<^verbatim>\<open>readObject\<close> around the recursive calls.
\<close>

section \<open>Results that throw only some exceptions\<close>

definition safe_in :: "exn set \<Rightarrow> ('a \<Rightarrow> bool) \<Rightarrow> 'a res \<Rightarrow> bool" where
  "safe_in E Q m \<longleftrightarrow> (case m of Inl e \<Rightarrow> e \<in> E | Inr x \<Rightarrow> Q x)"

lemma safe_simps [simp]: "safe_in E Q (Inr x) \<longleftrightarrow> Q x" "safe_in E Q (Inl e) \<longleftrightarrow> e \<in> E"
  by (simp_all add: safe_in_def)

lemma safe_rbind: "safe_in E P m \<Longrightarrow> (\<And>x. P x \<Longrightarrow> safe_in E Q (f x)) \<Longrightarrow> safe_in E Q (rbind m f)"
  by (cases m) auto

lemma safe_split: "(\<And>a b. p = (a, b) \<Longrightarrow> safe_in E Q (f a b)) \<Longrightarrow> safe_in E Q (case p of (a, b) \<Rightarrow> f a b)"
  by (cases p) simp

lemma safe_if: "(b \<Longrightarrow> safe_in E Q m) \<Longrightarrow> (\<not> b \<Longrightarrow> safe_in E Q n) \<Longrightarrow> safe_in E Q (if b then m else n)"
  by simp

lemma safe_mono: "safe_in E P m \<Longrightarrow> (\<And>x. P x \<Longrightarrow> Q x) \<Longrightarrow> safe_in E Q m"
  by (cases m) auto

section \<open>Comments\<close>

text \<open>Collected comments start with a slash, as \<^verbatim>\<open>setComment\<close> asserts.\<close>

definition slashed :: "string \<Rightarrow> bool" where
  "slashed s \<longleftrightarrow> s = [] \<or> hd s = CHR ''/''"

lemma setComment_slashed:
  assumes "slashed c" "c \<noteq> []"
  obtains v' where "setComment c pl v = Inr v'" "payload v' = payload v"
proof -
  have h: "hd c = CHR ''/''" using assms by (simp add: slashed_def)
  then have "butlast c \<noteq> [] \<and> hd (butlast c) = CHR ''/''" if "last c = LF"
    using that assms(2) by (cases c) (auto split: if_splits)
  then show thesis using assms(2) h
    by (cases "last c = LF") (auto intro!: that simp: setComment_def Let_def)
qed

lemma normalizeEOL_slashed: "s \<noteq> [] \<Longrightarrow> hd s = CHR ''/'' \<Longrightarrow> normalizeEOL s \<noteq> [] \<and> hd (normalizeEOL s) = CHR ''/''"
  by (cases s) simp_all

text \<open>The pointers in use are valid: the value at the top of \<^verbatim>\<open>nodes_\<close>, unless it is empty, and \<^verbatim>\<open>lastValue_\<close>.\<close>

definition steady :: "('t, 'f, 'm) rstate \<Rightarrow> bool" where
  "steady r \<longleftrightarrow> (rd_nodes r \<noteq> [] \<longrightarrow> type_at (current_path r) (rd_root r) \<noteq> None) \<and> slashed (rd_commentsBefore r) \<and>
     (rd_lastValueEnd r \<noteq> None \<longrightarrow> rd_lastValue r \<noteq> None) \<and>
     (\<forall>p. rd_lastValue r = Some p \<longrightarrow> type_at p (rd_root r) \<noteq> None)"

text \<open>Reading tokens only attaches comments.\<close>

definition calm :: "('t, 'f, 'm) rstate \<Rightarrow> ('t, 'f, 'm) rstate \<Rightarrow> bool" where
  "calm r r' \<longleftrightarrow> rd_nodes r' = rd_nodes r \<and> rd_lastValue r' = rd_lastValue r \<and> rd_lastValueEnd r' = rd_lastValueEnd r \<and>
     rd_features r' = rd_features r \<and> rd_collectComments r' = rd_collectComments r \<and>
     extends (rd_root r) (rd_root r') \<and> (jv_ok (rd_root r) \<longrightarrow> jv_ok (rd_root r')) \<and>
     (slashed (rd_commentsBefore r) \<longrightarrow> slashed (rd_commentsBefore r'))"

lemma calm_refl [simp]: "calm r r" by (simp add: calm_def)
lemma calm_trans: "calm r s \<Longrightarrow> calm s t \<Longrightarrow> calm r t" by (auto simp: calm_def intro: extends_trans)
lemma calm_advance [simp]: "calm r (advance n r)" by (simp add: calm_def advance_def)
lemma calm_addError [simp]: "calm r (addError m t e r)" by (simp add: calm_def addError_def)

lemma extends_valid: "extends v v' \<Longrightarrow> type_at p v \<noteq> None \<Longrightarrow> type_at p v' \<noteq> None"
  by (auto simp: extends_def)

lemma steady_calm: "steady r \<Longrightarrow> calm r r' \<Longrightarrow> steady r'"
  by (auto simp: steady_def calm_def dest: extends_valid)

lemma calm_update_res:
  assumes "value_at p (rd_root r) = Some w" "f w = Inr w'" "extends w w'" "jv_ok w \<Longrightarrow> jv_ok w'"
  shows "\<exists>r'. update_res p f r = Inr r' \<and> calm r r' \<and> rd_commentsBefore r' = rd_commentsBefore r \<and>
     rd_root r' = update_at p (\<lambda>_. w') (rd_root r)"
  using assms extends_update [OF assms(1,3)] jv_ok_update [of "rd_root r" p "\<lambda>_. w'"]
  by (simp add: update_res_def calm_def)

lemma jv_ok_same_payload: "payload w' = payload w \<Longrightarrow> jv_ok w' = jv_ok w"
  by (simp add: jv_ok_payload)

lemma safe_comment:
  assumes "type_at p (rd_root r) \<noteq> None" "slashed c" "c \<noteq> []"
  shows "\<exists>r'. update_res p (setComment c pl) r = Inr r' \<and> calm r r' \<and> rd_commentsBefore r' = rd_commentsBefore r"
proof -
  obtain w where w: "value_at p (rd_root r) = Some w" using assms(1) by (auto simp: type_at_def)
  obtain w' where w': "setComment c pl w = Inr w'" "payload w' = payload w" by (rule setComment_slashed [OF assms(2,3)])
  show ?thesis
    using calm_update_res [where f = "setComment c pl", OF w w'(1) extends_payload [OF w'(2)]] jv_ok_same_payload [OF w'(2)] by blast
qed

lemma safe_addComment:
  assumes "steady r" "slice b e (rd_document r) \<noteq> []" "hd (slice b e (rd_document r)) = CHR ''/''"
    and "pl = commentAfterOnSameLine \<Longrightarrow> rd_lastValue r \<noteq> None"
  shows "safe_in E (calm r) (addComment b e pl r)"
proof -
  let ?c = "normalizeEOL (slice b e (rd_document r))"
  have c: "slashed ?c" "?c \<noteq> []" using normalizeEOL_slashed [OF assms(2,3)] by (auto simp: slashed_def)
  show ?thesis
  proof (cases "pl = commentAfterOnSameLine")
    case True
    then obtain p where p: "rd_lastValue r = Some p" using assms(4) by blast
    then have "type_at p (rd_root r) \<noteq> None" using assms(1) by (simp add: steady_def)
    from safe_comment [OF this c, of pl] True p show ?thesis by (auto simp: addComment_def)
  next
    case False
    then show ?thesis using c assms(1)
      by (cases "rd_commentsBefore r") (auto simp: addComment_def calm_def slashed_def Let_def)
  qed
qed

lemma safe_takeCommentsBefore:
  assumes "steady r" "rd_nodes r \<noteq> []"
  shows "safe_in E (calm r) (takeCommentsBefore r)"
proof (cases "rd_collectComments r \<and> rd_commentsBefore r \<noteq> []")
  case True
  then obtain r' where "update_res (current_path r) (setComment (rd_commentsBefore r) commentBefore) r = Inr r'" "calm r r'"
    using safe_comment [of "current_path r" r "rd_commentsBefore r" commentBefore] assms by (auto simp: steady_def)
  then show ?thesis using True by (auto simp: takeCommentsBefore_def calm_def slashed_def)
qed (auto simp: takeCommentsBefore_def)

section \<open>Tokens\<close>

lemma calm_scans:
  "getNextChar r = (c, r') \<Longrightarrow> calm r r'" "calm r (skipSpaces r)"
  "readCStyleComment r = (ok, r') \<Longrightarrow> calm r r'" "readCppStyleComment r = (ok, r') \<Longrightarrow> calm r r'"
  "readString r = (ok, r') \<Longrightarrow> calm r r'" "match_pattern pat r = (ok, r') \<Longrightarrow> calm r r'" "calm r (readNumber r)"
  by (auto simp: getNextChar_def skipSpaces_def readCStyleComment_def readCppStyleComment_def readString_def
      match_pattern_def readNumber_def split: list.splits prod.splits if_splits)

lemma slice_first:
  assumes "b < e" "e \<le> length s" shows "slice b e s \<noteq> []" "hd (slice b e s) = s ! b"
  using assms by (auto simp: slice_def hd_drop_conv_nth)

text \<open>The byte just read.\<close>

definition after_slash :: "('t, 'f, 'm) rstate \<Rightarrow> bool" where
  "after_slash r \<longleftrightarrow> 0 < rd_current r \<and> rd_current r \<le> length (rd_document r) \<and>
     rd_document r ! (rd_current r - 1) = CHR ''/''"

lemma getNextChar_slash: "getNextChar r = (CHR ''/'', r') \<Longrightarrow> after_slash r'"
  by (auto simp: getNextChar_def after_slash_def advance_def rest_def split: list.splits)
    (metis drop_all linorder_not_less list.distinct(1) nth_via_drop less_imp_le_nat Suc_leI)+

section \<open>Values\<close>

text \<open>
  What reading a value at the top of the stack leaves. \<open>inside p q\<close>: the pointer \<open>q\<close> is strictly below
  \<open>p\<close>, so that it would dangle if the value at \<open>p\<close> were replaced.
\<close>

abbreviation inside :: "path \<Rightarrow> path \<Rightarrow> bool" where "inside \<equiv> strict_prefix"

definition progress :: "path \<Rightarrow> ('t, 'f, 'm) rstate \<Rightarrow> ('t, 'f, 'm) rstate \<Rightarrow> bool" where
  "progress p r r' \<longleftrightarrow> steady r' \<and> rd_nodes r' \<noteq> [] \<and> rd_nodes r' = rd_nodes r \<and> frame p (rd_root r) (rd_root r') \<and>
     (jv_ok (rd_root r) \<longrightarrow> jv_ok (rd_root r')) \<and> rd_collectComments r' = rd_collectComments r \<and>
     (\<not> rd_collectComments r \<longrightarrow> rd_lastValue r' = rd_lastValue r)"

lemma progress_calm: "steady r \<Longrightarrow> rd_nodes r \<noteq> [] \<Longrightarrow> calm r r' \<Longrightarrow> progress p r r'"
  using steady_calm [of r r'] by (auto simp: progress_def calm_def intro: extends_frame)

lemma progress_trans: "progress p r s \<Longrightarrow> progress p s t \<Longrightarrow> progress p r t"
  by (auto simp: progress_def intro: frame_trans)

text \<open>The contract of \<^verbatim>\<open>readValue\<close>: \<^verbatim>\<open>lastValue_\<close> is not inside the value to be read, and is afterwards as
  before or the value itself.\<close>

definition value_pre :: "('t, 'f, 'm) rstate \<Rightarrow> bool" where
  "value_pre r \<longleftrightarrow> steady r \<and> rd_nodes r \<noteq> [] \<and> (\<forall>p. rd_lastValue r = Some p \<longrightarrow> \<not> inside (current_path r) p)"

definition value_post :: "('t, 'f, 'm) rstate \<Rightarrow> bool \<times> ('t, 'f, 'm) rstate \<Rightarrow> bool" where
  "value_post r x \<longleftrightarrow> progress (current_path r) r (snd x) \<and>
     (rd_lastValue (snd x) = rd_lastValue r \<or> rd_lastValue (snd x) = Some (current_path r))"

text \<open>The contract of the loops: the same one level down, and the container keeps its type.\<close>

definition loop_pre :: "value_type \<Rightarrow> ('t, 'f, 'm) rstate \<Rightarrow> bool" where
  "loop_pre t r \<longleftrightarrow> steady r \<and> rd_nodes r \<noteq> [] \<and> type_at (current_path r) (rd_root r) = Some t \<and>
     (\<forall>p a. rd_lastValue r = Some p \<longrightarrow> \<not> inside (current_path r @ [a]) p)"

definition loop_post :: "value_type \<Rightarrow> ('t, 'f, 'm) rstate \<Rightarrow> bool \<times> ('t, 'f, 'm) rstate \<Rightarrow> bool" where
  "loop_post t r x \<longleftrightarrow> progress (current_path r) r (snd x) \<and> loop_pre t (snd x)"

lemma loop_calm:
  assumes "loop_pre t r" "calm r r'"
  shows "loop_pre t r'" "loop_post t r (ok, r')"
proof -
  show "loop_pre t r'" using assms steady_calm [of r r'] by (auto simp: loop_pre_def calm_def extends_def)
  then show "loop_post t r (ok, r')" using assms progress_calm [of r r'] by (simp add: loop_post_def loop_pre_def)
qed

lemma loop_post_trans: "loop_post t r (ok, s) \<Longrightarrow> loop_post t s x \<Longrightarrow> loop_post t r x"
  by (auto simp: loop_post_def progress_def intro: frame_trans)

text \<open>Entering a child and coming back.\<close>

lemma enter_child:
  assumes "loop_pre t r" "type_at (current_path r @ [a]) (rd_root r) \<noteq> None"
  shows "value_pre (pushNode a r)"
  using assms by (auto simp: loop_pre_def value_pre_def steady_def pushNode_def)

lemma leave_child:
  assumes "loop_pre t r" "value_post (pushNode a r) (ok, s)"
  shows "loop_pre t (popNode s)" "loop_post t r (ok, popNode s)"
proof -
  let ?p = "current_path r"
  have s: "steady s" "rd_nodes s = (?p @ [a]) # rd_nodes r" "frame (?p @ [a]) (rd_root r) (rd_root s)"
    "jv_ok (rd_root r) \<longrightarrow> jv_ok (rd_root s)" "rd_lastValue s = rd_lastValue r \<or> rd_lastValue s = Some (?p @ [a])"
    "rd_collectComments s = rd_collectComments r" "\<not> rd_collectComments r \<longrightarrow> rd_lastValue s = rd_lastValue r"
    using assms(2) by (auto simp: value_post_def progress_def pushNode_def)
  have t: "type_at ?p (rd_root r) = Some t" using assms(1) by (simp add: loop_pre_def)
  from frame_child [OF s(3) t] have f: "frame ?p (rd_root r) (rd_root s)" "type_at ?p (rd_root s) = Some t" by simp_all
  have st: "steady (popNode s)" using s(1,2) f(2) by (auto simp: steady_def popNode_def)
  show p: "loop_pre t (popNode s)"
    using st s(2,5) f(2) assms(1) by (auto simp: loop_pre_def popNode_def strict_prefix_def)
  show "loop_post t r (ok, popNode s)"
    using p st s(2,4,6,7) f(1) assms(1) by (simp add: loop_post_def loop_pre_def progress_def popNode_def)
qed


lemma current_value: "steady r \<Longrightarrow> rd_nodes r \<noteq> [] \<Longrightarrow> \<exists>w. value_at (current_path r) (rd_root r) = Some w"
  by (auto simp: steady_def type_at_def)

lemma calm_set_current:
  assumes "steady r" "rd_nodes r \<noteq> []" "\<And>v. payload (f v) = payload v"
  shows "calm r (set_current f r)"
proof -
  obtain w where w: "value_at (current_path r) (rd_root r) = Some w" using current_value [OF assms(1,2)] by blast
  have "update_at (current_path r) f (rd_root r) = update_at (current_path r) (\<lambda>_. f w) (rd_root r)"
    by (rule update_at_cong [OF w]) simp
  then have "extends (rd_root r) (update_at (current_path r) f (rd_root r))"
    using extends_update [OF w extends_payload [OF assms(3) [of w]]] by simp
  moreover have "jv_ok (update_at (current_path r) f (rd_root r))" if "jv_ok (rd_root r)"
    by (rule jv_ok_update [OF that]) (simp add: jv_ok_payload assms(3))
  ultimately show ?thesis by (simp add: calm_def set_current_def)
qed

text \<open>Replacing the value at the top of the stack, which no pointer in use is inside of.\<close>

lemma replace_current:
  assumes "value_pre r" "\<And>v. type_of (f v) = t" "\<And>v. jv_ok (f v)"
  shows "loop_pre t (set_current f r)" "progress (current_path r) r (set_current f r)"
    "rd_lastValue (set_current f r) = rd_lastValue r" "current_path (set_current f r) = current_path r"
proof -
  let ?p = "current_path r" and ?v = "update_at (current_path r) f (rd_root r)"
  have st: "steady r" "rd_nodes r \<noteq> []" and out: "\<And>p. rd_lastValue r = Some p \<Longrightarrow> \<not> inside ?p p" using assms(1) by (auto simp: value_pre_def)
  obtain w where w: "value_at ?p (rd_root r) = Some w" using current_value [OF st] by blast
  have t: "type_at ?p ?v = Some t" using type_at_below [OF w, of "[]" f] assms(2) by simp
  have "type_at p ?v \<noteq> None" if "rd_lastValue r = Some p" for p
  proof (cases "prefix ?p p")
    case True
    then have "p = ?p" using out [OF that] by (auto simp: strict_prefix_def)
    then show ?thesis using t by simp
  next
    case False
    then show ?thesis using st that by (simp add: type_at_other steady_def)
  qed
  then have st': "steady (set_current f r)" using st t by (auto simp: steady_def set_current_def)
  have "\<not> inside (?p @ [a]) p" if "rd_lastValue r = Some p" for p a
    using out [OF that] by (auto simp: strict_prefix_def dest: append_prefixD)
  then show "loop_pre t (set_current f r)" using st' st(2) t by (auto simp: loop_pre_def set_current_def)
  have "jv_ok ?v" if "jv_ok (rd_root r)" by (rule jv_ok_update [OF that]) (rule assms(3))
  then show "progress ?p r (set_current f r)" using st' st(2) frame_update by (simp add: progress_def set_current_def)
qed (simp_all add: set_current_def)

lemma value_calm: "value_pre r \<Longrightarrow> calm r r' \<Longrightarrow> value_pre r'"
  using steady_calm [of r r'] by (auto simp: value_pre_def calm_def)


text \<open>Remembering the last value keeps the pointers valid.\<close>

definition remembers :: "('t, 'f, 'm) rstate \<Rightarrow> ('t, 'f, 'm) rstate \<Rightarrow> bool" where
  "remembers s s' \<longleftrightarrow> rd_root s' = rd_root s \<and> rd_nodes s' = rd_nodes s \<and> rd_commentsBefore s' = rd_commentsBefore s \<and>
     rd_collectComments s' = rd_collectComments s \<and>
     (if rd_collectComments s then rd_lastValue s' = Some (current_path s)
      else rd_lastValue s' = rd_lastValue s \<and> rd_lastValueEnd s' = rd_lastValueEnd s)"

lemma steady_remembers: "steady s \<Longrightarrow> rd_nodes s \<noteq> [] \<Longrightarrow> remembers s s' \<Longrightarrow> steady s'"
  by (auto simp: steady_def remembers_def split: if_splits)

lemma value_done:
  assumes "progress (current_path r) r s" "rd_nodes s = rd_nodes r" "remembers s s'"
  shows "value_post r (ok, s')"
proof -
  have "steady s'" using assms by (intro steady_remembers [OF _ _ assms(3)]) (simp_all add: progress_def)
  then show ?thesis using assms by (auto simp: value_post_def progress_def remembers_def split: if_splits)
qed

text \<open>A comment just read: it starts at the slash before the position where \<open>r\<close> stands.\<close>

lemma safe_comment_read:
  assumes "steady r" "after_slash r" "quiet r r2" "calm r r2" "pl = commentAfterOnSameLine \<Longrightarrow> rd_lastValueEnd r2 \<noteq> None"
  shows "safe_in E (calm r) (addComment (rd_current r - 1) (rd_current r2) pl r2)"
proof -
  let ?b = "rd_current r - 1"
  have st: "steady r2" by (rule steady_calm [OF assms(1,4)])
  have "?b < rd_current r2" "rd_current r2 \<le> length (rd_document r2)" "rd_document r2 ! ?b = CHR ''/''"
    using assms(2,3) by (auto simp: quiet_def keeps_def after_slash_def)
  with slice_first [OF this(1,2)] have sl: "slice ?b (rd_current r2) (rd_document r2) \<noteq> []"
    "hd (slice ?b (rd_current r2) (rd_document r2)) = CHR ''/''" by simp_all
  have "rd_lastValue r2 \<noteq> None" if "pl = commentAfterOnSameLine"
    using assms(5) [OF that] st by (auto simp: steady_def)
  from safe_addComment [OF st sl this] have "safe_in E (calm r2) (addComment ?b (rd_current r2) pl r2)" by blast
  then show ?thesis by (rule safe_mono) (rule calm_trans [OF assms(4)])
qed

lemma progress_nodes: "progress p r s \<Longrightarrow> rd_nodes s = rd_nodes r" by (simp add: progress_def)
lemma progress_steady: "progress p r s \<Longrightarrow> steady s" by (simp add: progress_def)

lemma value_close:
  assumes "progress (current_path r) r s" "\<And>v. payload (f v) = payload v" "remembers (set_current f s) s'"
  shows "value_post r (ok, s')"
proof -
  have ns: "rd_nodes s \<noteq> []" using assms(1) unfolding progress_def by blast
  have "progress (current_path r) s (set_current f s)"
    by (rule progress_calm [OF progress_steady [OF assms(1)] ns calm_set_current [OF progress_steady [OF assms(1)] ns assms(2)]])
  from progress_trans [OF assms(1) this] show ?thesis
    by (rule value_done [OF _ _ assms(3)]) (auto simp: progress_nodes [OF assms(1)] set_current_def)
qed

lemma value_post_calm:
  assumes "calm r r'" "value_post r' x"
  shows "value_post r x"
proof -
  have "rd_nodes r' = rd_nodes r" "rd_lastValue r' = rd_lastValue r" using assms(1) by (simp_all add: calm_def)
  moreover have "frame p (rd_root r) (rd_root r')" for p using assms(1) by (intro extends_frame) (simp add: calm_def)
  ultimately show ?thesis using assms by (auto simp: value_post_def progress_def calm_def intro: frame_trans)
qed

lemma safe_value_calm: "calm r s \<Longrightarrow> safe_in E (value_post s) m \<Longrightarrow> safe_in E (value_post r) m"
  by (erule safe_mono) (rule value_post_calm)

text \<open>Scalars: a payload that is stored, and a failure.\<close>

lemma value_store:
  assumes "value_pre r" "jd_ok d" "\<And>v. payload (f v) = d" "remembers (set_current f r) s'"
  shows "value_post r (ok, s')"
proof -
  have "type_of (f v) = type_of_data d" "jv_ok (f v)" for v using assms(2,3) by (simp_all add: type_of_def jv_ok_payload)
  from replace_current(2) [where f = f, OF assms(1) this] show ?thesis
    by (rule value_done [OF _ _ assms(4)]) (simp add: set_current_def)
qed

lemma value_failed:
  assumes "value_pre r" "calm r s"
  shows "value_post r (ok, s)" "remembers s s' \<Longrightarrow> value_post r (ok, s')"
proof -
  have p: "progress (current_path r) r s" using assms by (intro progress_calm) (simp_all add: value_pre_def)
  show "remembers s s' \<Longrightarrow> value_post r (ok, s')" by (rule value_done [OF p progress_nodes [OF p]])
  show "value_post r (ok, s)" using p assms(2) by (simp add: value_post_def calm_def)
qed

lemma calm_decodeString: "decodeString tok r = (s, r') \<Longrightarrow> calm r r'"
  by (auto simp: decodeString_def split: sum.splits prod.splits)

text \<open>A container: emptied, filled by its loop, closed.\<close>

lemma loop_close:
  assumes "value_pre r" "\<And>v. type_of (f v) = t" "\<And>v. jv_ok (f v)" "calm (set_current f r) ra"
    "safe_in E (loop_post t ra) m" "\<And>s v. payload (g s v) = payload v" "\<And>s. remembers (set_current (g s) s) (h s)"
  shows "safe_in E (value_post r) (rbind m (\<lambda>(ok, r'). Inr (ok, h r')))"
proof (rule safe_rbind [OF assms(5)], rule safe_split, goal_cases)
  case (1 x ok s)
  note o = replace_current [OF assms(1-3)]
  have a: "progress (current_path r) (set_current f r) ra"
    by (rule progress_calm [OF _ _ assms(4)]) (use o(1) in \<open>simp_all add: loop_pre_def\<close>)
  have "current_path ra = current_path r" using assms(4) o(4) by (simp add: calm_def)
  then have b: "progress (current_path r) ra s" using 1 by (simp add: loop_post_def)
  show ?case unfolding safe_simps
    by (rule value_close [OF progress_trans [OF o(2) progress_trans [OF a b]] assms(6,7)])
qed

section \<open>Containers\<close>

lemma loop_steady: "loop_pre t r \<Longrightarrow> steady r" by (simp add: loop_pre_def)

lemma safe_loop_from: "loop_post t r (ok, s) \<Longrightarrow> safe_in E (loop_post t s) m \<Longrightarrow> safe_in E (loop_post t r) m"
  by (rule safe_mono) (blast intro: loop_post_trans)+

lemma safe_loop_calm:
  "loop_pre t r \<Longrightarrow> calm r s \<Longrightarrow> (loop_pre t s \<Longrightarrow> safe_in E (loop_post t s) m) \<Longrightarrow> safe_in E (loop_post t r) m"
  using loop_calm [of t r s] safe_loop_from by blast

text \<open>The child is created.\<close>

definition child_made :: "path_argument \<Rightarrow> ('t, 'f, 'm) rstate \<Rightarrow> ('t, 'f, 'm) rstate \<Rightarrow> bool" where
  "child_made a r r1 \<longleftrightarrow> calm r r1 \<and> type_at (current_path r1 @ [a]) (rd_root r1) \<noteq> None"

lemma create_child:
  assumes "loop_pre t r" "\<And>w. type_of w = t \<Longrightarrow> \<exists>w'. g w = Inr w' \<and> extends w w' \<and> type_at [a] w' \<noteq> None \<and> (jv_ok w \<longrightarrow> jv_ok w')"
  shows "safe_in E (child_made a r) (update_res (current_path r) g r)"
proof -
  obtain w where w: "value_at (current_path r) (rd_root r) = Some w" "type_of w = t"
    using assms(1) by (auto simp: loop_pre_def type_at_def)
  from assms(2) [OF w(2)] obtain w' where w': "g w = Inr w'" "extends w w'" "type_at [a] w' \<noteq> None" "jv_ok w \<longrightarrow> jv_ok w'" by blast
  obtain r1 where r1: "update_res (current_path r) g r = Inr r1" "calm r r1"
    "rd_root r1 = update_at (current_path r) (\<lambda>_. w') (rd_root r)"
    using calm_update_res [where f = g, OF w(1) w'(1,2)] w'(4) by blast
  then show ?thesis using type_at_below [OF w(1), of "[a]" "\<lambda>_. w'"] w'(3) by (simp add: child_made_def calm_def)
qed

lemma create_element:
  assumes "loop_pre arrayValue r"
  shows "safe_in E (child_made (KindIndex i) r) (update_res (current_path r) (\<lambda>v. rbind (index_ref i v) (\<lambda>(v', _). Inr v')) r)"
proof (rule create_child [OF assms])
  fix w assume t: "type_of w = arrayValue"
  obtain w' x where "index_ref i w = Inr (w', x)" "extends w w'" "type_at [KindIndex i] w' \<noteq> None"
    by (rule extends_index_ref [OF t, of i])
  then show "\<exists>w'. rbind (index_ref i w) (\<lambda>(v', _). Inr v') = Inr w' \<and> extends w w' \<and> type_at [KindIndex i] w' \<noteq> None \<and> (jv_ok w \<longrightarrow> jv_ok w')"
    using index_ref_ok [of w i w' x] by simp
qed

lemma create_member:
  assumes "loop_pre objectValue r"
  shows "safe_in E (child_made (KindKey k) r) (update_res (current_path r) (\<lambda>v. rbind (resolveReference k v) (\<lambda>(v', _). Inr v')) r)"
proof (rule create_child [OF assms])
  fix w assume t: "type_of w = objectValue"
  obtain w' x where "resolveReference k w = Inr (w', x)" "extends w w'" "type_at [KindKey k] w' \<noteq> None"
    by (rule extends_resolveReference [OF t, of k])
  then show "\<exists>w'. rbind (resolveReference k w) (\<lambda>(v', _). Inr v') = Inr w' \<and> extends w w' \<and> type_at [KindKey k] w' \<noteq> None \<and> (jv_ok w \<longrightarrow> jv_ok w')"
    using resolveReference_ok [of w k w' x] by simp
qed

section \<open>Loops over tokens\<close>

lemma calm_errors [simp]: "calm r (s\<lparr>rd_errors := es\<rparr>) \<longleftrightarrow> calm r s"
  by (simp add: calm_def)

locale safe_source = token_source +
  fixes E :: "exn set"
  assumes token_safe: "steady r \<Longrightarrow> safe_in E (\<lambda>(ok, tok, r'). calm r r') (readToken r)"
begin

lemma skipComments_safe: "steady r \<Longrightarrow> safe_in E (\<lambda>(ok, tok, r'). calm r r') (skipComments ok tok r)"
proof (induction "left r" arbitrary: ok tok r rule: less_induct)
  case less
  show ?case
  proof (cases "tok_type tok = comment \<and> ok")
    case True
    show ?thesis
    proof (cases "readToken r")
      case (Inr x)
      obtain ok1 tok1 s where x: "x = (ok1, tok1, s)" by (cases x)
      have t: "readToken r = Inr (ok1, tok1, s)" using Inr x by simp
      have c: "calm r s" using token_safe [OF less(2)] t by simp
      have sk: "safe_in E (\<lambda>(ok, tok, r'). calm s r') (skipComments ok1 tok1 s)" if "tok_type tok1 = comment"
        using less(1) [of s] token_left [OF t] that comment_token steady_calm [OF less(2) c] by auto
      have "safe_in E (\<lambda>(ok, tok, r'). calm r r') (skipComments ok1 tok1 s)" if "tok_type tok1 = comment"
        by (rule safe_mono [OF sk [OF that]]) (use c in \<open>auto intro: calm_trans\<close>)
      moreover have "skipComments ok tok r =
          (if tok_type tok1 = comment \<and> ok1 then skipComments ok1 tok1 s else Inr (ok1, tok1, s))"
        using True t by (subst skipComments_eq) simp
      ultimately show ?thesis using c by (cases ok1) auto
    next
      case (Inl e)
      then have "skipComments ok tok r = Inl e" using True by (subst skipComments_eq) simp
      with Inl show ?thesis using token_safe [OF less(2)] by simp
    qed
  next
    case False
    then have "skipComments ok tok r = Inr (ok, tok, r)" by (subst skipComments_eq) auto
    then show ?thesis by simp
  qed
qed

lemma recoverLoop_safe: "steady r \<Longrightarrow> safe_in E (calm r) (recoverLoop t r)"
proof (induction "left r" arbitrary: r rule: less_induct)
  case less
  show ?case
  proof (cases "readToken r")
    case (Inr x)
    obtain ok skip s where x: "x = (ok, skip, s)" by (cases x)
    have tk: "readToken r = Inr (ok, skip, s)" using Inr x by simp
    have c: "calm r s" using token_safe [OF less(2)] tk by simp
    have rl: "safe_in E (calm s) (recoverLoop t s)" if "tok_type skip \<noteq> endOfStream"
      using less(1) [OF token_left [OF tk that] steady_calm [OF less(2) c]] .
    have "safe_in E (calm r) (recoverLoop t s)" if "tok_type skip \<noteq> endOfStream"
      by (rule safe_mono [OF rl [OF that]]) (use c in \<open>auto intro: calm_trans\<close>)
    then show ?thesis using tk c by (auto simp: recoverLoop_eq [of t r])
  qed (use token_safe [OF less(2)] in \<open>simp add: recoverLoop_eq [of t r]\<close>)
qed

lemma recover_safe:
  assumes "steady r"
  shows "safe_in E (\<lambda>(ok, r'). calm r r') (recoverFromError t r)" "safe_in E (\<lambda>(ok, r'). calm r r') (addErrorAndRecover m tok t r)"
proof -
  have rec: "safe_in E (\<lambda>(ok, r'). calm r r') (recoverFromError t r)" if "steady r" for r
    unfolding recoverFromError_eq by (rule safe_rbind [OF recoverLoop_safe [OF that]]) simp
  then show "safe_in E (\<lambda>(ok, r'). calm r r') (recoverFromError t r)" using assms by blast
  have "safe_in E (\<lambda>(ok, r'). calm (addError m tok None r) r') (addErrorAndRecover m tok t r)"
    unfolding addErrorAndRecover_eq by (rule rec [OF steady_calm [OF assms calm_addError]])
  then show "safe_in E (\<lambda>(ok, r'). calm r r') (addErrorAndRecover m tok t r)"
    by (rule safe_mono) (auto intro: calm_trans [OF calm_addError])
qed

lemma loop_recover_safe:
  assumes "loop_pre t r"
  shows "safe_in E (loop_post t r) (recoverFromError u r)" "safe_in E (loop_post t r) (addErrorAndRecover m tok u r)"
  using loop_calm(2) [OF assms]
  by (auto intro!: safe_mono [OF recover_safe(1) [OF loop_steady [OF assms]]]
      safe_mono [OF recover_safe(2) [OF loop_steady [OF assms]]])

text \<open>A child read and left.\<close>

lemma child_step:
  assumes r: "loop_pre t r" "type_at (current_path r @ [a]) (rd_root r) \<noteq> None"
    and v: "value_pre (pushNode a r) \<Longrightarrow> safe_in E (value_post (pushNode a r)) (readValue (pushNode a r))"
    and k: "\<And>s. loop_pre t s \<Longrightarrow> safe_in E (loop_post t s) (k s)"
  shows "safe_in E (loop_post t r) (rbind (readValue (pushNode a r)) (\<lambda>(ok, r2).
     if \<not> ok then recoverFromError u (popNode r2) else k (popNode r2)))"
proof (rule safe_rbind [OF v [OF enter_child [OF r]]], goal_cases)
  case (1 x)
  obtain ok r2 where x: "x = (ok, r2)" by force
  have p: "loop_pre t (popNode r2)" "loop_post t r (ok, popNode r2)" using leave_child [OF r(1)] 1 x by blast+
  show ?case unfolding x prod.case
    by (intro safe_if safe_loop_from [OF p(2)] loop_recover_safe(1) [OF p(1)] k [OF p(1)])
qed

lemma array_tail_safe:
  assumes s: "loop_pre arrayValue s"
    and loop: "\<And>u. loop_pre arrayValue u \<Longrightarrow> safe_in E (loop_post arrayValue u) (loop u)"
  shows "safe_in E (loop_post arrayValue s) (rbind (readToken s) (\<lambda>(ok0, tok0, r3).
     rbind (skipComments ok0 tok0 r3) (\<lambda>(ok1, currentToken, r4).
     if \<not> ok1 \<or> tok_type currentToken \<notin> T
     then addErrorAndRecover m currentToken t r4
     else if tok_type currentToken = e then Inr (True, r4) else loop r4)))"
proof (rule safe_rbind [OF token_safe [OF loop_steady [OF s]]], intro safe_split, goal_cases)
  case (1 x ok0 y tok0 r3)
  then have r3: "calm s r3" by simp
  show ?case
  proof (rule safe_rbind [OF skipComments_safe [OF steady_calm [OF loop_steady [OF s] r3]]], intro safe_split, goal_cases)
    case (1 x ok1 y tok r4)
    then have r4: "calm s r4" using r3 by (auto intro: calm_trans)
    show ?case
    proof (rule safe_loop_calm [OF s r4], intro safe_if loop_recover_safe(2) loop, goal_cases)
      case 2
      then show ?case by (simp add: loop_calm(2) [OF _ calm_refl])
    qed
  qed
qed

lemma array_step_safe:
  assumes r: "loop_pre arrayValue r"
    and v: "\<And>u. value_pre u \<Longrightarrow> safe_in E (value_post u) (readValue u)"
    and k: "\<And>s. loop_pre arrayValue s \<Longrightarrow> safe_in E (loop_post arrayValue s) (k s)"
  shows "safe_in E (loop_post arrayValue r)
     (rbind (update_res (current_path r) (\<lambda>v. rbind (index_ref i v) (\<lambda>(v', _). Inr v')) r) (\<lambda>r1.
      rbind (readValue (pushNode (KindIndex i) r1)) (\<lambda>(ok, r2).
      if \<not> ok then recoverFromError t (popNode r2) else k (popNode r2))))"
proof (rule safe_rbind [OF create_element [OF r]], goal_cases)
  case (1 r1)
  then have c: "calm r r1" "type_at (current_path r1 @ [KindIndex i]) (rd_root r1) \<noteq> None" by (auto simp: child_made_def)
  show ?case by (rule safe_loop_calm [OF r c(1)]) (rule child_step [where readValue = readValue, OF _ c(2) v k])
qed

lemma object_tail_safe:
  assumes s: "loop_pre objectValue s"
    and loop: "\<And>u. loop_pre objectValue u \<Longrightarrow> safe_in E (loop_post objectValue u) (loop u)"
  shows "safe_in E (loop_post objectValue s) (rbind (readToken s) (\<lambda>(okm, comma, r7).
     if \<not> okm \<or> tok_type comma \<notin> T
     then addErrorAndRecover m comma t r7
     else rbind (skipComments True comma r7) (\<lambda>(_, comma', r8).
     if tok_type comma' = e then Inr (True, r8) else loop r8)))"
proof (rule safe_rbind [OF token_safe [OF loop_steady [OF s]]], intro safe_split, goal_cases)
  case (1 x okm y comma r7)
  then have c7: "calm s r7" by simp
  show ?case
  proof (rule safe_loop_calm [OF s c7], intro safe_if loop_recover_safe(2), goal_cases)
    case 2
    show ?case
    proof (rule safe_rbind [OF skipComments_safe [OF loop_steady [OF 2(1)]]], intro safe_split, goal_cases)
      case (1 x u y comma' r8)
      then have "calm r7 r8" by simp
      then show ?case
      proof (rule safe_loop_calm [OF 2(1)], intro safe_if loop, goal_cases)
        case 1
        then show ?case by (simp add: loop_calm(2) [OF _ calm_refl])
      qed
    qed
  qed
qed

text \<open>The colon and the value of a member.\<close>

lemma object_member_safe:
  assumes s: "loop_pre objectValue s"
    and v: "\<And>u. value_pre u \<Longrightarrow> safe_in E (value_post u) (readValue u)"
    and k: "\<And>s. loop_pre objectValue s \<Longrightarrow> safe_in E (loop_post objectValue s) (k s)"
  shows "safe_in E (loop_post objectValue s) (rbind (readToken s) (\<lambda>(okc, colon, r4).
     if \<not> okc \<or> tok_type colon \<noteq> c
     then addErrorAndRecover m colon t r4
     else rbind (update_res (current_path r4) (\<lambda>v. rbind (resolveReference name v) (\<lambda>(v', _). Inr v')) r4) (\<lambda>r5.
     rbind (readValue (pushNode (KindKey name) r5)) (\<lambda>(okv, r6).
     if \<not> okv then recoverFromError t (popNode r6) else k (popNode r6)))))"
proof (rule safe_rbind [OF token_safe [OF loop_steady [OF s]]], intro safe_split, goal_cases)
  case (1 x okc y colon r4)
  then have c4: "calm s r4" by simp
  show ?case
  proof (rule safe_loop_calm [OF s c4], intro safe_if loop_recover_safe(2), goal_cases)
    case 2
    show ?case
    proof (rule safe_rbind [OF create_member [OF 2(1)]], goal_cases)
      case (1 r5)
      then have c: "calm r4 r5" "type_at (current_path r5 @ [KindKey name]) (rd_root r5) \<noteq> None"
        by (auto simp: child_made_def)
      show ?case by (rule safe_loop_calm [OF 2(1) c(1)]) (rule child_step [where readValue = readValue, OF _ c(2) v k])
    qed
  qed
qed

text \<open>The name of a member: what reads it may fail, and what follows uses it.\<close>

lemma object_name_safe:
  assumes r: "loop_pre objectValue r0"
    and named: "\<And>ok tokenName r2. loop_pre objectValue r2 \<Longrightarrow> safe_in E (loop_post objectValue r2) (named ok tokenName r2)"
  shows "safe_in E (loop_post objectValue r0) (rbind (readToken r0) (\<lambda>(ok0, tok0, r1).
     rbind (if ok0 then skipComments True tok0 r1 else Inr (False, tok0, r1)) (\<lambda>(ok, tokenName, r2). named ok tokenName r2)))"
proof (rule safe_rbind [OF token_safe [OF loop_steady [OF r]]], intro safe_split, goal_cases)
  case (1 x ok0 y tok0 r1)
  then have c1: "calm r0 r1" by simp
  have r1: "loop_pre objectValue r1" by (rule loop_calm(1) [OF r c1])
  have sk: "safe_in E (\<lambda>(ok, tok, r2). calm r1 r2) (if ok0 then skipComments True tok0 r1 else Inr (False, tok0, r1))"
    using skipComments_safe [OF loop_steady [OF r1]] by simp
  show ?case
  proof (rule safe_loop_calm [OF r c1], rule safe_rbind [OF sk], intro safe_split, goal_cases)
    case (1 x ok y tokenName r2)
    then have "calm r1 r2" by simp
    then show ?case by (rule safe_loop_calm [OF r1]) (rule named)
  qed
qed

end

end
