(* ===== verification/Reader_Safety.thy ===== *)
theory Reader_Safety
  imports Print_Parse Reading_Safely
begin

text \<open>
  \<^verbatim>\<open>Json::Reader\<close> uses no pointer whose target is gone, trips none of the assertions of \<^verbatim>\<open>Json::Value\<close>,
  and throws for one reason only, the limit on nesting: the contracts of \<open>Reading_Safely\<close> hold for its
  tokens, scalars, containers and for \<^verbatim>\<open>parse\<close>. The last section shows that the limit can be reached.
\<close>

section \<open>Tokens\<close>

definition depth_error :: exn where
  "depth_error = RuntimeError ''Exceeded stackLimit in readValue().''"

abbreviation safe :: "('a \<Rightarrow> bool) \<Rightarrow> 'a res \<Rightarrow> bool" where
  "safe \<equiv> safe_in {depth_error, OutOfFuel}"

abbreviation scanned :: "char \<Rightarrow> reader \<Rightarrow> bool \<times> reader" where
  "scanned c r1 \<equiv> (if c = CHR ''*'' then readCStyleComment r1 else if c = CHR ''/'' then readCppStyleComment r1 else (False, r1))"

lemma readComment_eq:
  assumes "getNextChar r = (c, r1)" "scanned c r1 = (ok, r2)"
  shows "readComment r = (if \<not> ok then Inr (False, r2) else if rd_collectComments r2
      then rbind (addComment (rd_current r - 1) (rd_current r2) (commentPlacement (rd_current r - 1) c r2) r2)
             (\<lambda>r3. Inr (True, r3))
      else Inr (True, r2))"
  unfolding readComment_def Let_def assms prod.case by simp

lemma safe_readComment:
  assumes "steady r" "after_slash r"
  shows "safe_in E (\<lambda>(ok, r'). calm r r') (readComment r)"
proof -
  obtain c r1 where r1: "getNextChar r = (c, r1)" by force
  obtain ok r2 where r2: "scanned c r1 = (ok, r2)" by force
  have q: "quiet r r2" "calm r r2"
    using r1 r2 quiet_getNextChar [OF r1] calm_scans(1) [OF r1]
    by (auto split: if_splits intro: quiet_trans calm_trans dest: quiet_scans(1,2) calm_scans(3,4))
  let ?m = "addComment (rd_current r - 1) (rd_current r2) (commentPlacement (rd_current r - 1) c r2) r2"
  have "safe_in E (calm r) ?m"
    by (rule safe_comment_read [OF assms q]) (auto simp: commentPlacement_def split: option.splits)
  then have "safe_in E (\<lambda>(ok, r'). calm r r') (rbind ?m (\<lambda>r3. Inr (True, r3)))"
    by (rule safe_rbind) simp
  then show ?thesis using q(2) unfolding readComment_eq [OF r1 r2] by simp
qed

lemma safe_tokenBody:
  assumes "steady r" "c = CHR ''/'' \<Longrightarrow> after_slash r"
  shows "safe_in E (\<lambda>(ty, ok, r'). calm r r') (tokenBody c r)"
proof (cases "c = CHR ''/''")
  case True
  have "safe_in E (\<lambda>(ty, ok, r'). calm r r') (rbind (readComment r) (\<lambda>(ok, r'). Inr (tokenComment, ok, r')))"
    by (rule safe_rbind [OF safe_readComment [OF assms(1) assms(2) [OF True]]]) auto
  then show ?thesis using True by (simp add: tokenBody_def)
next
  case False
  have "safe_in E (\<lambda>(ty, ok, r'). calm r r') (Inr (ty, readString r))" 
    "safe_in E (\<lambda>(ty, ok, r'). calm r r') (Inr (ty, match_pattern pat r))" for ty :: token_type and pat
    by (auto dest: calm_scans(1,3-6))
  then show ?thesis unfolding tokenBody_def if_not_P [OF False]
    by (intro if_both [where P = "safe_in E (\<lambda>(ty, ok, r'). calm r r')"]) (simp_all add: calm_scans)
qed

lemma safe_readToken:
  assumes "steady r"
  shows "safe_in E (\<lambda>(ok, tok, r'). calm r r') (readToken r)"
proof -
  obtain c r2 where r2: "getNextChar (skipSpaces r) = (c, r2)" by force
  have c: "calm r r2" using calm_scans(1) [OF r2] calm_scans(2) by (blast intro: calm_trans)
  have "safe_in E (\<lambda>(ty, ok, r'). calm r2 r') (tokenBody c r2)"
    by (rule safe_tokenBody [OF steady_calm [OF assms c]]) (use getNextChar_slash r2 in blast)
  then show ?thesis unfolding readToken_def Let_def r2 prod.case
    by (rule safe_rbind) (use c in \<open>auto intro: calm_trans\<close>)
qed


interpretation rs: safe_source readToken tokenEndOfStream tokenComment skipComments recoverLoop
    recoverFromError addErrorAndRecover E for E :: "exn set"
  by unfold_locales (rule safe_readToken)

lemma safe_skipCommentTokens:
  assumes "steady r"
  shows "safe_in E (\<lambda>(tok, r'). calm r r') (skipCommentTokens r)"
  unfolding skipCommentTokens_def
proof (rule safe_rbind [OF safe_readToken [OF assms]], intro safe_split safe_if, goal_cases)
  case (1 x ok y tok r1)
  then have c: "calm r r1" by simp
  show ?case
    by (rule safe_rbind [OF rs.skipComments_safe [OF steady_calm [OF assms c]]]) (use c in \<open>auto intro: calm_trans\<close>)
qed simp

section \<open>Scalars\<close>

lemma decoded_magnitude:
  "decodeNumber_loop m v s = Some n \<Longrightarrow> 0 \<le> v \<Longrightarrow> v \<le> m \<Longrightarrow> m \<le> UINT64_MAX \<Longrightarrow> 0 \<le> n \<and> n \<le> m"
proof (induction m v s rule: decodeNumber_loop.induct)
  case (2 m v c cs)
  define d where "d = (of_char c :: int) - 48"
  have c: "is_digit c" and g: "\<not> (v \<ge> m div 10 \<and> (v > m div 10 \<or> cs \<noteq> [] \<or> d > m mod 10))"
    and n: "decodeNumber_loop m (u64 (v * 10 + d)) cs = Some n"
    using 2(2) by (auto simp: d_def Let_def split: if_splits)
  have d: "0 \<le> d" "d \<le> 9" using digit_range [OF c] by (simp_all add: d_def)
  from g consider "v < m div 10" | "v = m div 10" "d \<le> m mod 10" by fastforce
  then have le: "v * 10 + d \<le> m" using d div_mult_mod_eq [of m 10] pos_mod_sign [of 10 m] by cases linarith+
  then have "u64 (v * 10 + d) = v * 10 + d" using d 2(3,5) by (simp add: to_unsigned_def int_limits)
  with 2(1) [OF _ refl refl] c g n le d 2(3,5) show ?case by (auto simp: d_def)
qed simp

lemma jd_ok_decodeInteger:
  assumes "decodeInteger txt = Some d"
  shows "jd_ok d"
proof -
  let ?neg = "txt \<noteq> [] \<and> hd txt = CHR ''-''"
  let ?m = "if ?neg then INT64_MAX + 1 else UINT64_MAX"
  obtain n where n: "decodeNumber_loop ?m 0 (if ?neg then tl txt else txt) = Some n"
    and d: "d = (if ?neg \<and> n = ?m then IntV INT64_MIN else if ?neg then IntV (- s64 n)
       else if n \<le> INT_MAX then IntV (s64 n) else UIntV n)"
    using assms by (auto simp: decodeInteger_def Let_def split: option.splits if_splits)
  have r: "0 \<le> n \<and> n \<le> ?m" by (rule decoded_magnitude [OF n]) (simp_all add: int_limits)
  then have "s64 n = n" if "n \<le> INT64_MAX" using that by (auto simp: to_signed_def int_limits)
  then show ?thesis using r by (auto simp: d int_limits split: if_splits)
qed



lemma round_div_nonneg: "0 \<le> n \<Longrightarrow> 0 < d \<Longrightarrow> 0 \<le> round_div n d"
  by (auto simp: round_div_def Let_def pos_imp_zdiv_nonneg_iff)

lemma jd_ok_dbl_round: "0 \<le> n \<Longrightarrow> 0 < d \<Longrightarrow> jd_ok (RealV (dbl_round s n d))"
  by (auto simp: dbl_round_def fp_round_def scale_round_def Let_def round_div_nonneg split: prod.splits if_splits)

lemma dec_value_nonneg: "list_all is_digit ds \<Longrightarrow> 0 \<le> dec_value 0 ds"
  using dec_value_mono [of ds 0] by simp

lemma take_digits_digits: "take_digits s = (ds, t) \<Longrightarrow> list_all is_digit ds"
  by (auto simp: take_digits_def list_all_iff dest: set_takeWhileD)

lemma jd_ok_istream_double:
  assumes "istream_double txt = Some d"
  shows "jd_ok (RealV d)"
proof -
  obtain neg r0 ip r1 fp r2 k where "take_sign txt = (neg, r0)" and ip: "take_digits r0 = (ip, r1)"
    and fp: "(case r1 of c # r \<Rightarrow> if c = CHR ''.'' then take_digits r else ([], r1) | [] \<Rightarrow> ([], [])) = (fp, r2)"
    and d: "d = dbl_of_decimal neg (dec_value 0 (ip @ fp)) (k - int (length fp))"
    using assms by (auto simp: istream_double_def Let_def split: prod.splits option.splits if_splits)
  have "list_all is_digit (ip @ fp)"
    using take_digits_digits [OF ip] fp by (auto split: list.splits if_splits dest: take_digits_digits)
  from dec_value_nonneg [OF this] show ?thesis unfolding d dbl_of_decimal_def by (auto intro!: jd_ok_dbl_round simp del: jd_ok.simps)
qed

lemma jd_ok_decodeNumber: "decodeNumber tok r = (Some d, r') \<Longrightarrow> jd_ok d"
  by (auto simp: decodeNumber_def decodeDouble_def split: option.splits dest: jd_ok_decodeInteger jd_ok_istream_double)

lemma remembers_rememberLast [simp]: "remembers s (rememberLast s)"
  by (simp add: remembers_def rememberLast_def)

lemma value_storeDecoded:
  assumes "value_pre r" "calm r s" "\<And>d. x = Some d \<Longrightarrow> jd_ok d" "storeDecoded (x, s) tok = (ok, r')"
  shows "value_post r (ok, rememberLast r')"
proof (cases x)
  case None
  then show ?thesis using assms value_failed(2) [OF assms(1,2) remembers_rememberLast] by (simp add: storeDecoded_def)
next
  case (Some d)
  then show ?thesis
    using assms value_post_calm [OF assms(2) value_store [OF value_calm [OF assms(1,2)] assms(3) [OF Some] _ remembers_rememberLast]]
    by (auto simp: storeDecoded_def offsets_def set_payload_def setOffsetLimit_def setOffsetStart_def)
qed

lemma calm_decodeNumber: "decodeNumber tok r = (d, r') \<Longrightarrow> calm r r'"
  by (auto simp: decodeNumber_def decodeDouble_def split: option.splits)

lemma value_scalar:
  assumes "value_pre r" "readScalar tok r = (ok, r')"
  shows "value_post r (ok, rememberLast r')"
proof -
  consider "tok_type tok = tokenNumber" | "tok_type tok = tokenString" | "tok_type tok \<notin> {tokenNumber, tokenString}" by blast
  then show ?thesis
  proof cases
    case 1
    obtain d s where d: "decodeNumber tok r = (d, s)" by force
    have "storeDecoded (d, s) tok = (ok, r')" using assms(2) 1 d by (simp add: readScalar_def)
    then show ?thesis using d by (intro value_storeDecoded [OF assms(1) calm_decodeNumber [OF d]]) (auto dest: jd_ok_decodeNumber)
  next
    case 2
    obtain x s where d: "decodeString tok r = (x, s)" by force
    have "storeDecoded (map_option StringV x, s) tok = (ok, r')" using assms(2) 2 d by (simp add: readScalar_def)
    then show ?thesis by (intro value_storeDecoded [OF assms(1) calm_decodeString [OF d]]) auto
  next
    case 3
    then obtain d where "storeDecoded (Some d, r) tok = (ok, r')" "jd_ok d"
      using assms(2) by (cases "tok_type tok") (auto simp: readScalar_def)
    then show ?thesis by (intro value_storeDecoded [OF assms(1) calm_refl, of "Some d"]) auto
  qed
qed

section \<open>The recursion\<close>

definition guarded :: "nat \<Rightarrow> bool" where
  "guarded fuel \<longleftrightarrow>
     (\<forall>r. value_pre r \<longrightarrow> safe (value_post r) (readValue fuel r)) \<and>
     (\<forall>name r. loop_pre objectValue r \<longrightarrow> safe (loop_post objectValue r) (readObjectLoop fuel name r)) \<and>
     (\<forall>i r. loop_pre arrayValue r \<longrightarrow> safe (loop_post arrayValue r) (readArrayLoop fuel i r))"

lemma guardedD:
  "guarded fuel \<Longrightarrow> value_pre r \<Longrightarrow> safe (value_post r) (readValue fuel r)"
  "guarded fuel \<Longrightarrow> loop_pre objectValue r \<Longrightarrow> safe (loop_post objectValue r) (readObjectLoop fuel name r)"
  "guarded fuel \<Longrightarrow> loop_pre arrayValue r \<Longrightarrow> safe (loop_post arrayValue r) (readArrayLoop fuel i r)"
  by (simp_all add: guarded_def)

lemma guarded_array_step:
  assumes g: "guarded fuel" and r: "loop_pre arrayValue r"
  shows "safe (loop_post arrayValue r) (readArrayLoop (Suc fuel) i r)"
  unfolding readArrayLoop.simps
  by (rule rs.array_step_safe [where readValue = "readValue fuel", OF r guardedD(1) [OF g] rs.array_tail_safe [OF _ guardedD(3) [OF g]]])

lemma decodeNumber_scalar: "decodeNumber tok r = (Some d, r') \<Longrightarrow> \<exists>s. asString (initBasic d) = Inr s"
  by (auto simp: decodeNumber_def decodeInteger_def decodeDouble_def asString_def initBasic_def Let_def
      split: option.splits if_splits)

lemma safe_memberName:
  "safe (\<lambda>x. \<forall>n r'. x = Some (n, r') \<longrightarrow> calm r r') (memberName tok r)"
proof -
  obtain x s where x: "decodeNumber tok r = (x, s)" by force
  have "safe (\<lambda>y. \<forall>n r'. y = Some (n, r') \<longrightarrow> calm r r') (rbind (asString (initBasic d)) (\<lambda>s'. Inr (Some (Some s', s))))"
    if "x = Some d" for d
    using decodeNumber_scalar [of tok r d s] that x calm_decodeNumber [OF x] by auto
  then show ?thesis using x calm_decodeNumber [OF x] by (auto simp: memberName_def calm_decodeString split: option.splits)
qed

lemma guarded_object_step:
  assumes g: "guarded fuel" and r: "loop_pre objectValue r0"
  shows "safe (loop_post objectValue r0) (readObjectLoop (Suc fuel) name r0)"
  unfolding readObjectLoop.simps
proof (rule rs.object_name_safe [OF r], intro safe_if, goal_cases)
  case (1 ok tokenName r2)
  then show ?case by (intro rs.loop_recover_safe(2))
next
  case (2 ok tokenName r2)
  then show ?case by (simp add: loop_calm(2) [OF _ calm_refl])
next
  case (3 ok tokenName r2)
  note r2 = \<open>loop_pre objectValue r2\<close>
  have member: "safe (loop_post objectValue s) (object_member fuel n s)" if s: "loop_pre objectValue s" for n s
    by (rule rs.object_member_safe [where readValue = "readValue fuel", OF s guardedD(1) [OF g]
        rs.object_tail_safe [OF _ guardedD(2) [OF g]]])
  show ?case
  proof (rule safe_rbind [OF safe_memberName], goal_cases)
    case (1 decoded)
    have "safe (loop_post objectValue r2) (recoverFromError tokenObjectEnd r3)" if "decoded = Some (None, r3)" for r3
      using 1 that by (intro safe_loop_calm [OF r2, of r3] rs.loop_recover_safe(1)) simp_all
    moreover have "safe (loop_post objectValue r2) (object_member fuel n r3)" if "decoded = Some (Some n, r3)" for n r3
      using 1 that by (intro safe_loop_calm [OF r2, of r3] member) simp_all
    ultimately show ?case using rs.loop_recover_safe(2) [OF r2] by (auto split: option.split prod.split)
  qed
qed

lemma safe_array_begin:
  assumes g: "guarded fuel" and r: "loop_pre arrayValue ra"
  shows "safe (loop_post arrayValue ra) (if rest ra \<noteq> [] \<and> hd (rest ra) = CHR '']''
                   then rbind (readToken ra) (\<lambda>(_, _, rb). Inr (True, rb)) else readArrayLoop fuel 0 ra)"
proof (rule safe_if, goal_cases)
  case 1
  show ?case
    by (rule safe_rbind [OF safe_readToken [OF loop_steady [OF r]]]) (auto intro: loop_calm(2) [OF r])
next
  case 2
  then show ?case using g r unfolding guarded_def by blast
qed

lemma guarded_value_step:
  assumes g: "guarded fuel" and r: "value_pre r0"
  shows "safe (value_post r0) (readValue (Suc fuel) r0)"
  unfolding readValue.simps
proof (rule safe_if, simp add: depth_error_def,
    rule safe_rbind [OF safe_skipCommentTokens], goal_cases)
  case 1
  then show ?case using r by (simp add: value_pre_def)
next
  case (2 x)
  obtain token r1 where x: "x = (token, r1)" by force
  have c1: "calm r0 r1" using 2 x by simp
  have st: "steady r1" "rd_nodes r1 \<noteq> []" using value_calm [OF r c1] by (simp_all add: value_pre_def)
  show ?case unfolding x prod.case
  proof (rule safe_rbind [OF safe_takeCommentsBefore [OF st]], goal_cases)
    case (1 s)
    have c: "calm r0 s" by (rule calm_trans [OF c1 1])
    have s: "value_pre s" by (rule value_calm [OF r c])
    have ss: "steady s" "rd_nodes s \<noteq> []" using s by (simp_all add: value_pre_def)
    show ?case
    proof (rule safe_value_calm [OF c], intro safe_if, goal_cases)
      case 1
      let ?f = "\<lambda>v. setOffsetStart (int (tok_start token)) (set_payload (ObjectV []) v)"
      have f: "type_of (?f v) = objectValue" "jv_ok (?f v)" for v
        by (simp_all add: type_of_def setOffsetStart_def jv_ok_payload)
      have "safe (loop_post objectValue (set_current ?f s)) (readObjectLoop fuel [] (set_current ?f s))"
        using g replace_current(1) [where f = ?f, OF s f] unfolding guarded_def by blast
      then show ?case
        by (rule loop_close [where f = ?f and g = "\<lambda>s. setOffsetLimit (int (rd_current s))", OF s f calm_refl]) (simp_all add: setOffsetLimit_def)
    next
      case 2
      let ?f = "\<lambda>v. setOffsetStart (int (tok_start token)) (set_payload (ArrayV []) v)"
      have f: "type_of (?f v) = arrayValue" "jv_ok (?f v)" for v
        by (simp_all add: type_of_def setOffsetStart_def jv_ok_payload)
      have ra: "calm (set_current ?f s) (skipSpaces (set_current ?f s))" by (rule calm_scans(2))
      have "loop_pre arrayValue (skipSpaces (set_current ?f s))" by (rule loop_calm(1) [OF replace_current(1) [where f = ?f, OF s f] ra])
      from safe_array_begin [OF g this] show ?case unfolding Let_def
        by (rule loop_close [where f = ?f and g = "\<lambda>s. setOffsetLimit (int (rd_current s))", OF s f ra]) (simp_all add: setOffsetLimit_def)
    next
      case 3
      then show ?case using value_scalar [OF s] by (auto split: prod.split)
    next
      case 4
      let ?s = "s\<lparr>rd_current := rd_current s - 1\<rparr>"
      have "calm s ?s" by (simp add: calm_def)
      then show ?case unfolding Let_def safe_simps
        by (intro value_post_calm [of s ?s] value_store [OF value_calm [OF s] _ _ remembers_rememberLast, of ?s NullV])
          (simp_all add: setOffsetLimit_def setOffsetStart_def)
    next
      case 5
      have "calm s (set_current (offsets token) s)"
        by (rule calm_set_current [OF ss]) (simp add: offsets_def setOffsetLimit_def setOffsetStart_def)
      then have "calm s (addError m token None (set_current (offsets token) s))" for m
        using calm_addError by (blast intro: calm_trans)
      then show ?case by (simp add: value_failed(1) [OF s])
    qed
  qed
qed

lemma guarded_all: "guarded fuel"
proof (induction fuel)
  case (Suc fuel)
  then show ?case unfolding guarded_def [of "Suc fuel"]
    using guarded_value_step guarded_object_step guarded_array_step by blast
qed (simp add: guarded_def)

lemma value_pre_init: "value_pre (mk_reader feats doc root0 collect)"
  by (simp add: value_pre_def steady_def mk_reader_def slashed_def)

definition parsed_well :: "jvalue \<Rightarrow> bool \<times> reader \<Rightarrow> bool" where
  "parsed_well root0 x \<longleftrightarrow> rd_nodes (snd x) = [[]] \<and> (jv_ok root0 \<longrightarrow> jv_ok (rd_root (snd x))) \<and>
     (\<forall>p. rd_lastValue (snd x) = Some p \<longrightarrow> value_at p (rd_root (snd x)) \<noteq> None)"

lemma safe_parse: "safe (parsed_well root0) (parse feats doc root0 collect)"
proof -
  let ?r = "mk_reader feats doc root0 collect"
  have "safe (value_post ?r) (readValue (parse_fuel doc) ?r)"
    using guarded_all value_pre_init unfolding guarded_def by blast
  then show ?thesis unfolding parse_def
  proof (rule safe_rbind, intro safe_split, goal_cases)
    case (1 x successful r1)
    then have r1: "steady r1" "rd_nodes r1 = [[]]" "jv_ok root0 \<longrightarrow> jv_ok (rd_root r1)"
      by (simp_all add: value_post_def progress_def mk_reader_def)
    show ?case
    proof (rule safe_rbind [OF safe_skipCommentTokens [OF r1(1)]], intro safe_split, goal_cases)
      case (1 x token r2)
      then have c2: "calm r1 r2" by simp
      then have st: "steady r2" by (rule steady_calm [OF r1(1)])
      have "safe (calm r2) (if rd_collectComments r2 \<and> rd_commentsBefore r2 \<noteq> []
            then update_res [] (setComment (rd_commentsBefore r2) commentAfter) r2 else Inr r2)"
        using safe_comment [of "[]" r2 "rd_commentsBefore r2" commentAfter] st by (auto simp: steady_def)
      then show ?case
      proof (rule safe_rbind, goal_cases)
        case (1 r3)
        have c: "calm r1 r3" by (rule calm_trans [OF c2 1])
        have "steady r3" by (rule steady_calm [OF r1(1) c])
        moreover have "rd_nodes r3 = [[]]" "jv_ok root0 \<longrightarrow> jv_ok (rd_root r3)" using r1 c by (simp_all add: calm_def)
        ultimately show ?case by (auto simp: parsed_well_def steady_def type_at_def addError_def)
      qed
    qed
  qed
qed

text \<open>C17 (parse_throws_only_for_depth). \<^verbatim>\<open>parse\<close> returns for every document, whatever its bytes, the features
  and the root, or throws the error of too deep nesting: no assertion of \<^verbatim>\<open>Json::Value\<close> fails, no
  pointer to a value that is gone is followed, and no other exception is thrown.\<close>

theorem parse_throws_only_for_depth:
  "(\<exists>ok r. parse feats doc root0 collect = Inr (ok, r)) \<or>
   parse feats doc root0 collect = Inl (RuntimeError ''Exceeded stackLimit in readValue().'')"
proof (cases "parse feats doc root0 collect")
  case (Inl e)
  then show ?thesis using safe_parse [of root0 feats doc collect] fuelled_parse [of feats doc root0 collect]
    by (auto simp: depth_error_def fuelled_def)
qed auto

text \<open>C18 (parse_well_formed). The value that \<^verbatim>\<open>parse\<close> leaves, also after errors, has the type invariant of
  \<^verbatim>\<open>Json::Value\<close> at every depth (integers within their types, maps in ascending order), the stack \<^verbatim>\<open>nodes_\<close>
  is back at the root alone, and \<^verbatim>\<open>lastValue_\<close> points into the value.\<close>

theorem parse_well_formed:
  assumes "jv_ok root0" "parse feats doc root0 collect = Inr (ok, r)"
  shows "jv_ok (rd_root r) \<and> rd_nodes r = [[]] \<and> (\<forall>p. rd_lastValue r \<noteq> Some p \<or> value_at p (rd_root r) \<noteq> None)"
  using safe_parse [of root0 feats doc collect] assms by (auto simp: parsed_well_def)

theorem parse_well_formed_witness:
  "\<exists>r. parse features_all ''[1,{'' nullSingleton True = Inr (False, r) \<and> jv_ok (rd_root r)"
proof -
  have "case parse features_all ''[1,{'' nullSingleton True of Inr (ok, r) \<Rightarrow> \<not> ok | _ \<Rightarrow> False" by code_simp
  then obtain r where r: "parse features_all ''[1,{'' nullSingleton True = Inr (False, r)"
    by (auto split: sum.splits)
  have "jv_ok nullSingleton" by simp
  from parse_well_formed [OF this r] r show ?thesis by blast
qed

section \<open>Too deep\<close>

text \<open>More than a thousand opening brackets make \<^verbatim>\<open>parse\<close> throw, whatever follows.\<close>

lemma readValue_deep:
  assumes "rest r = replicate k (CHR ''['') @ t" "1002 \<le> length (rd_nodes r) + k" "1 \<le> k"
    "rd_commentsBefore r = []" "focus r = Some w0" "rd_nodes r \<noteq> []" "2 * k \<le> fuel"
  shows "readValue fuel r = Inl depth_error"
  using assms
proof (induction k arbitrary: r w0 fuel)
  case (Suc k)
  obtain f where f: "fuel = Suc (Suc f)" "2 * k \<le> f" using Suc.prems(7) by (cases fuel; cases "fuel - 1") auto
  show ?case
  proof (cases "length (rd_nodes r) \<le> 1000")
    case True
    then have k: "1 \<le> k" using Suc.prems(2) by simp
    have rest: "rest r = [] @ CHR ''['' # replicate k (CHR ''['') @ t" using Suc.prems(1) by simp
    from readValue_open(2) [OF Suc.prems(4,5) True _ rest refl, of "Suc f"] obtain w1 r1 where
      w1: "payload w1 = ArrayV []" and r1: "reads r ''['' w1 r1" and
      eq: "readValue fuel r = rbind (if rest (skipSpaces r1) \<noteq> [] \<and> hd (rest (skipSpaces r1)) = CHR '']''
          then rbind (readToken (skipSpaces r1)) (\<lambda>(_, _, rb). Inr (True, rb))
          else readArrayLoop (Suc f) 0 (skipSpaces r1)) close_value" using f(1) by auto
    have rest1: "rest r1 = replicate k (CHR ''['') @ t" using reads_rest [OF r1] rest by simp
    then have sk: "skipSpaces r1 = r1" using k by (cases k) (auto intro!: skipSpaces_none simp: is_space_def)
    have dn: "dense [] w1" using w1 by (simp add: dense_def)
    from dense_index_ref_end [OF dn] obtain u where u: "index_ref 0 w1 = Inr (u, nullSingleton)" "dense [nullSingleton] u" by auto
    have f1: "focus r1 = Some w1" by (rule reads_focus [OF r1 Suc.prems(5)])
    let ?r2 = "put_focus u r1"
    have upd: "update_res (current_path r1) (\<lambda>v. rbind (index_ref 0 v) (\<lambda>(v', _). Inr v')) r1 = Inr ?r2"
      using update_res_focus [OF f1] u(1) by simp
    have f2: "focus ?r2 = Some u" using f1 by simp
    have "readValue f (pushNode (KindIndex 0) ?r2) = Inl depth_error"
    proof (rule Suc.IH [OF _ _ k])
      show "rest (pushNode (KindIndex 0) ?r2) = replicate k (CHR ''['') @ t"
        using rest1 by (simp add: rest_def pushNode_def put_focus_def)
      show "focus (pushNode (KindIndex 0) ?r2) = Some nullSingleton"
        unfolding focus_pushNode [OF f2] by (simp add: dense_elements [OF u(2)])
    qed (use Suc.prems(2) reads_nodes [OF r1] reads_clean [OF r1] f(2) in \<open>simp_all add: pushNode_def put_focus_def\<close>)
    then have "readArrayLoop (Suc f) 0 r1 = Inl depth_error" by (simp only: readArrayLoop.simps upd rbind_Inr rbind_Inl)
    then show ?thesis unfolding eq sk using rest1 k by (cases k) simp_all
  next
    case False
    then show ?thesis by (simp add: f stackLimit_g_def depth_error_def)
  qed
qed simp

lemma reader_parse_deep: "reader_parse (replicate (1001 + k) (CHR ''['') @ t) = Inl depth_error"
proof -
  let ?doc = "replicate (1001 + k) (CHR ''['') @ t"
  have "readValue (parse_fuel ?doc) (mk_reader features_all ?doc nullSingleton True) = Inl depth_error"
    by (rule readValue_deep) (auto simp: rest_def mk_reader_def focus_def parse_fuel_def)
  then show ?thesis by (simp add: reader_parse_def parse_def)
qed

end
