(* ===== verification/Our_Reader.thy ===== *)
theory Our_Reader
  imports Reader_Loops Json_Writer "HOL-Library.Signed_Division"
begin

text \<open>
  \<^verbatim>\<open>Json::OurReader\<close> with its factory \<^verbatim>\<open>CharReaderBuilder\<close> (\<^verbatim>\<open>jsoncpp/src/json_reader.cpp\<close> from line 857),
  the reader behind \<^verbatim>\<open>operator>>\<close> and \<^verbatim>\<open>parseFromStream\<close>. The functions that are verbatim copies of those
  of \<^verbatim>\<open>Reader\<close> are the shared definitions of \<open>Reader_State\<close>; here are those that differ: more kinds of
  tokens, more features, the byte order mark, comments that attach to a value at most once, numbers
  with thresholds of their own. Positions are counted from the start of the document; \<open>rd_begin\<close>
  is \<^verbatim>\<open>begin_\<close>, from which the offsets that are stored or reported are counted.
\<close>

section \<open>State\<close>

datatype our_token_type = ourEndOfStream | ourObjectBegin | ourObjectEnd | ourArrayBegin
  | ourArrayEnd | ourString | ourNumber | ourTrue | ourFalse | ourNull | ourNaN | ourPosInf | ourNegInf
  | ourArraySeparator | ourMemberSeparator | ourComment | ourError

record our_features =
  of_allowComments :: bool
  of_allowTrailingCommas :: bool
  of_strictRoot :: bool
  of_allowDroppedNullPlaceholders :: bool
  of_allowNumericKeys :: bool
  of_allowSingleQuotes :: bool
  of_failIfExtra :: bool
  of_rejectDupKeys :: bool
  of_allowSpecialFloats :: bool
  of_skipBom :: bool
  of_stackLimit :: nat

definition our_all :: our_features where
  "our_all = \<lparr>of_allowComments = False, of_allowTrailingCommas = False, of_strictRoot = False,
     of_allowDroppedNullPlaceholders = False, of_allowNumericKeys = False, of_allowSingleQuotes = False,
     of_failIfExtra = False, of_rejectDupKeys = False, of_allowSpecialFloats = False, of_skipBom = False,
     of_stackLimit = 0\<rparr>"

type_synonym our_token = "our_token_type basic_token"

record our_reader = "(our_token_type, our_features) basic_reader" +
  rd_begin :: nat
  rd_lastValueHasAComment :: bool

section \<open>Tokens\<close>

definition our_skipBom :: "our_reader \<Rightarrow> our_reader" where
  "our_skipBom r =
     (if of_skipBom (rd_features r) \<and> 3 \<le> length (rd_document r) \<and>
         take 3 (rd_document r) = [CHR 0xEF, CHR 0xBB, CHR 0xBF]
      then r\<lparr>rd_begin := 3, rd_current := 3\<rparr> else r)"

text \<open>\<^verbatim>\<open>readCStyleComment\<close>: the bytes consumed, success, and whether a line feed was among them.\<close>

fun our_cStyleScan :: "string \<Rightarrow> nat \<times> bool \<times> bool" where
  "our_cStyleScan (c # d # cs) =
     (if c = CHR ''*'' \<and> d = CHR ''/'' then (2, True, False)
      else let (n, ok, nl) = our_cStyleScan (d # cs) in (Suc n, ok, c = LF \<or> nl))"
| "our_cStyleScan [c] = (1, c = CHR ''/'', False)"
| "our_cStyleScan [] = (0, False, False)"

definition our_readCStyleComment :: "our_reader \<Rightarrow> bool \<times> bool \<times> our_reader" where
  "our_readCStyleComment r = (let (n, ok, nl) = our_cStyleScan (rest r) in (ok, nl, advance n r))"

definition our_readComment :: "our_reader \<Rightarrow> (bool \<times> our_reader) res" where
  "our_readComment r =
     (let commentBegin = rd_current r - 1;
          (c, r1) = getNextChar r;
          (successful, cStyleWithEmbeddedNewline, r2) =
            (if c = CHR ''*'' then our_readCStyleComment r1
             else if c = CHR ''/'' then (case readCppStyleComment r1 of (ok, s) \<Rightarrow> (ok, False, s))
             else (False, False, r1))
      in if \<not> successful then Inr (False, r2)
         else if rd_collectComments r2
         then (let sameLine = \<not> rd_lastValueHasAComment r2 \<and>
                     (case rd_lastValueEnd r2 of
                        None \<Rightarrow> False
                      | Some e \<Rightarrow> \<not> containsNewLine (slice e commentBegin (rd_document r2))) \<and>
                     (c = CHR ''/'' \<or> \<not> cStyleWithEmbeddedNewline);
                   r3 = (if sameLine then r2\<lparr>rd_lastValueHasAComment := True\<rparr> else r2)
               in rbind (addComment commentBegin (rd_current r3)
                           (if sameLine then commentAfterOnSameLine else commentBefore) r3)
                    (\<lambda>r4. Inr (True, r4)))
         else Inr (True, r2))"

definition our_readNumber :: "bool \<Rightarrow> our_reader \<Rightarrow> bool \<times> our_reader" where
  "our_readNumber checkInf r =
     (if checkInf \<and> rest r \<noteq> [] \<and> hd (rest r) = CHR ''I'' then (False, advance 1 r)
      else (True, readNumber r))"

fun our_singleQuoteScan :: "string \<Rightarrow> nat \<times> bool" where
  "our_singleQuoteScan [] = (0, False)"
| "our_singleQuoteScan (c # cs) =
     (if c = BACKSLASH then (case cs of [] \<Rightarrow> (1, False)
                             | d # ds \<Rightarrow> let (n, ok) = our_singleQuoteScan ds in (n + 2, ok))
      else if c = CHR 0x27 then (1, True)
      else let (n, ok) = our_singleQuoteScan cs in (Suc n, ok))"

definition our_readStringSingleQuote :: "our_reader \<Rightarrow> bool \<times> our_reader" where
  "our_readStringSingleQuote r = (let (n, ok) = our_singleQuoteScan (rest r) in (ok, advance n r))"

text \<open>A sign: a number, or an infinity where these are allowed.\<close>

definition our_signed :: "our_token_type \<Rightarrow> our_reader \<Rightarrow> our_token_type \<times> bool \<times> our_reader" where
  "our_signed infinity r = (case our_readNumber True r of
       (True, r') \<Rightarrow> (ourNumber, True, r')
     | (False, r') \<Rightarrow>
         if of_allowSpecialFloats (rd_features r') then (infinity, match_pattern ''nfinity'' r')
         else (infinity, False, r'))"

definition our_tokenBody :: "char \<Rightarrow> our_reader \<Rightarrow> (our_token_type \<times> bool \<times> our_reader) res" where
  "our_tokenBody c r =
     (if c = CHR ''{'' then Inr (ourObjectBegin, True, r)
      else if c = CHR ''}'' then Inr (ourObjectEnd, True, r)
      else if c = CHR ''['' then Inr (ourArrayBegin, True, r)
      else if c = CHR '']'' then Inr (ourArrayEnd, True, r)
      else if c = DQUOTE then Inr (ourString, readString r)
      else if c = CHR 0x27 then
        (if of_allowSingleQuotes (rd_features r) then Inr (ourString, our_readStringSingleQuote r)
         else Inr (ourError, False, r))
      else if c = CHR ''/'' then rbind (our_readComment r) (\<lambda>(ok, r'). Inr (ourComment, ok, r'))
      else if is_digit c then Inr (ourNumber, True, snd (our_readNumber False r))
      else if c = CHR ''-'' then Inr (our_signed ourNegInf r)
      else if c = CHR ''+'' then Inr (our_signed ourPosInf r)
      else if c = CHR ''t'' then Inr (ourTrue, match_pattern ''rue'' r)
      else if c = CHR ''f'' then Inr (ourFalse, match_pattern ''alse'' r)
      else if c = CHR ''n'' then Inr (ourNull, match_pattern ''ull'' r)
      else if c = CHR ''N'' then
        (if of_allowSpecialFloats (rd_features r) then Inr (ourNaN, match_pattern ''aN'' r)
         else Inr (ourError, False, r))
      else if c = CHR ''I'' then
        (if of_allowSpecialFloats (rd_features r) then Inr (ourPosInf, match_pattern ''nfinity'' r)
         else Inr (ourError, False, r))
      else if c = CHR '','' then Inr (ourArraySeparator, True, r)
      else if c = CHR '':'' then Inr (ourMemberSeparator, True, r)
      else if c = NUL then Inr (ourEndOfStream, True, r)
      else Inr (ourError, False, r))"

definition our_readToken :: "our_reader \<Rightarrow> (bool \<times> our_token \<times> our_reader) res" where
  "our_readToken r0 =
     (let r1 = skipSpaces r0; (c, r2) = getNextChar r1 in
      rbind (our_tokenBody c r2) (\<lambda>(ty, ok, r3).
      Inr (ok, \<lparr>tok_type = (if ok then ty else ourError), tok_start = rd_current r1, tok_end = rd_current r3\<rparr>, r3)))"

section \<open>Numbers\<close>

fun our_decodeNumber_loop :: "int \<Rightarrow> int \<Rightarrow> int \<Rightarrow> string \<Rightarrow> int option" where
  "our_decodeNumber_loop threshold max_last_digit value [] = Some value"
| "our_decodeNumber_loop threshold max_last_digit value (c # cs) =
     (if \<not> is_digit c then None
      else let digit = of_char c - 48 in
           if value \<ge> threshold \<and> (value > threshold \<or> cs \<noteq> [] \<or> digit > max_last_digit) then None
           else our_decodeNumber_loop threshold max_last_digit (u64 (value * 10 + digit)) cs)"

text \<open>The limits are computed as in the source, without leaving the range of 64 bits.\<close>

definition positive_threshold :: int where "positive_threshold = UINT64_MAX div 10"
definition positive_last_digit :: int where "positive_last_digit = UINT64_MAX mod 10"
definition negative_threshold :: int where "negative_threshold = - (INT64_MIN sdiv 10)"
definition negative_last_digit :: int where "negative_last_digit = - (INT64_MIN smod 10)"

definition our_decodeInteger :: "string \<Rightarrow> jdata option" where
  "our_decodeInteger txt =
     (let isNegative = (txt \<noteq> [] \<and> hd txt = CHR ''-'') in
      case our_decodeNumber_loop (if isNegative then negative_threshold else positive_threshold)
             (if isNegative then negative_last_digit else positive_last_digit) 0
             (if isNegative then tl txt else txt) of
        None \<Rightarrow> None
      | Some value \<Rightarrow>
          Some (if isNegative then IntV (s64 (s64 (- s64 (value div 10) * 10) - value mod 10))
                else if value \<le> INT64_MAX then IntV (s64 value)
                else UIntV value))"

definition our_decodeNumber :: "our_token \<Rightarrow> our_reader \<Rightarrow> jdata option \<times> our_reader" where
  "our_decodeNumber token r = (case our_decodeInteger (token_text token r) of
       Some d \<Rightarrow> (Some d, r)
     | None \<Rightarrow> decodeDouble token r)"

section \<open>Tokens make progress\<close>

lemma our_cStyleScan_le: "fst (our_cStyleScan s) \<le> length s"
  by (induction s rule: our_cStyleScan.induct) (auto split: prod.splits)

lemma our_singleQuoteScan_le: "fst (our_singleQuoteScan s) \<le> length s"
proof (induction s rule: our_singleQuoteScan.induct)
  case (2 c cs)
  consider "c = BACKSLASH" | "c = CHR 0x27" "c \<noteq> BACKSLASH" | "c \<noteq> BACKSLASH" "c \<noteq> CHR 0x27" by blast
  then show ?case
  proof cases
    case 1
    with 2(1) show ?thesis by (cases cs) (auto simp: case_prod_unfold Let_def)
  next
    case 3
    with 2(2) show ?thesis by (auto simp: case_prod_unfold Let_def)
  qed simp
qed simp

lemma quiet_our_scans:
  "our_readCStyleComment r = (ok, nl, r') \<Longrightarrow> quiet r r'"
  "our_readStringSingleQuote r = (ok, r') \<Longrightarrow> quiet r r'"
  "our_readNumber b r = (ok, r') \<Longrightarrow> quiet r r'"
  using our_cStyleScan_le [of "rest r"] our_singleQuoteScan_le [of "rest r"]
  by (auto simp: our_readCStyleComment_def our_readStringSingleQuote_def our_readNumber_def Suc_le_eq
      intro!: quiet_advance quiet_scans(5) split: prod.splits if_splits)

lemma quiet_our_signed: "our_signed ty0 r = (ty, ok, r') \<Longrightarrow> quiet r r'"
  by (auto simp: our_signed_def split: prod.splits bool.splits if_splits
      dest!: quiet_our_scans(3) quiet_scans(4) intro: quiet_trans)

lemma quiet_flag [simp]: "quiet r (r\<lparr>rd_lastValueHasAComment := b\<rparr>)"
  by (simp add: quiet_def keeps_def)

lemma quiet_our_readComment: "our_readComment r = Inr (ok, r') \<Longrightarrow> quiet r r'"
  unfolding our_readComment_def Let_def
  by (auto simp: res_simps split: prod.splits if_splits
      dest!: quiet_getNextChar quiet_scans(2) quiet_our_scans(1) quiet_addComment
      intro: quiet_trans quiet_trans [OF quiet_flag])

definition our_body_quiet :: "our_reader \<Rightarrow> (our_token_type \<times> bool \<times> our_reader) res \<Rightarrow> bool" where
  "our_body_quiet r m \<longleftrightarrow> fuelled m \<and> (\<forall>ty ok r'. m = Inr (ty, ok, r') \<longrightarrow> quiet r r')"

lemma our_body_quiet_leaves:
  "our_body_quiet r (Inr (ty, b, r))"
  "our_body_quiet r (Inr (ty, readString r))"
  "our_body_quiet r (Inr (ty, our_readStringSingleQuote r))"
  "our_body_quiet r (Inr (ty, b, snd (our_readNumber ci r)))"
  "our_body_quiet r (Inr (our_signed ty r))"
  "our_body_quiet r (Inr (ty, match_pattern pat r))"
  by (auto simp: our_body_quiet_def intro: quiet_our_signed quiet_our_scans(3) [OF prod.collapse [symmetric]]
      dest: quiet_scans(3,4) quiet_our_scans(2))

lemma our_body_quiet_comment: "our_body_quiet r (rbind (our_readComment r) (\<lambda>(ok, r'). Inr (ty, ok, r')))"
  by (auto simp: our_body_quiet_def res_simps quiet_our_readComment our_readComment_def Let_def fuelled_addComment
      intro!: fuelled_rbind split: prod.splits)

lemma our_body_quiet_tokenBody: "our_body_quiet r (our_tokenBody c r)"
  unfolding our_tokenBody_def
  by (intro if_both [where P = "our_body_quiet r"] our_body_quiet_leaves our_body_quiet_comment)

lemma quiet_our_tokenBody: "our_tokenBody c r = Inr (ty, ok, r') \<Longrightarrow> quiet r r'"
  using our_body_quiet_tokenBody [of r c] by (auto simp: our_body_quiet_def)

lemma fuelled_our_readToken: "fuelled (our_readToken r)"
  unfolding our_readToken_def
  using our_body_quiet_tokenBody by (intro fuelled_intros) (auto simp: our_body_quiet_def)

lemma our_readToken_quiet: "our_readToken r = Inr (ok, tok, r') \<Longrightarrow> quiet r r'"
  unfolding our_readToken_def Let_def
  by (auto simp: res_simps split: prod.splits
      dest!: quiet_our_tokenBody quiet_getNextChar intro: quiet_trans [OF quiet_skipSpaces] quiet_trans)

lemma our_readToken_progress:
  assumes "our_readToken r = Inr (ok, tok, r')" "tok_type tok \<noteq> ourEndOfStream"
  shows "rd_current r < rd_current r' \<and> rd_current r' \<le> length (rd_document r)"
proof -
  let ?s = "skipSpaces r"
  obtain c r2 ty where g: "getNextChar ?s = (c, r2)" and b: "our_tokenBody c r2 = Inr (ty, ok, r')"
    and t: "tok_type tok = (if ok then ty else ourError)"
    using assms(1) unfolding our_readToken_def Let_def by (auto simp: res_simps split: prod.splits)
  have "rest ?s \<noteq> []"
  proof
    assume "rest ?s = []"
    then have "c = NUL" using g by (simp add: getNextChar_def)
    then have "ok \<and> ty = ourEndOfStream" using b by (simp add: our_tokenBody_def is_digit_def)
    then show False using assms(2) t by simp
  qed
  from getNextChar_forward [OF g this] show ?thesis
    using quiet_skipSpaces [of r] quiet_our_tokenBody [OF b]
    by (auto simp: quiet_def keeps_def)
qed

section \<open>Loops over tokens\<close>

function our_skipComments :: "bool \<Rightarrow> our_token \<Rightarrow> our_reader \<Rightarrow> (bool \<times> our_token \<times> our_reader) res" where
  "our_skipComments ok tok r =
     (if tok_type tok = ourComment \<and> ok
      then rbind (our_readToken r) (\<lambda>(ok', tok', r').
             if tok_type tok' = ourComment \<and> ok' then our_skipComments ok' tok' r' else Inr (ok', tok', r'))
      else Inr (ok, tok, r))"
  by pat_completeness auto
termination
proof (relation "measure (\<lambda>(ok, tok, r). length (rd_document r) - rd_current r)", goal_cases)
  case (2 ok tok r x ok' z tok' r')
  then have "our_readToken r = Inr (ok', tok', r')" "tok_type tok' \<noteq> ourEndOfStream" by auto
  with our_readToken_progress [of r ok' tok' r'] our_readToken_quiet [of r ok' tok' r']
  show ?case by (auto simp: quiet_def keeps_def)
qed simp

declare our_skipComments.simps [simp del]

definition our_skipCommentTokens :: "our_reader \<Rightarrow> (our_token \<times> our_reader) res" where
  "our_skipCommentTokens r =
     rbind (our_readToken r) (\<lambda>(ok, tok, r1).
     if of_allowComments (rd_features r)
     then rbind (our_skipComments ok tok r1) (\<lambda>(_, tok', r2). Inr (tok', r2))
     else Inr (tok, r1))"

function our_recoverLoop :: "our_token_type \<Rightarrow> our_reader \<Rightarrow> our_reader res" where
  "our_recoverLoop skipUntilToken r =
     rbind (our_readToken r) (\<lambda>(ok, skip, r').
     if tok_type skip = skipUntilToken \<or> tok_type skip = ourEndOfStream then Inr r'
     else our_recoverLoop skipUntilToken r')"
  by pat_completeness auto
termination
proof (relation "measure (\<lambda>(t, r). length (rd_document r) - rd_current r)", goal_cases)
  case (2 t r x ok z skip r')
  then have "our_readToken r = Inr (ok, skip, r')" "tok_type skip \<noteq> ourEndOfStream" by auto
  with our_readToken_progress [of r ok skip r'] our_readToken_quiet [of r ok skip r']
  show ?case by (auto simp: quiet_def keeps_def)
qed simp

declare our_recoverLoop.simps [simp del]

definition our_recoverFromError :: "our_token_type \<Rightarrow> our_reader \<Rightarrow> (bool \<times> our_reader) res" where
  "our_recoverFromError skipUntilToken r =
     rbind (our_recoverLoop skipUntilToken r) (\<lambda>r'. Inr (False, r'\<lparr>rd_errors := take (length (rd_errors r)) (rd_errors r')\<rparr>))"

definition our_addErrorAndRecover :: "string \<Rightarrow> our_token \<Rightarrow> our_token_type \<Rightarrow> our_reader \<Rightarrow> (bool \<times> our_reader) res" where
  "our_addErrorAndRecover message token skipUntilToken r =
     our_recoverFromError skipUntilToken (addError message token None r)"

section \<open>Values, objects, arrays\<close>

definition our_offsets :: "our_reader \<Rightarrow> our_token \<Rightarrow> jvalue \<Rightarrow> jvalue" where
  "our_offsets r token v =
     setOffsetLimit (int (tok_end token) - int (rd_begin r))
       (setOffsetStart (int (tok_start token) - int (rd_begin r)) v)"

definition our_storeDecoded :: "jdata option \<times> our_reader \<Rightarrow> our_token \<Rightarrow> bool \<times> our_reader" where
  "our_storeDecoded p token = (case p of
       (None, r) \<Rightarrow> (False, r)
     | (Some d, r) \<Rightarrow> (True, set_current (\<lambda>v. our_offsets r token (set_payload d v)) r))"

definition our_rememberLast :: "our_reader \<Rightarrow> our_reader" where
  "our_rememberLast r =
     (if rd_collectComments r
      then r\<lparr>rd_lastValueEnd := Some (rd_current r), rd_lastValueHasAComment := False,
             rd_lastValue := Some (current_path r)\<rparr>
      else r)"

definition our_readScalar :: "our_token \<Rightarrow> our_reader \<Rightarrow> bool \<times> our_reader" where
  "our_readScalar token r = (case tok_type token of
       ourNumber \<Rightarrow> our_storeDecoded (our_decodeNumber token r) token
     | ourString \<Rightarrow> our_storeDecoded (case decodeString token r of (s, r') \<Rightarrow> (map_option StringV s, r')) token
     | ourTrue \<Rightarrow> our_storeDecoded (Some (BoolV True), r) token
     | ourFalse \<Rightarrow> our_storeDecoded (Some (BoolV False), r) token
     | ourNaN \<Rightarrow> our_storeDecoded (Some (RealV DNaN), r) token
     | ourPosInf \<Rightarrow> our_storeDecoded (Some (RealV (DInf False)), r) token
     | ourNegInf \<Rightarrow> our_storeDecoded (Some (RealV (DInf True)), r) token
     | _ \<Rightarrow> our_storeDecoded (Some NullV, r) token)"

definition our_isScalarToken :: "our_token_type \<Rightarrow> bool" where
  "our_isScalarToken t \<longleftrightarrow>
     t \<in> {ourNumber, ourString, ourTrue, ourFalse, ourNull, ourNaN, ourPosInf, ourNegInf}"

definition our_memberName :: "our_token \<Rightarrow> our_reader \<Rightarrow> (string option \<times> our_reader) option res" where
  "our_memberName token r =
     (if tok_type token = ourString then Inr (Some (decodeString token r))
      else if tok_type token = ourNumber \<and> of_allowNumericKeys (rd_features r) then
        (case our_decodeNumber token r of
           (None, r') \<Rightarrow> Inr (Some (None, r'))
         | (Some d, r') \<Rightarrow> rbind (asString (initBasic d)) (\<lambda>s. Inr (Some (Some s, r'))))
      else Inr None)"

definition duplicate_message :: "string \<Rightarrow> string" where
  "duplicate_message name = ''Duplicate key: '' @ [CHR 0x27] @ name @ [CHR 0x27]"

fun our_readValue :: "nat \<Rightarrow> our_reader \<Rightarrow> (bool \<times> our_reader) res"
  and our_readObjectLoop :: "nat \<Rightarrow> string \<Rightarrow> our_reader \<Rightarrow> (bool \<times> our_reader) res"
  and our_readArrayLoop :: "nat \<Rightarrow> nat \<Rightarrow> our_reader \<Rightarrow> (bool \<times> our_reader) res" where
  "our_readValue 0 r = Inl OutOfFuel"
| "our_readValue (Suc fuel) r0 =
     (if of_stackLimit (rd_features r0) < length (rd_nodes r0)
      then Inl (RuntimeError ''Exceeded stackLimit in readValue().'')
      else rbind (our_skipCommentTokens r0) (\<lambda>(token, r1).
      rbind (takeCommentsBefore r1) (\<lambda>r.
      if tok_type token = ourObjectBegin then
        rbind (our_readObjectLoop fuel []
                 (set_current (\<lambda>v. setOffsetStart (int (tok_start token) - int (rd_begin r)) (set_payload (ObjectV []) v)) r))
          (\<lambda>(ok, r'). Inr (ok, our_rememberLast
             (set_current (setOffsetLimit (int (rd_current r') - int (rd_begin r'))) r')))
      else if tok_type token = ourArrayBegin then
        rbind (our_readArrayLoop fuel 0
                 (set_current (\<lambda>v. setOffsetStart (int (tok_start token) - int (rd_begin r)) (set_payload (ArrayV []) v)) r))
          (\<lambda>(ok, r'). Inr (ok, our_rememberLast
             (set_current (setOffsetLimit (int (rd_current r') - int (rd_begin r'))) r')))
      else if our_isScalarToken (tok_type token) then
        Inr (case our_readScalar token r of (ok, r') \<Rightarrow> (ok, our_rememberLast r'))
      else if tok_type token \<in> {ourArraySeparator, ourObjectEnd, ourArrayEnd} \<and>
              of_allowDroppedNullPlaceholders (rd_features r) then
        (let r' = r\<lparr>rd_current := rd_current r - 1\<rparr> in
         Inr (True, our_rememberLast (set_current (\<lambda>v. setOffsetLimit (int (rd_current r') - int (rd_begin r'))
           (setOffsetStart (int (rd_current r') - int (rd_begin r') - 1) (set_payload NullV v))) r')))
      else Inr (False, addError ''Syntax error: value, object or array expected.'' token None
                         (set_current (our_offsets r token) r)))))"
| "our_readObjectLoop 0 name r = Inl OutOfFuel"
| "our_readObjectLoop (Suc fuel) name r0 =
     rbind (our_readToken r0) (\<lambda>(ok0, tok0, r1).
     rbind (if ok0 then our_skipComments True tok0 r1 else Inr (False, tok0, r1)) (\<lambda>(ok, tokenName, r2).
     if \<not> ok then our_addErrorAndRecover ''Missing '}' or object member name'' tokenName ourObjectEnd r2
     else if tok_type tokenName = ourObjectEnd \<and> (name = [] \<or> of_allowTrailingCommas (rd_features r2))
     then Inr (True, r2)
     else rbind (our_memberName tokenName r2) (\<lambda>decoded. case decoded of
       None \<Rightarrow> our_addErrorAndRecover ''Missing '}' or object member name'' tokenName ourObjectEnd r2
     | Some (None, r3) \<Rightarrow> our_recoverFromError ourObjectEnd r3
     | Some (Some name', r3) \<Rightarrow>
         if 2 ^ 30 \<le> int (length name') then Inl (RuntimeError ''keylength >= 2^30'')
         else rbind (if of_rejectDupKeys (rd_features r3) then isMember name' (currentValue r3) else Inr False) (\<lambda>dup.
         if dup then our_addErrorAndRecover (duplicate_message name') tokenName ourObjectEnd r3
         else rbind (our_readToken r3) (\<lambda>(okc, colon, r4).
         if \<not> okc \<or> tok_type colon \<noteq> ourMemberSeparator
         then our_addErrorAndRecover ''Missing ':' after object member name'' colon ourObjectEnd r4
         else rbind (update_res (current_path r4) (\<lambda>v. rbind (resolveReference name' v) (\<lambda>(v', _). Inr v')) r4) (\<lambda>r5.
         rbind (our_readValue fuel (pushNode (KindKey name') r5)) (\<lambda>(okv, r6).
         if \<not> okv then our_recoverFromError ourObjectEnd (popNode r6)
         else rbind (our_readToken (popNode r6)) (\<lambda>(okm, comma, r7).
         if \<not> okm \<or> tok_type comma \<notin> {ourObjectEnd, ourArraySeparator, ourComment}
         then our_addErrorAndRecover ''Missing ',' or '}' in object declaration'' comma ourObjectEnd r7
         else rbind (our_skipComments True comma r7) (\<lambda>(_, comma', r8).
         if tok_type comma' = ourObjectEnd then Inr (True, r8)
         else our_readObjectLoop fuel name' r8)))))))))"
| "our_readArrayLoop 0 index r = Inl OutOfFuel"
| "our_readArrayLoop (Suc fuel) index r =
     (let r0 = skipSpaces r in
      if rest r0 \<noteq> [] \<and> hd (rest r0) = CHR '']'' \<and>
         (index = 0 \<or> of_allowTrailingCommas (rd_features r0) \<and> \<not> of_allowDroppedNullPlaceholders (rd_features r0))
      then rbind (our_readToken r0) (\<lambda>(_, _, r1). Inr (True, r1))
      else rbind (update_res (current_path r0) (\<lambda>v. rbind (index_ref index v) (\<lambda>(v', _). Inr v')) r0) (\<lambda>r1.
      rbind (our_readValue fuel (pushNode (KindIndex index) r1)) (\<lambda>(ok, r2).
      if \<not> ok then our_recoverFromError ourArrayEnd (popNode r2)
      else rbind (our_readToken (popNode r2)) (\<lambda>(ok0, tok0, r3).
      rbind (our_skipComments ok0 tok0 r3) (\<lambda>(ok1, currentToken, r4).
      if \<not> ok1 \<or> tok_type currentToken \<notin> {ourArraySeparator, ourArrayEnd}
      then our_addErrorAndRecover ''Missing ',' or ']' in array declaration'' currentToken ourArrayEnd r4
      else if tok_type currentToken = ourArrayEnd then Inr (True, r4)
      else our_readArrayLoop fuel (Suc index) r4)))))"

section \<open>Parsing\<close>

definition our_new :: "our_features \<Rightarrow> our_reader" where
  "our_new feats =
     \<lparr>rd_document = [], rd_current = 0, rd_lastValueEnd = None, rd_lastValue = None,
      rd_commentsBefore = [], rd_errors = [], rd_nodes = [], rd_root = nullSingleton, rd_features = feats,
      rd_collectComments = False, rd_begin = 0, rd_lastValueHasAComment = False\<rparr>"

text \<open>What \<^verbatim>\<open>parse\<close> resets before it reads; \<^verbatim>\<open>lastValueHasAComment_\<close> is not among it.\<close>

definition our_reset :: "string \<Rightarrow> jvalue \<Rightarrow> bool \<Rightarrow> our_reader \<Rightarrow> our_reader" where
  "our_reset doc root collectComments r =
     our_skipBom (r\<lparr>rd_document := doc, rd_current := 0, rd_begin := 0, rd_lastValueEnd := None, rd_lastValue := None,
        rd_commentsBefore := [], rd_errors := [], rd_nodes := [[]], rd_root := root,
        rd_collectComments := (of_allowComments (rd_features r) \<and> collectComments)\<rparr>)"

definition our_parse_fuel :: "string \<Rightarrow> nat" where
  "our_parse_fuel doc = 2 * length doc + 2"

definition our_parse :: "string \<Rightarrow> jvalue \<Rightarrow> bool \<Rightarrow> our_reader \<Rightarrow> (bool \<times> our_reader) res" where
  "our_parse doc root collectComments r =
     rbind (our_readValue (our_parse_fuel doc) (our_reset doc root collectComments r)) (\<lambda>(successful, r1).
     rbind (our_skipCommentTokens (popNode r1)) (\<lambda>(token, r2).
     if of_failIfExtra (rd_features r2) \<and> tok_type token \<noteq> ourEndOfStream
     then Inr (False, addError ''Extra non-whitespace after JSON value.'' token None r2)
     else rbind (if rd_collectComments r2 \<and> rd_commentsBefore r2 \<noteq> []
            then update_res [] (setComment (rd_commentsBefore r2) commentAfter) r2 else Inr r2) (\<lambda>r3.
     if of_strictRoot (rd_features r3) \<and> \<not> isArray (rd_root r3) \<and> \<not> isObject (rd_root r3)
     then Inr (False, addError ''A valid JSON document must be either an array or an object value.''
                 \<lparr>tok_type = ourError, tok_start = 0, tok_end = length doc\<rparr> None r3)
     else Inr (successful, r3))))"

definition our_getLocationLineAndColumn :: "nat \<Rightarrow> our_reader \<Rightarrow> int \<times> int" where
  "our_getLocationLineAndColumn location r =
     (let (line, lastLineStart) = lineLoop (rd_document r) location (rd_begin r) (rd_begin r) 0
      in (int line + 1, int location - int lastLineStart + 1))"

definition our_locationText :: "nat \<Rightarrow> our_reader \<Rightarrow> string" where
  "our_locationText location r =
     (let (line, column) = our_getLocationLineAndColumn location r
      in ''Line '' @ valueToString_int line @ '', Column '' @ valueToString_int column)"

definition our_getFormattedErrorMessages :: "our_reader \<Rightarrow> string" where
  "our_getFormattedErrorMessages r =
     concat (map (\<lambda>e. ''* '' @ our_locationText (tok_start (err_token e)) r @ [LF] @
       ''  '' @ err_message e @ [LF] @
       (case err_extra e of None \<Rightarrow> [] | Some x \<Rightarrow> ''See '' @ our_locationText x r @ '' for detail.'' @ [LF]))
     (rd_errors r))"

record our_structured_error =
  our_offset_start :: int
  our_offset_limit :: int
  our_message :: string

definition our_getStructuredErrors :: "our_reader \<Rightarrow> our_structured_error list" where
  "our_getStructuredErrors r =
     map (\<lambda>e. \<lparr>our_offset_start = int (tok_start (err_token e)) - int (rd_begin r),
               our_offset_limit = int (tok_end (err_token e)) - int (rd_begin r),
               our_message = err_message e\<rparr>) (rd_errors r)"

section \<open>The factory\<close>

record our_char_reader =
  cr_collectComments :: bool
  cr_reader :: our_reader

text \<open>The result, the value, the error messages, and the reader for further documents.\<close>

definition char_reader_parse :: "string \<Rightarrow> jvalue \<Rightarrow> our_char_reader \<Rightarrow>
    (bool \<times> jvalue \<times> string \<times> our_char_reader) res" where
  "char_reader_parse doc root cr =
     rbind (our_parse doc root (cr_collectComments cr) (cr_reader cr)) (\<lambda>(ok, r).
     Inr (ok, rd_root r, our_getFormattedErrorMessages r, cr\<lparr>cr_reader := r\<rparr>))"

definition crb_setDefaults :: "jvalue \<Rightarrow> jvalue res" where
  "crb_setDefaults settings = assign_members
     [(''collectComments'', value_of_bool True),
      (''allowComments'', value_of_bool True),
      (''allowTrailingCommas'', value_of_bool True),
      (''strictRoot'', value_of_bool False),
      (''allowDroppedNullPlaceholders'', value_of_bool False),
      (''allowNumericKeys'', value_of_bool False),
      (''allowSingleQuotes'', value_of_bool False),
      (''stackLimit'', value_of_int 1000),
      (''failIfExtra'', value_of_bool False),
      (''rejectDupKeys'', value_of_bool False),
      (''allowSpecialFloats'', value_of_bool False),
      (''skipBom'', value_of_bool True)] settings"

definition crb_strictMode :: "jvalue \<Rightarrow> jvalue res" where
  "crb_strictMode settings = assign_members
     [(''allowComments'', value_of_bool False),
      (''allowTrailingCommas'', value_of_bool False),
      (''strictRoot'', value_of_bool True),
      (''allowDroppedNullPlaceholders'', value_of_bool False),
      (''allowNumericKeys'', value_of_bool False),
      (''allowSingleQuotes'', value_of_bool False),
      (''stackLimit'', value_of_int 1000),
      (''failIfExtra'', value_of_bool True),
      (''rejectDupKeys'', value_of_bool True),
      (''allowSpecialFloats'', value_of_bool False),
      (''skipBom'', value_of_bool True)] settings"

definition crb_new :: "jvalue res" where
  "crb_new = crb_setDefaults nullSingleton"

definition newCharReader :: "jvalue \<Rightarrow> our_char_reader res" where
  "newCharReader settings =
     rbind (rbind (at_member ''collectComments'' settings) asBool) (\<lambda>collectComments.
     rbind (rbind (at_member ''allowComments'' settings) asBool) (\<lambda>allowComments.
     rbind (rbind (at_member ''allowTrailingCommas'' settings) asBool) (\<lambda>allowTrailingCommas.
     rbind (rbind (at_member ''strictRoot'' settings) asBool) (\<lambda>strictRoot.
     rbind (rbind (at_member ''allowDroppedNullPlaceholders'' settings) asBool) (\<lambda>allowDroppedNullPlaceholders.
     rbind (rbind (at_member ''allowNumericKeys'' settings) asBool) (\<lambda>allowNumericKeys.
     rbind (rbind (at_member ''allowSingleQuotes'' settings) asBool) (\<lambda>allowSingleQuotes.
     rbind (rbind (at_member ''stackLimit'' settings) asUInt) (\<lambda>stackLimit.
     rbind (rbind (at_member ''failIfExtra'' settings) asBool) (\<lambda>failIfExtra.
     rbind (rbind (at_member ''rejectDupKeys'' settings) asBool) (\<lambda>rejectDupKeys.
     rbind (rbind (at_member ''allowSpecialFloats'' settings) asBool) (\<lambda>allowSpecialFloats.
     rbind (rbind (at_member ''skipBom'' settings) asBool) (\<lambda>skipBom.
     Inr \<lparr>cr_collectComments = collectComments,
          cr_reader = our_new \<lparr>of_allowComments = allowComments, of_allowTrailingCommas = allowTrailingCommas,
            of_strictRoot = strictRoot, of_allowDroppedNullPlaceholders = allowDroppedNullPlaceholders,
            of_allowNumericKeys = allowNumericKeys, of_allowSingleQuotes = allowSingleQuotes,
            of_failIfExtra = failIfExtra, of_rejectDupKeys = rejectDupKeys,
            of_allowSpecialFloats = allowSpecialFloats, of_skipBom = skipBom,
            of_stackLimit = nat stackLimit\<rparr>\<rparr>))))))))))))"

definition crb_valid_keys :: "string list" where
  "crb_valid_keys = [''collectComments'', ''allowComments'', ''allowTrailingCommas'', ''strictRoot'',
     ''allowDroppedNullPlaceholders'', ''allowNumericKeys'', ''allowSingleQuotes'', ''stackLimit'',
     ''failIfExtra'', ''rejectDupKeys'', ''allowSpecialFloats'', ''skipBom'']"

definition crb_validate :: "jvalue option \<Rightarrow> jvalue \<Rightarrow> (bool \<times> jvalue option) res" where
  "crb_validate invalid settings =
     (let bad = filter (\<lambda>(k, v). k \<notin> set crb_valid_keys) (value_entries settings)
      in case invalid of
           None \<Rightarrow> Inr (bad = [], None)
         | Some found \<Rightarrow> rbind (assign_members bad found) (\<lambda>found'. Inr (value_empty found', Some found')))"

text \<open>\<^verbatim>\<open>parseFromStream\<close> with the factory's settings, and \<^verbatim>\<open>operator>>\<close>.\<close>

definition parseFromStream :: "jvalue \<Rightarrow> string \<Rightarrow> jvalue \<Rightarrow> (bool \<times> jvalue \<times> string) res" where
  "parseFromStream settings doc root =
     rbind (newCharReader settings) (\<lambda>reader.
     rbind (char_reader_parse doc root reader) (\<lambda>(ok, v, errs, _). Inr (ok, v, errs)))"

definition value_from_stream :: "string \<Rightarrow> jvalue \<Rightarrow> jvalue res" where
  "value_from_stream doc root =
     rbind crb_new (\<lambda>b.
     rbind (parseFromStream b doc root) (\<lambda>(ok, v, errs).
     if ok then Inr v else Inl (RuntimeError errs)))"

end
