(* ===== verification/Our_Laws.thy ===== *)
theory Our_Laws
  imports Our_Reader Text_Roundtrip
begin

text \<open>
  \<^verbatim>\<open>OurReader\<close> ends and reports what it does, by the lemmas of \<open>token_source\<close> interpreted on its tokens; with
  \<^verbatim>\<open>failIfExtra\<close> it reads the whole document; its integers are those of \<^verbatim>\<open>Reader\<close>; the strict settings of
  the factory mean the strict features.
\<close>

section \<open>The reader as a source of tokens\<close>

interpretation ot: token_source our_readToken ourEndOfStream ourComment our_skipComments our_recoverLoop
    our_recoverFromError our_addErrorAndRecover
  by unfold_locales
    (rule fuelled_our_readToken our_skipComments.simps our_recoverLoop.simps our_recoverFromError_def
        our_addErrorAndRecover_def
      | erule our_readToken_quiet | erule (1) our_readToken_progress | simp)+

lemma fuelled_our_skipCommentTokens: "fuelled (our_skipCommentTokens r)"
  unfolding our_skipCommentTokens_def
  by (intro fuelled_intros fuelled_our_readToken ot.fuelled_skipComments) simp_all

lemma fuelled_our_memberName: "fuelled (our_memberName tok r)"
  by (auto simp: our_memberName_def intro!: fuelled_rbind split: prod.splits option.splits)

lemma quiet_our_skipCommentTokens: "our_skipCommentTokens r = Inr (tok, r') \<Longrightarrow> quiet r r'"
  by (auto simp: our_skipCommentTokens_def res_simps split: if_splits
      dest!: our_readToken_quiet ot.quiet_skipComments intro: quiet_trans)

lemma our_skipCommentTokens_progress:
  assumes "our_skipCommentTokens r = Inr (tok, r')" "tok_type tok \<noteq> ourEndOfStream"
  shows "rd_current r < rd_current r'"
proof -
  from assms(1) obtain ok tok0 r1 where t: "our_readToken r = Inr (ok, tok0, r1)"
    and c: "(if of_allowComments (rd_features r)
             then rbind (our_skipComments ok tok0 r1) (\<lambda>(_, tok', r2). Inr (tok', r2)) else Inr (tok0, r1)) = Inr (tok, r')"
    by (auto simp: our_skipCommentTokens_def res_simps)
  show ?thesis
    using c assms(2) our_readToken_progress [OF t] ot.token_progress [OF t] by (auto simp: res_simps split: if_splits)
qed

lemma quiet_our_rememberLast [simp]: "quiet r (our_rememberLast r)"
  by (simp add: quiet_def keeps_def our_rememberLast_def)

lemma our_decodeNumber_result:
  assumes "our_decodeNumber tok r = (d, r')"
  shows "result_of r (d \<noteq> None) r'"
proof (cases "our_decodeInteger (token_text tok r)")
  case None
  with assms show ?thesis by (intro decodeDouble_result) (simp add: our_decodeNumber_def)
next
  case (Some n)
  with assms have "d = Some n" "r' = r" by (simp_all add: our_decodeNumber_def)
  then show ?thesis by (simp add: result_of_True)
qed

lemmas our_decode_result = our_decodeNumber_result decodeString_result

lemma our_memberName_result: "our_memberName tok r = Inr (Some (n, r')) \<Longrightarrow> result_of r (n \<noteq> None) r'"
  by (auto simp: our_memberName_def res_simps dest: our_decode_result split: if_splits prod.splits option.splits)

lemma our_storeDecoded_result:
  assumes "\<And>d r1. p = (d, r1) \<Longrightarrow> result_of r (d \<noteq> None) r1" "our_storeDecoded p tok = (ok, r')"
  shows "result_of r ok r'"
  using assms
  by (cases p) (auto simp: our_storeDecoded_def split: option.splits intro: result_of_quiet2)

lemma our_readScalar_result:
  assumes "our_readScalar tok r = (ok, r')"
  shows "result_of r ok r'"
proof -
  consider "tok_type tok = ourNumber" | "tok_type tok = ourString"
    | d where "our_storeDecoded (Some d, r) tok = (ok, r')"
    using assms by (auto simp: our_readScalar_def split: our_token_type.splits)
  then show ?thesis
  proof cases
    case 1
    then have "our_storeDecoded (our_decodeNumber tok r) tok = (ok, r')" using assms by (simp add: our_readScalar_def)
    then show ?thesis by (rule our_storeDecoded_result [rotated]) (rule our_decodeNumber_result)
  next
    case 2
    then have "our_storeDecoded (case decodeString tok r of (s, r') \<Rightarrow> (map_option StringV s, r')) tok = (ok, r')"
      using assms by (simp add: our_readScalar_def)
    then show ?thesis
      by (rule our_storeDecoded_result [rotated]) (auto split: prod.splits dest: decodeString_result)
  next
    case 3
    then show ?thesis by (rule our_storeDecoded_result [rotated]) (auto simp: result_of_True)
  qed
qed

section \<open>Enough fuel\<close>

definition our_enough :: "nat \<Rightarrow> bool" where
  "our_enough fuel \<longleftrightarrow>
     (\<forall>r. within r \<longrightarrow> 2 * left r < fuel \<longrightarrow> fine r (our_readValue fuel r)) \<and>
     (\<forall>name r. within r \<longrightarrow> 2 * left r < fuel \<longrightarrow> fine r (our_readObjectLoop fuel name r)) \<and>
     (\<forall>i r. within r \<longrightarrow> 2 * left r + 1 < fuel \<longrightarrow> fine r (our_readArrayLoop fuel i r))"

lemma our_enough_child: "our_enough fuel \<Longrightarrow> within r \<Longrightarrow> 2 * left r < fuel \<Longrightarrow>
    fine (pushNode a r) (our_readValue fuel (pushNode a r))"
  and our_enough_object: "our_enough fuel \<Longrightarrow> within r \<Longrightarrow> 2 * left r < fuel \<Longrightarrow> fine r (our_readObjectLoop fuel name r)"
  and our_enough_array: "our_enough fuel \<Longrightarrow> within r \<Longrightarrow> 2 * left r + 1 < fuel \<Longrightarrow> fine r (our_readArrayLoop fuel i r)"
  by (simp_all add: our_enough_def)

lemma our_enough_array_step:
  assumes e: "our_enough fuel" and r: "within r" "2 * left r + 1 < Suc fuel"
  shows "fine r (our_readArrayLoop (Suc fuel) i r)"
  unfolding our_readArrayLoop.simps
proof (intro fine_let fine_if, goal_cases)
  case (1 r0)
  then show ?case
    by (auto simp: result_of_True intro!: fine_rbind fine_Inr fuelled_our_readToken
        intro: quiet_trans [OF quiet_skipSpaces our_readToken_quiet])
next
  case (2 r0)
  have q0: "quiet r r0" using quiet_skipSpaces 2 by simp
  show ?case
  proof (rule fine_rbind)
    fix r1
    assume "update_res (current_path r0) (\<lambda>v. rbind (index_ref i v) (\<lambda>(v', _). Inr v')) r0 = Inr r1"
    then have q: "quiet r r1" using q0 by (blast intro: quiet_trans quiet_update_res)
    have w: "within r1" and l: "2 * left r1 < fuel" using quiet_within [OF q r(1)] quiet_left [OF q] r(2) by simp_all
    let ?tail = "\<lambda>s. rbind (our_readToken s) (\<lambda>(ok0, tok0, r3).
       rbind (our_skipComments ok0 tok0 r3) (\<lambda>(ok1, currentToken, r4).
       if \<not> ok1 \<or> tok_type currentToken \<notin> {ourArraySeparator, ourArrayEnd}
       then our_addErrorAndRecover ''Missing ',' or ']' in array declaration'' currentToken ourArrayEnd r4
       else if tok_type currentToken = ourArrayEnd then Inr (True, r4) else our_readArrayLoop fuel (Suc i) r4))"
    have tail: "fine s (?tail s)" if "within s" "left s \<le> left r1" for s
      by (rule ot.fine_array_tail [OF that(1)]) (use that(2) l in \<open>auto intro: our_enough_array [OF e]\<close>)
    show "fine r (rbind (our_readValue fuel (pushNode (KindIndex i) r1)) (\<lambda>(ok, r2).
        if \<not> ok then our_recoverFromError ourArrayEnd (popNode r2) else ?tail (popNode r2)))"
      by (rule fine_quiet [OF q], rule ot.fine_child [where readValue = "our_readValue fuel",
          OF our_enough_child [OF e w l] w tail])
  qed (intro fuelled_update_res fuelled_intros; simp)
qed


abbreviation our_member :: "nat \<Rightarrow> string \<Rightarrow> our_reader \<Rightarrow> (bool \<times> our_reader) res" where
  "our_member fuel name s \<equiv> rbind (our_readToken s) (\<lambda>(okc, colon, r4).
     if \<not> okc \<or> tok_type colon \<noteq> ourMemberSeparator
     then our_addErrorAndRecover ''Missing ':' after object member name'' colon ourObjectEnd r4
     else rbind (update_res (current_path r4) (\<lambda>v. rbind (resolveReference name v) (\<lambda>(v', _). Inr v')) r4) (\<lambda>r5.
     rbind (our_readValue fuel (pushNode (KindKey name) r5)) (\<lambda>(okv, r6).
     if \<not> okv then our_recoverFromError ourObjectEnd (popNode r6)
     else rbind (our_readToken (popNode r6)) (\<lambda>(okm, comma, r7).
     if \<not> okm \<or> tok_type comma \<notin> {ourObjectEnd, ourArraySeparator, ourComment}
     then our_addErrorAndRecover ''Missing ',' or '}' in object declaration'' comma ourObjectEnd r7
     else rbind (our_skipComments True comma r7) (\<lambda>(_, comma', r8).
     if tok_type comma' = ourObjectEnd then Inr (True, r8)
     else our_readObjectLoop fuel name r8)))))"

lemma fine_our_member:
  assumes e: "our_enough fuel" and s: "within s" "2 * left s < fuel"
  shows "fine s (our_member fuel name s)"
proof (rule ot.fine_object_member [where readValue = "our_readValue fuel", OF s(1)], goal_cases)
  case (1 u)
  then show ?case using s by (intro our_enough_child [OF e]) simp_all
next
  case (2 u)
  show ?case
    by (rule ot.fine_object_tail [OF 2(2)]) (use 2 s in \<open>auto intro: our_enough_object [OF e]\<close>)
qed (intro fuelled_intros; simp)

lemma fuelled_isMember: "fuelled (isMember k v)"
  by (auto simp: isMember_def find_member_def intro!: fuelled_rbind split: jdata.splits)

abbreviation our_named :: "nat \<Rightarrow> our_token \<Rightarrow> string \<Rightarrow> our_reader \<Rightarrow> (bool \<times> our_reader) res" where
  "our_named fuel tokenName name r3 \<equiv>
     if 2 ^ 30 \<le> int (length name) then Inl (RuntimeError ''keylength >= 2^30'')
     else rbind (if of_rejectDupKeys (rd_features r3) then isMember name (currentValue r3) else Inr False) (\<lambda>dup.
     if dup then our_addErrorAndRecover (duplicate_message name) tokenName ourObjectEnd r3
     else our_member fuel name r3)"

lemma fine_our_named:
  assumes "our_enough fuel" "within s" "2 * left s < fuel"
  shows "fine s (our_named fuel tokenName name s)"
proof (rule fine_if, simp add: fine_Inl, rule fine_rbind)
  show "fuelled (if of_rejectDupKeys (rd_features s) then isMember name (currentValue s) else Inr False)"
    by (simp add: fuelled_isMember)
qed (intro fine_if fine_our_member [OF assms] ot.fine_addError quiet_refl)

lemma our_enough_object_step:
  assumes e: "our_enough fuel" and r: "within r0" "2 * left r0 < Suc fuel"
  shows "fine r0 (our_readObjectLoop (Suc fuel) name r0)"
  unfolding our_readObjectLoop.simps
proof (rule fine_rbind [OF fuelled_our_readToken], intro fine_split, rule fine_rbind, goal_cases)
  case (1 x ok0 y tok0 r1)
  show ?case by (simp add: ot.fuelled_skipComments)
next
  case (2 x ok0 y tok0 r1 z)
  obtain ok tokenName r2 where z: "z = (ok, tokenName, r2)" by (cases z)
  have q: "quiet r0 r2"
    using 2 z our_readToken_quiet [of r0 ok0 tok0 r1]
    by (auto split: if_splits dest!: ot.quiet_skipComments intro: quiet_trans)
  have fwd: "left r2 < left r0" if "ok" "tok_type tokenName \<noteq> ourEndOfStream"
    by (rule forward_left [OF q _ r(1)]) (use 2 z that in \<open>auto split: if_splits intro: ot.token_progress\<close>)
  show ?case
    unfolding z prod.case
  proof (intro fine_if ot.fine_addError [OF q] fine_rbind [OF fuelled_our_memberName], goal_cases)
    case 1
    show ?case by (simp add: fine_Inr result_of_True q)
  next
    case (2 decoded)
    have failed: "fine r0 (our_recoverFromError t r3)" if d: "decoded = Some (None, r3)" for r3 t
      using our_memberName_result [of tokenName r2 None r3] 2 d
      by (intro ot.fine_recover result_of_quiet [OF q]) simp
    have inner: "fine r0 (our_named fuel tokenName name' r3)" if d: "decoded = Some (Some n, r3)" for name' n r3
    proof -
      have q23: "quiet r2 r3" using our_memberName_result [of tokenName r2 "Some n" r3] 2 d by (simp add: result_of_True)
      have q3: "quiet r0 r3" by (rule quiet_trans [OF q q23])
      have "tok_type tokenName \<noteq> ourEndOfStream" using 2 d by (auto simp: our_memberName_def)
      then have "2 * left r3 < fuel" using fwd 2(1) quiet_left [OF q23] r(2) by simp
      then show ?thesis
        using fine_quiet [OF q3 fine_our_named [OF e quiet_within [OF q3 r(1)]]] by blast
    qed
    show ?case
    proof (cases decoded)
      case None
      then show ?thesis using ot.fine_addError [OF q] by simp
    next
      case (Some p)
      obtain d r3 where p: "p = (d, r3)" by (cases p)
      show ?thesis
      proof (cases d)
        case None
        then show ?thesis using failed Some p by simp
      next
        case n: (Some name')
        then show ?thesis using inner [of name' r3 name'] Some p by (simp only: option.case prod.case n)
      qed
    qed
  qed
qed


lemma quiet_our_close: "quiet s (our_rememberLast (set_current f s))"
  by (rule quiet_trans [OF quiet_set_current quiet_our_rememberLast])

lemma quiet_our_back: "quiet r s \<Longrightarrow> rd_current r < rd_current s \<Longrightarrow>
   quiet r (our_rememberLast (set_current f (s\<lparr>rd_current := rd_current s - 1\<rparr>)))"
  by (rule quiet_trans [OF _ quiet_our_close]) (auto simp: quiet_def keeps_def)

lemma our_enough_value_step:
  assumes e: "our_enough fuel" and r: "within r0" "2 * left r0 < Suc fuel"
  shows "fine r0 (our_readValue (Suc fuel) r0)"
  unfolding our_readValue.simps
proof (rule fine_if, simp add: fine_Inl, rule fine_rbind [OF fuelled_our_skipCommentTokens], rule fine_split,
    rule fine_rbind [OF fuelled_takeCommentsBefore], goal_cases)
  case (1 x token r1 s)
  have q: "quiet r0 s" and q1: "quiet r1 s"
    using 1 quiet_our_skipCommentTokens [of r0 token r1] quiet_takeCommentsBefore [of r1 s]
    by (blast intro: quiet_trans)+
  have fwd: "rd_current r0 < rd_current s" if "tok_type token \<noteq> ourEndOfStream"
    using our_skipCommentTokens_progress [of r0 token r1] 1 that q1 by (auto simp: quiet_def keeps_def)
  have begin_left: "2 * left t + 1 < fuel" if "quiet s t" "tok_type token \<noteq> ourEndOfStream" for t
    using forward_left [OF q fwd [OF that(2)] r(1)] quiet_left [OF that(1)] r(2) by linarith
  have qt: "quiet r0 (set_current f s)" for f by (rule quiet_trans [OF q quiet_set_current])
  show ?case
  proof (intro fine_if fine_let, goal_cases)
    case 1
    let ?t = "set_current (\<lambda>v. setOffsetStart (int (tok_start token) - int (rd_begin s)) (set_payload (ObjectV []) v)) s"
    have "2 * left ?t + 1 < fuel" by (rule begin_left [OF quiet_set_current]) (simp add: 1)
    then have "2 * left ?t < fuel" by simp
    from our_enough_object [OF e quiet_within [OF qt r(1)] this]
    show ?case by (intro fine_then [OF fine_quiet [OF qt]] quiet_our_close)
  next
    case 2
    let ?t = "set_current (\<lambda>v. setOffsetStart (int (tok_start token) - int (rd_begin s)) (set_payload (ArrayV []) v)) s"
    have "2 * left ?t + 1 < fuel" by (rule begin_left [OF quiet_set_current]) (simp add: 2)
    from our_enough_array [OF e quiet_within [OF qt r(1)] this]
    show ?case by (intro fine_then [OF fine_quiet [OF qt]] quiet_our_close)
  next
    case 3
    have "result_of r0 ok (our_rememberLast r')" if "our_readScalar token s = (ok, r')" for ok r'
      by (rule result_of_quiet [OF q], rule result_of_quiet2 [OF our_readScalar_result [OF that]]) simp
    then show ?case by (auto intro!: fine_Inr split: prod.split)
  next
    case (4 r')
    have "tok_type token \<noteq> ourEndOfStream" using 4 by auto
    then show ?case using quiet_our_back [OF q fwd] 4 by (auto intro!: fine_Inr simp: result_of_True)
  next
    case 5
    show ?case by (intro fine_Inr failed_addError qt)
  qed
qed

lemma our_enough_all: "our_enough fuel"
proof (induction fuel)
  case 0
  then show ?case by (simp add: our_enough_def)
next
  case (Suc fuel)
  then show ?case
    unfolding our_enough_def [of "Suc fuel"]
    using our_enough_value_step our_enough_object_step our_enough_array_step by blast
qed

lemma our_reset_sel [simp]: "rd_document (our_reset doc root collect r) = doc"
  "rd_errors (our_reset doc root collect r) = []" "within (our_reset doc root collect r)"
  "rd_features (our_reset doc root collect r) = rd_features r"
  by (simp_all add: our_reset_def our_skipBom_def within_def)

lemma fine_our_readValue:
  "fine (our_reset doc root collect r) (our_readValue (our_parse_fuel doc) (our_reset doc root collect r))"
proof -
  have "2 * left (our_reset doc root collect r) < our_parse_fuel doc"
    by (simp add: left_def our_parse_fuel_def)
  then show ?thesis using our_enough_all [of "our_parse_fuel doc"] by (simp add: our_enough_def)
qed

text \<open>After the value the root is popped.\<close>

lemma result_popNode: "result_of r ok s \<Longrightarrow> result_of (popNode r) ok (popNode s)"
  by (simp add: result_of_def grows_def keeps_def popNode_def)

lemma fine_pop:
  assumes "fine r m" "\<And>ok s. m = Inr (ok, s) \<Longrightarrow> result_of (popNode r) ok (popNode s) \<Longrightarrow> fine (popNode r) (f (ok, s))"
  shows "fine (popNode r) (rbind m f)"
  using assms by (cases m) (auto simp: fine_def dest: result_popNode)

lemma fine_our_parse: "fine (popNode (our_reset doc root collect r)) (our_parse doc root collect r)"
  unfolding our_parse_def
proof (rule fine_pop [OF fine_our_readValue], simp only: prod.case,
    rule fine_rbind [OF fuelled_our_skipCommentTokens], rule fine_split, rule fine_if, goal_cases)
  case (1 ok s x tok r2)
  then have "quiet (popNode s) r2" using quiet_our_skipCommentTokens [of "popNode s" tok r2] by simp
  with 1(2) show ?case by (intro fine_Inr failed_again) (rule result_of_quiet2)
next
  case (2 ok s x tok r2)
  have q: "quiet (popNode s) r2" using 2 quiet_our_skipCommentTokens [of "popNode s" tok r2] by simp
  show ?case
  proof (rule fine_rbind, goal_cases)
    case (2 r3)
    have "quiet r2 r3" using 2 by (auto split: if_splits dest: quiet_update_res)
    with q have "quiet (popNode s) r3" by (rule quiet_trans)
    with \<open>result_of _ ok (popNode s)\<close> have "result_of (popNode (our_reset doc root collect r)) ok r3" by (rule result_of_quiet2)
    then show ?case by (intro fine_if fine_Inr failed_again)
  qed (auto intro: fuelled_update_res)
qed


section \<open>The end of the stream\<close>

text \<open>A token of this kind is read at the end of the document or for a NUL byte.\<close>

definition at_end :: "('t, 'f, 'm) rstate \<Rightarrow> bool" where
  "at_end r \<longleftrightarrow> rest r = [] \<or> (0 < rd_current r \<and> rd_document r ! (rd_current r - 1) = NUL)"

lemma our_tokenBody_end: "our_tokenBody c r = Inr (ourEndOfStream, True, r') \<Longrightarrow> c = NUL \<and> r' = r"
  by (auto simp: our_tokenBody_def our_signed_def res_simps split: if_splits prod.splits bool.splits)

lemma getNextChar_NUL: "getNextChar r = (NUL, r') \<Longrightarrow> at_end r'"
  by (auto simp: getNextChar_def at_end_def advance_def rest_def split: list.splits)
    (metis nth_via_drop)

lemma our_readToken_end:
  "our_readToken r = Inr (ok, tok, r') \<Longrightarrow> tok_type tok = ourEndOfStream \<Longrightarrow> at_end r'"
  by (auto simp: our_readToken_def Let_def res_simps dest!: our_tokenBody_end intro: getNextChar_NUL
      split: prod.splits if_splits)

lemma our_skipComments_end:
  assumes "our_skipComments ok tok r = Inr (ok', tok', r')" "tok_type tok' = ourEndOfStream"
    "tok_type tok = ourEndOfStream \<longrightarrow> at_end r"
  shows "at_end r'"
  using assms
proof (induction ok tok r rule: our_skipComments.induct)
  case (1 ok tok r)
  show ?case
  proof (cases "tok_type tok = ourComment \<and> ok")
    case True
    with "1.prems"(1) obtain ok1 tok1 s where s: "our_readToken r = Inr (ok1, tok1, s)"
      "(if tok_type tok1 = ourComment \<and> ok1 then our_skipComments ok1 tok1 s else Inr (ok1, tok1, s)) = Inr (ok', tok', r')"
      unfolding our_skipComments.simps [of ok tok r] by (auto simp: res_simps)
    then show ?thesis
      using "1.IH" [OF True s(1) refl refl] "1.prems"(2) our_readToken_end [OF s(1)] by (auto split: if_splits)
  next
    case False
    with "1.prems" show ?thesis by (auto simp: our_skipComments.simps [of ok tok r])
  qed
qed

lemma our_skipCommentTokens_end:
  "our_skipCommentTokens r = Inr (tok, r') \<Longrightarrow> tok_type tok = ourEndOfStream \<Longrightarrow> at_end r'"
  by (auto simp: our_skipCommentTokens_def res_simps split: if_splits
      intro: our_skipComments_end our_readToken_end)

lemma at_end_cong: "rd_document s = rd_document r \<Longrightarrow> rd_current s = rd_current r \<Longrightarrow> at_end s = at_end r"
  by (simp add: at_end_def rest_def)

lemma update_res_position: "update_res p f r = Inr r' \<Longrightarrow> rd_document r' = rd_document r \<and> rd_current r' = rd_current r"
  by (auto simp: update_res_def res_simps split: option.splits)

lemma our_parse_at_end:
  assumes "our_parse doc root collect r = Inr (True, r')" "of_failIfExtra (rd_features r)"
  shows "at_end r'"
proof -
  let ?r = "our_reset doc root collect r"
  from assms(1) obtain ok r1 tok r2 where v: "our_readValue (our_parse_fuel doc) ?r = Inr (ok, r1)"
    and t: "our_skipCommentTokens (popNode r1) = Inr (tok, r2)"
    and x: "\<not> (of_failIfExtra (rd_features r2) \<and> tok_type tok \<noteq> ourEndOfStream)"
    and c: "(if rd_collectComments r2 \<and> rd_commentsBefore r2 \<noteq> []
            then update_res [] (setComment (rd_commentsBefore r2) commentAfter) r2 else Inr r2) = Inr r'"
    unfolding our_parse_def by (auto simp: res_simps split: if_splits)
  have "keeps ?r r1" using fineD(2) [OF fine_our_readValue v] by (simp add: result_of_def)
  with quiet_our_skipCommentTokens [OF t] have "rd_features r2 = rd_features r" by (simp add: quiet_def keeps_def popNode_def)
  with assms(2) x have "at_end r2" using our_skipCommentTokens_end [OF t] by simp
  moreover have "at_end r' = at_end r2" using c by (intro at_end_cong) (auto split: if_splits dest: update_res_position)
  ultimately show ?thesis by simp
qed

section \<open>Integers\<close>

lemma our_loop_agrees:
  assumes "0 \<le> l" "l < 10"
  shows "our_decodeNumber_loop t l v s = decodeNumber_loop (t * 10 + l) v s"
proof (induction s arbitrary: v)
  case (Cons c s)
  have "(t * 10 + l) div 10 = t" "(t * 10 + l) mod 10 = l" using assms by simp_all
  with Cons show ?case unfolding our_decodeNumber_loop.simps decodeNumber_loop.simps Let_def by (simp only:)
qed simp

lemma our_thresholds: "positive_threshold * 10 + positive_last_digit = UINT64_MAX"
  "negative_threshold * 10 + negative_last_digit = INT64_MAX + 1"
  by (simp_all add: positive_threshold_def positive_last_digit_def negative_threshold_def negative_last_digit_def
      int_limits signed_divide_int_def signed_modulo_int_def)

lemma our_last_digits: "0 \<le> positive_last_digit \<and> positive_last_digit < 10"
  "0 \<le> negative_last_digit \<and> negative_last_digit < 10"
  by (simp_all add: positive_last_digit_def negative_last_digit_def int_limits signed_divide_int_def signed_modulo_int_def)

lemma our_loop:
  "our_decodeNumber_loop positive_threshold positive_last_digit v s = decodeNumber_loop UINT64_MAX v s"
  "our_decodeNumber_loop negative_threshold negative_last_digit v s = decodeNumber_loop (INT64_MAX + 1) v s"
  using our_loop_agrees [of positive_last_digit] our_loop_agrees [of negative_last_digit]
  by (simp_all add: our_last_digits our_thresholds)

lemma decodeNumber_loop_range:
  assumes "decodeNumber_loop m v s = Some n" "0 \<le> v" "v \<le> m" "10 \<le> m" "m \<le> UINT64_MAX"
  shows "0 \<le> n \<and> n \<le> m"
proof -
  have "list_all is_digit s"
    using assms(1) by (induction m v s rule: decodeNumber_loop.induct) (auto simp: Let_def split: if_splits)
  from decodeNumber_loop_exact [OF this assms(2-5)] dec_value_mono [OF this assms(2)] assms(1,2)
  show ?thesis by (auto split: if_splits intro: order_trans [rotated])
qed

lemma negative_value:
  assumes "0 \<le> n" "n \<le> INT64_MAX + 1"
  shows "s64 (s64 (- s64 (n div 10) * 10) - n mod 10) = - n"
proof -
  have d: "n div 10 * 10 + n mod 10 = n" "0 \<le> n mod 10" "0 \<le> n div 10" using assms by simp_all
  then have "s64 (n div 10) = n div 10" using assms by (intro s64_id) (simp_all add: int_limits)
  moreover have "s64 (- (n div 10) * 10) = - (n div 10) * 10"
    using assms d by (intro s64_id) (simp_all add: int_limits)
  moreover have "- (n div 10) * 10 - n mod 10 = - n" using d(1) by linarith
  moreover have "s64 (- n) = - n" using assms by (intro s64_id) (simp_all add: int_limits)
  ultimately show ?thesis by simp
qed

lemma our_integer_value: "Option.bind (our_decodeInteger txt) integer_of = read_integer txt"
proof -
  let ?neg = "txt \<noteq> [] \<and> hd txt = CHR ''-''"
  let ?m = "if ?neg then INT64_MAX + 1 else UINT64_MAX"
  let ?body = "if ?neg then tl txt else txt"
  have loop: "our_decodeNumber_loop (if ?neg then negative_threshold else positive_threshold)
      (if ?neg then negative_last_digit else positive_last_digit) 0 ?body = decodeNumber_loop ?m 0 ?body"
    by (simp add: our_loop)
  show ?thesis
  proof (cases "decodeNumber_loop ?m 0 ?body")
    case None
    then show ?thesis unfolding our_decodeInteger_def read_integer_def decodeInteger_def Let_def loop by simp
  next
    case (Some n)
    have n: "0 \<le> n" "n \<le> ?m"
      using decodeNumber_loop_range [OF Some] by (auto simp: int_limits)
    have pos: "s64 n = n" if "n \<le> INT64_MAX" using n(1) that by (intro s64_id) (simp_all add: int_limits)
    have int: "INT_MAX \<le> INT64_MAX" by (simp add: int_limits)
    show ?thesis
    proof (cases ?neg)
      case True
      then have "s64 (s64 (- s64 (n div 10) * 10) - n mod 10) = - n" using n by (intro negative_value) auto
      moreover have "(if n = INT64_MAX + 1 then INT64_MIN else - s64 n) = - n"
        using n True pos by (auto simp: int_limits)
      ultimately show ?thesis
        using True Some unfolding our_decodeInteger_def read_integer_def decodeInteger_def Let_def loop
        by (auto simp: integer_of_def split: if_splits)
    next
      case False
      then show ?thesis
        using Some pos int unfolding our_decodeInteger_def read_integer_def decodeInteger_def Let_def loop
        by (auto simp: integer_of_def)
    qed
  qed
qed


section \<open>Properties\<close>

text \<open>C25 (our_parse_ends_and_reports). \<^verbatim>\<open>OurReader::parse\<close> ends for every document, every set of features and
  every previous state of the reader; when it returns, it returns true exactly if it recorded no
  error, and it has not read past the end of the document.\<close>

theorem our_parse_ends_and_reports:
  "our_parse doc root collect r \<noteq> Inl OutOfFuel \<and>
   (case our_parse doc root collect r of
      Inl e \<Rightarrow> True
    | Inr (ok, r') \<Rightarrow> (ok \<longleftrightarrow> rd_errors r' = []) \<and> rd_current r' \<le> length doc)"
  using fine_our_parse [of doc root collect r] our_reset_sel(3) [of doc root collect r]
  by (auto simp: fine_def post_def fuelled_def result_of_def grows_def keeps_def within_def popNode_def split: sum.splits)

text \<open>C28 (fail_if_extra_reads_all). With \<^verbatim>\<open>failIfExtra\<close>, a successful parse has read the whole document, up to
  its end or to a NUL byte, which the reader takes for the end.\<close>

theorem fail_if_extra_reads_all:
  assumes "our_parse doc root collect r = Inr (True, r')" "of_failIfExtra (rd_features r)"
  shows "rest r' = [] \<or> (0 < rd_current r' \<and> rd_document r' ! (rd_current r' - 1) = NUL)"
  using our_parse_at_end [OF assms] by (simp add: at_end_def)

definition strict_features :: our_features where
  "strict_features = our_all\<lparr>of_strictRoot := True, of_failIfExtra := True, of_rejectDupKeys := True,
     of_skipBom := True, of_stackLimit := 1000\<rparr>"

theorem fail_if_extra_reads_all_witness:
  "\<exists>r'. our_parse ''[1] '' nullSingleton False (our_new strict_features) = Inr (True, r') \<and>
     (rest r' = [] \<or> (0 < rd_current r' \<and> rd_document r' ! (rd_current r' - 1) = NUL))"
proof -
  have "case our_parse ''[1] '' nullSingleton False (our_new strict_features) of Inr (ok, r) \<Rightarrow> ok | _ \<Rightarrow> False"
    by code_simp
  then obtain r' where r: "our_parse ''[1] '' nullSingleton False (our_new strict_features) = Inr (True, r')"
    by (auto split: sum.splits)
  have "of_failIfExtra (rd_features (our_new strict_features))" by (simp add: our_new_def strict_features_def)
  from fail_if_extra_reads_all [OF r this] r show ?thesis by blast
qed

text \<open>The two readers decode a text to the same integer, or both leave it to
  \<^verbatim>\<open>decodeDouble\<close>: the thresholds that \<^verbatim>\<open>OurReader\<close> computes without overflow are those of \<^verbatim>\<open>Reader\<close>, and
  no intermediate result of its negation overflows.\<close>

lemma our_integers_agree: "Option.bind (our_decodeInteger txt) integer_of = read_integer txt"
  by (rule our_integer_value)

text \<open>The factory with the strict settings makes a reader with the strict features.\<close>

lemma strict_mode_reader:
  "rbind (rbind crb_new crb_strictMode) newCharReader = Inr \<lparr>cr_collectComments = True, cr_reader = our_new strict_features\<rparr>"
  by code_simp

section \<open>Boundary cases\<close>

definition single_quotes :: our_features where
  "single_quotes = our_all\<lparr>of_allowSingleQuotes := True, of_stackLimit := 1000\<rparr>"

lemma single_quoted_text_cut:
  "case our_parse [CHR 0x27, CHR ''a'', DQUOTE, CHR ''b'', CHR 0x27] nullSingleton False (our_new single_quotes) of
     Inr (ok, r) \<Rightarrow> ok \<and> payload (rd_root r) = StringV ''a'' | Inl _ \<Rightarrow> False"
  by code_simp

lemma bom_location:
  "case our_parse ([CHR 0xEF, CHR 0xBB, CHR 0xBF] @ ''1'') nullSingleton False (our_new strict_features) of
     Inr (ok, r) \<Rightarrow> \<not> ok \<and> our_getLocationLineAndColumn (tok_start (err_token (hd (rd_errors r)))) r = (1, - 2)
   | Inl _ \<Rightarrow> False"
  by code_simp

lemma nul_hides_extra:
  "case our_parse (''[1]'' @ [NUL] @ '' more'') nullSingleton False (our_new strict_features) of
     Inr (ok, r) \<Rightarrow> ok | Inl _ \<Rightarrow> False"
  by code_simp

text \<open>Three cases where \<^verbatim>\<open>OurReader\<close> surprises: a double quote inside single quotes
  ends the text, and the rest of it is lost without an error; after a byte order mark the error about
  the root is located in front of the first column; a NUL byte hides what follows it, also with
  \<^verbatim>\<open>failIfExtra\<close>.\<close>

lemma our_boundary_cases:
  "(case our_parse [CHR 0x27, CHR ''a'', DQUOTE, CHR ''b'', CHR 0x27] nullSingleton False (our_new single_quotes) of
      Inr (ok, r) \<Rightarrow> ok \<and> payload (rd_root r) = StringV ''a'' | Inl _ \<Rightarrow> False) \<and>
   (case our_parse ([CHR 0xEF, CHR 0xBB, CHR 0xBF] @ ''1'') nullSingleton False (our_new strict_features) of
      Inr (ok, r) \<Rightarrow> \<not> ok \<and> our_getLocationLineAndColumn (tok_start (err_token (hd (rd_errors r)))) r = (1, - 2)
    | Inl _ \<Rightarrow> False) \<and>
   (case our_parse (''[1]'' @ [NUL] @ '' more'') nullSingleton False (our_new strict_features) of
      Inr (ok, r) \<Rightarrow> ok | Inl _ \<Rightarrow> False)"
  by (intro conjI single_quoted_text_cut bom_location nul_hides_extra)

end
