(* ===== verification/Our_Safety.thy ===== *)
theory Our_Safety
  imports Our_Laws Reader_Safety
begin

text \<open>
  \<^verbatim>\<open>Json::OurReader\<close> follows no pointer whose target is gone and trips no assertion of \<^verbatim>\<open>Json::Value\<close>; it
  throws for the limit on nesting and for a member name of 2^30 bytes. The contracts of \<open>Reading_Safely\<close>
  hold for its tokens, scalars, containers and for \<^verbatim>\<open>parse\<close>, with every combination of its features.
\<close>

section \<open>Tokens\<close>

definition key_error :: exn where
  "key_error = RuntimeError ''keylength >= 2^30''"

abbreviation our_safe :: "('a \<Rightarrow> bool) \<Rightarrow> 'a res \<Rightarrow> bool" where
  "our_safe \<equiv> safe_in {depth_error, OutOfFuel, key_error}"

lemma calm_flag [simp]: "calm r (r\<lparr>rd_lastValueHasAComment := b\<rparr>)" for r :: our_reader
  by (simp add: calm_def)

lemma calm_our_scans:
  "our_readCStyleComment r = (ok, nl, r') \<Longrightarrow> calm r r'"
  "our_readStringSingleQuote r = (ok, r') \<Longrightarrow> calm r r'"
  "our_readNumber b r = (ok, r') \<Longrightarrow> calm r r'"
  by (auto simp: our_readCStyleComment_def our_readStringSingleQuote_def our_readNumber_def calm_scans
      split: prod.splits if_splits)

lemma calm_our_signed: "our_signed ty0 r = (ty, ok, r') \<Longrightarrow> calm r r'"
  by (auto simp: our_signed_def split: prod.splits bool.splits if_splits
      dest!: calm_our_scans(3) calm_scans(6) intro: calm_trans)

text \<open>The end of \<^verbatim>\<open>readComment\<close>: the bytes of the comment are consumed, and it is attached or kept for later.\<close>

abbreviation our_scanned :: "char \<Rightarrow> our_reader \<Rightarrow> bool \<times> bool \<times> our_reader" where
  "our_scanned c r1 \<equiv> (if c = CHR ''*'' then our_readCStyleComment r1
     else if c = CHR ''/'' then (case readCppStyleComment r1 of (ok, s) \<Rightarrow> (ok, False, s)) else (False, False, r1))"

definition our_sameLine :: "nat \<Rightarrow> char \<Rightarrow> bool \<Rightarrow> our_reader \<Rightarrow> bool" where
  "our_sameLine b c nl r2 \<longleftrightarrow> \<not> rd_lastValueHasAComment r2 \<and>
     (case rd_lastValueEnd r2 of None \<Rightarrow> False | Some e \<Rightarrow> \<not> containsNewLine (slice e b (rd_document r2))) \<and>
     (c = CHR ''/'' \<or> \<not> nl)"

definition our_attach :: "nat \<Rightarrow> bool \<Rightarrow> our_reader \<Rightarrow> our_reader res" where
  "our_attach b same r2 = (let r3 = (if same then r2\<lparr>rd_lastValueHasAComment := True\<rparr> else r2) in
     addComment b (rd_current r3) (if same then commentAfterOnSameLine else commentBefore) r3)"

lemma our_readComment_eq:
  assumes "getNextChar r = (c, r1)" "our_scanned c r1 = (ok, nl, r2)"
  shows "our_readComment r = (if \<not> ok then Inr (False, r2) else if rd_collectComments r2
     then rbind (our_attach (rd_current r - 1) (our_sameLine (rd_current r - 1) c nl r2) r2) (\<lambda>r4. Inr (True, r4))
     else Inr (True, r2))"
  unfolding our_readComment_def Let_def assms prod.case our_attach_def our_sameLine_def by simp

lemma safe_our_readComment:
  assumes "steady r" "after_slash r"
  shows "safe_in E (\<lambda>(ok, r'). calm r r') (our_readComment r)"
proof -
  obtain c r1 where r1: "getNextChar r = (c, r1)" by force
  obtain ok nl r2 where r2: "our_scanned c r1 = (ok, nl, r2)" by (cases "our_scanned c r1") auto
  have q: "quiet r r2" "calm r r2"
    using r1 r2 quiet_getNextChar [OF r1] calm_scans(1) [OF r1]
    by (auto split: if_splits prod.splits intro: quiet_trans calm_trans
        dest: quiet_our_scans(1) quiet_scans(2) calm_our_scans(1) calm_scans(4))
  let ?same = "our_sameLine (rd_current r - 1) c nl r2"
  let ?r3 = "if ?same then r2\<lparr>rd_lastValueHasAComment := True\<rparr> else r2"
  have "quiet r ?r3" "calm r ?r3"
    using quiet_trans [OF q(1) quiet_flag] calm_trans [OF q(2) calm_flag] q by simp_all
  from safe_comment_read [OF assms this, of "if ?same then commentAfterOnSameLine else commentBefore"]
  have "safe_in E (calm r) (our_attach (rd_current r - 1) ?same r2)"
    by (auto simp: our_attach_def our_sameLine_def Let_def split: option.splits if_splits)
  then have "safe_in E (\<lambda>(ok, r'). calm r r') (rbind (our_attach (rd_current r - 1) ?same r2) (\<lambda>r4. Inr (True, r4)))"
    by (rule safe_rbind) simp
  then show ?thesis using q(2) unfolding our_readComment_eq [OF r1 r2] by simp
qed

lemma safe_our_tokenBody:
  assumes "steady r" "c = CHR ''/'' \<Longrightarrow> after_slash r"
  shows "safe_in E (\<lambda>(ty, ok, r'). calm r r') (our_tokenBody c r)"
proof (cases "c = CHR ''/''")
  case True
  have "safe_in E (\<lambda>(ty, ok, r'). calm r r') (rbind (our_readComment r) (\<lambda>(ok, r'). Inr (ourComment, ok, r')))"
    by (rule safe_rbind [OF safe_our_readComment [OF assms(1) assms(2) [OF True]]]) auto
  then show ?thesis using True by (simp add: our_tokenBody_def)
next
  case False
  have "safe_in E (\<lambda>(ty, ok, r'). calm r r') (Inr (ty, readString r))"
    "safe_in E (\<lambda>(ty, ok, r'). calm r r') (Inr (ty, our_readStringSingleQuote r))"
    "safe_in E (\<lambda>(ty, ok, r'). calm r r') (Inr (ty, match_pattern pat r))"
    "safe_in E (\<lambda>(ty, ok, r'). calm r r') (Inr (our_signed ty r))"
    "safe_in E (\<lambda>(ty, ok, r'). calm r r') (Inr (ty, True, snd (our_readNumber b r)))" for ty :: our_token_type and pat b
    by (auto dest: calm_scans(1,3-6) calm_our_scans calm_our_signed intro: calm_our_scans(3) [OF prod.collapse [symmetric]])
  then show ?thesis unfolding our_tokenBody_def if_not_P [OF False]
    by (intro if_both [where P = "safe_in E (\<lambda>(ty, ok, r'). calm r r')"]) simp_all
qed

lemma safe_our_readToken:
  assumes "steady r"
  shows "safe_in E (\<lambda>(ok, tok, r'). calm r r') (our_readToken r)"
proof -
  obtain c r2 where r2: "getNextChar (skipSpaces r) = (c, r2)" by force
  have c: "calm r r2" using calm_scans(1) [OF r2] calm_scans(2) by (blast intro: calm_trans)
  have "safe_in E (\<lambda>(ty, ok, r'). calm r2 r') (our_tokenBody c r2)"
    by (rule safe_our_tokenBody [OF steady_calm [OF assms c]]) (use getNextChar_slash r2 in blast)
  then show ?thesis unfolding our_readToken_def Let_def r2 prod.case
    by (rule safe_rbind) (use c in \<open>auto intro: calm_trans\<close>)
qed

interpretation os: safe_source our_readToken ourEndOfStream ourComment our_skipComments our_recoverLoop
    our_recoverFromError our_addErrorAndRecover E for E :: "exn set"
  by unfold_locales (rule safe_our_readToken)

lemma safe_our_skipCommentTokens:
  assumes "steady r"
  shows "safe_in E (\<lambda>(tok, r'). calm r r') (our_skipCommentTokens r)"
  unfolding our_skipCommentTokens_def
proof (rule safe_rbind [OF safe_our_readToken [OF assms]], intro safe_split safe_if, goal_cases)
  case (1 x ok y tok r1)
  then have c: "calm r r1" by simp
  show ?case
    by (rule safe_rbind [OF os.skipComments_safe [OF steady_calm [OF assms c]]]) (use c in \<open>auto intro: calm_trans\<close>)
qed simp

section \<open>Scalars\<close>

lemma remembers_our_rememberLast [simp]: "remembers s (our_rememberLast s)"
  by (simp add: remembers_def our_rememberLast_def)

lemma jd_ok_our_decodeInteger:
  assumes "our_decodeInteger txt = Some d"
  shows "jd_ok d"
proof -
  have "integer_of d = read_integer txt" using our_integer_value [of "txt"] assms by simp
  moreover have "integer_of d = Some n \<Longrightarrow> INT64_MIN \<le> n \<and> n \<le> UINT64_MAX" if "integer_of d = read_integer txt" for n
    using that jd_ok_decodeInteger [of "txt"]
    by (cases "decodeInteger txt") (auto simp: read_integer_def integer_of_def int_limits split: jdata.splits)
  moreover obtain x y where "d = IntV (s64 x) \<or> d = UIntV y \<and> INT64_MAX < y"
    using assms by (auto simp: our_decodeInteger_def Let_def split: option.splits if_splits)
  ultimately show ?thesis by (auto simp: integer_of_def int_limits to_signed_def)
qed

lemma jd_ok_our_decodeNumber: "our_decodeNumber tok r = (Some d, r') \<Longrightarrow> jd_ok d"
  by (auto simp: our_decodeNumber_def decodeDouble_def split: option.splits
      dest: jd_ok_our_decodeInteger jd_ok_istream_double)

lemma calm_our_decodeNumber: "our_decodeNumber tok r = (d, r') \<Longrightarrow> calm r r'"
  by (auto simp: our_decodeNumber_def decodeDouble_def split: option.splits)

lemma payload_our_offsets [simp]: "payload (our_offsets r tok v) = payload v"
  by (simp add: our_offsets_def setOffsetLimit_def setOffsetStart_def)

lemma value_our_storeDecoded:
  assumes "value_pre r" "calm r s" "\<And>d. x = Some d \<Longrightarrow> jd_ok d" "our_storeDecoded (x, s) tok = (ok, r')"
  shows "value_post r (ok, our_rememberLast r')"
proof (cases x)
  case None
  then show ?thesis using assms value_failed(2) [OF assms(1,2) remembers_our_rememberLast] by (simp add: our_storeDecoded_def)
next
  case (Some d)
  have "value_post s (True, our_rememberLast (set_current (\<lambda>v. our_offsets s tok (set_payload d v)) s))"
    by (rule value_store [OF value_calm [OF assms(1,2)] assms(3) [OF Some] _ remembers_our_rememberLast])
      (simp add: set_payload_def)
  then show ?thesis using value_post_calm [OF assms(2)] assms(4) Some by (auto simp: our_storeDecoded_def)
qed

lemma value_our_scalar:
  assumes "value_pre r" "our_readScalar tok r = (ok, r')"
  shows "value_post r (ok, our_rememberLast r')"
proof -
  consider "tok_type tok = ourNumber" | "tok_type tok = ourString" | "tok_type tok \<notin> {ourNumber, ourString}" by blast
  then show ?thesis
  proof cases
    case 1
    obtain d s where d: "our_decodeNumber tok r = (d, s)" by force
    have "our_storeDecoded (d, s) tok = (ok, r')" using assms(2) 1 d by (simp add: our_readScalar_def)
    then show ?thesis using d
      by (intro value_our_storeDecoded [OF assms(1) calm_our_decodeNumber [OF d]]) (auto dest: jd_ok_our_decodeNumber)
  next
    case 2
    obtain x s where d: "decodeString tok r = (x, s)" by force
    have "our_storeDecoded (map_option StringV x, s) tok = (ok, r')" using assms(2) 2 d by (simp add: our_readScalar_def)
    then show ?thesis by (intro value_our_storeDecoded [OF assms(1) calm_decodeString [OF d]]) auto
  next
    case 3
    then obtain d where "our_storeDecoded (Some d, r) tok = (ok, r')" "jd_ok d"
      using assms(2) by (cases "tok_type tok") (auto simp: our_readScalar_def)
    then show ?thesis by (intro value_our_storeDecoded [OF assms(1) calm_refl, of "Some d"]) auto
  qed
qed

section \<open>The recursion\<close>

definition our_guarded :: "nat \<Rightarrow> bool" where
  "our_guarded fuel \<longleftrightarrow>
     (\<forall>r. value_pre r \<longrightarrow> our_safe (value_post r) (our_readValue fuel r)) \<and>
     (\<forall>name r. loop_pre objectValue r \<longrightarrow> our_safe (loop_post objectValue r) (our_readObjectLoop fuel name r)) \<and>
     (\<forall>i r. loop_pre arrayValue r \<longrightarrow> our_safe (loop_post arrayValue r) (our_readArrayLoop fuel i r))"

lemma our_guardedD:
  "our_guarded fuel \<Longrightarrow> value_pre r \<Longrightarrow> our_safe (value_post r) (our_readValue fuel r)"
  "our_guarded fuel \<Longrightarrow> loop_pre objectValue r \<Longrightarrow> our_safe (loop_post objectValue r) (our_readObjectLoop fuel name r)"
  "our_guarded fuel \<Longrightarrow> loop_pre arrayValue r \<Longrightarrow> our_safe (loop_post arrayValue r) (our_readArrayLoop fuel i r)"
  by (simp_all add: our_guarded_def)

lemma our_guarded_array_step:
  assumes g: "our_guarded fuel" and r: "loop_pre arrayValue r"
  shows "our_safe (loop_post arrayValue r) (our_readArrayLoop (Suc fuel) i r)"
  unfolding our_readArrayLoop.simps Let_def
proof (rule safe_loop_calm [OF r calm_scans(2)], rule safe_if, goal_cases)
  case 1
  show ?case
    by (rule safe_rbind [OF safe_our_readToken [OF loop_steady [OF 1(1)]]]) (auto intro: loop_calm(2) [OF 1(1)])
next
  case 2
  show ?case
    by (rule os.array_step_safe [where readValue = "our_readValue fuel", OF 2(1) our_guardedD(1) [OF g]
        os.array_tail_safe [OF _ our_guardedD(3) [OF g]]])
qed

lemma our_decodeNumber_scalar: "our_decodeNumber tok r = (Some d, r') \<Longrightarrow> \<exists>s. asString (initBasic d) = Inr s"
  by (auto simp: our_decodeNumber_def our_decodeInteger_def decodeDouble_def asString_def initBasic_def Let_def
      split: option.splits if_splits)

lemma safe_our_memberName:
  "our_safe (\<lambda>x. \<forall>n r'. x = Some (n, r') \<longrightarrow> calm r r') (our_memberName tok r)"
proof -
  obtain x s where x: "our_decodeNumber tok r = (x, s)" by force
  have "our_safe (\<lambda>y. \<forall>n r'. y = Some (n, r') \<longrightarrow> calm r r') (rbind (asString (initBasic d)) (\<lambda>s'. Inr (Some (Some s', s))))"
    if "x = Some d" for d
    using our_decodeNumber_scalar [of tok r d s] that x calm_our_decodeNumber [OF x] by auto
  then show ?thesis using x calm_our_decodeNumber [OF x]
    by (auto simp: our_memberName_def calm_decodeString split: option.splits)
qed

lemma isMember_of_object: "loop_pre objectValue r \<Longrightarrow> \<exists>b. isMember k (currentValue r) = Inr b"
  by (auto simp: loop_pre_def type_at_def currentValue_def isMember_def find_member_def type_of_def
      split: jdata.splits option.splits)

lemma our_guarded_object_step:
  assumes g: "our_guarded fuel" and r: "loop_pre objectValue r0"
  shows "our_safe (loop_post objectValue r0) (our_readObjectLoop (Suc fuel) name r0)"
  unfolding our_readObjectLoop.simps
proof (rule os.object_name_safe [OF r], intro safe_if, goal_cases)
  case (1 ok tokenName r2)
  then show ?case by (intro os.loop_recover_safe(2))
next
  case (2 ok tokenName r2)
  then show ?case by (simp add: loop_calm(2) [OF _ calm_refl])
next
  case (3 ok tokenName r2)
  note r2 = \<open>loop_pre objectValue r2\<close>
  have member: "our_safe (loop_post objectValue s) (our_member fuel n s)" if s: "loop_pre objectValue s" for n s
    by (rule os.object_member_safe [where readValue = "our_readValue fuel", OF s our_guardedD(1) [OF g]
        os.object_tail_safe [OF _ our_guardedD(2) [OF g]]])
  have named: "our_safe (loop_post objectValue s) (our_named fuel tokenName n s)" if s: "loop_pre objectValue s" for n s
  proof (rule safe_if, simp add: key_error_def, rule safe_rbind [where P = "\<lambda>_. True"], goal_cases)
    case 1
    then show ?case using isMember_of_object [OF s, of n] by auto
  next
    case (2 dup)
    show ?case by (intro safe_if os.loop_recover_safe(2) [OF s] member [OF s])
  qed
  show ?case
  proof (rule safe_rbind [OF safe_our_memberName], goal_cases)
    case (1 decoded)
    have "our_safe (loop_post objectValue r2) (our_recoverFromError ourObjectEnd r3)" if "decoded = Some (None, r3)" for r3
      using 1 that by (intro safe_loop_calm [OF r2, of r3] os.loop_recover_safe(1)) simp_all
    moreover have "our_safe (loop_post objectValue r2) (our_named fuel tokenName n r3)" if "decoded = Some (Some n, r3)" for n r3
      using 1 that by (intro safe_loop_calm [OF r2, of r3] named) simp_all
    ultimately show ?case using os.loop_recover_safe(2) [OF r2] by (auto split: option.split prod.split)
  qed
qed

lemma our_container:
  assumes g: "our_guarded fuel" and s: "value_pre s"
    and f: "\<And>v. type_of (f v) = t" "\<And>v. jv_ok (f v)" and m: "\<And>r. loop_pre t r \<Longrightarrow> our_safe (loop_post t r) (m r)"
  shows "our_safe (value_post s) (rbind (m (set_current f s))
     (\<lambda>(ok, r'). Inr (ok, our_rememberLast (set_current (setOffsetLimit (int (rd_current r') - int (rd_begin r'))) r'))))"
  by (rule loop_close [where f = f and g = "\<lambda>s. setOffsetLimit (int (rd_current s) - int (rd_begin s))", OF s f calm_refl
      m [OF replace_current(1) [where f = f, OF s f]]]) (simp_all add: setOffsetLimit_def)

lemma our_guarded_value_step:
  assumes g: "our_guarded fuel" and r: "value_pre r0"
  shows "our_safe (value_post r0) (our_readValue (Suc fuel) r0)"
  unfolding our_readValue.simps
proof (rule safe_if, simp add: depth_error_def, rule safe_rbind [OF safe_our_skipCommentTokens], goal_cases)
  case 1
  then show ?case using r by (simp add: value_pre_def)
next
  case (2 x)
  obtain token r1 where x: "x = (token, r1)" by force
  have c1: "calm r0 r1" using 2 x by simp
  have st: "steady r1" "rd_nodes r1 \<noteq> []" using value_calm [OF r c1] by (simp_all add: value_pre_def)
  show ?case unfolding x prod.case
  proof (rule safe_rbind [OF safe_takeCommentsBefore [OF st]], goal_cases)
    case (1 s)
    have c: "calm r0 s" by (rule calm_trans [OF c1 1])
    have s: "value_pre s" by (rule value_calm [OF r c])
    then have ss: "steady s" "rd_nodes s \<noteq> []" by (simp_all add: value_pre_def)
    show ?case
    proof (rule safe_value_calm [OF c], intro safe_if, goal_cases)
      case 1
      show ?case
        by (rule our_container [where t = objectValue and m = "our_readObjectLoop fuel []", OF g s _ _ our_guardedD(2) [OF g]])
          (simp_all add: type_of_def setOffsetStart_def jv_ok_payload)
    next
      case 2
      show ?case
        by (rule our_container [where t = arrayValue and m = "our_readArrayLoop fuel 0", OF g s _ _ our_guardedD(3) [OF g]])
          (simp_all add: type_of_def setOffsetStart_def jv_ok_payload)
    next
      case 3
      then show ?case using value_our_scalar [OF s] by (auto split: prod.split)
    next
      case 4
      let ?s = "s\<lparr>rd_current := rd_current s - 1\<rparr>"
      have "calm s ?s" by (simp add: calm_def)
      then show ?case unfolding Let_def safe_simps
        by (intro value_post_calm [of s ?s] value_store [OF value_calm [OF s] _ _ remembers_our_rememberLast, of ?s NullV])
          (simp_all add: setOffsetLimit_def setOffsetStart_def)
    next
      case 5
      have "calm s (set_current (our_offsets s token) s)" by (rule calm_set_current [OF ss]) simp
      then have "calm s (addError m token None (set_current (our_offsets s token) s))" for m
        using calm_addError by (blast intro: calm_trans)
      then show ?case by (simp add: value_failed(1) [OF s])
    qed
  qed
qed

lemma our_guarded_all: "our_guarded fuel"
proof (induction fuel)
  case (Suc fuel)
  then show ?case unfolding our_guarded_def [of "Suc fuel"]
    using our_guarded_value_step our_guarded_object_step our_guarded_array_step by blast
qed (simp add: our_guarded_def)

section \<open>Parsing\<close>

lemma our_reset_start:
  "value_pre (our_reset doc root0 collect r)" "rd_nodes (our_reset doc root0 collect r) = [[]]"
  "rd_root (our_reset doc root0 collect r) = root0"
  by (simp_all add: value_pre_def steady_def our_reset_def our_skipBom_def slashed_def)

definition our_parsed_well :: "jvalue \<Rightarrow> bool \<times> our_reader \<Rightarrow> bool" where
  "our_parsed_well root0 x \<longleftrightarrow> rd_nodes (snd x) = [] \<and> (jv_ok root0 \<longrightarrow> jv_ok (rd_root (snd x)))"

lemma safe_our_parse: "our_safe (our_parsed_well root0) (our_parse doc root0 collect r)"
proof -
  let ?r = "our_reset doc root0 collect r"
  have "our_safe (value_post ?r) (our_readValue (our_parse_fuel doc) ?r)"
    using our_guarded_all our_reset_start(1) unfolding our_guarded_def by blast
  then show ?thesis unfolding our_parse_def
  proof (rule safe_rbind, intro safe_split, goal_cases)
    case (1 x successful r1)
    then have "steady r1" "rd_nodes r1 = [[]]" "jv_ok root0 \<longrightarrow> jv_ok (rd_root r1)"
      by (simp_all add: value_post_def progress_def our_reset_start)
    then have r1: "steady (popNode r1)" "rd_nodes (popNode r1) = []" "jv_ok root0 \<longrightarrow> jv_ok (rd_root (popNode r1))"
      by (simp_all add: popNode_def steady_def)
    have well: "our_parsed_well root0 (b, s)" "our_parsed_well root0 (b, addError m tok e s)" if "calm (popNode r1) s" for b s m tok e
      using that r1 by (simp_all add: our_parsed_well_def calm_def addError_def)
    show ?case
    proof (rule safe_rbind [OF safe_our_skipCommentTokens [OF r1(1)]], intro safe_split safe_if, goal_cases)
      case (1 x token r2)
      then show ?case by (simp add: well)
    next
      case (2 x token r2)
      then have c2: "calm (popNode r1) r2" by simp
      have st: "steady r2" by (rule steady_calm [OF r1(1) c2])
      have "our_safe (calm r2) (if rd_collectComments r2 \<and> rd_commentsBefore r2 \<noteq> []
            then update_res [] (setComment (rd_commentsBefore r2) commentAfter) r2 else Inr r2)"
        using safe_comment [of "[]" r2 "rd_commentsBefore r2" commentAfter] st by (auto simp: steady_def)
      then show ?case by (rule safe_rbind) (auto intro: well calm_trans [OF c2])
    qed
  qed
qed

text \<open>C24 (our_parse_safe). Whatever the document, its features and its earlier use, \<^verbatim>\<open>OurReader::parse\<close> returns, with
  the type invariant of \<^verbatim>\<open>Json::Value\<close> at every depth and the stack \<^verbatim>\<open>nodes_\<close> empty, or it
  throws the error of too deep nesting or that of a too long member name: no assertion of \<^verbatim>\<open>Json::Value\<close>
  fails and no pointer to a value that is gone is followed.\<close>

theorem our_parse_safe:
  assumes "jv_ok root0"
  shows "case our_parse doc root0 collect r of
       Inr (ok, r') \<Rightarrow> jv_ok (rd_root r') \<and> rd_nodes r' = []
     | Inl e \<Rightarrow> e \<in> {RuntimeError ''Exceeded stackLimit in readValue().'', RuntimeError ''keylength >= 2^30''}"
proof (cases "our_parse doc root0 collect r")
  case (Inl e)
  have "fuelled (our_parse doc root0 collect r)" using fine_our_parse fineD(1) by blast
  then show ?thesis using safe_our_parse [of root0 doc collect r] Inl by (auto simp: depth_error_def key_error_def fuelled_def)
next
  case (Inr x)
  then show ?thesis using safe_our_parse [of root0 doc collect r] assms by (cases x) (simp add: our_parsed_well_def)
qed

theorem our_parse_safe_witness:
  "\<exists>r. our_parse ''[1,{'' nullSingleton True (our_new strict_features) = Inr (False, r) \<and> jv_ok (rd_root r)"
proof -
  have "case our_parse ''[1,{'' nullSingleton True (our_new strict_features) of Inr (ok, r) \<Rightarrow> \<not> ok | _ \<Rightarrow> False" by code_simp
  then obtain r where r: "our_parse ''[1,{'' nullSingleton True (our_new strict_features) = Inr (False, r)"
    by (auto split: sum.splits)
  have "jv_ok nullSingleton" by simp
  from our_parse_safe [OF this, of "''[1,{''" True "our_new strict_features"] r show ?thesis by simp
qed

end
