(* ===== verification/Legacy_Writers.thy ===== *)
theory Legacy_Writers
  imports Json_Writer
begin

text \<open>
  The two deprecated writers of \<^verbatim>\<open>jsoncpp/src/json_writer.cpp\<close>, lines 434 to 863: \<^verbatim>\<open>StyledWriter\<close> builds a string
  and decides from its last character whether the line is already indented, \<^verbatim>\<open>StyledStreamWriter\<close>
  writes to a stream and keeps a flag for that. Both put an array on a single line when its elements are
  short scalars. Both print the names of members through \<^verbatim>\<open>c_str()\<close> (\<open>Json_Text.valueToQuotedString\<close>), so that
  a name ends at its first NUL byte. The assertions of \<^verbatim>\<open>unindent\<close> and \<^verbatim>\<open>writeArrayValue\<close> always hold and are
  left out: each \<^verbatim>\<open>unindent\<close> undoes an \<^verbatim>\<open>indent\<close>, and an array on one line has had each element collected.
\<close>

section \<open>StyledWriter\<close>

record legacy_writer =
  sw_document :: string
  sw_childValues :: "string list"
  sw_indentString :: string
  sw_rightMargin :: nat
  sw_indentSize :: nat
  sw_addChildValues :: bool

definition sw_new :: legacy_writer where
  "sw_new = \<lparr>sw_document = [], sw_childValues = [], sw_indentString = [], sw_rightMargin = 74,
     sw_indentSize = 3, sw_addChildValues = False\<rparr>"

definition sw_put :: "string \<Rightarrow> legacy_writer \<Rightarrow> legacy_writer" where
  "sw_put s w = w\<lparr>sw_document := sw_document w @ s\<rparr>"

definition sw_pushValue :: "string \<Rightarrow> legacy_writer \<Rightarrow> legacy_writer" where
  "sw_pushValue value w =
     (if sw_addChildValues w then w\<lparr>sw_childValues := sw_childValues w @ [value]\<rparr> else sw_put value w)"

definition sw_writeIndent :: "legacy_writer \<Rightarrow> legacy_writer" where
  "sw_writeIndent w =
     (if sw_document w \<noteq> [] \<and> last (sw_document w) = CHR '' '' then w
      else sw_put (sw_indentString w)
             (if sw_document w \<noteq> [] \<and> last (sw_document w) \<noteq> LF then sw_put [LF] w else w))"

definition sw_writeWithIndent :: "string \<Rightarrow> legacy_writer \<Rightarrow> legacy_writer" where
  "sw_writeWithIndent value w = sw_put value (sw_writeIndent w)"

definition sw_indent :: "legacy_writer \<Rightarrow> legacy_writer" where
  "sw_indent w = w\<lparr>sw_indentString := sw_indentString w @ replicate (sw_indentSize w) (CHR '' '')\<rparr>"

definition sw_unindent :: "legacy_writer \<Rightarrow> legacy_writer" where
  "sw_unindent w = w\<lparr>sw_indentString := take (length (sw_indentString w) - sw_indentSize w) (sw_indentString w)\<rparr>"

text \<open>The text of a comment, character by character.\<close>

fun sw_comment :: "string \<Rightarrow> legacy_writer \<Rightarrow> legacy_writer" where
  "sw_comment [] w = w"
| "sw_comment (c # cs) w =
     (let w1 = sw_put [c] w
      in sw_comment cs (if c = LF \<and> cs \<noteq> [] \<and> hd cs = CHR ''/'' then sw_writeIndent w1 else w1))"

definition sw_writeCommentBeforeValue :: "jvalue \<Rightarrow> legacy_writer \<Rightarrow> legacy_writer" where
  "sw_writeCommentBeforeValue root w =
     (if \<not> hasComment commentBefore root then w
      else sw_put [LF] (sw_comment (getComment commentBefore root) (sw_writeIndent (sw_put [LF] w))))"

definition sw_writeCommentAfterValueOnSameLine :: "jvalue \<Rightarrow> legacy_writer \<Rightarrow> legacy_writer" where
  "sw_writeCommentAfterValueOnSameLine root w =
     (let w1 = (if hasComment commentAfterOnSameLine root
                then sw_put ('' '' @ getComment commentAfterOnSameLine root) w else w)
      in if hasComment commentAfter root
         then sw_put [LF] (sw_put (getComment commentAfter root) (sw_put [LF] w1)) else w1)"

text \<open>
  \<open>sw_collect\<close> is the loop of \<^verbatim>\<open>isMultilineArray\<close> that writes the elements into \<^verbatim>\<open>childValues_\<close>;
  \<open>sw_elements\<close> and \<open>sw_members\<close> are the loops of \<^verbatim>\<open>writeArrayValue\<close> and \<^verbatim>\<open>writeValue\<close>.
\<close>

function sw_writeValue :: "jvalue \<Rightarrow> legacy_writer \<Rightarrow> legacy_writer"
  and sw_writeArrayValue :: "jvalue \<Rightarrow> legacy_writer \<Rightarrow> legacy_writer"
  and sw_isMultilineArray :: "jvalue \<Rightarrow> legacy_writer \<Rightarrow> bool \<times> legacy_writer"
  and sw_collect :: "jvalue list \<Rightarrow> legacy_writer \<Rightarrow> legacy_writer"
  and sw_elements :: "bool \<Rightarrow> nat \<Rightarrow> jvalue list \<Rightarrow> legacy_writer \<Rightarrow> legacy_writer"
  and sw_members :: "(string \<times> jvalue) list \<Rightarrow> legacy_writer \<Rightarrow> legacy_writer" where
  "sw_writeValue v w = (case payload v of
       NullV \<Rightarrow> sw_pushValue ''null'' w
     | IntV i \<Rightarrow> sw_pushValue (valueToString_int i) w
     | UIntV u \<Rightarrow> sw_pushValue (valueToString_uint u) w
     | RealV d \<Rightarrow> sw_pushValue (valueToString_double d False 17 significantDigits) w
     | StringV s \<Rightarrow> sw_pushValue (valueToQuotedStringN s False) w
     | BoolV b \<Rightarrow> sw_pushValue (valueToString_bool b) w
     | ArrayV _ \<Rightarrow> sw_writeArrayValue v w
     | ObjectV _ \<Rightarrow>
         (if object_children v = [] then sw_pushValue ''{}'' w
          else sw_writeWithIndent ''}'' (sw_unindent
                 (sw_members (object_children v) (sw_indent (sw_writeWithIndent ''{'' w))))))"
| "sw_writeArrayValue v w =
     (if size_of v = 0 then sw_pushValue ''[]'' w
      else let (isArrayMultiLine, w1) = sw_isMultilineArray v w
           in if isArrayMultiLine
              then let w2 = sw_indent (sw_writeWithIndent ''['' w1)
                   in sw_writeWithIndent '']'' (sw_unindent
                        (sw_elements (sw_childValues w2 \<noteq> []) 0 (array_children v) w2))
              else sw_put '' ]'' (sw_put (concat (map (\<lambda>i. (if 0 < i then '', '' else []) @ child_value i (sw_childValues w1))
                                             [0..<size_of v]))
                     (sw_put ''[ '' w1)))"
| "sw_isMultilineArray v w =
     (let w1 = w\<lparr>sw_childValues := []\<rparr> in
      if multiline_by_shape (sw_rightMargin w) v then (True, w1)
      else let w2 = (sw_collect (array_children v) (w1\<lparr>sw_addChildValues := True\<rparr>))\<lparr>sw_addChildValues := False\<rparr>
           in (list_ex hasCommentForValue (array_children v) \<or>
               line_length (size_of v) (sw_childValues w2) \<ge> sw_rightMargin w2, w2))"
| "sw_collect [] w = w"
| "sw_collect (c # cs) w = sw_collect cs (sw_writeValue c w)"
| "sw_elements hasChildValue index [] w = w"
| "sw_elements hasChildValue index (c # cs) w =
     (let w1 = sw_writeCommentBeforeValue c w;
          w2 = (if hasChildValue then sw_writeWithIndent (child_value index (sw_childValues w1)) w1
                else sw_writeValue c (sw_writeIndent w1))
      in if cs = [] then sw_writeCommentAfterValueOnSameLine c w2
         else sw_elements hasChildValue (Suc index) cs
                (sw_writeCommentAfterValueOnSameLine c (sw_put '','' w2)))"
| "sw_members [] w = w"
| "sw_members ((name, c) # cs) w =
     (let w1 = sw_writeWithIndent (valueToQuotedString name) (sw_writeCommentBeforeValue c w);
          w2 = sw_writeValue c (sw_put '' : '' w1)
      in if cs = [] then sw_writeCommentAfterValueOnSameLine c w2
         else sw_members cs (sw_writeCommentAfterValueOnSameLine c (sw_put '','' w2)))"
  by pat_completeness auto
termination
  by (relation "inv_image (less_than <*lex*> less_than)
        (\<lambda>x. case x of
            Inl (Inl (v, w)) \<Rightarrow> (size v, 2)
          | Inl (Inr (Inl (v, w))) \<Rightarrow> (size v, 1)
          | Inl (Inr (Inr (v, w))) \<Rightarrow> (size v, 0)
          | Inr (Inl (cs, w)) \<Rightarrow> (max_size cs, 3 + length cs)
          | Inr (Inr (Inl (b, i, cs, w))) \<Rightarrow> (max_size cs, 3 + length cs)
          | Inr (Inr (Inr (cs, w))) \<Rightarrow> (max_size (map snd cs), 3 + length cs))")
    (auto simp: child_sizes le_less)

lemmas sw_value_simps = sw_writeValue.simps sw_writeArrayValue.simps sw_isMultilineArray.simps
declare sw_value_simps [simp del]

definition sw_write :: "jvalue \<Rightarrow> legacy_writer \<Rightarrow> legacy_writer" where
  "sw_write root w =
     (let w0 = w\<lparr>sw_document := [], sw_addChildValues := False, sw_indentString := []\<rparr>;
          w1 = sw_writeValue root (sw_writeCommentBeforeValue root w0)
      in sw_put [LF] (sw_writeCommentAfterValueOnSameLine root w1))"

section \<open>StyledStreamWriter\<close>

record stream_writer =
  ssw_document :: string
  ssw_childValues :: "string list"
  ssw_indentString :: string
  ssw_rightMargin :: nat
  ssw_indentation :: string
  ssw_addChildValues :: bool
  ssw_indented :: bool

definition ssw_new :: "string \<Rightarrow> stream_writer" where
  "ssw_new indentation = \<lparr>ssw_document = [], ssw_childValues = [], ssw_indentString = [], ssw_rightMargin = 74,
     ssw_indentation = indentation, ssw_addChildValues = False, ssw_indented = False\<rparr>"

definition ssw_put :: "string \<Rightarrow> stream_writer \<Rightarrow> stream_writer" where
  "ssw_put s w = w\<lparr>ssw_document := ssw_document w @ s\<rparr>"

definition ssw_pushValue :: "string \<Rightarrow> stream_writer \<Rightarrow> stream_writer" where
  "ssw_pushValue value w =
     (if ssw_addChildValues w then w\<lparr>ssw_childValues := ssw_childValues w @ [value]\<rparr> else ssw_put value w)"

definition ssw_writeIndent :: "stream_writer \<Rightarrow> stream_writer" where
  "ssw_writeIndent w = ssw_put (LF # ssw_indentString w) w"

definition ssw_writeWithIndent :: "string \<Rightarrow> stream_writer \<Rightarrow> stream_writer" where
  "ssw_writeWithIndent value w =
     (ssw_put value (if \<not> ssw_indented w then ssw_writeIndent w else w))\<lparr>ssw_indented := False\<rparr>"

definition ssw_indent :: "stream_writer \<Rightarrow> stream_writer" where
  "ssw_indent w = w\<lparr>ssw_indentString := ssw_indentString w @ ssw_indentation w\<rparr>"

definition ssw_unindent :: "stream_writer \<Rightarrow> stream_writer" where
  "ssw_unindent w = w\<lparr>ssw_indentString :=
     take (length (ssw_indentString w) - length (ssw_indentation w)) (ssw_indentString w)\<rparr>"

definition ssw_writeCommentBeforeValue :: "jvalue \<Rightarrow> stream_writer \<Rightarrow> stream_writer" where
  "ssw_writeCommentBeforeValue root w =
     (if \<not> hasComment commentBefore root then w
      else (let w1 = (if \<not> ssw_indented w then ssw_writeIndent w else w)
            in (ssw_put (comment_text (ssw_indentString w1) (getComment commentBefore root)) w1)
                 \<lparr>ssw_indented := False\<rparr>))"

definition ssw_writeCommentAfterValueOnSameLine :: "jvalue \<Rightarrow> stream_writer \<Rightarrow> stream_writer" where
  "ssw_writeCommentAfterValueOnSameLine root w =
     (let w1 = (if hasComment commentAfterOnSameLine root
                then ssw_put ('' '' @ getComment commentAfterOnSameLine root) w else w)
      in (if hasComment commentAfter root
          then ssw_put (getComment commentAfter root) (ssw_writeIndent w1) else w1)\<lparr>ssw_indented := False\<rparr>)"

function ssw_writeValue :: "jvalue \<Rightarrow> stream_writer \<Rightarrow> stream_writer"
  and ssw_writeArrayValue :: "jvalue \<Rightarrow> stream_writer \<Rightarrow> stream_writer"
  and ssw_isMultilineArray :: "jvalue \<Rightarrow> stream_writer \<Rightarrow> bool \<times> stream_writer"
  and ssw_collect :: "jvalue list \<Rightarrow> stream_writer \<Rightarrow> stream_writer"
  and ssw_elements :: "bool \<Rightarrow> nat \<Rightarrow> jvalue list \<Rightarrow> stream_writer \<Rightarrow> stream_writer"
  and ssw_members :: "(string \<times> jvalue) list \<Rightarrow> stream_writer \<Rightarrow> stream_writer" where
  "ssw_writeValue v w = (case payload v of
       NullV \<Rightarrow> ssw_pushValue ''null'' w
     | IntV i \<Rightarrow> ssw_pushValue (valueToString_int i) w
     | UIntV u \<Rightarrow> ssw_pushValue (valueToString_uint u) w
     | RealV d \<Rightarrow> ssw_pushValue (valueToString_double d False 17 significantDigits) w
     | StringV s \<Rightarrow> ssw_pushValue (valueToQuotedStringN s False) w
     | BoolV b \<Rightarrow> ssw_pushValue (valueToString_bool b) w
     | ArrayV _ \<Rightarrow> ssw_writeArrayValue v w
     | ObjectV _ \<Rightarrow>
         (if object_children v = [] then ssw_pushValue ''{}'' w
          else ssw_writeWithIndent ''}'' (ssw_unindent
                 (ssw_members (object_children v) (ssw_indent (ssw_writeWithIndent ''{'' w))))))"
| "ssw_writeArrayValue v w =
     (if size_of v = 0 then ssw_pushValue ''[]'' w
      else let (isArrayMultiLine, w1) = ssw_isMultilineArray v w
           in if isArrayMultiLine
              then let w2 = ssw_indent (ssw_writeWithIndent ''['' w1)
                   in ssw_writeWithIndent '']'' (ssw_unindent
                        (ssw_elements (ssw_childValues w2 \<noteq> []) 0 (array_children v) w2))
              else ssw_put '' ]'' (ssw_put (concat (map (\<lambda>i. (if 0 < i then '', '' else []) @ child_value i (ssw_childValues w1))
                                             [0..<size_of v]))
                     (ssw_put ''[ '' w1)))"
| "ssw_isMultilineArray v w =
     (let w1 = w\<lparr>ssw_childValues := []\<rparr> in
      if multiline_by_shape (ssw_rightMargin w) v then (True, w1)
      else let w2 = (ssw_collect (array_children v) (w1\<lparr>ssw_addChildValues := True\<rparr>))\<lparr>ssw_addChildValues := False\<rparr>
           in (list_ex hasCommentForValue (array_children v) \<or>
               line_length (size_of v) (ssw_childValues w2) \<ge> ssw_rightMargin w2, w2))"
| "ssw_collect [] w = w"
| "ssw_collect (c # cs) w = ssw_collect cs (ssw_writeValue c w)"
| "ssw_elements hasChildValue index [] w = w"
| "ssw_elements hasChildValue index (c # cs) w =
     (let w1 = ssw_writeCommentBeforeValue c w;
          w2 = (if hasChildValue then ssw_writeWithIndent (child_value index (ssw_childValues w1)) w1
                else (ssw_writeValue c ((if \<not> ssw_indented w1 then ssw_writeIndent w1 else w1)
                        \<lparr>ssw_indented := True\<rparr>))\<lparr>ssw_indented := False\<rparr>)
      in if cs = [] then ssw_writeCommentAfterValueOnSameLine c w2
         else ssw_elements hasChildValue (Suc index) cs
                (ssw_writeCommentAfterValueOnSameLine c (ssw_put '','' w2)))"
| "ssw_members [] w = w"
| "ssw_members ((name, c) # cs) w =
     (let w1 = ssw_writeWithIndent (valueToQuotedString name) (ssw_writeCommentBeforeValue c w);
          w2 = ssw_writeValue c (ssw_put '' : '' w1)
      in if cs = [] then ssw_writeCommentAfterValueOnSameLine c w2
         else ssw_members cs (ssw_writeCommentAfterValueOnSameLine c (ssw_put '','' w2)))"
  by pat_completeness auto
termination
  by (relation "inv_image (less_than <*lex*> less_than)
        (\<lambda>x. case x of
            Inl (Inl (v, w)) \<Rightarrow> (size v, 2)
          | Inl (Inr (Inl (v, w))) \<Rightarrow> (size v, 1)
          | Inl (Inr (Inr (v, w))) \<Rightarrow> (size v, 0)
          | Inr (Inl (cs, w)) \<Rightarrow> (max_size cs, 3 + length cs)
          | Inr (Inr (Inl (b, i, cs, w))) \<Rightarrow> (max_size cs, 3 + length cs)
          | Inr (Inr (Inr (cs, w))) \<Rightarrow> (max_size (map snd cs), 3 + length cs))")
    (auto simp: child_sizes le_less)

lemmas ssw_value_simps = ssw_writeValue.simps ssw_writeArrayValue.simps ssw_isMultilineArray.simps
declare ssw_value_simps [simp del]

definition ssw_write :: "jvalue \<Rightarrow> stream_writer \<Rightarrow> stream_writer" where
  "ssw_write root w =
     (let w0 = w\<lparr>ssw_document := [], ssw_addChildValues := False, ssw_indentString := [], ssw_indented := True\<rparr>;
          w1 = ssw_writeCommentBeforeValue root w0;
          w2 = (if \<not> ssw_indented w1 then ssw_writeIndent w1 else w1)\<lparr>ssw_indented := True\<rparr>
      in ssw_put [LF] (ssw_writeCommentAfterValueOnSameLine root (ssw_writeValue root w2)))"

end
