(* ===== verification/Legacy_Roundtrip.thy ===== *)
theory Legacy_Roundtrip
  imports Print_Parse Legacy_Writers
begin

text \<open>
  The two deprecated writers print texts of the grammar too. The locale \<open>line_printer\<close> is what they have
  in common: primitive operations that append to the text, possibly after white space, and the
  recursion over the value with its choice between an array on one line and one on several. The
  proof that such a printer meets the grammar is done once inside; the interpretations give it for
  \<^verbatim>\<open>StyledWriter\<close> and \<^verbatim>\<open>StyledStreamWriter\<close>.
\<close>

section \<open>The grammar, continued\<close>

lemma json_trailing:
  "json_text n v a \<Longrightarrow> True"
  "json_elements n cs s \<Longrightarrow> spaces t \<Longrightarrow> json_elements n cs (s @ t)"
  "json_members n m s \<Longrightarrow> spaces t \<Longrightarrow> json_members n m (s @ t)"
proof (induction rule: json_text_json_elements_json_members.inducts)
  case (json_last_element n c a ws)
  then show ?case using json_text_json_elements_json_members.json_last_element [of n c a "ws @ t"] by simp
next
  case (json_last_member k q wk wv n c a ws)
  then show ?case using json_text_json_elements_json_members.json_last_member [of k q wk wv n c a "ws @ t"] by simp
next
  case (json_element n c a ws ws' cs s)
  then show ?case using json_text_json_elements_json_members.json_element [of n c a ws ws' cs "s @ t"] by simp
next
  case (json_member k q wk wv n c a ws ws' m s)
  then show ?case using json_text_json_elements_json_members.json_member [of k q wk wv n c a ws ws' m "s @ t"] by simp
qed simp_all

definition one_line :: "string list \<Rightarrow> string" where
  "one_line ts = concat (map (\<lambda>i. (if 0 < i then '', '' else []) @ child_value i ts) [0..<length ts])"

lemma one_line_Cons: "one_line (t # ts) = t @ concat (map (\<lambda>t. '', '' @ t) ts)"
proof -
  have "map (\<lambda>i. '', '' @ child_value (Suc i) (t # ts)) [0..<length ts] = map (\<lambda>t. '', '' @ t) ts"
    by (rule nth_equalityI) (simp_all add: child_value_def)
  then have "map (\<lambda>i. (if 0 < i then '', '' else []) @ child_value i (t # ts)) [Suc 0..<Suc (length ts)] = map (\<lambda>t. '', '' @ t) ts"
    unfolding map_Suc_upt [symmetric] map_map comp_def by simp
  moreover have "[0..<length (t # ts)] = 0 # [Suc 0..<Suc (length ts)]" by (simp add: upt_conv_Cons del: upt_Suc)
  ultimately show ?thesis by (simp add: one_line_def child_value_def [of 0] del: upt_Suc)
qed

lemma one_line_json:
  "list_all2 (json_text n) cs ts \<Longrightarrow> cs \<noteq> [] \<Longrightarrow> json_elements n cs (one_line ts)"
proof (induction cs ts rule: list_all2_induct)
  case (Cons c cs t ts)
  show ?case
  proof (cases cs)
    case Nil
    then show ?thesis using Cons json_last_element [of n c t "[]"] by (simp add: one_line_Cons)
  next
    case (Cons c' cs')
    then obtain t' ts' where ts: "ts = t' # ts'" using \<open>list_all2 (json_text n) cs ts\<close> by (cases ts) auto
    have "json_elements n (c # cs) (t @ [] @ '','' @ '' '' @ one_line ts)"
      by (rule json_element) (use Cons.IH \<open>json_text n c t\<close> Cons in \<open>simp_all add: spaces_LF\<close>)
    then show ?thesis by (simp add: one_line_Cons ts)
  qed
qed simp

section \<open>Line printers\<close>

locale line_printer =
  fixes sane :: "'w \<Rightarrow> bool" and doc :: "'w \<Rightarrow> string" and kids :: "'w \<Rightarrow> string list" and collecting :: "'w \<Rightarrow> bool"
    and rightMargin :: "'w \<Rightarrow> nat"
    and clearKids :: "'w \<Rightarrow> 'w" and collectMode :: "bool \<Rightarrow> 'w \<Rightarrow> 'w"
    and put pushValue withIndent :: "string \<Rightarrow> 'w \<Rightarrow> 'w"
    and indent unindent :: "'w \<Rightarrow> 'w"
    and noteBefore noteAfter element writeValue writeArrayValue :: "jvalue \<Rightarrow> 'w \<Rightarrow> 'w"
    and isMultilineArray :: "jvalue \<Rightarrow> 'w \<Rightarrow> bool \<times> 'w"
    and collect :: "jvalue list \<Rightarrow> 'w \<Rightarrow> 'w"
    and elementLoop :: "bool \<Rightarrow> nat \<Rightarrow> jvalue list \<Rightarrow> 'w \<Rightarrow> 'w"
    and memberLoop :: "(string \<times> jvalue) list \<Rightarrow> 'w \<Rightarrow> 'w"
  assumes put: "sane w \<Longrightarrow> sane (put s w) \<and> doc (put s w) = doc w @ s \<and> kids (put s w) = kids w \<and>
        collecting (put s w) = collecting w"
    and push: "\<not> collecting w \<Longrightarrow> pushValue s w = put s w"
      "collecting w \<Longrightarrow> sane w \<Longrightarrow> sane (pushValue s w) \<and> doc (pushValue s w) = doc w \<and>
        kids (pushValue s w) = kids w @ [s] \<and> collecting (pushValue s w)"
    and withIndent: "sane w \<Longrightarrow> \<exists>ws. spaces ws \<and> sane (withIndent s w) \<and> doc (withIndent s w) = doc w @ ws @ s \<and>
        kids (withIndent s w) = kids w \<and> collecting (withIndent s w) = collecting w"
    and indents: "sane w \<Longrightarrow> sane (indent w) \<and> doc (indent w) = doc w \<and> kids (indent w) = kids w \<and>
        collecting (indent w) = collecting w"
      "sane w \<Longrightarrow> sane (unindent w) \<and> doc (unindent w) = doc w \<and> kids (unindent w) = kids w \<and>
        collecting (unindent w) = collecting w"
    and no_comments: "\<not> hasCommentForValue c \<Longrightarrow> sane w \<Longrightarrow> sane (noteBefore c w) \<and>
        doc (noteBefore c w) = doc w \<and> kids (noteBefore c w) = kids w \<and> collecting (noteBefore c w) = collecting w"
      "\<not> hasCommentForValue c \<Longrightarrow> sane w \<Longrightarrow> sane (noteAfter c w) \<and>
        doc (noteAfter c w) = doc w \<and> kids (noteAfter c w) = kids w \<and> collecting (noteAfter c w) = collecting w"
    and element: "sane w \<Longrightarrow> \<exists>ws u g. spaces ws \<and> sane u \<and> doc u = doc w @ ws \<and> collecting u = collecting w \<and>
        element c w = g (writeValue c u) \<and> (\<forall>x. sane x \<longrightarrow> sane (g x) \<and> doc (g x) = doc x \<and> collecting (g x) = collecting x)"
    and modes: "sane w \<Longrightarrow> sane (clearKids w) \<and> doc (clearKids w) = doc w \<and> kids (clearKids w) = [] \<and>
        collecting (clearKids w) = collecting w"
      "sane w \<Longrightarrow> sane (collectMode b w) \<and> doc (collectMode b w) = doc w \<and> kids (collectMode b w) = kids w \<and>
        collecting (collectMode b w) = b"
    and writeValue: "writeValue v w = (case payload v of
       ArrayV _ \<Rightarrow> writeArrayValue v w
     | ObjectV _ \<Rightarrow>
         (if object_children v = [] then pushValue ''{}'' w
          else withIndent ''}'' (unindent (memberLoop (object_children v) (indent (withIndent ''{'' w)))))
     | _ \<Rightarrow> pushValue (scalar_text v) w)"
    and writeArrayValue: "writeArrayValue v w =
     (if size_of v = 0 then pushValue ''[]'' w
      else let (isArrayMultiLine, w1) = isMultilineArray v w
           in if isArrayMultiLine
              then let w2 = indent (withIndent ''['' w1)
                   in withIndent '']'' (unindent (elementLoop (kids w2 \<noteq> []) 0 (array_children v) w2))
              else put '' ]'' (put (concat (map (\<lambda>i. (if 0 < i then '', '' else []) @ child_value i (kids w1))
                                             [0..<size_of v]))
                     (put ''[ '' w1)))"
    and isMultilineArray: "isMultilineArray v w =
     (let w1 = clearKids w in
      if multiline_by_shape (rightMargin w) v then (True, w1)
      else let w2 = collectMode False (collect (array_children v) (collectMode True w1))
           in (list_ex hasCommentForValue (array_children v) \<or>
               line_length (size_of v) (kids w2) \<ge> rightMargin w2, w2))"
    and collect: "collect [] w = w" "collect (c # cs) w = collect cs (writeValue c w)"
    and elementLoop: "elementLoop h i [] w = w" "elementLoop h i (c # cs) w =
     (let w1 = noteBefore c w;
          w2 = (if h then withIndent (child_value i (kids w1)) w1 else element c w1)
      in if cs = [] then noteAfter c w2
         else elementLoop h (Suc i) cs (noteAfter c (put '','' w2)))"
    and memberLoop: "memberLoop [] w = w" "memberLoop ((name, c) # ms) w =
     (let w1 = withIndent (valueToQuotedString name) (noteBefore c w);
          w2 = writeValue c (put '' : '' w1)
      in if ms = [] then noteAfter c w2
         else memberLoop ms (noteAfter c (put '','' w2)))"
begin

definition wrote :: "string \<Rightarrow> 'w \<Rightarrow> 'w \<Rightarrow> bool" where
  "wrote s w w' \<longleftrightarrow> sane w' \<and> doc w' = doc w @ s \<and> collecting w' = collecting w"

definition prints :: "nat \<Rightarrow> jvalue \<Rightarrow> bool" where
  "prints n v \<longleftrightarrow> (\<forall>w. sane w \<longrightarrow> \<not> collecting w \<longrightarrow>
     (\<exists>ws a. spaces ws \<and> json_text n v a \<and> wrote (ws @ a) w (writeValue v w)))"

lemma printsE:
  assumes "prints n v" "sane w" "\<not> collecting w"
  obtains ws a where "spaces ws" "json_text n v a" "sane (writeValue v w)" "doc (writeValue v w) = doc w @ ws @ a"
    "\<not> collecting (writeValue v w)"
  using assms unfolding prints_def wrote_def by blast

lemma withIndentE:
  assumes "sane w"
  obtains ws where "spaces ws" "sane (withIndent s w)" "doc (withIndent s w) = doc w @ ws @ s"
    "kids (withIndent s w) = kids w" "collecting (withIndent s w) = collecting w"
  using withIndent [OF assms, of s] by blast

lemma element_prints:
  assumes "prints n c" "sane w" "\<not> collecting w"
  obtains ws a where "spaces ws" "json_text n c a" "sane (element c w)" "doc (element c w) = doc w @ ws @ a"
    "\<not> collecting (element c w)"
proof -
  obtain ws u g where u: "spaces ws" "sane u" "doc u = doc w @ ws" "collecting u = collecting w"
    "element c w = g (writeValue c u)"
    and g: "\<And>x. sane x \<Longrightarrow> sane (g x) \<and> doc (g x) = doc x \<and> collecting (g x) = collecting x"
    using element [OF assms(2), of c] by blast
  obtain ws' a where a: "spaces ws'" "json_text n c a" "sane (writeValue c u)" "doc (writeValue c u) = doc u @ ws' @ a"
    "\<not> collecting (writeValue c u)"
    using printsE [OF assms(1) u(2)] u(4) assms(3) by metis
  show thesis by (rule that [of "ws @ ws'" a]) (use u a g [OF a(3)] in simp_all)
qed

text \<open>An element, printed now or taken from the values collected.\<close>

lemma element_step:
  assumes nc: "\<not> hasCommentForValue c" and pc: "prints n c" and w: "sane w" "\<not> collecting w"
    and kid: "h \<Longrightarrow> json_text n c (child_value i (kids w))"
  obtains ws a w2 where "spaces ws" "json_text n c a"
    "w2 = (if h then withIndent (child_value i (kids (noteBefore c w))) (noteBefore c w) else element c (noteBefore c w))"
    "sane w2" "doc w2 = doc w @ ws @ a" "\<not> collecting w2" "h \<Longrightarrow> kids w2 = kids w"
proof -
  let ?w1 = "noteBefore c w"
  have w1: "sane ?w1" "doc ?w1 = doc w" "kids ?w1 = kids w" "\<not> collecting ?w1"
    using no_comments(1) [OF nc w(1)] w(2) by simp_all
  show thesis
  proof (cases h)
    case True
    obtain ws where ws: "spaces ws" "sane (withIndent (child_value i (kids w)) ?w1)"
      "doc (withIndent (child_value i (kids w)) ?w1) = doc ?w1 @ ws @ child_value i (kids w)"
      "kids (withIndent (child_value i (kids w)) ?w1) = kids ?w1"
      "collecting (withIndent (child_value i (kids w)) ?w1) = collecting ?w1"
      by (rule withIndentE [OF w1(1)])
    show thesis by (rule that [OF ws(1) kid [OF True] refl]) (use True ws w1 in simp_all)
  next
    case False
    obtain ws a where a: "spaces ws" "json_text n c a" "sane (element c ?w1)" "doc (element c ?w1) = doc ?w1 @ ws @ a"
      "\<not> collecting (element c ?w1)" by (rule element_prints [OF pc w1(1,4)])
    show thesis by (rule that [OF a(1,2) refl]) (use False a w1 in simp_all)
  qed
qed

lemma elements_json:
  assumes "cs \<noteq> []" "\<forall>c\<in>set cs. \<not> hasCommentForValue c \<and> prints n c" "sane w" "\<not> collecting w"
    "h \<Longrightarrow> list_all2 (json_text n) cs (drop i (kids w))"
  shows "\<exists>ws s. spaces ws \<and> json_elements n cs s \<and> wrote (ws @ s) w (elementLoop h i cs w)"
  using assms
proof (induction cs arbitrary: i w)
  case (Cons c cs)
  have nc: "\<not> hasCommentForValue c" and pc: "prints n c" using Cons.prems(2) by simp_all
  have kid: "json_text n c (child_value i (kids w)) \<and> list_all2 (json_text n) cs (drop (Suc i) (kids w))" if h: h
  proof -
    obtain t ts where t: "drop i (kids w) = t # ts" "json_text n c t" "list_all2 (json_text n) cs ts"
      using Cons.prems(5) [OF h] by (cases "drop i (kids w)") auto
    have "i < length (kids w)" using t(1) by (metis drop_all linorder_not_le list.distinct(1))
    then show ?thesis using t nth_via_drop [OF t(1)] by (simp add: child_value_def drop_Suc drop_tl)
  qed
  obtain ws a w2 where a: "spaces ws" "json_text n c a" and
    eq: "w2 = (if h then withIndent (child_value i (kids (noteBefore c w))) (noteBefore c w) else element c (noteBefore c w))"
    and w2: "sane w2" "doc w2 = doc w @ ws @ a" "\<not> collecting w2" and k2: "h \<Longrightarrow> kids w2 = kids w"
    by (rule element_step [OF nc pc Cons.prems(3,4), of h i]) (use kid in blast)+
  show ?case
  proof (cases "cs = []")
    case True
    have "elementLoop h i (c # cs) w = noteAfter c w2" using True by (simp add: elementLoop Let_def eq)
    moreover have "wrote (ws @ a) w (noteAfter c w2)"
      using no_comments(2) [OF nc w2(1)] w2 Cons.prems(4) by (simp add: wrote_def)
    moreover have "json_elements n [c] (a @ [])" by (rule json_last_element [OF a(2)]) simp
    ultimately show ?thesis using a(1) True by auto
  next
    case False
    let ?w3 = "noteAfter c (put '','' w2)"
    have p: "sane (put '','' w2)" "doc (put '','' w2) = doc w @ ws @ a @ '',''" "kids (put '','' w2) = kids w2"
      "\<not> collecting (put '','' w2)" using put [OF w2(1), of "'',''"] w2(2,3) by simp_all
    have w3: "sane ?w3" "doc ?w3 = doc w @ ws @ a @ '',''" "kids ?w3 = kids w2" "\<not> collecting ?w3"
      using no_comments(2) [OF nc p(1)] p by simp_all
    have "\<exists>ws' s. spaces ws' \<and> json_elements n cs s \<and> wrote (ws' @ s) ?w3 (elementLoop h (Suc i) cs ?w3)"
    proof (rule Cons.IH [OF False _ w3(1,4)])
      assume h: h
      show "list_all2 (json_text n) cs (drop (Suc i) (kids ?w3))"
        using kid [OF h] w3(3) k2 [OF h] by simp
    qed (use Cons.prems(2) in simp)
    then obtain ws' s where s: "spaces ws'" "json_elements n cs s" "wrote (ws' @ s) ?w3 (elementLoop h (Suc i) cs ?w3)" by blast
    have "json_elements n (c # cs) (a @ [] @ '','' @ ws' @ s)" by (rule json_element [OF a(2) _ s(1,2)]) simp
    moreover have "elementLoop h i (c # cs) w = elementLoop h (Suc i) cs ?w3" using False by (simp add: elementLoop Let_def eq)
    moreover have "wrote (ws @ a @ '','' @ ws' @ s) w (elementLoop h (Suc i) cs ?w3)"
      using s(3) w3 Cons.prems(4) by (simp add: wrote_def)
    ultimately show ?thesis using a(1) by (intro exI [of _ ws] exI [of _ "a @ '','' @ ws' @ s"]) simp
  qed
qed simp

lemma members_json:
  assumes "ms \<noteq> []" "\<forall>p\<in>set ms. NUL \<notin> set (fst p) \<and> utf8_text (fst p) \<and> \<not> hasCommentForValue (snd p) \<and> prints n (snd p)"
    "sane w" "\<not> collecting w"
  shows "\<exists>ws s. spaces ws \<and> json_members n ms s \<and> wrote (ws @ s) w (memberLoop ms w)"
  using assms
proof (induction ms arbitrary: w)
  case (Cons p ms)
  obtain k c where p: "p = (k, c)" by force
  have nc: "\<not> hasCommentForValue c" and pc: "prints n c" and k: "NUL \<notin> set k" "utf8_text k" using Cons.prems(2) p by simp_all
  let ?q = "valueToQuotedString k"
  have "takeWhile (\<lambda>c. c \<noteq> NUL) k = k" by (subst takeWhile_eq_all_conv) (use k(1) in blast)
  with quoted_plain [OF k(2)] have q: "quoted_form k ?q" unfolding valueToQuotedString_def by metis
  let ?w0 = "noteBefore c w"
  let ?w1 = "withIndent ?q ?w0"
  let ?w2 = "writeValue c (put '' : '' ?w1)"
  have w0: "sane ?w0" "doc ?w0 = doc w" "\<not> collecting ?w0"
    using no_comments(1) [OF nc Cons.prems(3)] Cons.prems(4) by simp_all
  obtain ws where ws: "spaces ws" "sane ?w1" "doc ?w1 = doc w @ ws @ ?q" "\<not> collecting ?w1"
    using withIndentE [OF w0(1), of ?q] w0(2,3) by metis
  have w1: "sane (put '' : '' ?w1)" "doc (put '' : '' ?w1) = doc w @ ws @ ?q @ '' : ''" "\<not> collecting (put '' : '' ?w1)"
    using put [OF ws(2), of "'' : ''"] ws(3,4) by simp_all
  obtain wv a where a: "spaces wv" "json_text n c a" and w2: "sane ?w2" "doc ?w2 = doc (put '' : '' ?w1) @ wv @ a" "\<not> collecting ?w2"
    using printsE [OF pc w1(1,3)] by metis
  have sp: "spaces '' ''" "spaces ('' '' @ wv)" using a(1) by (simp_all add: spaces_LF)
  show ?case
  proof (cases "ms = []")
    case True
    have "memberLoop (p # ms) w = noteAfter c ?w2" using True p by (simp add: memberLoop Let_def)
    moreover have "wrote (ws @ ?q @ '' : '' @ wv @ a) w (noteAfter c ?w2)"
      using no_comments(2) [OF nc w2(1)] w2 w1 Cons.prems(4) by (simp add: wrote_def)
    moreover have "json_members n [(k, c)] (?q @ '' '' @ '':'' @ ('' '' @ wv) @ a @ [])"
      by (rule json_last_member [OF q sp a(2)]) simp
    ultimately show ?thesis using ws(1) True p by (intro exI [of _ ws] exI [of _ "?q @ '' : '' @ wv @ a"]) simp
  next
    case False
    let ?w3 = "noteAfter c (put '','' ?w2)"
    have p3: "sane (put '','' ?w2)" "doc (put '','' ?w2) = doc ?w2 @ '',''" "\<not> collecting (put '','' ?w2)"
      using put [OF w2(1), of "'',''"] w2(3) by simp_all
    have w3: "sane ?w3" "doc ?w3 = doc ?w2 @ '',''" "\<not> collecting ?w3"
      using no_comments(2) [OF nc p3(1)] p3 by simp_all
    obtain ws' s where s: "spaces ws'" "json_members n ms s" "wrote (ws' @ s) ?w3 (memberLoop ms ?w3)"
      using Cons.IH [OF False _ w3(1,3)] Cons.prems(2) by auto
    have "json_members n ((k, c) # ms) (?q @ '' '' @ '':'' @ ('' '' @ wv) @ a @ [] @ '','' @ ws' @ s)"
      by (rule json_member [OF q sp a(2) _ s(1,2)]) simp
    moreover have "memberLoop (p # ms) w = memberLoop ms ?w3" using False p by (simp add: memberLoop Let_def)
    moreover have "wrote (ws @ ?q @ '' : '' @ wv @ a @ '','' @ ws' @ s) w (memberLoop ms ?w3)"
      using s(3) w3 w2 w1 Cons.prems(4) by (simp add: wrote_def)
    ultimately show ?thesis using ws(1) p
      by (intro exI [of _ ws] exI [of _ "?q @ '' : '' @ wv @ a @ '','' @ ws' @ s"]) simp
  qed
qed simp

text \<open>Values that \<^verbatim>\<open>isMultilineArray\<close> collects are not containers with children, so each is one text.\<close>

definition leaf :: "jvalue \<Rightarrow> bool" where
  "leaf v \<longleftrightarrow> \<not> ((isArray v \<or> isObject v) \<and> \<not> value_empty v)"

lemma write_leaf:
  assumes "printable K n v" "leaf v"
  obtains t where "json_text n v t" "\<And>w. writeValue v w = pushValue t w"
  using assms(1)
proof (cases rule: printable_cases)
  case scalar
  then have "writeValue v w = pushValue (scalar_text v) w" for w
    by (auto simp: writeValue plain_scalar_def split: jdata.splits)
  then show thesis using that json_scalars(1) [OF scalar] by blast
next
  case (str s)
  then have "writeValue v w = pushValue (scalar_text v) w" for w by (simp add: writeValue)
  then show thesis using that json_scalars(2) [OF str] by blast
next
  case empty_array
  then have "writeValue v w = pushValue ''[]'' w" for w by (simp add: writeValue writeArrayValue size_of_def)
  then show thesis using that json_scalars(3) [OF empty_array] by blast
next
  case empty_object
  then have "writeValue v w = pushValue ''{}'' w" for w by (simp add: writeValue object_children_def getMemberNames_def)
  then show thesis using that json_scalars(4) [OF empty_object] by blast
next
  case (array k c cs)
  then have "size_of v = length (c # cs)" using dense_size by blast
  then have False using assms(2) array(2)
    by (simp add: leaf_def value_empty_def isArray_def type_of_def dense_def)
  then show thesis ..
next
  case (object k m)
  then have False using assms(2)
    by (simp add: leaf_def value_empty_def isObject_def isArray_def isNull_def type_of_def size_of_def)
  then show thesis ..
qed

lemma collect_texts:
  assumes "\<forall>c\<in>set cs. printable K n c \<and> leaf c" "sane w" "collecting w"
  shows "\<exists>ts. list_all2 (json_text n) cs ts \<and> sane (collect cs w) \<and> doc (collect cs w) = doc w \<and>
    kids (collect cs w) = kids w @ ts"
  using assms
proof (induction cs arbitrary: w)
  case (Cons c cs)
  obtain t where t: "json_text n c t" "\<And>w. writeValue c w = pushValue t w"
    using write_leaf [of K n c] Cons.prems(1) by (metis list.set_intros(1))
  let ?w = "pushValue t w"
  have w: "sane ?w" "doc ?w = doc w" "kids ?w = kids w @ [t]" "collecting ?w"
    using push(2) [OF Cons.prems(3,2)] by simp_all
  obtain ts where "list_all2 (json_text n) cs ts" "sane (collect cs ?w)" "doc (collect cs ?w) = doc ?w"
    "kids (collect cs ?w) = kids ?w @ ts" using Cons.IH [OF _ w(1,4)] Cons.prems(1) by auto
  then show ?case using t w by (intro exI [of _ "t # ts"]) (simp add: collect)
qed (simp add: collect)

lemma push_prints:
  assumes "json_text n v t" "\<And>w. writeValue v w = pushValue t w"
  shows "prints n v"
  unfolding prints_def
proof (intro allI impI)
  fix w
  assume "sane w" "\<not> collecting w"
  then show "\<exists>ws a. spaces ws \<and> json_text n v a \<and> wrote (ws @ a) w (writeValue v w)"
    using assms put [of w t] by (intro exI [of _ "[]"] exI [of _ t]) (simp add: wrote_def push(1))
qed

lemma array_prints:
  assumes v: "dense cs v" "length cs < 2 ^ 32" "cs \<noteq> []"
    and cs: "\<forall>c\<in>set cs. printable K n c \<and> prints n c"
  shows "prints (Suc n) v"
  unfolding prints_def
proof (intro allI impI)
  fix w
  assume w: "sane w" "\<not> collecting w"
  have sz: "size_of v = length cs" and ch: "array_children v = cs"
    using dense_size [OF v(1,2)] dense_children [OF v(1,2)] by simp_all
  obtain b w1 where b: "isMultilineArray v w = (b, w1)" by force
  have w1: "sane w1" "doc w1 = doc w" "\<not> collecting w1" and
    ks: "kids w1 = [] \<and> b \<or> list_all2 (json_text n) cs (kids w1)"
  proof -
    have c: "sane (clearKids w)" "doc (clearKids w) = doc w" "kids (clearKids w) = []" "\<not> collecting (clearKids w)"
      using modes(1) [OF w(1)] w(2) by simp_all
    have "sane w1 \<and> doc w1 = doc w \<and> \<not> collecting w1 \<and> (kids w1 = [] \<and> b \<or> list_all2 (json_text n) cs (kids w1))"
    proof (cases "multiline_by_shape (rightMargin w) v")
      case True
      then show ?thesis using b c by (auto simp: isMultilineArray)
    next
      case False
      then have lv: "\<forall>c\<in>set cs. printable K n c \<and> leaf c"
        using cs by (auto simp: multiline_by_shape_def ch list_ex_iff leaf_def)
      let ?u = "collectMode True (clearKids w)"
      have u: "sane ?u" "doc ?u = doc w" "kids ?u = []" "collecting ?u"
        using modes(2) [OF c(1), of True] c by simp_all
      obtain ts where ts: "list_all2 (json_text n) cs ts" "sane (collect cs ?u)" "doc (collect cs ?u) = doc ?u"
        "kids (collect cs ?u) = kids ?u @ ts" using collect_texts [OF lv u(1,4)] by blast
      have "w1 = collectMode False (collect cs ?u)" using b False by (auto simp: isMultilineArray ch Let_def)
      then show ?thesis using modes(2) [OF ts(2), of False] ts u by simp
    qed
    then show "sane w1" "doc w1 = doc w" "\<not> collecting w1" "kids w1 = [] \<and> b \<or> list_all2 (json_text n) cs (kids w1)"
      by blast+
  qed
  have wv: "writeValue v w = (if b
       then let w2 = indent (withIndent ''['' w1) in withIndent '']'' (unindent (elementLoop (kids w2 \<noteq> []) 0 cs w2))
       else put '' ]'' (put (concat (map (\<lambda>i. (if 0 < i then '', '' else []) @ child_value i (kids w1)) [0..<length cs]))
              (put ''[ '' w1)))"
    using v(1,3) by (simp add: writeValue dense_def writeArrayValue sz b ch)
  show "\<exists>ws a. spaces ws \<and> json_text (Suc n) v a \<and> wrote (ws @ a) w (writeValue v w)"
  proof (cases b)
    case True
    obtain ws where ws: "spaces ws" "sane (withIndent ''['' w1)" "doc (withIndent ''['' w1) = doc w1 @ ws @ ''[''"
      "kids (withIndent ''['' w1) = kids w1" "collecting (withIndent ''['' w1) = collecting w1"
      by (rule withIndentE [OF w1(1)])
    let ?w2 = "indent (withIndent ''['' w1)"
    have w2: "sane ?w2" "doc ?w2 = doc w @ ws @ ''[''" "kids ?w2 = kids w1" "\<not> collecting ?w2"
      using indents(1) [OF ws(2)] ws w1 by simp_all
    have "\<exists>ws' s. spaces ws' \<and> json_elements n cs s \<and> wrote (ws' @ s) ?w2 (elementLoop (kids ?w2 \<noteq> []) 0 cs ?w2)"
      by (rule elements_json [OF v(3) _ w2(1,4)])
        (use cs printable_no_comment ks w2(3) in auto)
    then obtain ws' s where s: "spaces ws'" "json_elements n cs s" "wrote (ws' @ s) ?w2 (elementLoop (kids ?w2 \<noteq> []) 0 cs ?w2)" by blast
    let ?w3 = "unindent (elementLoop (kids ?w2 \<noteq> []) 0 cs ?w2)"
    have w3: "sane ?w3" "doc ?w3 = doc ?w2 @ ws' @ s" "\<not> collecting ?w3"
      using s(3) w2(4) indents(2) by (simp_all add: wrote_def)
    obtain ws3 where ws3: "spaces ws3" "sane (withIndent '']'' ?w3)" "doc (withIndent '']'' ?w3) = doc ?w3 @ ws3 @ '']''"
      "kids (withIndent '']'' ?w3) = kids ?w3" "collecting (withIndent '']'' ?w3) = collecting ?w3"
      by (rule withIndentE [OF w3(1)])
    have "json_text (Suc n) v (''['' @ ws' @ (s @ ws3) @ '']'')"
      by (rule json_array [OF v(1) json_trailing(2) [OF s(2) ws3(1)] s(1)])
    moreover have "writeValue v w = withIndent '']'' ?w3" unfolding wv using True by (simp add: Let_def)
    ultimately show ?thesis
      using ws(1) ws3 w3 w2 w(2) by (intro exI [of _ ws] exI [of _ "''['' @ ws' @ (s @ ws3) @ '']''"]) (simp add: wrote_def)
  next
    case False
    then have ts: "list_all2 (json_text n) cs (kids w1)" using ks by blast
    let ?x = "one_line (kids w1)"
    have "json_elements n cs (?x @ '' '')" by (rule json_trailing(2) [OF one_line_json [OF ts v(3)]]) (simp add: spaces_LF)
    then have "json_text (Suc n) v (''['' @ '' '' @ (?x @ '' '') @ '']'')"
      by (rule json_array [OF v(1)]) (simp add: spaces_LF)
    moreover have "writeValue v w = put '' ]'' (put ?x (put ''[ '' w1))"
      unfolding wv using False list_all2_lengthD [OF ts] by (simp add: one_line_def)
    moreover have "wrote ([] @ ''['' @ '' '' @ (?x @ '' '') @ '']'') w (put '' ]'' (put ?x (put ''[ '' w1)))"
      using put w1 w(2) by (simp add: wrote_def)
    ultimately show ?thesis by (intro exI [of _ "[]"] exI conjI) (simp_all only: list.pred_inject)
  qed
qed

lemma object_prints:
  assumes v: "payload v = ObjectV m" "smap_ok m" "m \<noteq> []"
    and m: "\<forall>p\<in>set m. NUL \<notin> set (fst p) \<and> utf8_text (fst p) \<and> \<not> hasCommentForValue (snd p) \<and> prints n (snd p)"
  shows "prints (Suc n) v"
  unfolding prints_def
proof (intro allI impI)
  fix w
  assume w: "sane w" "\<not> collecting w"
  obtain ws where ws: "spaces ws" "sane (withIndent ''{'' w)" "doc (withIndent ''{'' w) = doc w @ ws @ ''{''"
    "kids (withIndent ''{'' w) = kids w" "collecting (withIndent ''{'' w) = collecting w"
    by (rule withIndentE [OF w(1)])
  let ?w2 = "indent (withIndent ''{'' w)"
  have w2: "sane ?w2" "doc ?w2 = doc w @ ws @ ''{''" "\<not> collecting ?w2"
    using indents(1) [OF ws(2)] ws w by simp_all
  obtain ws' s where s: "spaces ws'" "json_members n m s" "wrote (ws' @ s) ?w2 (memberLoop m ?w2)"
    using members_json [OF v(3) m w2(1,3)] by blast
  let ?w3 = "unindent (memberLoop m ?w2)"
  have w3: "sane ?w3" "doc ?w3 = doc ?w2 @ ws' @ s" "\<not> collecting ?w3"
    using s(3) w2(3) indents(2) by (simp_all add: wrote_def)
  obtain ws3 where ws3: "spaces ws3" "sane (withIndent ''}'' ?w3)" "doc (withIndent ''}'' ?w3) = doc ?w3 @ ws3 @ ''}''"
    "kids (withIndent ''}'' ?w3) = kids ?w3" "collecting (withIndent ''}'' ?w3) = collecting ?w3"
    by (rule withIndentE [OF w3(1)])
  have "json_text (Suc n) v (''{'' @ ws' @ (s @ ws3) @ ''}'')"
    by (rule json_object [OF v(1,2) json_trailing(3) [OF s(2) ws3(1)] s(1)])
  moreover have "writeValue v w = withIndent ''}'' ?w3"
    using v by (simp add: writeValue object_children_map)
  ultimately show "\<exists>ws a. spaces ws \<and> json_text (Suc n) v a \<and> wrote (ws @ a) w (writeValue v w)"
    using ws(1) ws3 w3 w2 w(2) by (intro exI [of _ ws] exI [of _ "''{'' @ ws' @ (s @ ws3) @ ''}''"]) (simp add: wrote_def)
qed

lemma printable_prints: "printable (\<lambda>k. NUL \<notin> set k) n v \<Longrightarrow> prints n v"
proof (induction n arbitrary: v rule: less_induct)
  case (less n)
  note pr = less.prems
  from pr show ?case
  proof (cases rule: printable_cases)
    case (array k c cs)
    then show ?thesis using array_prints [OF array(2,3), of "\<lambda>k. NUL \<notin> set k" k] less.IH [of k] by simp
  next
    case (object k m)
    then show ?thesis using object_prints [OF object(2-4), of k] less.IH [of k] printable_no_comment by blast
  next
    case scalar
    then have "leaf v" by (auto simp: leaf_def isArray_def isObject_def type_of_def plain_scalar_def split: jdata.splits)
    from write_leaf [OF pr this] push_prints show ?thesis by metis
  next
    case (str s)
    then have "leaf v" by (auto simp: leaf_def isArray_def isObject_def type_of_def)
    from write_leaf [OF pr this] push_prints show ?thesis by metis
  next
    case empty_array
    then have "leaf v" by (auto simp: leaf_def isArray_def isObject_def type_of_def value_empty_def size_of_def)
    from write_leaf [OF pr this] push_prints show ?thesis by metis
  next
    case empty_object
    then have "leaf v" by (auto simp: leaf_def isArray_def isObject_def type_of_def value_empty_def size_of_def)
    from write_leaf [OF pr this] push_prints show ?thesis by metis
  qed
qed

end

section \<open>StyledWriter\<close>

lemma spaces_take: "spaces s \<Longrightarrow> spaces (take n s)"
  by (auto simp: list_all_iff dest: in_set_takeD)

lemma spaces_replicate: "spaces (replicate n (CHR '' ''))"
  by (simp add: list_all_iff is_space_def)

definition sw_sane :: "legacy_writer \<Rightarrow> bool" where
  "sw_sane w \<longleftrightarrow> spaces (sw_indentString w)"

lemma sw_writeIndent_spaces:
  assumes "sw_sane w"
  shows "\<exists>ws. spaces ws \<and> sw_writeIndent w = sw_put ws w"
proof (cases "sw_document w \<noteq> [] \<and> last (sw_document w) = CHR '' ''")
  case True
  then have "sw_writeIndent w = sw_put [] w" by (simp add: sw_writeIndent_def sw_put_def)
  then show ?thesis by (intro exI [of _ "[]"]) simp
next
  case False
  let ?ws = "(if sw_document w \<noteq> [] \<and> last (sw_document w) \<noteq> LF then [LF] else []) @ sw_indentString w"
  have "sw_writeIndent w = sw_put ?ws w" using False by (auto simp: sw_writeIndent_def sw_put_def)
  moreover have "spaces ?ws" using assms by (simp add: sw_sane_def spaces_LF)
  ultimately show ?thesis by blast
qed

lemma sw_put_sel [simp]:
  "sw_sane (sw_put s w) = sw_sane w" "sw_document (sw_put s w) = sw_document w @ s"
  "sw_childValues (sw_put s w) = sw_childValues w" "sw_addChildValues (sw_put s w) = sw_addChildValues w"
  "sw_indentString (sw_put s w) = sw_indentString w"
  by (simp_all add: sw_put_def sw_sane_def)

lemma no_comment_at: "\<not> hasCommentForValue c \<Longrightarrow> \<not> hasComment p c"
  by (cases p) (simp_all add: hasCommentForValue_def)

interpretation sw: line_printer sw_sane sw_document sw_childValues sw_addChildValues sw_rightMargin
    "\<lambda>w. w\<lparr>sw_childValues := []\<rparr>" "\<lambda>b w. w\<lparr>sw_addChildValues := b\<rparr>" sw_put sw_pushValue sw_writeWithIndent
    sw_indent sw_unindent sw_writeCommentBeforeValue sw_writeCommentAfterValueOnSameLine
    "\<lambda>c w. sw_writeValue c (sw_writeIndent w)" sw_writeValue sw_writeArrayValue sw_isMultilineArray
    sw_collect sw_elements sw_members
proof (unfold_locales, goal_cases)
  case (4 w s)
  then obtain ws where "spaces ws" "sw_writeIndent w = sw_put ws w" using sw_writeIndent_spaces by blast
  then show ?case using 4 by (auto simp: sw_writeWithIndent_def)
next
  case (9 w c)
  then obtain ws where "spaces ws" "sw_writeIndent w = sw_put ws w" using sw_writeIndent_spaces by blast
  then show ?case using 9 by (intro exI [of _ ws] exI [of _ "sw_put ws w"] exI [of _ "\<lambda>x. x"]) simp
next
  case (12 v w)
  then show ?case by (simp add: sw_writeValue.simps scalar_text_def split: jdata.split)
qed (auto simp: sw_pushValue_def sw_indent_def sw_unindent_def spaces_take spaces_replicate no_comment_at
    sw_writeCommentBeforeValue_def sw_writeCommentAfterValueOnSameLine_def sw_sane_def sw_writeArrayValue.simps
    sw_isMultilineArray.simps Let_def split: prod.split)

section \<open>StyledStreamWriter\<close>

definition ssw_sane :: "stream_writer \<Rightarrow> bool" where
  "ssw_sane w \<longleftrightarrow> spaces (ssw_indentString w) \<and> spaces (ssw_indentation w)"

lemma ssw_put_sel [simp]:
  "ssw_sane (ssw_put s w) = ssw_sane w" "ssw_document (ssw_put s w) = ssw_document w @ s"
  "ssw_childValues (ssw_put s w) = ssw_childValues w" "ssw_addChildValues (ssw_put s w) = ssw_addChildValues w"
  "ssw_indentString (ssw_put s w) = ssw_indentString w" "ssw_indentation (ssw_put s w) = ssw_indentation w"
  by (simp_all add: ssw_put_def ssw_sane_def)

lemma ssw_flag_sel [simp]:
  "ssw_sane (w\<lparr>ssw_indented := b\<rparr>) = ssw_sane w"
  by (simp add: ssw_sane_def)

lemma ssw_writeIndent_spaces:
  "ssw_sane w \<Longrightarrow> \<exists>ws. spaces ws \<and> (if \<not> ssw_indented w then ssw_writeIndent w else w) = ssw_put ws w"
  by (cases "ssw_indented w")
    (auto simp: ssw_writeIndent_def ssw_sane_def spaces_LF ssw_put_def intro: exI [of _ "LF # ssw_indentString w"] exI [of _ "[]"])

interpretation ssw: line_printer ssw_sane ssw_document ssw_childValues ssw_addChildValues ssw_rightMargin
    "\<lambda>w. w\<lparr>ssw_childValues := []\<rparr>" "\<lambda>b w. w\<lparr>ssw_addChildValues := b\<rparr>" ssw_put ssw_pushValue ssw_writeWithIndent
    ssw_indent ssw_unindent ssw_writeCommentBeforeValue ssw_writeCommentAfterValueOnSameLine
    "\<lambda>c w. (ssw_writeValue c ((if \<not> ssw_indented w then ssw_writeIndent w else w)\<lparr>ssw_indented := True\<rparr>))\<lparr>ssw_indented := False\<rparr>"
    ssw_writeValue ssw_writeArrayValue ssw_isMultilineArray ssw_collect ssw_elements ssw_members
proof (unfold_locales, goal_cases)
  case (4 w s)
  then obtain ws where "spaces ws" "(if \<not> ssw_indented w then ssw_writeIndent w else w) = ssw_put ws w"
    using ssw_writeIndent_spaces by blast
  then show ?case using 4 by (auto simp: ssw_writeWithIndent_def)
next
  case (9 w c)
  then obtain ws where "spaces ws" "(if \<not> ssw_indented w then ssw_writeIndent w else w) = ssw_put ws w"
    using ssw_writeIndent_spaces by blast
  then show ?case using 9
    by (intro exI [of _ ws] exI [of _ "(ssw_put ws w)\<lparr>ssw_indented := True\<rparr>"] exI [of _ "\<lambda>x. x\<lparr>ssw_indented := False\<rparr>"]) simp
next
  case (12 v w)
  then show ?case by (simp add: ssw_writeValue.simps scalar_text_def split: jdata.split)
qed (auto simp: ssw_pushValue_def ssw_indent_def ssw_unindent_def spaces_take no_comment_at
    ssw_writeCommentBeforeValue_def ssw_writeCommentAfterValueOnSameLine_def ssw_sane_def ssw_writeArrayValue.simps
    ssw_isMultilineArray.simps Let_def split: prod.split)

section \<open>Round trips\<close>

lemma styled_writer_roundtrip:
  assumes "printable (\<lambda>k. NUL \<notin> set k) n v" "n \<le> 999"
  shows "\<exists>x. reader_parse (sw_document (sw_write v w)) = Inr (True, x) \<and> value_eq x v"
proof -
  let ?w = "w\<lparr>sw_document := [], sw_addChildValues := False, sw_indentString := []\<rparr>"
  have nc: "\<not> hasComment p v" for p by (rule no_comment_at [OF printable_no_comment [OF assms(1)]])
  obtain ws a where a: "spaces ws" "json_text n v a" "sw_document (sw_writeValue v ?w) = ws @ a"
    by (rule sw.printsE [OF sw.printable_prints [OF assms(1)], of ?w]) (simp_all add: sw_sane_def)
  have "sw_document (sw_write v w) = ws @ a @ [LF]"
    using a(3) nc by (simp add: sw_write_def sw_writeCommentBeforeValue_def sw_writeCommentAfterValueOnSameLine_def)
  with reader_accepts [OF a(2) assms(2) a(1), of "[LF]"] show ?thesis by (simp add: spaces_LF)
qed

lemma stream_writer_roundtrip:
  assumes "printable (\<lambda>k. NUL \<notin> set k) n v" "n \<le> 999" "spaces (ssw_indentation w)"
  shows "\<exists>x. reader_parse (ssw_document (ssw_write v w)) = Inr (True, x) \<and> value_eq x v"
proof -
  let ?w = "w\<lparr>ssw_document := [], ssw_addChildValues := False, ssw_indentString := [], ssw_indented := True\<rparr>"
  have nc: "\<not> hasComment p v" for p by (rule no_comment_at [OF printable_no_comment [OF assms(1)]])
  obtain ws a where a: "spaces ws" "json_text n v a" "ssw_document (ssw_writeValue v ?w) = ws @ a"
    by (rule ssw.printsE [OF ssw.printable_prints [OF assms(1)], of ?w]) (use assms(3) in \<open>simp_all add: ssw_sane_def\<close>)
  have "ssw_document (ssw_write v w) = ws @ a @ [LF]"
    using a(3) nc by (simp add: ssw_write_def ssw_writeCommentBeforeValue_def ssw_writeCommentAfterValueOnSameLine_def)
  with reader_accepts [OF a(2) assms(2) a(1), of "[LF]"] show ?thesis by (simp add: spaces_LF)
qed

text \<open>C16 (legacy_writers_roundtrip). What \<^verbatim>\<open>StyledWriter\<close> prints, and what \<^verbatim>\<open>StyledStreamWriter\<close> prints with any
  indentation of white space, \<^verbatim>\<open>Reader::parse\<close> reads back as a value equal to the printed one, whatever
  state the writer is in and whichever arrays it puts on one line. The values are those of the round
  trip of \<^verbatim>\<open>toStyledString\<close> whose member names have no NUL byte, at which these writers would cut them.\<close>

theorem legacy_writers_roundtrip:
  assumes "printable (\<lambda>k. NUL \<notin> set k) n v" "n \<le> 999" "spaces (ssw_indentation w')"
  shows "(\<exists>x. reader_parse (sw_document (sw_write v w)) = Inr (True, x) \<and> value_eq x v) \<and>
    (\<exists>x. reader_parse (ssw_document (ssw_write v w')) = Inr (True, x) \<and> value_eq x v)"
  using styled_writer_roundtrip [OF assms(1,2)] stream_writer_roundtrip [OF assms] by blast

theorem legacy_writers_roundtrip_witness:
  "let v = initBasic (ObjectV [(''id'', value_of_int 7), (''to'', initBasic (ArrayV [(0, value_of_string ''a'')]))])
   in (\<exists>x. reader_parse (sw_document (sw_write v sw_new)) = Inr (True, x) \<and> value_eq x v) \<and>
    (\<exists>x. reader_parse (ssw_document (ssw_write v (ssw_new [TAB]))) = Inr (True, x) \<and> value_eq x v)"
proof -
  let ?v = "initBasic (ObjectV [(''id'', value_of_int 7), (''to'', initBasic (ArrayV [(0, value_of_string ''a'')]))])"
  have "utf8_text ''id''" "utf8_text ''to''" "utf8_text ''a''" by (rule utf8_ascii; simp)+
  then have "printable (\<lambda>k. NUL \<notin> set k) (Suc (Suc 0)) ?v"
    by (simp add: initBasic_def plain_scalar_def printable_scalar_def int_limits smap_ok_def hasCommentForValue_def
        hasComment_def comments_has_def)
  moreover have "spaces (ssw_indentation (ssw_new [TAB]))" by (simp add: ssw_new_def is_space_def)
  ultimately show ?thesis using legacy_writers_roundtrip [of "Suc (Suc 0)" ?v] by simp
qed

end
