(* ===== verification/Plain_Values.thy ===== *)
theory Plain_Values
  imports Value_Pointers
begin

text \<open>
  Values up to what a reader may choose: \<open>bare\<close> forgets the comments, and whether an integer is held as
  signed or as unsigned. Two values that are alike in this sense (\<open>like\<close>) have the same pointers into
  them, and the updates of a reader through these pointers keep them alike.
\<close>

primrec bare :: "jvalue \<Rightarrow> jvalue" and bare_data :: "jdata \<Rightarrow> jdata" where
  "bare (Value d c s l) = Value (bare_data d) NoComments s l"
| "bare_data NullV = NullV"
| "bare_data (IntV i) = IntV i"
| "bare_data (UIntV u) = IntV u"
| "bare_data (RealV x) = RealV x"
| "bare_data (StringV s) = StringV s"
| "bare_data (BoolV b) = BoolV b"
| "bare_data (ArrayV m) = ArrayV (map (map_prod id bare) m)"
| "bare_data (ObjectV m) = ObjectV (map (map_prod id bare) m)"

lemma plain_sel [simp]: "payload (bare v) = bare_data (payload v)" "start_of (bare v) = start_of v"
  "limit_of (bare v) = limit_of v" "comments_of (bare v) = NoComments"
  by (cases v; simp)+

definition like :: "jvalue \<Rightarrow> jvalue \<Rightarrow> bool" where
  "like v w \<longleftrightarrow> bare v = bare w"

lemma like_refl [simp]: "like v v" by (simp add: like_def)
lemma like_sym: "like v w \<Longrightarrow> like w v" by (simp add: like_def)
lemma like_trans: "like u v \<Longrightarrow> like v w \<Longrightarrow> like u w" by (simp add: like_def)

lemma like_iff: "like v w \<longleftrightarrow> bare_data (payload v) = bare_data (payload w) \<and> start_of v = start_of w \<and> limit_of v = limit_of w"
  by (cases v; cases w) (simp add: like_def)

lemma like_set_payload: "like v w \<Longrightarrow> bare_data d = bare_data d' \<Longrightarrow> like (set_payload d v) (set_payload d' w)"
  by (simp add: like_iff set_payload_def)

lemma like_setOffset: "like v w \<Longrightarrow> like (setOffsetStart a v) (setOffsetStart a w)"
  "like v w \<Longrightarrow> like (setOffsetLimit a v) (setOffsetLimit a w)"
  by (simp_all add: like_iff setOffsetStart_def setOffsetLimit_def)

lemma like_setComment: "setComment c pl v = Inr v' \<Longrightarrow> like v' v"
  by (auto simp: setComment_def Let_def like_iff split: if_splits)

lemma plain_data_eq:
  "bare_data d = ArrayV k \<longleftrightarrow> (\<exists>m. d = ArrayV m \<and> k = map (map_prod id bare) m)"
  "bare_data d = ObjectV k' \<longleftrightarrow> (\<exists>m. d = ObjectV m \<and> k' = map (map_prod id bare) m)"
  "bare_data d = NullV \<longleftrightarrow> d = NullV"
  by (cases d; auto)+

lemma map_of_plain: "map_of (map (map_prod id f) m) k = map_option f (map_of m k)"
  by (induction m) auto

lemma smap_put_plain: "map (map_prod id f) (smap_put k x m) = smap_put k (f x) (map (map_prod id f) m)"
  by (induction k x m rule: smap_put.induct) auto

lemma elements_plain: "elements (bare v) i = map_option bare (elements v i)"
  by (cases "payload v") (simp_all add: elements_def map_of_plain)

lemma members_plain: "members (bare v) k = map_option bare (members v k)"
  by (cases "payload v") (simp_all add: members_def map_of_plain)

lemma replace_plain: "bare (replace_index i x v) = replace_index i (bare x) (bare v)"
  "bare (replace_member k x v) = replace_member k (bare x) (bare v)"
  by (cases v; cases "payload v"; simp add: replace_index_def replace_member_def set_payload_def smap_put_plain)+

lemma value_at_plain: "value_at p (bare v) = map_option bare (value_at p v)"
  by (induction p v rule: value_at.induct) (auto simp: elements_plain members_plain split: option.splits)

lemma type_at_plain: "type_at p v \<noteq> None \<longleftrightarrow> value_at p (bare v) \<noteq> None"
  by (simp add: type_at_def value_at_plain)

lemma update_at_plain:
  "(\<And>w. value_at p v = Some w \<Longrightarrow> bare (f w) = g (bare w)) \<Longrightarrow> bare (update_at p f v) = update_at p g (bare v)"
  by (induction p f v rule: update_at.induct)
    (auto simp: elements_plain members_plain replace_plain split: option.splits)

text \<open>An update of two values that are alike, at the same pointer.\<close>

lemma like_elements: "like v w \<Longrightarrow> rel_option like (elements v i) (elements w i)"
  "like v w \<Longrightarrow> rel_option like (members v k) (members w k)"
  using elements_plain [of v i] elements_plain [of w i] members_plain [of v k] members_plain [of w k]
  by (cases "elements v i"; cases "elements w i"; cases "members v k"; cases "members w k"; simp add: like_def)+

lemma like_update:
  "like v w \<Longrightarrow> (\<And>a b. like a b \<Longrightarrow> like (f a) (g b)) \<Longrightarrow> like (update_at p f v) (update_at p g w)"
proof (induction p f v arbitrary: w rule: update_at.induct)
  case (2 i p f v)
  from 2(2) like_elements(1) [OF 2(2), of i] show ?case
    by (cases "elements v i"; cases "elements w i") (auto simp: like_def [of "replace_index _ _ _"] replace_plain 2(1) [OF _ _ 2(3), unfolded like_def] like_def)
next
  case (3 k p f v)
  from 3(2) like_elements(2) [OF 3(2), of k] show ?case
    by (cases "members v k"; cases "members w k") (auto simp: like_def [of "replace_member _ _ _"] replace_plain 3(1) [OF _ _ 3(3), unfolded like_def] like_def)
qed simp_all

text \<open>Where the keys ascend at every depth, storing what is already there changes nothing.\<close>

fun tidy :: "jvalue \<Rightarrow> bool" and tidy_data :: "jdata \<Rightarrow> bool" where
  "tidy (Value d c s l) = tidy_data d"
| "tidy_data (ArrayV m) \<longleftrightarrow> smap_ok m \<and> (\<forall>p\<in>set m. tidy (snd p))"
| "tidy_data (ObjectV m) \<longleftrightarrow> smap_ok m \<and> (\<forall>p\<in>set m. tidy (snd p))"
| "tidy_data _ = True"

lemma smap_ok_map [simp]: "smap_ok (map (map_prod id f) m) = smap_ok m"
  by (induction m) auto

lemma tidy_plain: "jv_ok v \<Longrightarrow> tidy (bare v)" and tidy_plain_data: "jd_ok d \<Longrightarrow> tidy_data (bare_data d)"
  by (induction v and d rule: jv_ok_jd_ok.induct) (auto simp: kids_ok_def)

lemma smap_put_same: "smap_ok m \<Longrightarrow> map_of m k = Some x \<Longrightarrow> smap_put k x m = m"
  by (induction k x m rule: smap_put.induct) (auto dest!: map_of_SomeD split: if_splits)

lemma tidy_payload: "tidy v = tidy_data (payload v)"
  by (cases v) simp

lemma set_payload_same: "payload v = d \<Longrightarrow> set_payload d v = v"
  by (cases v) (simp add: set_payload_def)

lemma replace_same:
  "tidy v \<Longrightarrow> elements v i = Some w \<Longrightarrow> replace_index i w v = v \<and> tidy w"
  "tidy v \<Longrightarrow> members v k = Some w \<Longrightarrow> replace_member k w v = v \<and> tidy w"
  using map_of_SomeD
  by (cases "payload v"; fastforce simp: elements_def members_def tidy_payload [of v] replace_index_def replace_member_def
      smap_put_same set_payload_same)+

lemma update_at_same: "tidy v \<Longrightarrow> value_at p v = Some w \<Longrightarrow> f w = w \<Longrightarrow> update_at p f v = v"
  by (induction p f v rule: update_at.induct) (auto split: option.splits dest: replace_same)

lemma like_update_same:
  assumes "tidy (bare v)" "value_at p v = Some w" "\<And>a. like a w \<Longrightarrow> like (f a) w"
  shows "like (update_at p f v) v"
proof -
  have "bare (update_at p f v) = update_at p (\<lambda>_. bare w) (bare v)"
    by (rule update_at_plain) (use assms(2,3) in \<open>auto simp: like_def\<close>)
  also have "\<dots> = bare v" by (rule update_at_same [OF assms(1)]) (simp_all add: value_at_plain assms(2))
  finally show ?thesis by (simp add: like_def)
qed

section \<open>Children\<close>

lemma like_containers:
  "like v w \<Longrightarrow> payload v = ArrayV m \<Longrightarrow> \<exists>n. payload w = ArrayV n \<and> map (map_prod id bare) m = map (map_prod id bare) n"
  "like v w \<Longrightarrow> payload v = ObjectV m' \<Longrightarrow> \<exists>n. payload w = ObjectV n \<and> map (map_prod id bare) m' = map (map_prod id bare) n"
  "like v w \<Longrightarrow> payload v = NullV \<Longrightarrow> payload w = NullV"
  by (cases "payload w"; simp add: like_iff)+

lemma like_value_at: "like v w \<Longrightarrow> rel_option like (value_at p v) (value_at p w)"
  using value_at_plain [of p v] value_at_plain [of p w]
  by (cases "value_at p v"; cases "value_at p w") (simp_all add: like_def)

lemma like_index_ref:
  assumes "like v w" "rbind (index_ref i v) (\<lambda>(v', _). Inr v') = Inr a"
  shows "\<exists>b. rbind (index_ref i w) (\<lambda>(v', _). Inr v') = Inr b \<and> like a b"
proof -
  from assms(2) consider "payload v = NullV" "a = initBasic (ArrayV [(i, nullSingleton)])"
    | m x where "payload v = ArrayV m" "map_of m i = Some x" "a = v"
    | m where "payload v = ArrayV m" "map_of m i = None" "a = set_payload (ArrayV (smap_put i nullSingleton m)) v"
    by (auto simp: index_ref_def res_simps split: jdata.splits option.splits)
  then show ?thesis
  proof cases
    case 1
    then show ?thesis using like_containers(3) [OF assms(1)] by (auto simp: index_ref_def)
  next
    case 2
    then obtain n where "payload w = ArrayV n" "map (map_prod id bare) m = map (map_prod id bare) n"
      using like_containers(1) [OF assms(1)] by blast
    then show ?thesis using 2 assms(1) map_of_plain [of bare m i] map_of_plain [of bare n i] by (auto simp: index_ref_def)
  next
    case 3
    then obtain n where "payload w = ArrayV n" "map (map_prod id bare) m = map (map_prod id bare) n"
      using like_containers(1) [OF assms(1)] by blast
    then show ?thesis using 3 assms(1) map_of_plain [of bare m i] map_of_plain [of bare n i]
      by (auto simp: index_ref_def like_set_payload smap_put_plain)
  qed
qed

lemma like_resolveReference:
  assumes "like v w" "rbind (resolveReference k v) (\<lambda>(v', _). Inr v') = Inr a"
  shows "\<exists>b. rbind (resolveReference k w) (\<lambda>(v', _). Inr v') = Inr b \<and> like a b"
proof -
  from assms(2) consider "payload v = NullV" "a = initBasic (ObjectV [(k, nullSingleton)])"
    | m x where "payload v = ObjectV m" "map_of m k = Some x" "a = v"
    | m where "payload v = ObjectV m" "map_of m k = None" "a = set_payload (ObjectV (smap_put k nullSingleton m)) v"
    by (auto simp: resolveReference_def res_simps split: jdata.splits option.splits)
  then show ?thesis
  proof cases
    case 1
    then show ?thesis using like_containers(3) [OF assms(1)] by (auto simp: resolveReference_def)
  next
    case 2
    then obtain n where "payload w = ObjectV n" "map (map_prod id bare) m = map (map_prod id bare) n"
      using like_containers(2) [OF assms(1)] by blast
    then show ?thesis using 2 assms(1) map_of_plain [of bare m k] map_of_plain [of bare n k] by (auto simp: resolveReference_def)
  next
    case 3
    then obtain n where "payload w = ObjectV n" "map (map_prod id bare) m = map (map_prod id bare) n"
      using like_containers(2) [OF assms(1)] by blast
    then show ?thesis using 3 assms(1) map_of_plain [of bare m k] map_of_plain [of bare n k]
      by (auto simp: resolveReference_def like_set_payload smap_put_plain)
  qed
qed

end
