(* ===== verification/Tokens_In_Step.thy ===== *)
theory Tokens_In_Step
  imports Our_Safety Plain_Values
begin

text \<open>
  \<^verbatim>\<open>Reader\<close> and \<^verbatim>\<open>OurReader\<close> run in step: \<open>alike\<close> relates a state of the one to a state of the other at the
  same place of the same document, with values that are alike (\<open>Plain_Values\<close>), and every token that
  \<^verbatim>\<open>Reader\<close> takes without an error is taken by \<^verbatim>\<open>OurReader\<close>. Comments may be attached to other values,
  for the two classes decide differently which comment belongs to the value before it; that
  \<^verbatim>\<open>OurReader\<close> can attach them at all is what \<open>Our_Safety\<close> shows. There is one exception (\<open>minus_I\<close>), a minus sign
  before the letter I, which \<^verbatim>\<open>Reader\<close> takes for the number 0. After an erroneous token the readers are in
  step again, or \<^verbatim>\<open>Reader\<close> is \<open>stuck\<close>: its next token is an error or a number.
\<close>

section \<open>States in step\<close>

definition suits :: "features \<Rightarrow> our_features \<Rightarrow> bool" where
  "suits f g \<longleftrightarrow> of_allowComments g = allowComments f \<and>
     (allowDroppedNullPlaceholders f \<longrightarrow> of_allowDroppedNullPlaceholders g) \<and> \<not> allowNumericKeys f \<and>
     (of_strictRoot g \<longrightarrow> strictRoot f) \<and> \<not> of_rejectDupKeys g \<and> \<not> of_failIfExtra g \<and> \<not> of_allowSingleQuotes g \<and>
     stackLimit_g \<le> of_stackLimit g"

definition alike :: "reader \<Rightarrow> our_reader \<Rightarrow> bool" where
  "alike r s \<longleftrightarrow> rd_document s = rd_document r \<and> rd_current s = rd_current r \<and> rd_nodes s = rd_nodes r \<and>
     rd_collectComments s = rd_collectComments r \<and> rd_lastValue s = rd_lastValue r \<and>
     rd_lastValueEnd s = rd_lastValueEnd r \<and> rd_begin s = 0 \<and> like (rd_root r) (rd_root s) \<and>
     slashed (rd_commentsBefore s) \<and> suits (rd_features r) (rd_features s) \<and> jv_ok (rd_root r) \<and>
     length (rd_document r) < 2 ^ 30"

lemma alike_rest: "alike r s \<Longrightarrow> rest s = rest r"
  by (simp add: alike_def rest_def)

lemma alike_advance [simp]: "alike r s \<Longrightarrow> alike (advance n r) (advance n s)"
  by (simp add: alike_def advance_def)

lemma alike_scans:
  "alike r s \<Longrightarrow> alike (skipSpaces r) (skipSpaces s)"
  "alike r s \<Longrightarrow> getNextChar r = (c, r') \<Longrightarrow> \<exists>s'. getNextChar s = (c, s') \<and> alike r' s'"
  "alike r s \<Longrightarrow> readString r = (ok, r') \<Longrightarrow> \<exists>s'. readString s = (ok, s') \<and> alike r' s'"
  "alike r s \<Longrightarrow> match_pattern pat r = (ok, r') \<Longrightarrow> \<exists>s'. match_pattern pat s = (ok, s') \<and> alike r' s'"
  "alike r s \<Longrightarrow> alike (readNumber r) (readNumber s)"
  by (auto simp: skipSpaces_def getNextChar_def readString_def match_pattern_def readNumber_def alike_rest
      split: list.splits prod.splits if_splits)

lemma like_valid: "like v w \<Longrightarrow> type_at p v \<noteq> None \<Longrightarrow> type_at p w \<noteq> None"
  using type_at_plain [of p v] type_at_plain [of p w] by (simp add: like_def)

lemma steady_alike: "alike r s \<Longrightarrow> steady r \<Longrightarrow> steady s"
  unfolding alike_def steady_def using like_valid by metis

text \<open>Comments are attached without changing what the values are otherwise.\<close>

definition annotated :: "('t, 'f, 'm) rstate \<Rightarrow> ('t, 'f, 'm) rstate \<Rightarrow> bool" where
  "annotated r r' \<longleftrightarrow> (\<exists>x c. r' = r\<lparr>rd_root := x, rd_commentsBefore := c\<rparr> \<and> (tidy (bare (rd_root r)) \<longrightarrow> like x (rd_root r)))"

lemma annotated_root: "(tidy (bare (rd_root r)) \<Longrightarrow> like x (rd_root r)) \<Longrightarrow> annotated r (r\<lparr>rd_root := x\<rparr>)"
  by (cases r) (auto simp: annotated_def)

lemma annotated_comments: "annotated r (r\<lparr>rd_commentsBefore := c\<rparr>)"
  by (cases r) (auto simp: annotated_def)

lemma annotated_refl [simp]: "annotated r r"
  by (cases r) (auto simp: annotated_def)

lemma comment_root:
  assumes "update_res p (setComment c pl) r = Inr r'"
  shows "\<exists>x. r' = r\<lparr>rd_root := x\<rparr> \<and> (tidy (bare (rd_root r)) \<longrightarrow> like x (rd_root r))"
proof -
  obtain w w' where w: "value_at p (rd_root r) = Some w" "setComment c pl w = Inr w'"
    and r': "r' = r\<lparr>rd_root := update_at p (\<lambda>_. w') (rd_root r)\<rparr>"
    using assms by (auto simp: update_res_def res_simps split: option.splits)
  have "like (update_at p (\<lambda>_. w') (rd_root r)) (rd_root r)" if "tidy (bare (rd_root r))"
    by (rule like_update_same [OF that w(1)]) (rule like_setComment [OF w(2)])
  with r' show ?thesis by blast
qed

lemma annotated_addComment: "addComment b e pl r = Inr r' \<Longrightarrow> annotated r r'"
  by (auto simp: addComment_def Let_def intro: annotated_root annotated_comments split: if_splits option.splits dest!: comment_root)

lemma alike_tidy: "alike r s \<Longrightarrow> tidy (bare (rd_root r)) \<and> tidy (bare (rd_root s))"
  using tidy_plain unfolding alike_def like_def by metis

lemma alike_annotated:
  assumes "alike r s" "annotated r r'" "annotated s s'" "jv_ok (rd_root r')" "slashed (rd_commentsBefore s')"
  shows "alike r' s'"
proof -
  obtain x c where r': "r' = r\<lparr>rd_root := x, rd_commentsBefore := c\<rparr>" "like x (rd_root r)"
    using assms(2) alike_tidy [OF assms(1)] by (auto simp: annotated_def)
  obtain y d where s': "s' = s\<lparr>rd_root := y, rd_commentsBefore := d\<rparr>" "like y (rd_root s)"
    using assms(3) alike_tidy [OF assms(1)] by (auto simp: annotated_def)
  have "like x y" using r'(2) s'(2) assms(1) by (simp add: alike_def like_def)
  moreover have "jv_ok x" "slashed d" using assms(4,5) r'(1) s'(1) by simp_all
  ultimately show ?thesis using assms(1) r'(1) s'(1) by (simp add: alike_def)
qed

section \<open>Tokens\<close>

fun our_kind :: "token_type \<Rightarrow> our_token_type" where
  "our_kind tokenEndOfStream = ourEndOfStream"
| "our_kind tokenObjectBegin = ourObjectBegin"
| "our_kind tokenObjectEnd = ourObjectEnd"
| "our_kind tokenArrayBegin = ourArrayBegin"
| "our_kind tokenArrayEnd = ourArrayEnd"
| "our_kind tokenString = ourString"
| "our_kind tokenNumber = ourNumber"
| "our_kind tokenTrue = ourTrue"
| "our_kind tokenFalse = ourFalse"
| "our_kind tokenNull = ourNull"
| "our_kind tokenArraySeparator = ourArraySeparator"
| "our_kind tokenMemberSeparator = ourMemberSeparator"
| "our_kind tokenComment = ourComment"
| "our_kind tokenError = ourError"

lemma our_kind_eq [simp]: "our_kind t = our_kind u \<longleftrightarrow> t = u"
  by (cases t; cases u; simp)

definition same_token :: "token \<Rightarrow> our_token \<Rightarrow> bool" where
  "same_token t u \<longleftrightarrow> tok_type u = our_kind (tok_type t) \<and> tok_start u = tok_start t \<and> tok_end u = tok_end t"

lemma scan_agrees: "fst (our_cStyleScan cs) = fst (cStyleScan cs) \<and> fst (snd (our_cStyleScan cs)) = snd (cStyleScan cs)"
  by (induction cs rule: cStyleScan.induct) (auto split: prod.splits)

lemma comment_scan_alike:
  assumes "alike r s" "scanned c r = (ok, r')"
  shows "\<exists>nl s'. our_scanned c s = (ok, nl, s') \<and> alike r' s'"
  using assms scan_agrees [of "rest r"]
  by (auto simp: readCStyleComment_def our_readCStyleComment_def readCppStyleComment_def alike_rest split: prod.splits if_splits)

lemma alike_flag [simp]: "alike r (s\<lparr>rd_lastValueHasAComment := b\<rparr>) \<longleftrightarrow> alike r s"
  by (simp add: alike_def)

lemma our_comment_ends:
  assumes "our_readComment s = Inr (ok, s')" "getNextChar s = (c, s1)" "our_scanned c s1 = (True, nl, s2)"
  shows "ok \<and> (\<exists>s3. (s3 = s2 \<or> s3 = s2\<lparr>rd_lastValueHasAComment := True\<rparr>) \<and> annotated s3 s')"
  using assms(1) unfolding our_readComment_eq [OF assms(2,3)]
  by (auto simp: res_simps our_attach_def Let_def dest!: annotated_addComment split: if_splits)

lemma comment_alike:
  assumes "alike r s" "steady r" "after_slash r" "readComment r = Inr (True, r')"
  shows "\<exists>s'. our_readComment s = Inr (True, s') \<and> alike r' s'"
proof -
  obtain c r1 where r1: "getNextChar r = (c, r1)" by force
  obtain s1 where s1: "getNextChar s = (c, s1)" "alike r1 s1" using alike_scans(2) [OF assms(1) r1] by blast
  obtain ok r2 where p: "scanned c r1 = (ok, r2)" by force
  have ok: ok and r3: "annotated r2 r'"
    using assms(4) unfolding readComment_eq [OF r1 p]
    by (auto simp: res_simps dest!: annotated_addComment split: if_splits)
  obtain nl s2 where s2: "our_scanned c s1 = (True, nl, s2)"
    "alike r2 s2" using comment_scan_alike [OF s1(2) p] ok by auto
  have "safe_in {} (\<lambda>(ok, s'). calm s s') (our_readComment s)"
    using assms(1,3) by (intro safe_our_readComment steady_alike [OF assms(1,2)]) (simp add: alike_def after_slash_def)
  then obtain ok' s' where s': "our_readComment s = Inr (ok', s')" "calm s s'" by (cases "our_readComment s") auto
  obtain s3 where s3: "s3 = s2 \<or> s3 = s2\<lparr>rd_lastValueHasAComment := True\<rparr>" "ok'" "annotated s3 s'"
    using our_comment_ends [OF s'(1) s1(1) s2(1)] by blast
  have "calm r r'" using safe_readComment [of r "{}"] assms(2-4) by simp
  then have j: "jv_ok (rd_root r')" using assms(1) by (simp add: calm_def alike_def)
  have c: "slashed (rd_commentsBefore s')" using s'(2) assms(1) by (simp add: calm_def alike_def)
  have "alike r2 s3" using s2(2) s3(1) by auto
  from alike_annotated [OF this r3 s3(3) j c] have "alike r' s'" .
  then show ?thesis using s'(1) s3(2) by simp
qed

lemma body_alike:
  assumes "alike r s" "tokenBody c r = Inr (ty, True, r')" "c \<noteq> CHR ''/''"
    "\<not> (c = CHR ''-'' \<and> rest r \<noteq> [] \<and> hd (rest r) = CHR ''I'')"
  shows "\<exists>s'. our_tokenBody c s = Inr (our_kind ty, True, s') \<and> alike r' s'"
proof -
  consider (punct) "c \<in> {CHR ''{'', CHR ''}'', CHR ''['', CHR '']'', CHR '','', CHR '':'', NUL}"
    | (str) "c = DQUOTE" | (digit) "is_digit c" | (minus) "c = CHR ''-''" | (word) "c \<in> {CHR ''t'', CHR ''f'', CHR ''n''}"
    using assms(2,3) unfolding tokenBody_def by (simp split: if_splits) blast
  then show ?thesis
  proof cases
    case punct
    then have "tokenBody c r = Inr (ty, True, r)" "our_tokenBody c s = Inr (our_kind ty, True, s)" using assms(2)
      by (elim insertE emptyE; simp add: tokenBody_def our_tokenBody_def is_digit_def)+
    then show ?thesis using assms by simp
  next
    case str
    then have "readString r = (True, r')" "ty = tokenString" using assms(2) by (simp_all add: tokenBody_def)
    then show ?thesis using str alike_scans(3) [OF assms(1)] by (auto simp: our_tokenBody_def)
  next
    case digit
    then have "c \<notin> {CHR ''{'', CHR ''}'', CHR ''['', CHR '']'', DQUOTE, CHR ''/'', CHR 0x27}" by (auto simp: is_digit_def)
    then have "r' = readNumber r" "ty = tokenNumber" "our_tokenBody c s = Inr (ourNumber, True, readNumber s)"
      using digit assms(2) by (simp_all add: tokenBody_def our_tokenBody_def our_readNumber_def)
    then show ?thesis using alike_scans(5) [OF assms(1)] by simp
  next
    case minus
    then have "r' = readNumber r" "ty = tokenNumber" using assms(2) by (simp_all add: tokenBody_def is_digit_def)
    moreover have "our_tokenBody c s = Inr (ourNumber, True, readNumber s)" using minus assms(4) alike_rest [OF assms(1)]
      by (simp add: our_tokenBody_def our_signed_def our_readNumber_def is_digit_def)
    ultimately show ?thesis using alike_scans(5) [OF assms(1)] by simp
  next
    case word
    then obtain pat where "match_pattern pat r = (True, r')"
      "our_tokenBody c s = Inr (our_kind ty, match_pattern pat s)" using assms(2)
      by (elim insertE emptyE) (simp_all add: tokenBody_def our_tokenBody_def is_digit_def, blast+)
    then show ?thesis using alike_scans(4) [OF assms(1)] by auto
  qed
qed

text \<open>A token that is no error is the same token, but for a minus sign before an I.\<close>

definition minus_I :: "token \<Rightarrow> reader \<Rightarrow> bool" where
  "minus_I t r' \<longleftrightarrow> tok_type t = tokenNumber \<and> tok_end t = Suc (tok_start t) \<and> rd_current r' = tok_end t \<and>
     take 2 (drop (tok_start t) (rd_document r')) = ''-I''"

lemma getNextChar_rest: "rest r = c # cs \<Longrightarrow> getNextChar r = (c, advance 1 r)"
  by (simp add: getNextChar_def)

lemma alike_current: "alike r s \<Longrightarrow> rd_current s = rd_current r"
  by (simp add: alike_def)

lemma token_alike:
  assumes "alike r s" "steady r" "readToken r = Inr (True, t, r')"
  shows "(\<exists>u s'. our_readToken s = Inr (True, u, s') \<and> same_token t u \<and> alike r' s') \<or> minus_I t r'"
proof -
  obtain c r2 where r2: "getNextChar (skipSpaces r) = (c, r2)" by force
  obtain s2 where s2: "getNextChar (skipSpaces s) = (c, s2)" "alike r2 s2"
    using alike_scans(2) [OF alike_scans(1) [OF assms(1)] r2] by blast
  obtain ty where b: "tokenBody c r2 = Inr (ty, True, r')"
    and t: "t = \<lparr>tok_type = ty, tok_start = rd_current (skipSpaces r), tok_end = rd_current r'\<rparr>"
    using assms(3) unfolding readToken_def Let_def r2 prod.case by (auto simp: res_simps)
  have step: "?thesis" if "our_tokenBody c s2 = Inr (our_kind ty, True, s')" "alike r' s'" for s'
    using that alike_current [OF alike_scans(1) [OF assms(1)]] alike_current [OF that(2)]
    unfolding our_readToken_def Let_def s2(1) prod.case by (simp add: t same_token_def)
  have st: "steady r2" by (rule steady_calm [OF steady_calm [OF assms(2) calm_scans(2)] calm_scans(1) [OF r2]])
  consider "c = CHR ''/''" | "c = CHR ''-''" "rest r2 \<noteq> []" "hd (rest r2) = CHR ''I''"
    | "c \<noteq> CHR ''/''" "\<not> (c = CHR ''-'' \<and> rest r2 \<noteq> [] \<and> hd (rest r2) = CHR ''I'')" by blast
  then show ?thesis
  proof cases
    case 1
    then have "readComment r2 = Inr (True, r')" "ty = tokenComment" using b by (auto simp: tokenBody_def res_simps)
    moreover have "after_slash r2" using getNextChar_slash r2 1 by blast
    ultimately obtain s' where "our_readComment s2 = Inr (True, s')" "alike r' s'"
      using comment_alike [OF s2(2) st] by blast
    then show ?thesis using 1 \<open>ty = tokenComment\<close> by (intro step) (simp_all add: our_tokenBody_def)
  next
    case 2
    obtain cs where cs: "rest r2 = CHR ''I'' # cs" using 2(2,3) by (cases "rest r2") auto
    have "r' = readNumber r2" "ty = tokenNumber" using b 2(1) by (simp_all add: tokenBody_def is_digit_def)
    moreover have "numberScan (rest r2) = 0"
      by (simp add: cs numberScan_def digits_len_def is_digit_def fractionScan_def exponentScan_def)
    ultimately have r': "r' = r2" by (simp add: readNumber_def)
    have "rest (skipSpaces r) = CHR ''-'' # CHR ''I'' # cs \<and> r2 = advance 1 (skipSpaces r)"
      using r2 cs 2(1) by (auto simp: getNextChar_def split: list.splits)
    then show ?thesis using r' \<open>ty = tokenNumber\<close>
      by (simp add: minus_I_def t advance_def rest_def numeral_2_eq_2)
  next
    case 3
    then show ?thesis using body_alike [OF s2(2) b] step by blast
  qed
qed

text \<open>
  After an erroneous token the readers are in step again, or the next token of \<^verbatim>\<open>Reader\<close> is an error or a
  number, which cannot be the name of a member.
\<close>

definition stuck :: "reader \<Rightarrow> bool" where
  "stuck r \<longleftrightarrow> (\<exists>c cs. rest r = c # cs \<and> c \<notin> set '' {}[],:/tf'' \<union> {DQUOTE, NUL, TAB, CR, LF} \<and>
     (c = CHR ''n'' \<longrightarrow> take 3 cs \<noteq> ''ull''))"

lemma stuckI:
  "rest r = c # cs \<Longrightarrow> c \<notin> set '' {}[],:/tf'' \<union> {DQUOTE, NUL, TAB, CR, LF} \<Longrightarrow>
   (c = CHR ''n'' \<Longrightarrow> take 3 cs \<noteq> ''ull'') \<Longrightarrow> stuck r"
  unfolding stuck_def by blast

lemma stuck_token:
  assumes "stuck r" "readToken r = Inr (ok, t, r')"
  shows "\<not> ok \<or> tok_type t = tokenNumber"
proof -
  obtain c cs where c: "rest r = c # cs" "c \<notin> set '' {}[],:/tf'' \<union> {DQUOTE, NUL, TAB, CR, LF}"
    "c = CHR ''n'' \<longrightarrow> take 3 cs \<noteq> ''ull''" using assms(1) unfolding stuck_def by blast
  have sk: "skipSpaces r = r" using c(2) by (intro skipSpaces_none [OF c(1)]) (auto simp: is_space_def)
  let ?r = "advance 1 r"
  have "c \<noteq> CHR ''{'' \<and> c \<noteq> CHR ''}'' \<and> c \<noteq> CHR ''['' \<and> c \<noteq> CHR '']'' \<and> c \<noteq> DQUOTE \<and> c \<noteq> CHR ''/'' \<and>
    c \<noteq> CHR ''t'' \<and> c \<noteq> CHR ''f'' \<and> c \<noteq> CHR '','' \<and> c \<noteq> CHR '':'' \<and> c \<noteq> NUL" using c(2) by simp
  then have b: "tokenBody c ?r = (if is_digit c \<or> c = CHR ''-'' then Inr (tokenNumber, True, readNumber ?r)
      else if c = CHR ''n'' then Inr (tokenNull, match_pattern ''ull'' ?r) else Inr (tokenError, False, ?r))"
    by (simp add: tokenBody_def)
  have "match_pattern ''ull'' ?r = (False, ?r)" if "c = CHR ''n''"
    using c(1,3) that by (simp add: match_pattern_def eval_nat_numeral)
  then show ?thesis
    using assms(2) unfolding readToken_def Let_def sk getNextChar_rest [OF c(1)] prod.case b
    by (auto simp: res_simps split: if_splits)
qed

lemma minus_I_stuck:
  assumes "minus_I t r'"
  shows "stuck r'"
proof -
  obtain cs where "drop (tok_start t) (rd_document r') = CHR ''-'' # CHR ''I'' # cs"
    using assms by (cases "drop (tok_start t) (rd_document r')"; cases "tl (drop (tok_start t) (rd_document r'))")
      (auto simp: minus_I_def numeral_2_eq_2)
  moreover have "rest r' = drop 1 (drop (tok_start t) (rd_document r'))" using assms by (simp add: minus_I_def rest_def)
  ultimately have "rest r' = CHR ''I'' # cs" by simp
  then show ?thesis by (rule stuckI) simp_all
qed

lemma error_alike:
  assumes "alike r s" "tokenBody c r = Inr (ty, False, r')" "c \<noteq> CHR ''/''"
  shows "(\<exists>ty' ok s'. our_tokenBody c s = Inr (ty', ok, s') \<and> (ok \<longrightarrow> ty' = ourNumber) \<and> alike r' s') \<or> stuck r'"
proof -
  have sq: "\<not> of_allowSingleQuotes (rd_features s)" using assms(1) by (simp add: alike_def suits_def)
  have d: "\<not> is_digit c" "c \<noteq> CHR ''-''" "c \<notin> {CHR ''{'', CHR ''}'', CHR ''['', CHR '']'', CHR '','', CHR '':'', NUL}"
    using assms(2,3) by (auto simp: tokenBody_def is_digit_def split: if_splits)
  consider (str) "c = DQUOTE" | (word) "c \<in> {CHR ''t'', CHR ''f'', CHR ''n''}" | (plus) "c = CHR ''+''"
    | (N) "c = CHR ''N''" | (I) "c = CHR ''I''" | (quote) "c = CHR 0x27"
    | (other) "c \<notin> {DQUOTE, CHR ''t'', CHR ''f'', CHR ''n'', CHR ''+'', CHR ''N'', CHR ''I'', CHR 0x27}" by auto
  then show ?thesis
  proof cases
    case str
    then have "readString r = (False, r')" using assms(2) by (simp add: tokenBody_def)
    from alike_scans(3) [OF assms(1) this] str show ?thesis by (auto simp: our_tokenBody_def)
  next
    case word
    then obtain pat ty' where "match_pattern pat r = (False, r')" "our_tokenBody c s = Inr (ty', match_pattern pat s)"
      using assms(2) by (elim insertE emptyE) (simp_all add: tokenBody_def our_tokenBody_def is_digit_def, blast+)
    with alike_scans(4) [OF assms(1) this(1)] show ?thesis by auto
  next
    case plus
    have r': "r' = r" using assms(2) plus by (simp add: tokenBody_def is_digit_def)
    have b: "our_tokenBody c s = Inr (our_signed ourPosInf s)" using plus by (simp add: our_tokenBody_def is_digit_def)
    show ?thesis
    proof (cases "rest r")
      case Nil
      then have "our_signed ourPosInf s = (ourNumber, True, s)"
        by (simp add: our_signed_def our_readNumber_def readNumber_def alike_rest [OF assms(1)] numberScan_def
            digits_len_def fractionScan_def exponentScan_def)
      then show ?thesis using b r' assms(1) by auto
    next
      case (Cons a cs)
      show ?thesis
      proof (cases "is_digit a \<or> a \<in> {CHR ''.'', CHR ''e'', CHR ''E'', CHR ''I''}")
        case True
        then have "stuck r" by (intro stuckI [OF Cons]) (auto simp: is_digit_def)
        then show ?thesis using r' by simp
      next
        case False
        then have "numberScan (rest s) = 0" "a \<noteq> CHR ''I''"
          by (simp_all add: alike_rest [OF assms(1)] Cons numberScan_def digits_len_def fractionScan_def exponentScan_def)
        then have "our_signed ourPosInf s = (ourNumber, True, s)" using Cons
          by (simp add: our_signed_def our_readNumber_def readNumber_def alike_rest [OF assms(1)])
        then show ?thesis using b r' assms(1) by auto
      qed
    qed
  next
    case N
    have r': "r' = r" using assms(2) N by (simp add: tokenBody_def is_digit_def)
    consider "match_pattern ''aN'' s = (False, s)" | "take 2 (rest r) = ''aN''"
      by (cases "take 2 (rest r) = ''aN''") (simp_all add: match_pattern_def alike_rest [OF assms(1)] eval_nat_numeral)
    then show ?thesis
    proof cases
      case 1
      then show ?thesis using N r' assms(1) by (auto simp: our_tokenBody_def is_digit_def)
    next
      case 2
      then have "stuck r" by (cases "rest r") (auto intro: stuckI)
      then show ?thesis using r' by simp
    qed
  next
    case I
    have r': "r' = r" using assms(2) I by (simp add: tokenBody_def is_digit_def)
    consider "match_pattern ''nfinity'' s = (False, s)" | "take 7 (rest r) = ''nfinity''"
      by (cases "take 7 (rest r) = ''nfinity''") (simp_all add: match_pattern_def alike_rest [OF assms(1)] eval_nat_numeral)
    then show ?thesis
    proof cases
      case 1
      then show ?thesis using I r' assms(1) by (auto simp: our_tokenBody_def is_digit_def)
    next
      case 2
      then obtain cs where cs: "rest r = CHR ''n'' # cs" "take 6 cs = ''finity''" by (cases "rest r") auto
      have "take 3 cs = take 3 (take 6 cs)" by simp
      then have "stuck r" using cs(2) by (intro stuckI [OF cs(1)]) auto
      then show ?thesis using r' by simp
    qed
  next
    case quote
    then show ?thesis using assms(1,2) sq by (auto simp: tokenBody_def our_tokenBody_def is_digit_def)
  next
    case other
    then have "r' = r" "our_tokenBody c s = Inr (ourError, False, s)" using assms(2,3) d
      by (simp_all add: tokenBody_def our_tokenBody_def)
    then show ?thesis using assms(1) by auto
  qed
qed

lemma comment_error_alike:
  assumes "alike r s" "readComment r = Inr (False, r')"
  shows "\<exists>s'. our_readComment s = Inr (False, s') \<and> alike r' s'"
proof -
  obtain c r1 where r1: "getNextChar r = (c, r1)" by force
  obtain s1 where s1: "getNextChar s = (c, s1)" "alike r1 s1" using alike_scans(2) [OF assms(1) r1] by blast
  obtain ok r2 where p: "scanned c r1 = (ok, r2)" by force
  then have "\<not> ok \<and> r' = r2" using assms(2) unfolding readComment_eq [OF r1 p] by (auto simp: res_simps split: if_splits)
  then obtain nl s2 where "our_scanned c s1 = (False, nl, s2)" "alike r' s2" using comment_scan_alike [OF s1(2) p] by auto
  then show ?thesis using our_readComment_eq [OF s1(1)] by auto
qed

lemma token_error_alike:
  assumes "alike r s" "readToken r = Inr (False, t, r')"
  shows "(\<exists>ok u s'. our_readToken s = Inr (ok, u, s') \<and> tok_type u \<in> {ourError, ourNumber} \<and> alike r' s') \<or> stuck r'"
proof -
  obtain c r2 where r2: "getNextChar (skipSpaces r) = (c, r2)" by force
  obtain s2 where s2: "getNextChar (skipSpaces s) = (c, s2)" "alike r2 s2"
    using alike_scans(2) [OF alike_scans(1) [OF assms(1)] r2] by blast
  obtain ty where b: "tokenBody c r2 = Inr (ty, False, r')"
    using assms(2) unfolding readToken_def Let_def r2 prod.case by (auto simp: res_simps)
  have "(\<exists>ty' ok s'. our_tokenBody c s2 = Inr (ty', ok, s') \<and> (ok \<longrightarrow> ty' = ourNumber) \<and> alike r' s') \<or> stuck r'"
  proof (cases "c = CHR ''/''")
    case True
    then have "readComment r2 = Inr (False, r')" using b by (auto simp: tokenBody_def res_simps)
    from comment_error_alike [OF s2(2) this] True show ?thesis by (auto simp: our_tokenBody_def)
  qed (rule error_alike [OF s2(2) b])
  then show ?thesis unfolding our_readToken_def Let_def s2(1) prod.case by auto
qed

section \<open>Skipping comments\<close>

lemma steady_readToken: "steady r \<Longrightarrow> readToken r = Inr (ok, t, r') \<Longrightarrow> steady r'"
  using safe_readToken [of r "{}"] steady_calm [of r r'] by simp

lemma same_token_comment: "same_token t u \<Longrightarrow> tok_type u = ourComment \<longleftrightarrow> tok_type t = tokenComment"
  using our_kind_eq [of "tok_type t" tokenComment] by (simp add: same_token_def)

lemma readToken_error: "readToken r = Inr (False, t, r') \<Longrightarrow> tok_type t = tokenError"
  by (auto simp: readToken_def Let_def res_simps split: prod.splits)

lemma minus_I_number: "minus_I t r \<Longrightarrow> tok_type t = tokenNumber"
  by (simp add: minus_I_def)

text \<open>What follows a comment, error or not.\<close>

definition in_step :: "bool \<Rightarrow> token \<Rightarrow> reader \<Rightarrow> (bool \<times> our_token \<times> our_reader) res \<Rightarrow> bool" where
  "in_step ok t r m \<longleftrightarrow>
     (if ok then (\<exists>u s. m = Inr (True, u, s) \<and> same_token t u \<and> alike r s) \<or> minus_I t r
      else tok_type t = tokenError \<and>
        ((\<exists>ok' u s. m = Inr (ok', u, s) \<and> tok_type u \<in> {ourError, ourNumber} \<and> alike r s) \<or> stuck r))"

lemma readToken_in_step: "alike r s \<Longrightarrow> steady r \<Longrightarrow> readToken r = Inr (ok, t, r') \<Longrightarrow> in_step ok t r' (our_readToken s)"
  using token_alike token_error_alike readToken_error by (cases ok) (auto simp: in_step_def)

lemma skipComments_in_step:
  "alike r s \<Longrightarrow> steady r \<Longrightarrow> same_token t u \<Longrightarrow> skipComments True t r = Inr (ok', t', r') \<Longrightarrow>
   in_step ok' t' r' (our_skipComments True u s)"
proof (induction True t r arbitrary: u s rule: skipComments.induct)
  case (1 t r)
  show ?case
  proof (cases "tok_type t = tokenComment")
    case False
    then show ?thesis using 1(2-5) same_token_comment [OF 1(4)]
      by (simp add: skipComments.simps [of True t] our_skipComments.simps [of True u] in_step_def)
  next
    case True
    obtain ok1 t1 r1 where t1: "readToken r = Inr (ok1, t1, r1)"
      and n: "(if tok_type t1 = tokenComment \<and> ok1 then skipComments ok1 t1 r1 else Inr (ok1, t1, r1)) = Inr (ok', t', r')"
      using 1(5) True unfolding skipComments.simps [of True t] by (auto simp: res_simps)
    have our: "our_skipComments True u s = rbind (our_readToken s) (\<lambda>(ok', u', s').
             if tok_type u' = ourComment \<and> ok' then our_skipComments ok' u' s' else Inr (ok', u', s'))"
      using True same_token_comment [OF 1(4)] by (simp add: our_skipComments.simps [of True u])
    note st = readToken_in_step [OF 1(2,3) t1]
    show ?thesis
    proof (cases "tok_type t1 = tokenComment \<and> ok1")
      case c: True
      then obtain u1 s1 where u1: "our_readToken s = Inr (True, u1, s1)" "same_token t1 u1" "alike r1 s1"
        using st minus_I_number [of t1 r1] by (auto simp: in_step_def)
      have "in_step ok' t' r' (our_skipComments True u1 s1)"
        using 1(1) [of "(True, t1, r1)" "(t1, r1)" t1 r1 s1 u1] t1 True c n u1 steady_readToken [OF 1(3) t1] by simp
      then show ?thesis using u1 c same_token_comment [OF u1(2)] by (simp add: our)
    next
      case c: False
      then have "ok' = ok1" "t' = t1" "r' = r1" using n by auto
      then show ?thesis using st c same_token_comment by (auto simp: in_step_def our)
    qed
  qed
qed

end
