(* ===== verification/Values_In_Step.thy ===== *)
theory Values_In_Step
  imports Tokens_In_Step
begin

text \<open>
  Whatever \<^verbatim>\<open>Reader\<close> reads as a value, an object or an array, \<^verbatim>\<open>OurReader\<close> reads as well, and the values are
  alike (\<open>lockstep\<close>, by induction on the fuel of \<^verbatim>\<open>Reader\<close>). \<open>follows\<close> says that \<^verbatim>\<open>OurReader\<close> ends in step or lacks
  fuel, which \<open>Our_Laws\<close> excludes; \<open>zero_left\<close> is the state after the number 0 read from a minus sign,
  which no container continues from.
\<close>

section \<open>Values\<close>

lemma alike_update:
  assumes "alike r s" "update_res p f r = Inr r'" "jv_ok (rd_root r')"
    "\<And>a b a'. like a b \<Longrightarrow> f a = Inr a' \<Longrightarrow> \<exists>b'. g b = Inr b' \<and> like a' b'"
  shows "\<exists>s'. update_res p g s = Inr s' \<and> alike r' s'"
proof -
  obtain a a' where a: "value_at p (rd_root r) = Some a" "f a = Inr a'"
    and r': "r' = r\<lparr>rd_root := update_at p (\<lambda>_. a') (rd_root r)\<rparr>"
    using assms(2) by (auto simp: update_res_def res_simps split: option.splits)
  have l: "like (rd_root r) (rd_root s)" using assms(1) by (simp add: alike_def)
  obtain b where b: "value_at p (rd_root s) = Some b" "like a b"
    using like_value_at [OF l, of p] a(1) by (cases "value_at p (rd_root s)") auto
  from assms(4) [OF b(2) a(2)] obtain b' where b': "g b = Inr b'" "like a' b'" by blast
  have "like (rd_root r') (update_at p (\<lambda>_. b') (rd_root s))"
    unfolding r' using like_update [OF l, of "\<lambda>_. a'" "\<lambda>_. b'" p] b'(2) by simp
  then show ?thesis using assms(1,3) b(1) b'(1) r' by (simp add: update_res_def alike_def)
qed

lemma alike_set_current:
  "alike r s \<Longrightarrow> (\<And>a b. like a b \<Longrightarrow> like (f a) (g b)) \<Longrightarrow> jv_ok (rd_root (set_current f r)) \<Longrightarrow>
   alike (set_current f r) (set_current g s)"
  by (simp add: alike_def set_current_def like_update)

lemma alike_rememberLast: "alike r s \<Longrightarrow> alike (rememberLast r) (our_rememberLast s)"
  by (simp add: alike_def rememberLast_def our_rememberLast_def)

lemma alike_push [simp]: "alike r s \<Longrightarrow> alike (pushNode a r) (pushNode a s)"
  "alike r s \<Longrightarrow> alike (popNode r) (popNode s)"
  by (simp_all add: alike_def pushNode_def popNode_def)

lemma annotated_takeCommentsBefore: "takeCommentsBefore r = Inr r' \<Longrightarrow> annotated r r'"
proof -
  assume t: "takeCommentsBefore r = Inr r'"
  show ?thesis
  proof (cases "rd_collectComments r \<and> rd_commentsBefore r \<noteq> []")
    case True
    then obtain r1 where "update_res (current_path r) (setComment (rd_commentsBefore r) commentBefore) r = Inr r1"
      "r' = r1\<lparr>rd_commentsBefore := []\<rparr>" using t by (auto simp: takeCommentsBefore_def res_simps)
    then show ?thesis using comment_root by (fastforce simp: annotated_def)
  next
    case False
    then show ?thesis using t by (auto simp: takeCommentsBefore_def)
  qed
qed

lemma take_alike:
  assumes "alike r s" "steady r" "takeCommentsBefore r = Inr r'" "rd_nodes r \<noteq> []"
  shows "\<exists>s'. takeCommentsBefore s = Inr s' \<and> alike r' s'"
proof -
  have "calm r r'" using safe_takeCommentsBefore [OF assms(2,4), of "{}"] assms(3) by simp
  then have j: "jv_ok (rd_root r')" using assms(1) by (simp add: calm_def alike_def)
  obtain s' where s': "takeCommentsBefore s = Inr s'" "calm s s'"
    using safe_takeCommentsBefore [OF steady_alike [OF assms(1,2)], of "{}"] assms(1,4)
    by (cases "takeCommentsBefore s") (auto simp: alike_def)
  then have "slashed (rd_commentsBefore s')" using assms(1) by (simp add: calm_def alike_def)
  from alike_annotated [OF assms(1) annotated_takeCommentsBefore [OF assms(3)] annotated_takeCommentsBefore [OF s'(1)] j this]
  show ?thesis using s'(1) by blast
qed

section \<open>Scalars\<close>

lemma same_token_text: "same_token t u \<Longrightarrow> rd_document s = rd_document r \<Longrightarrow> token_text u s = token_text t r"
  by (simp add: same_token_def token_text_def)

lemma integers_alike:
  "rel_option (\<lambda>d e. bare_data d = bare_data e) (decodeInteger txt) (our_decodeInteger txt)"
proof -
  have i: "decodeInteger txt = Some d \<Longrightarrow> \<exists>n. integer_of d = Some n \<and> bare_data d = IntV n"
    "our_decodeInteger txt = Some e \<Longrightarrow> \<exists>n. integer_of e = Some n \<and> bare_data e = IntV n" for d e
    by (auto simp: decodeInteger_def our_decodeInteger_def integer_of_def Let_def split: option.splits if_splits)
  show ?thesis using our_integer_value [of "txt"] i
    by (cases "decodeInteger txt"; cases "our_decodeInteger txt") (force simp: read_integer_def)+
qed

lemma numbers_alike:
  assumes "same_token t u" "alike r s" "decodeNumber t r = (Some d, r')"
  shows "r' = r \<and> (\<exists>e. our_decodeNumber u s = (Some e, s) \<and> bare_data d = bare_data e)"
proof -
  have tt: "token_text u s = token_text t r" by (rule same_token_text [OF assms(1)]) (use assms(2) in \<open>simp add: alike_def\<close>)
  show ?thesis using assms(3) integers_alike [of "token_text t r"]
    by (cases "decodeInteger (token_text t r)"; cases "our_decodeInteger (token_text t r)")
      (auto simp: decodeNumber_def our_decodeNumber_def decodeDouble_def tt split: option.splits)
qed

lemma strings_alike:
  assumes "same_token t u" "alike r s" "decodeString t r = (Some n, r')"
  shows "r' = r \<and> decodeString u s = (Some n, s)"
  using assms by (auto simp: decodeString_def same_token_def alike_def split: sum.splits)

lemma store_alike:
  assumes "alike r s" "value_pre r" "same_token t u" "bare_data d = bare_data e" "jd_ok d"
    "storeDecoded (Some d, r) t = (True, r')"
  shows "\<exists>s'. our_storeDecoded (Some e, s) u = (True, s') \<and> alike r' s'"
proof -
  have r': "r' = set_current (\<lambda>v. offsets t (set_payload d v)) r" using assms(6) by (simp add: storeDecoded_def)
  have "like (offsets t (set_payload d a)) (our_offsets s u (set_payload e b))" if "like a b" for a b
    using that assms(1,3,4)
    by (simp add: offsets_def our_offsets_def same_token_def alike_def like_setOffset like_set_payload)
  moreover have "jv_ok (update_at (current_path r) (\<lambda>v. offsets t (set_payload d v)) (rd_root r))"
    by (rule jv_ok_update) (use assms(1,5) in
      \<open>simp_all add: alike_def offsets_def setOffsetLimit_def setOffsetStart_def set_payload_def\<close>)
  ultimately have "alike r' (set_current (\<lambda>v. our_offsets s u (set_payload e v)) s)"
    unfolding r' by (intro alike_set_current [OF assms(1)]) (simp_all add: set_current_def)
  then show ?thesis by (simp add: our_storeDecoded_def)
qed

lemma scalar_alike:
  assumes "alike r s" "value_pre r" "same_token t u" "isScalarToken (tok_type t)" "readScalar t r = (True, r')"
  shows "\<exists>s'. our_readScalar u s = (True, s') \<and> alike r' s'"
proof -
  have k: "tok_type u = our_kind (tok_type t)" using assms(3) by (simp add: same_token_def)
  consider "tok_type t = tokenNumber" | "tok_type t = tokenString"
    | d where "tok_type t \<notin> {tokenNumber, tokenString}" "storeDecoded (Some d, r) t = (True, r')" "jd_ok d"
      "our_readScalar u s = our_storeDecoded (Some d, s) u"
    using assms(4,5) k by (cases "tok_type t") (auto simp: isScalarToken_def readScalar_def our_readScalar_def)
  then show ?thesis
  proof cases
    case 1
    obtain d r1 where d: "decodeNumber t r = (Some d, r1)" "storeDecoded (Some d, r1) t = (True, r')"
      using assms(5) 1 by (cases "decodeNumber t r") (auto simp: readScalar_def storeDecoded_def split: option.splits)
    then obtain e where e: "r1 = r" "our_decodeNumber u s = (Some e, s)" "bare_data d = bare_data e"
      using numbers_alike [OF assms(3,1)] by blast
    from store_alike [OF assms(1-3) e(3) jd_ok_decodeNumber [OF d(1)]] d(2) e 1 k show ?thesis
      by (simp add: our_readScalar_def)
  next
    case 2
    obtain n r1 where d: "decodeString t r = (Some n, r1)" "storeDecoded (Some (StringV n), r1) t = (True, r')"
      using assms(5) 2 by (cases "decodeString t r") (auto simp: readScalar_def storeDecoded_def split: option.splits)
    then have e: "r1 = r" "decodeString u s = (Some n, s)" using strings_alike [OF assms(3,1)] by blast+
    from store_alike [OF assms(1-3), of "StringV n" "StringV n"] d(2) e 2 k show ?thesis by (simp add: our_readScalar_def)
  next
    case 3
    from store_alike [OF assms(1-3) refl 3(3,2)] 3(4) show ?thesis by simp
  qed
qed

text \<open>The number 0 that \<^verbatim>\<open>Reader\<close> reads from a minus sign.\<close>

definition zero_left :: "reader \<Rightarrow> bool" where
  "zero_left r \<longleftrightarrow> stuck r \<and> (\<exists>v. value_at (current_path r) (rd_root r) = Some v \<and> payload v = IntV 0)"

lemma minus_alone: "decodeInteger ''-'' = Some (IntV 0)"
  by code_simp

lemma scalar_zero:
  assumes "minus_I t r" "steady r" "readScalar t r = (True, r')" "rd_nodes r \<noteq> []"
  shows "zero_left (rememberLast r')"
proof -
  have tt: "token_text t r = ''-''" using assms(1)
    by (cases "drop (tok_start t) (rd_document r)") (auto simp: minus_I_def token_text_def slice_def eval_nat_numeral)
  then have r': "r' = set_current (\<lambda>v. offsets t (set_payload (IntV 0) v)) r"
    using assms(3) minus_I_number [OF assms(1)] by (simp add: readScalar_def decodeNumber_def minus_alone storeDecoded_def)
  have "stuck (rememberLast r')" using minus_I_stuck [OF assms(1)] by (simp add: stuck_def r' rest_def rememberLast_def set_current_def)
  moreover obtain w where "value_at (current_path r) (rd_root r) = Some w" using current_value [OF assms(2,4)] by blast
  then have "value_at (current_path r) (rd_root r') = Some (offsets t (set_payload (IntV 0) w))"
    by (simp add: r' set_current_def value_at_update)
  ultimately show ?thesis
    by (auto simp: zero_left_def rememberLast_def r' set_current_def offsets_def setOffsetLimit_def setOffsetStart_def set_payload_def)
qed

section \<open>Names\<close>

lemma UTF8_length: "length (codePointToUTF8 n) \<le> 4"
  by (simp add: codePointToUTF8_def)

lemma unescape_consumes:
  "decodeUnicodeCodePoint pos s = Inr (u, n) \<Longrightarrow> 4 \<le> n \<and> n \<le> length s"
  by (auto simp: decodeUnicodeCodePoint_def decodeUnicodeEscapeSequence_def Let_def split: sum.splits if_splits)

lemma decodeString_loop_length:
  "decodeString_loop pos s decoded = Inr t \<Longrightarrow> length t \<le> length decoded + length s"
proof (induction pos s decoded rule: decodeString_loop.induct)
  case (2 pos c cs decoded)
  consider "c = DQUOTE" | "c \<noteq> DQUOTE" "c \<noteq> BACKSLASH" | e es where "c = BACKSLASH" "cs = e # es"
    using 2(4) by (cases cs) (auto split: if_splits)
  then show ?case
  proof cases
    case 1
    then show ?thesis using 2(4) by simp
  next
    case 2
    then show ?thesis using "2.IH"(3) "2.prems" by simp
  next
    case (3 e es)
    show ?thesis
    proof (cases "simpleEscape e")
      case (Some d)
      then show ?thesis using "2.IH"(2) [OF _ 3(1) 3(2) Some] 3 "2.prems" by simp
    next
      case None
      then have "e = CHR ''u''" using 3 "2.prems" by (simp split: if_splits)
      then obtain unicode n where u: "decodeUnicodeCodePoint (pos + 2) es = Inr (unicode, n)"
        and l: "decodeString_loop (pos + 2 + n) (drop n es) (decoded @ codePointToUTF8 unicode) = Inr t"
        using 3 None "2.prems" by (auto split: sum.splits)
      have "length t \<le> length (decoded @ codePointToUTF8 unicode) + length (drop n es)"
        using "2.IH"(1) [OF _ 3(1) 3(2) None \<open>e = CHR ''u''\<close> u refl l] 3(1) by simp
      then show ?thesis using UTF8_length [of unicode] unescape_consumes [OF u] 3(2) by simp arith
    qed
  qed
qed simp

lemma name_length:
  assumes "decodeString t r = (Some n, r')"
  shows "length n \<le> length (rd_document r)"
proof -
  have "decodeString_loop (Suc (tok_start t)) (slice (Suc (tok_start t)) (tok_end t - 1) (rd_document r)) [] = Inr n"
    using assms by (auto simp: decodeString_def split: sum.splits)
  from decodeString_loop_length [OF this] show ?thesis by (simp add: slice_def min_def split: if_splits)
qed

lemma name_alike:
  assumes "alike r s" "same_token t u" "memberName t r = Inr (Some (Some n, r'))"
  shows "r' = r \<and> our_memberName u s = Inr (Some (Some n, s)) \<and> length n < 2 ^ 30"
proof -
  have nk: "\<not> allowNumericKeys (rd_features r)" using assms(1) by (simp add: alike_def suits_def)
  then have d: "tok_type t = tokenString" "decodeString t r = (Some n, r')"
    using assms(3) by (auto simp: memberName_def split: if_splits)
  then show ?thesis using strings_alike [OF assms(2,1) d(2)] name_length [OF d(2)] assms(1,2)
    by (auto simp: our_memberName_def same_token_def alike_def)
qed

section \<open>The recursion\<close>

definition follows :: "reader \<Rightarrow> (bool \<times> our_reader) res \<Rightarrow> bool" where
  "follows r' m \<longleftrightarrow> m = Inl OutOfFuel \<or> (\<exists>s'. m = Inr (True, s') \<and> alike r' s')"

lemma followsI [simp]: "follows r' (Inl OutOfFuel)" "follows r' (Inr (True, s')) \<longleftrightarrow> alike r' s'"
  by (auto simp: follows_def)

text \<open>The position is before a closing bracket.\<close>

definition closing :: "reader \<Rightarrow> bool" where
  "closing r \<longleftrightarrow> rest (skipSpaces r) \<noteq> [] \<and> hd (rest (skipSpaces r)) = CHR '']''"

definition lockstep :: "nat \<Rightarrow> bool" where
  "lockstep fuel \<longleftrightarrow>
     (\<forall>r s r' fuel'. alike r s \<longrightarrow> value_pre r \<longrightarrow> readValue fuel r = Inr (True, r') \<longrightarrow>
        follows r' (our_readValue fuel' s) \<or> zero_left r') \<and>
     (\<forall>name r s r' fuel'. alike r s \<longrightarrow> loop_pre objectValue r \<longrightarrow> readObjectLoop fuel name r = Inr (True, r') \<longrightarrow>
        follows r' (our_readObjectLoop fuel' name s)) \<and>
     (\<forall>i r s r' fuel'. alike r s \<longrightarrow> loop_pre arrayValue r \<longrightarrow> (closing r \<longrightarrow> i \<noteq> 0) \<longrightarrow>
        readArrayLoop fuel i r = Inr (True, r') \<longrightarrow> follows r' (our_readArrayLoop fuel' i s))"

lemma lockstepD:
  "lockstep fuel \<Longrightarrow> alike r s \<Longrightarrow> value_pre r \<Longrightarrow> readValue fuel r = Inr (True, r') \<Longrightarrow>
     follows r' (our_readValue fuel' s) \<or> zero_left r'"
  "lockstep fuel \<Longrightarrow> alike r s \<Longrightarrow> loop_pre objectValue r \<Longrightarrow> readObjectLoop fuel name r = Inr (True, r') \<Longrightarrow>
     follows r' (our_readObjectLoop fuel' name s)"
  "lockstep fuel \<Longrightarrow> alike r s \<Longrightarrow> loop_pre arrayValue r \<Longrightarrow> (closing r \<Longrightarrow> i \<noteq> 0) \<Longrightarrow>
     readArrayLoop fuel i r = Inr (True, r') \<Longrightarrow> follows r' (our_readArrayLoop fuel' i s)"
  unfolding lockstep_def by blast+

lemma never_recovers: "recoverFromError t r \<noteq> Inr (True, r')" "addErrorAndRecover m tok t r \<noteq> Inr (True, r')"
  by (auto simp: addErrorAndRecover_def recoverFromError_def res_simps)

text \<open>Spaces that are skipped now are not there to be skipped later.\<close>

lemma rest_skipSpaces: "rest (skipSpaces r) = dropWhile is_space (rest r)"
  by (simp add: skipSpaces_def dropWhile_eq_drop)

lemma skipSpaces_idem [simp]: "skipSpaces (skipSpaces r) = skipSpaces r"
proof -
  have "takeWhile is_space (dropWhile is_space xs) = []" for xs by (induction xs) auto
  then show ?thesis by (simp add: skipSpaces_def [of "skipSpaces r"] rest_skipSpaces)
qed

lemma skipSpaces_sel [simp]: "rd_nodes (skipSpaces r) = rd_nodes r" "rd_features (skipSpaces r) = rd_features r"
  "rd_root (skipSpaces r) = rd_root r"
  by (simp_all add: skipSpaces_def advance_def)

lemma readToken_spaces: "readToken (skipSpaces r) = readToken r"
  by (simp add: readToken_def)

lemma readValue_spaces: "readValue fuel (skipSpaces r) = readValue fuel r"
  by (cases fuel) (simp_all only: readValue.simps skipCommentTokens_def readToken_spaces skipSpaces_sel)

lemma pushNode_spaces: "pushNode a (skipSpaces r) = skipSpaces (pushNode a r)"
  by (simp add: pushNode_def skipSpaces_def advance_def rest_def)

lemma update_res_spaces:
  "update_res p f (skipSpaces r) = rbind (update_res p f r) (\<lambda>r'. Inr (skipSpaces r'))"
  by (cases r) (auto simp: update_res_def skipSpaces_def advance_def rest_def rbind_assoc split: option.splits)

lemma readArrayLoop_spaces: "readArrayLoop fuel i (skipSpaces r) = readArrayLoop fuel i r"
proof (cases fuel)
  case (Suc f)
  show ?thesis
    by (cases "update_res (current_path r) (\<lambda>v. rbind (index_ref i v) (\<lambda>(v', _). Inr v')) r")
      (simp_all only: Suc readArrayLoop.simps skipSpaces_sel update_res_spaces rbind_Inr rbind_Inl pushNode_spaces readValue_spaces)
qed simp

text \<open>A value read as a child of the container that the readers are in.\<close>

lemma child_in_step:
  assumes l: "lockstep fuel" and a: "alike r s" and p: "loop_pre t r"
    and ty: "type_at (current_path r @ [a]) (rd_root r) \<noteq> None" and v: "readValue fuel (pushNode a r) = Inr (True, r2)"
  shows "loop_pre t (popNode r2)"
    "our_readValue fuel' (pushNode a s) = Inl OutOfFuel \<or>
     (\<exists>s2. our_readValue fuel' (pushNode a s) = Inr (True, s2) \<and> alike (popNode r2) (popNode s2)) \<or> stuck (popNode r2)"
proof -
  have pre: "value_pre (pushNode a r)" by (rule enter_child [OF p ty])
  have "value_post (pushNode a r) (True, r2)" using guardedD(1) [OF guarded_all pre] v by (metis safe_simps(1))
  then show "loop_pre t (popNode r2)" by (rule leave_child(1) [OF p])
  have "stuck (popNode r2) = stuck r2" by (simp add: stuck_def rest_def popNode_def)
  then show "our_readValue fuel' (pushNode a s) = Inl OutOfFuel \<or>
     (\<exists>s2. our_readValue fuel' (pushNode a s) = Inr (True, s2) \<and> alike (popNode r2) (popNode s2)) \<or> stuck (popNode r2)"
    using lockstepD(1) [OF l _ pre v, of "pushNode a s" fuel'] a by (auto simp: follows_def zero_left_def)
qed

lemma calm_readToken: "steady r \<Longrightarrow> readToken r = Inr (ok, t, r') \<Longrightarrow> calm r r'"
  using safe_readToken [of r "{}"] by simp

lemma calm_skipComments: "steady r \<Longrightarrow> skipComments ok t r = Inr (ok', t', r') \<Longrightarrow> calm r r'"
  using rs.skipComments_safe [of r "{}" ok t] by simp

lemma skipComments_no_comment: "tok_type t \<noteq> tokenComment \<or> \<not> ok \<Longrightarrow> skipComments ok t r = Inr (ok, t, r)"
  by (auto simp: skipComments.simps [of ok])

text \<open>What follows an element.\<close>

abbreviation array_tail :: "nat \<Rightarrow> nat \<Rightarrow> reader \<Rightarrow> (bool \<times> reader) res" where
  "array_tail fuel i s \<equiv> rbind (readToken s) (\<lambda>(ok0, tok0, r3).
     rbind (skipComments ok0 tok0 r3) (\<lambda>(ok1, currentToken, r4).
     if \<not> ok1 \<or> tok_type currentToken \<notin> {tokenArraySeparator, tokenArrayEnd}
     then addErrorAndRecover ''Missing ',' or ']' in array declaration'' currentToken tokenArrayEnd r4
     else if tok_type currentToken = tokenArrayEnd then Inr (True, r4)
     else readArrayLoop fuel (Suc i) r4))"

abbreviation our_array_tail :: "nat \<Rightarrow> nat \<Rightarrow> our_reader \<Rightarrow> (bool \<times> our_reader) res" where
  "our_array_tail fuel i s \<equiv> rbind (our_readToken s) (\<lambda>(ok0, tok0, r3).
     rbind (our_skipComments ok0 tok0 r3) (\<lambda>(ok1, currentToken, r4).
     if \<not> ok1 \<or> tok_type currentToken \<notin> {ourArraySeparator, ourArrayEnd}
     then our_addErrorAndRecover ''Missing ',' or ']' in array declaration'' currentToken ourArrayEnd r4
     else if tok_type currentToken = ourArrayEnd then Inr (True, r4)
     else our_readArrayLoop fuel (Suc i) r4))"

lemma array_tail_in_step:
  assumes l: "lockstep fuel" and p: "loop_pre arrayValue r" and run: "array_tail fuel i r = Inr (True, r')"
  shows "\<not> stuck r" "alike r s \<Longrightarrow> follows r' (our_array_tail fuel' i s)"
proof -
  obtain ok0 t0 r3 ok1 t1 r4 where t0: "readToken r = Inr (ok0, t0, r3)" and t1: "skipComments ok0 t0 r3 = Inr (ok1, t1, r4)"
    and ok1: ok1 and ty: "tok_type t1 \<in> {tokenArraySeparator, tokenArrayEnd}"
    and fin: "(if tok_type t1 = tokenArrayEnd then Inr (True, r4) else readArrayLoop fuel (Suc i) r4) = Inr (True, r')"
    using run by (auto simp: res_simps never_recovers split: if_splits)
  have ok0: ok0 using t1 ok1 skipComments_no_comment [of t0 ok0 r3] by auto
  have n0: "tok_type t0 \<noteq> tokenNumber" using t1 ty skipComments_no_comment [of t0 ok0 r3] by auto
  show "\<not> stuck r" using stuck_token [OF _ t0] ok0 n0 by blast
  assume a: "alike r s"
  have st: "steady r" by (rule loop_steady [OF p])
  obtain u0 s3 where u0: "our_readToken s = Inr (True, u0, s3)" "same_token t0 u0" "alike r3 s3"
    using readToken_in_step [OF a st t0] ok0 n0 minus_I_number by (auto simp: in_step_def)
  have st3: "steady r3" by (rule steady_readToken [OF st t0])
  have t1': "skipComments True t0 r3 = Inr (True, t1, r4)" using t1 ok0 ok1 by simp
  have "\<not> minus_I t1 r4" using minus_I_number ty by auto
  then obtain u1 s4 where u1: "our_skipComments True u0 s3 = Inr (True, u1, s4)" "same_token t1 u1" "alike r4 s4"
    using skipComments_in_step [OF u0(3) st3 u0(2) t1'] by (auto simp: in_step_def)
  have c: "calm r r4" by (rule calm_trans [OF calm_readToken [OF st t0] calm_skipComments [OF st3 t1]])
  have k: "tok_type u1 = our_kind (tok_type t1)" using u1(2) by (simp add: same_token_def)
  show "follows r' (our_array_tail fuel' i s)"
  proof (cases "tok_type t1 = tokenArrayEnd")
    case True
    then show ?thesis using u0(1) u1 k fin by simp
  next
    case False
    then have "tok_type u1 = ourArraySeparator" "readArrayLoop fuel (Suc i) r4 = Inr (True, r')" using ty k fin by auto
    then show ?thesis using u0(1) u1 lockstepD(3) [OF l u1(3) loop_calm(1) [OF p c], of "Suc i" r' fuel'] by simp
  qed
qed

lemma readValue_closing:
  assumes "rest r = CHR '']'' # cs" "\<not> allowDroppedNullPlaceholders (rd_features r)"
  shows "readValue fuel r \<noteq> Inr (True, r')"
proof (cases fuel)
  case (Suc f)
  have sk: "skipSpaces r = r" by (rule skipSpaces_none [OF assms(1)]) (simp add: is_space_def)
  let ?t = "\<lparr>tok_type = tokenArrayEnd, tok_start = rd_current r, tok_end = rd_current (advance 1 r)\<rparr>"
  have "readToken r = Inr (True, ?t, advance 1 r)"
    by (simp add: readToken_def Let_def sk getNextChar_rest [OF assms(1)] tokenBody_def)
  then have t: "skipCommentTokens r = Inr (?t, advance 1 r)"
    by (simp add: skipCommentTokens_def skipComments_no_comment)
  have "rd_features s = rd_features r" if "takeCommentsBefore (advance 1 r) = Inr s" for s
    using quiet_takeCommentsBefore [OF that] by (simp add: quiet_def keeps_def advance_def)
  then show ?thesis using assms(2) by (auto simp: Suc t res_simps isScalarToken_def)
qed simp

lemma array_in_step:
  assumes l: "lockstep fuel" and a: "alike r s" and p: "loop_pre arrayValue r" and cl: "closing r \<Longrightarrow> i \<noteq> 0"
    and run: "readArrayLoop (Suc fuel) i r = Inr (True, r')"
  shows "follows r' (our_readArrayLoop fuel' i s)"
proof (cases fuel')
  case (Suc f')
  let ?r = "skipSpaces r" and ?s = "skipSpaces s"
  let ?g = "\<lambda>v. rbind (index_ref i v) (\<lambda>(v', _). Inr v')"
  have a0: "alike ?r ?s" by (rule alike_scans(1) [OF a])
  have p0: "loop_pre arrayValue ?r" by (rule loop_calm(1) [OF p calm_scans(2)])
  have "readArrayLoop (Suc fuel) i ?r = Inr (True, r')" using run readArrayLoop_spaces by simp
  then obtain r1 r2 where r1: "update_res (current_path ?r) ?g ?r = Inr r1"
    and v: "readValue fuel (pushNode (KindIndex i) r1) = Inr (True, r2)" and tail: "array_tail fuel i (popNode r2) = Inr (True, r')"
    unfolding readArrayLoop.simps by (auto simp: res_simps never_recovers split: if_splits)
  have m: "calm ?r r1" "type_at (current_path r1 @ [KindIndex i]) (rd_root r1) \<noteq> None"
    using create_element [OF p0, of "{}" i] r1 by (simp_all add: child_made_def)
  have "jv_ok (rd_root r1)" using a0 m(1) by (simp add: calm_def alike_def)
  then obtain s1 where s1: "update_res (current_path ?r) ?g ?s = Inr s1" "alike r1 s1"
    using alike_update [OF a0 r1, of ?g] like_index_ref by blast
  have cp: "current_path ?s = current_path ?r" using a0 by (simp add: alike_def)
  have nc: "\<not> (rest ?s \<noteq> [] \<and> hd (rest ?s) = CHR '']'' \<and>
      (i = 0 \<or> of_allowTrailingCommas (rd_features ?s) \<and> \<not> of_allowDroppedNullPlaceholders (rd_features ?s)))"
  proof
    assume c: "rest ?s \<noteq> [] \<and> hd (rest ?s) = CHR '']'' \<and>
      (i = 0 \<or> of_allowTrailingCommas (rd_features ?s) \<and> \<not> of_allowDroppedNullPlaceholders (rd_features ?s))"
    then have "closing r" using alike_rest [OF a0] by (simp add: closing_def)
    then have d: "\<not> allowDroppedNullPlaceholders (rd_features ?r)" using cl c a0 by (auto simp: alike_def suits_def)
    obtain cs where cs: "rest ?r = CHR '']'' # cs" using c alike_rest [OF a0] by (cases "rest ?r") auto
    have "rd_features r1 = rd_features ?r" "rest r1 = rest ?r"
      using quiet_update_res [OF r1] update_res_position [OF r1] by (simp_all add: quiet_def keeps_def rest_def)
    then have "rest (pushNode (KindIndex i) r1) = CHR '']'' # cs"
      "\<not> allowDroppedNullPlaceholders (rd_features (pushNode (KindIndex i) r1))"
      using cs d by (simp_all add: pushNode_def rest_def)
    from readValue_closing [OF this] v show False by blast
  qed
  have p1: "loop_pre arrayValue r1" by (rule loop_calm(1) [OF p0 m(1)])
  note ch = child_in_step [OF l s1(2) p1 m(2) v]
  have ns: "\<not> stuck (popNode r2)" by (rule array_tail_in_step(1) [OF l ch(1) tail])
  have eq: "our_readArrayLoop fuel' i s = rbind (our_readValue f' (pushNode (KindIndex i) s1)) (\<lambda>(ok, r2).
      if \<not> ok then our_recoverFromError ourArrayEnd (popNode r2) else our_array_tail f' i (popNode r2))"
    unfolding Suc our_readArrayLoop.simps Let_def if_not_P [OF nc] cp s1(1) rbind_Inr ..
  from ch(2) [of f'] ns consider "our_readValue f' (pushNode (KindIndex i) s1) = Inl OutOfFuel"
    | s2 where "our_readValue f' (pushNode (KindIndex i) s1) = Inr (True, s2)" "alike (popNode r2) (popNode s2)" by blast
  then show ?thesis
  proof cases
    case 1
    then show ?thesis by (simp add: eq)
  next
    case 2
    then show ?thesis using array_tail_in_step(2) [OF l ch(1) tail 2(2), of f'] by (simp add: eq)
  qed
qed simp

text \<open>What follows a member: after a comment the loop goes on whatever the next token is, an error included.\<close>

lemma object_not_stuck:
  assumes "readObjectLoop fuel name r = Inr (True, r')" "\<not> allowNumericKeys (rd_features r)"
  shows "\<not> stuck r"
proof
  assume st: "stuck r"
  from assms(1) obtain f where f: "fuel = Suc f" by (cases fuel) auto
  obtain ok t r1 where t: "readToken r = Inr (ok, t, r1)" using assms(1) by (auto simp: f res_simps)
  have "rd_features r1 = rd_features r" using readToken_quiet [OF t] by (simp add: quiet_def keeps_def)
  then have "\<not> allowNumericKeys (rd_features r1)" using assms(2) by simp
  then have "readObjectLoop fuel name r \<noteq> Inr (True, r')"
    using stuck_token [OF st t] t by (auto simp: f never_recovers skipComments_no_comment memberName_def)
  then show False using assms(1) by blast
qed

abbreviation our_object_tail :: "nat \<Rightarrow> string \<Rightarrow> our_reader \<Rightarrow> (bool \<times> our_reader) res" where
  "our_object_tail fuel name s \<equiv> rbind (our_readToken s) (\<lambda>(okm, comma, r7).
     if \<not> okm \<or> tok_type comma \<notin> {ourObjectEnd, ourArraySeparator, ourComment}
     then our_addErrorAndRecover ''Missing ',' or '}' in object declaration'' comma ourObjectEnd r7
     else rbind (our_skipComments True comma r7) (\<lambda>(_, comma', r8).
     if tok_type comma' = ourObjectEnd then Inr (True, r8)
     else our_readObjectLoop fuel name r8))"

lemma object_tail_in_step:
  assumes l: "lockstep fuel" and p: "loop_pre objectValue r" and run: "object_tail fuel name r = Inr (True, r')"
  shows "\<not> stuck r" "alike r s \<Longrightarrow> follows r' (our_object_tail fuel' name s)"
proof -
  obtain okm t r7 ok8 t8 r8 where t: "readToken r = Inr (okm, t, r7)" "okm"
    and ty: "tok_type t \<in> {tokenObjectEnd, tokenArraySeparator, tokenComment}"
    and t8: "skipComments True t r7 = Inr (ok8, t8, r8)"
    and fin: "(if tok_type t8 = tokenObjectEnd then Inr (True, r8) else readObjectLoop fuel name r8) = Inr (True, r')"
    using run by (auto simp: object_tail_def res_simps never_recovers split: if_splits)
  show "\<not> stuck r" using stuck_token [OF _ t(1)] t(2) ty by auto
  assume a: "alike r s"
  have st: "steady r" by (rule loop_steady [OF p])
  obtain u s7 where u: "our_readToken s = Inr (True, u, s7)" "same_token t u" "alike r7 s7"
    using readToken_in_step [OF a st t(1)] t(2) ty minus_I_number by (auto simp: in_step_def)
  have st7: "steady r7" by (rule steady_readToken [OF st t(1)])
  have c: "calm r r8" by (rule calm_trans [OF calm_readToken [OF st t(1)] calm_skipComments [OF st7 t8]])
  have "\<not> allowNumericKeys (rd_features r8)" using a c by (simp add: calm_def alike_def suits_def)
  then have ns: "tok_type t8 = tokenObjectEnd \<or> \<not> stuck r8" using fin object_not_stuck [of fuel name r8 r'] by auto
  have "\<exists>ok' u8 s8. our_skipComments True u s7 = Inr (ok', u8, s8) \<and> alike r8 s8 \<and>
      (tok_type u8 = ourObjectEnd \<longleftrightarrow> tok_type t8 = tokenObjectEnd)"
  proof (cases ok8)
    case True
    have "\<not> minus_I t8 r8" using ns minus_I_number [of t8 r8] minus_I_stuck [of t8 r8] by auto
    then show ?thesis using skipComments_in_step [OF u(3) st7 u(2) t8] True our_kind_eq [of "tok_type t8" tokenObjectEnd]
      by (auto simp: in_step_def same_token_def)
  next
    case False
    then show ?thesis using skipComments_in_step [OF u(3) st7 u(2) t8] ns by (auto simp: in_step_def)
  qed
  then obtain ok' u8 s8 where u8: "our_skipComments True u s7 = Inr (ok', u8, s8)" "alike r8 s8"
    "tok_type u8 = ourObjectEnd \<longleftrightarrow> tok_type t8 = tokenObjectEnd" by blast
  have k: "tok_type u \<in> {ourObjectEnd, ourArraySeparator, ourComment}" using u(2) ty by (auto simp: same_token_def)
  show "follows r' (our_object_tail fuel' name s)"
  proof (cases "tok_type t8 = tokenObjectEnd")
    case True
    then show ?thesis using u(1) u8 k fin by auto
  next
    case False
    then show ?thesis using u(1) u8 k fin lockstepD(2) [OF l u8(2) loop_calm(1) [OF p c], of name r' fuel'] by auto
  qed
qed

lemma member_in_step:
  assumes l: "lockstep fuel" and a: "alike r s" and p: "loop_pre objectValue r" and run: "object_member fuel n r = Inr (True, r')"
  shows "follows r' (our_member fuel' n s)"
proof -
  let ?g = "\<lambda>v. rbind (resolveReference n v) (\<lambda>(v', _). Inr v')"
  obtain ok t r4 r5 r6 where t: "readToken r = Inr (ok, t, r4)" "ok" "tok_type t = tokenMemberSeparator"
    and r5: "update_res (current_path r4) ?g r4 = Inr r5" and v: "readValue fuel (pushNode (KindKey n) r5) = Inr (True, r6)"
    and tail: "object_tail fuel n (popNode r6) = Inr (True, r')"
    using run unfolding object_tail_def by (auto simp: res_simps never_recovers split: if_splits)
  have st: "steady r" by (rule loop_steady [OF p])
  obtain u s4 where u: "our_readToken s = Inr (True, u, s4)" "same_token t u" "alike r4 s4"
    using readToken_in_step [OF a st t(1)] t(2,3) minus_I_number by (auto simp: in_step_def)
  have p4: "loop_pre objectValue r4" by (rule loop_calm(1) [OF p calm_readToken [OF st t(1)]])
  have m: "calm r4 r5" "type_at (current_path r5 @ [KindKey n]) (rd_root r5) \<noteq> None"
    using create_member [OF p4, of "{}" n] r5 by (simp_all add: child_made_def)
  have "jv_ok (rd_root r5)" using u(3) m(1) by (simp add: calm_def alike_def)
  then obtain s5 where s5: "update_res (current_path r4) ?g s4 = Inr s5" "alike r5 s5"
    using alike_update [OF u(3) r5, of ?g] like_resolveReference by blast
  have cp: "current_path s4 = current_path r4" using u(3) by (simp add: alike_def)
  have k: "tok_type u = ourMemberSeparator" using u(2) t(3) by (simp add: same_token_def)
  have p5: "loop_pre objectValue r5" by (rule loop_calm(1) [OF p4 m(1)])
  note ch = child_in_step [OF l s5(2) p5 m(2) v]
  have ns: "\<not> stuck (popNode r6)" by (rule object_tail_in_step(1) [OF l ch(1) tail])
  have eq: "our_member fuel' n s = rbind (our_readValue fuel' (pushNode (KindKey n) s5)) (\<lambda>(okv, r6).
      if \<not> okv then our_recoverFromError ourObjectEnd (popNode r6) else our_object_tail fuel' n (popNode r6))"
    by (simp add: u(1) k cp s5(1))
  from ch(2) [of fuel'] ns consider "our_readValue fuel' (pushNode (KindKey n) s5) = Inl OutOfFuel"
    | s6 where "our_readValue fuel' (pushNode (KindKey n) s5) = Inr (True, s6)" "alike (popNode r6) (popNode s6)" by blast
  then show ?thesis
  proof cases
    case 1
    then show ?thesis by (simp only: eq rbind_Inl followsI)
  next
    case 2
    then show ?thesis using object_tail_in_step(2) [OF l ch(1) tail 2(2), of fuel'] by (simp only: eq rbind_Inr prod.case simp_thms if_False)
  qed
qed

text \<open>A run of the object loop that succeeds.\<close>

lemma object_run:
  assumes "rbind (readToken r0) (\<lambda>(ok0, tok0, r1).
     rbind (if ok0 then skipComments True tok0 r1 else Inr (False, tok0, r1)) (\<lambda>(ok, tokenName, r2).
     if \<not> ok then addErrorAndRecover m tokenName e r2
     else if tok_type tokenName = tokenObjectEnd \<and> name = [] then Inr (True, r2)
     else rbind (memberName tokenName r2) (\<lambda>decoded. case decoded of
       None \<Rightarrow> addErrorAndRecover m tokenName e r2
     | Some (None, r3) \<Rightarrow> recoverFromError e r3
     | Some (Some n, r3) \<Rightarrow> member n r3))) = Inr (True, r')"
  obtains t0 r1 t r2 where "readToken r0 = Inr (True, t0, r1)" "skipComments True t0 r1 = Inr (True, t, r2)"
    "(tok_type t = tokenObjectEnd \<and> name = [] \<and> r' = r2) \<or>
     (\<exists>n r3. memberName t r2 = Inr (Some (Some n, r3)) \<and> member n r3 = Inr (True, r'))"
proof -
  obtain ok0 t0 r1 where t0: "readToken r0 = Inr (ok0, t0, r1)" using assms by (cases "readToken r0") auto
  obtain ok t r2 where t: "(if ok0 then skipComments True t0 r1 else Inr (False, t0, r1)) = Inr (ok, t, r2)"
    using assms t0 by (cases "if ok0 then skipComments True t0 r1 else Inr (False, t0, r1)") auto
  have ok: ok using assms t0 t never_recovers(2) by (cases ok) auto
  then have ok0: ok0 and sk: "skipComments True t0 r1 = Inr (True, t, r2)" using t by (cases ok0; simp)+
  show thesis
  proof (cases "tok_type t = tokenObjectEnd \<and> name = []")
    case True
    then show thesis using assms t0 sk ok0 that by simp
  next
    case False
    obtain d where d: "memberName t r2 = Inr d" using assms t0 sk ok0 False by (cases "memberName t r2") auto
    obtain n r3 where "d = Some (Some n, r3)"
    proof (cases d)
      case None
      then show thesis using assms t0 sk ok0 False d never_recovers(2) by simp
    next
      case (Some p)
      obtain x r3 where p: "p = (x, r3)" by force
      then show thesis using assms t0 sk ok0 False d Some never_recovers(1) that by (cases x) auto
    qed
    then show thesis using assms t0 sk ok0 False d that by auto
  qed
qed

lemma object_in_step:
  assumes l: "lockstep fuel" and a: "alike r0 s0" and p: "loop_pre objectValue r0"
    and run: "readObjectLoop (Suc fuel) name r0 = Inr (True, r')"
  shows "follows r' (our_readObjectLoop fuel' name s0)"
proof (cases fuel')
  case (Suc f')
  from run [unfolded readObjectLoop.simps] obtain t0 r1 t r2 where t0: "readToken r0 = Inr (True, t0, r1)"
    and sk: "skipComments True t0 r1 = Inr (True, t, r2)"
    and fin: "(tok_type t = tokenObjectEnd \<and> name = [] \<and> r' = r2) \<or>
      (\<exists>n r3. memberName t r2 = Inr (Some (Some n, r3)) \<and> object_member fuel n r3 = Inr (True, r'))"
    by (rule object_run)
  have st: "steady r0" by (rule loop_steady [OF p])
  have st1: "steady r1" by (rule steady_readToken [OF st t0])
  have c: "calm r0 r2" by (rule calm_trans [OF calm_readToken [OF st t0] calm_skipComments [OF st1 sk]])
  then have nk: "\<not> allowNumericKeys (rd_features r2)" using a by (simp add: calm_def alike_def suits_def)
  then have ty: "tok_type t \<noteq> tokenNumber" using fin by (auto simp: memberName_def)
  then have "tok_type t0 \<noteq> tokenNumber" using sk skipComments_no_comment [of t0 True r1] by auto
  then obtain u0 s1 where u0: "our_readToken s0 = Inr (True, u0, s1)" "same_token t0 u0" "alike r1 s1"
    using readToken_in_step [OF a st t0] minus_I_number by (auto simp: in_step_def)
  obtain u s2 where u: "our_skipComments True u0 s1 = Inr (True, u, s2)" "same_token t u" "alike r2 s2"
    using skipComments_in_step [OF u0(3) st1 u0(2) sk] ty minus_I_number by (auto simp: in_step_def)
  have k: "tok_type u = our_kind (tok_type t)" using u(2) by (simp add: same_token_def)
  from fin show ?thesis
  proof (elim disjE exE conjE)
    assume "tok_type t = tokenObjectEnd" "name = []" "r' = r2"
    then show ?thesis using u0(1) u k by (simp add: Suc)
  next
    fix n r3
    assume n: "memberName t r2 = Inr (Some (Some n, r3))" "object_member fuel n r3 = Inr (True, r')"
    have na: "r3 = r2" "our_memberName u s2 = Inr (Some (Some n, s2))" "length n < 2 ^ 30"
      using name_alike [OF u(3,2) n(1)] by blast+
    have "tok_type t = tokenString" using n(1) nk by (auto simp: memberName_def split: if_splits)
    then have ku: "tok_type u \<noteq> ourObjectEnd" using k by simp
    have dup: "\<not> of_rejectDupKeys (rd_features s2)" using u(3) by (simp add: alike_def suits_def)
    have "\<not> 2 ^ 30 \<le> int (length n)" using na(3) by simp
    then have "our_readObjectLoop fuel' name s0 = our_member f' n s2"
      using u0(1) u(1) ku na(2) dup by (simp add: Suc del: power_numeral)
    moreover have "follows r' (our_member f' n s2)"
      using member_in_step [OF l u(3) loop_calm(1) [OF p c]] n(2) na(1) by blast
    ultimately show ?thesis by simp
  qed
qed simp

lemma skipCommentTokens_in_step:
  assumes "alike r s" "steady r" "skipCommentTokens r = Inr (t, r')" "tok_type t \<noteq> tokenError"
  shows "(\<exists>u s'. our_skipCommentTokens s = Inr (u, s') \<and> same_token t u \<and> alike r' s') \<or> minus_I t r'"
proof -
  obtain ok t1 r1 where t1: "readToken r = Inr (ok, t1, r1)"
    and sk: "(if allowComments (rd_features r) then rbind (skipComments ok t1 r1) (\<lambda>(_, tok', r2). Inr (tok', r2)) else Inr (t1, r1)) = Inr (t, r')"
    using assms(3) by (auto simp: skipCommentTokens_def res_simps)
  have ok: ok using sk assms(4) readToken_error [of r t1 r1] t1 skipComments_no_comment [of t1 ok r1]
    by (cases ok) (auto split: if_splits)
  have ac: "of_allowComments (rd_features s) = allowComments (rd_features r)" using assms(1) by (simp add: alike_def suits_def)
  have st1: "steady r1" by (rule steady_readToken [OF assms(2) t1])
  show ?thesis
  proof (cases "minus_I t1 r1")
    case True
    then have "t = t1 \<and> r' = r1" using sk skipComments_no_comment [of t1 ok r1] minus_I_number [OF True]
      by (auto split: if_splits)
    then show ?thesis using True by simp
  next
    case False
    then obtain u1 s1 where u1: "our_readToken s = Inr (True, u1, s1)" "same_token t1 u1" "alike r1 s1"
      using readToken_in_step [OF assms(1,2) t1] ok by (auto simp: in_step_def)
    show ?thesis
    proof (cases "allowComments (rd_features r)")
      case True
      then obtain ok' where s: "skipComments True t1 r1 = Inr (ok', t, r')" using sk ok by (auto simp: res_simps)
      then show ?thesis using skipComments_in_step [OF u1(3) st1 u1(2) s] assms(4) True ac u1(1)
        by (auto simp: in_step_def our_skipCommentTokens_def split: if_splits)
    next
      case c: False
      then show ?thesis using sk u1 ac by (auto simp: our_skipCommentTokens_def)
    qed
  qed
qed

lemma jv_ok_set_current:
  "alike r s \<Longrightarrow> (\<And>v. jv_ok v \<Longrightarrow> jv_ok (f v)) \<Longrightarrow> jv_ok (rd_root (set_current f r))"
  by (auto simp: alike_def set_current_def intro: jv_ok_update)

text \<open>A container: emptied, filled, closed.\<close>

lemma close_in_step:
  assumes "follows r m"
  shows "follows (rememberLast (set_current (setOffsetLimit (int (rd_current r))) r))
     (rbind m (\<lambda>(ok, r'). Inr (ok, our_rememberLast (set_current (setOffsetLimit (int (rd_current r') - int (rd_begin r'))) r'))))"
proof (cases "m = Inl OutOfFuel")
  case False
  then obtain s where s: "m = Inr (True, s)" "alike r s" using assms by (auto simp: follows_def)
  have "rd_current s = rd_current r" "rd_begin s = 0" using s(2) by (simp_all add: alike_def)
  then have "alike (set_current (setOffsetLimit (int (rd_current r))) r) (set_current (setOffsetLimit (int (rd_current s) - int (rd_begin s))) s)"
    by (intro alike_set_current [OF s(2)] jv_ok_set_current [OF s(2)])
      (simp add: like_setOffset, simp add: setOffsetLimit_def jv_ok_payload)
  then show ?thesis using s(1) alike_rememberLast by simp
qed simp

lemma open_in_step:
  assumes "alike r s" "same_token t u" "jd_ok d"
  shows "alike (set_current (\<lambda>v. setOffsetStart (int (tok_start t)) (set_payload d v)) r)
     (set_current (\<lambda>v. setOffsetStart (int (tok_start u) - int (rd_begin s)) (set_payload d v)) s)"
proof (intro alike_set_current [OF assms(1)] jv_ok_set_current [OF assms(1)])
  show "like (setOffsetStart (int (tok_start t)) (set_payload d a)) (setOffsetStart (int (tok_start u) - int (rd_begin s)) (set_payload d b))"
    if "like a b" for a b using that assms(1,2) by (simp add: same_token_def alike_def like_setOffset like_set_payload)
qed (use assms(3) in \<open>simp add: setOffsetStart_def set_payload_def\<close>)

text \<open>\<^verbatim>\<open>readArray\<close>: \<^verbatim>\<open>Reader\<close> looks for an empty array before its loop, \<^verbatim>\<open>OurReader\<close> in it.\<close>

lemma array_begin_in_step:
  assumes l: "lockstep fuel" and a: "alike r s" and p: "loop_pre arrayValue r"
    and run: "(if rest (skipSpaces r) \<noteq> [] \<and> hd (rest (skipSpaces r)) = CHR '']''
       then rbind (readToken (skipSpaces r)) (\<lambda>(_, _, rb). Inr (True, rb)) else readArrayLoop fuel 0 (skipSpaces r)) = Inr (True, r')"
  shows "follows r' (our_readArrayLoop fuel' 0 s)"
proof (cases "closing r")
  case False
  then have "readArrayLoop fuel 0 r = Inr (True, r')" using run by (auto simp: closing_def readArrayLoop_spaces)
  then show ?thesis by (intro lockstepD(3) [OF l a p]) (use False in simp)
next
  case True
  let ?r = "skipSpaces r" and ?s = "skipSpaces s"
  have a0: "alike ?r ?s" by (rule alike_scans(1) [OF a])
  obtain cs where cs: "rest ?r = CHR '']'' # cs" using True by (cases "rest ?r") (auto simp: closing_def)
  obtain t where t: "readToken ?r = Inr (True, t, advance 1 ?r)" "tok_type t = tokenArrayEnd"
    by (simp add: readToken_def Let_def getNextChar_rest [OF cs] tokenBody_def)
  have r': "r' = advance 1 ?r" using run cs t(1) by simp
  have st: "steady ?r" by (rule steady_calm [OF loop_steady [OF p] calm_scans(2)])
  obtain u s1 where "our_readToken ?s = Inr (True, u, s1)" "alike r' s1"
    using token_alike [OF a0 st t(1)] minus_I_number t(2) r' by auto
  then show ?thesis using cs alike_rest [OF a0] by (cases fuel') (simp_all add: Let_def)
qed

lemma back_in_step: "alike r s \<Longrightarrow> alike (r\<lparr>rd_current := rd_current r - 1\<rparr>) (s\<lparr>rd_current := rd_current s - 1\<rparr>)"
  by (simp add: alike_def)

lemma dropped_in_step:
  assumes "alike r s"
  shows "alike (rememberLast (set_current (\<lambda>v. setOffsetLimit (int (rd_current r))
      (setOffsetStart (int (rd_current r) - 1) (set_payload NullV v))) r))
    (our_rememberLast (set_current (\<lambda>v. setOffsetLimit (int (rd_current s) - int (rd_begin s))
      (setOffsetStart (int (rd_current s) - int (rd_begin s) - 1) (set_payload NullV v))) s))"
proof -
  have "rd_current s = rd_current r" "rd_begin s = 0" using assms by (simp_all add: alike_def)
  then show ?thesis
    by (intro alike_rememberLast alike_set_current [OF assms] jv_ok_set_current [OF assms])
      (simp add: like_setOffset like_set_payload, simp add: setOffsetLimit_def setOffsetStart_def set_payload_def)
qed

lemma minus_I_annotated: "minus_I t r \<Longrightarrow> annotated r r' \<Longrightarrow> minus_I t r'"
  by (auto simp: minus_I_def annotated_def)

text \<open>The branches of \<^verbatim>\<open>readValue\<close> after its first token.\<close>

abbreviation value_body :: "nat \<Rightarrow> token \<Rightarrow> reader \<Rightarrow> (bool \<times> reader) res" where
  "value_body fuel token r \<equiv>
      if tok_type token = tokenObjectBegin then
        rbind (readObjectLoop fuel [] (set_current (\<lambda>v. setOffsetStart (int (tok_start token)) (set_payload (ObjectV []) v)) r))
          (\<lambda>(ok, r'). Inr (ok, rememberLast (set_current (setOffsetLimit (int (rd_current r'))) r')))
      else if tok_type token = tokenArrayBegin then
        (let ra = skipSpaces (set_current (\<lambda>v. setOffsetStart (int (tok_start token)) (set_payload (ArrayV []) v)) r)
         in rbind (if rest ra \<noteq> [] \<and> hd (rest ra) = CHR '']''
                   then rbind (readToken ra) (\<lambda>(_, _, rb). Inr (True, rb))
                   else readArrayLoop fuel 0 ra)
          (\<lambda>(ok, r'). Inr (ok, rememberLast (set_current (setOffsetLimit (int (rd_current r'))) r'))))
      else if isScalarToken (tok_type token) then
        Inr (case readScalar token r of (ok, r') \<Rightarrow> (ok, rememberLast r'))
      else if tok_type token \<in> {tokenArraySeparator, tokenObjectEnd, tokenArrayEnd} \<and>
              allowDroppedNullPlaceholders (rd_features r) then
        (let r' = r\<lparr>rd_current := rd_current r - 1\<rparr> in
         Inr (True, rememberLast (set_current (\<lambda>v. setOffsetLimit (int (rd_current r'))
           (setOffsetStart (int (rd_current r') - 1) (set_payload NullV v))) r')))
      else Inr (False, addError ''Syntax error: value, object or array expected.'' token None
                         (set_current (offsets token) r))"

abbreviation our_value_body :: "nat \<Rightarrow> our_token \<Rightarrow> our_reader \<Rightarrow> (bool \<times> our_reader) res" where
  "our_value_body fuel token r \<equiv>
      if tok_type token = ourObjectBegin then
        rbind (our_readObjectLoop fuel []
                 (set_current (\<lambda>v. setOffsetStart (int (tok_start token) - int (rd_begin r)) (set_payload (ObjectV []) v)) r))
          (\<lambda>(ok, r'). Inr (ok, our_rememberLast
             (set_current (setOffsetLimit (int (rd_current r') - int (rd_begin r'))) r')))
      else if tok_type token = ourArrayBegin then
        rbind (our_readArrayLoop fuel 0
                 (set_current (\<lambda>v. setOffsetStart (int (tok_start token) - int (rd_begin r)) (set_payload (ArrayV []) v)) r))
          (\<lambda>(ok, r'). Inr (ok, our_rememberLast
             (set_current (setOffsetLimit (int (rd_current r') - int (rd_begin r'))) r')))
      else if our_isScalarToken (tok_type token) then
        Inr (case our_readScalar token r of (ok, r') \<Rightarrow> (ok, our_rememberLast r'))
      else if tok_type token \<in> {ourArraySeparator, ourObjectEnd, ourArrayEnd} \<and>
              of_allowDroppedNullPlaceholders (rd_features r) then
        (let r' = r\<lparr>rd_current := rd_current r - 1\<rparr> in
         Inr (True, our_rememberLast (set_current (\<lambda>v. setOffsetLimit (int (rd_current r') - int (rd_begin r'))
           (setOffsetStart (int (rd_current r') - int (rd_begin r') - 1) (set_payload NullV v))) r')))
      else Inr (False, addError ''Syntax error: value, object or array expected.'' token None
                         (set_current (our_offsets r token) r))"

lemma body_in_step:
  assumes l: "lockstep fuel" and a: "alike r s" and p: "value_pre r" and tu: "same_token t u"
    and run: "value_body fuel t r = Inr (True, r')"
  shows "follows r' (our_value_body fuel' u s)"
proof -
  have k: "tok_type u = our_kind (tok_type t)" using tu by (simp add: same_token_def)
  have f: "type_of (setOffsetStart b (set_payload d v)) = type_of_data d" "jd_ok d \<Longrightarrow> jv_ok (setOffsetStart b (set_payload d v))" for b d v
    by (simp_all add: type_of_def setOffsetStart_def set_payload_def)
  consider (obj) "tok_type t = tokenObjectBegin" | (arr) "tok_type t = tokenArrayBegin"
    | (sc) "isScalarToken (tok_type t)" "tok_type t \<notin> {tokenObjectBegin, tokenArrayBegin}"
    | (drop) "tok_type t \<in> {tokenArraySeparator, tokenObjectEnd, tokenArrayEnd}" "allowDroppedNullPlaceholders (rd_features r)"
    using run by (auto simp: isScalarToken_def split: if_splits)
  then show ?thesis
  proof cases
    case obj
    let ?r = "set_current (\<lambda>v. setOffsetStart (int (tok_start t)) (set_payload (ObjectV []) v)) r"
    obtain r1 where r1: "readObjectLoop fuel [] ?r = Inr (True, r1)"
      "r' = rememberLast (set_current (setOffsetLimit (int (rd_current r1))) r1)"
      using run obj by (auto simp: res_simps)
    have "loop_pre objectValue ?r" by (rule replace_current(1) [OF p]) (simp_all add: f)
    from lockstepD(2) [OF l open_in_step [OF a tu, of "ObjectV []"] this r1(1), of fuel']
    show ?thesis using close_in_step [of r1] obj k r1(2) by simp
  next
    case arr
    let ?r = "set_current (\<lambda>v. setOffsetStart (int (tok_start t)) (set_payload (ArrayV []) v)) r"
    obtain r1 where r1: "(if rest (skipSpaces ?r) \<noteq> [] \<and> hd (rest (skipSpaces ?r)) = CHR '']''
       then rbind (readToken (skipSpaces ?r)) (\<lambda>(_, _, rb). Inr (True, rb)) else readArrayLoop fuel 0 (skipSpaces ?r)) = Inr (True, r1)"
      "r' = rememberLast (set_current (setOffsetLimit (int (rd_current r1))) r1)"
      using run arr unfolding Let_def rbind_eq_Inr by (auto simp: rbind_eq_Inr simp del: rbind_Inr)
    have "loop_pre arrayValue ?r" by (rule replace_current(1) [OF p]) (simp_all add: f)
    from array_begin_in_step [OF l open_in_step [OF a tu, of "ArrayV []"] this r1(1), of fuel']
    show ?thesis using close_in_step [of r1] arr k r1(2) by simp
  next
    case sc
    obtain r1 where r1: "readScalar t r = (True, r1)" "r' = rememberLast r1"
      using run sc by (cases "readScalar t r") auto
    obtain s1 where s1: "our_readScalar u s = (True, s1)" "alike r1 s1" using scalar_alike [OF a p tu sc(1) r1(1)] by blast
    have "our_isScalarToken (tok_type u)" "tok_type u \<notin> {ourObjectBegin, ourArrayBegin}"
      using sc k by (auto simp: isScalarToken_def our_isScalarToken_def)
    then show ?thesis using s1 r1(2) alike_rememberLast by simp
  next
    case drop
    let ?r = "r\<lparr>rd_current := rd_current r - 1\<rparr>"
    have r': "r' = rememberLast (set_current (\<lambda>v. setOffsetLimit (int (rd_current ?r))
           (setOffsetStart (int (rd_current ?r) - 1) (set_payload NullV v))) ?r)"
      using run drop by (auto simp: isScalarToken_def)
    have "of_allowDroppedNullPlaceholders (rd_features s)" using a drop(2) by (simp add: alike_def suits_def)
    moreover have "tok_type u \<in> {ourArraySeparator, ourObjectEnd, ourArrayEnd}" "\<not> our_isScalarToken (tok_type u)"
      "tok_type u \<notin> {ourObjectBegin, ourArrayBegin}" using drop k by (auto simp: our_isScalarToken_def)
    ultimately show ?thesis using dropped_in_step [OF back_in_step [OF a]] r' by (simp add: Let_def)
  qed
qed

lemma value_in_step:
  assumes l: "lockstep fuel" and a: "alike r0 s0" and p: "value_pre r0" and run: "readValue (Suc fuel) r0 = Inr (True, r')"
  shows "follows r' (our_readValue fuel' s0) \<or> zero_left r'"
proof (cases fuel')
  case (Suc f')
  have depth: "\<not> stackLimit_g < length (rd_nodes r0)" using run by (auto split: if_splits)
  obtain t r1 where t: "skipCommentTokens r0 = Inr (t, r1)"
    using run depth by (cases "skipCommentTokens r0") auto
  obtain r where r: "takeCommentsBefore r1 = Inr r"
    using run depth t by (cases "takeCommentsBefore r1") auto
  have body: "value_body fuel t r = Inr (True, r')"
    using run unfolding readValue.simps if_not_P [OF depth] t r rbind_Inr prod.case .
  have st0: "steady r0" using p by (simp add: value_pre_def)
  have c1: "calm r0 r1" using safe_skipCommentTokens [OF st0, of "{}"] t by simp
  have st1: "steady r1" by (rule steady_calm [OF st0 c1])
  have nodes1: "rd_nodes r1 \<noteq> []" using p c1 by (simp add: value_pre_def calm_def)
  have c2: "calm r1 r" using safe_takeCommentsBefore [OF st1 nodes1, of "{}"] r by simp
  have p2: "value_pre r" by (rule value_calm [OF p calm_trans [OF c1 c2]])
  have "tok_type t \<noteq> tokenError" using body by (auto simp: isScalarToken_def)
  from skipCommentTokens_in_step [OF a st0 t this] show ?thesis
  proof (elim disjE exE conjE)
    assume m: "minus_I t r1"
    have mr: "minus_I t r" by (rule minus_I_annotated [OF m annotated_takeCommentsBefore [OF r]])
    obtain r2 where "readScalar t r = (True, r2)" "r' = rememberLast r2"
      using body minus_I_number [OF m] by (cases "readScalar t r") (auto simp: isScalarToken_def)
    then show ?thesis using scalar_zero [OF mr] p2 by (simp add: value_pre_def)
  next
    fix u s1
    assume u: "our_skipCommentTokens s0 = Inr (u, s1)" "same_token t u" "alike r1 s1"
    obtain s where s: "takeCommentsBefore s1 = Inr s" "alike r s" using take_alike [OF u(3) st1 r nodes1] by blast
    have "\<not> of_stackLimit (rd_features s0) < length (rd_nodes s0)"
      using depth a by (simp add: alike_def suits_def)
    then have "our_readValue fuel' s0 = our_value_body f' u s" by (simp only: Suc our_readValue.simps if_False u(1) s(1) rbind_Inr prod.case)
    then show ?thesis using body_in_step [OF l s(2) p2 u(2) body, of f'] by simp
  qed
qed simp

lemma lockstep_all: "lockstep fuel"
proof (induction fuel)
  case 0
  then show ?case by (simp add: lockstep_def)
next
  case (Suc fuel)
  show ?case unfolding lockstep_def
    by (intro conjI allI impI) (rule value_in_step [OF Suc] object_in_step [OF Suc] array_in_step [OF Suc], assumption+, blast?)+
qed

end
