(* ===== verification/Readers_Agree.thy ===== *)
theory Readers_Agree
  imports Values_In_Step Print_Parse
begin

text \<open>
  \<^verbatim>\<open>OurReader\<close> accepts every document that \<^verbatim>\<open>Reader\<close> accepts, with a value that is the same but for comments
  and for the choice between signed and unsigned integers; so what \<^verbatim>\<open>operator<<\<close> prints, \<^verbatim>\<open>operator>>\<close> reads
  back. The last section shows where both readers accept what is no JSON.
\<close>

section \<open>Whole documents\<close>

text \<open>Comments after the value are attached to it or dropped; the value stays alike.\<close>

locale plain_source = token_source +
  assumes token_plain: "readToken r = Inr (ok, tok, r') \<Longrightarrow> tidy (bare (rd_root r)) \<Longrightarrow> like (rd_root r') (rd_root r)"
begin

lemma skipComments_plain:
  "skipComments ok tok r = Inr (ok', tok', r') \<Longrightarrow> tidy (bare (rd_root r)) \<Longrightarrow> like (rd_root r') (rd_root r)"
proof (induction "left r" arbitrary: ok tok r rule: less_induct)
  case less
  show ?case
  proof (cases "tok_type tok = comment \<and> ok")
    case True
    then obtain ok1 tok1 s where t: "readToken r = Inr (ok1, tok1, s)"
      and n: "(if tok_type tok1 = comment \<and> ok1 then skipComments ok1 tok1 s else Inr (ok1, tok1, s)) = Inr (ok', tok', r')"
      using less(2) by (subst (asm) skipComments_eq) (auto simp: rbind_eq_Inr)
    have k: "like (rd_root s) (rd_root r)" by (rule token_plain [OF t less(3)])
    then have "tidy (bare (rd_root s))" using less(3) by (simp add: like_def)
    then have "like (rd_root r') (rd_root s)" if "tok_type tok1 = comment" "ok1"
      using less(1) [OF token_left [OF t], of ok1 tok1] that comment_token n by auto
    then show ?thesis using n k by (cases "tok_type tok1 = comment \<and> ok1") (auto intro: like_trans)
  next
    case False
    then have "skipComments ok tok r = Inr (ok, tok, r)" by (subst skipComments_eq) auto
    then show ?thesis using less(2) by simp
  qed
qed

end

lemma scans_root [simp]: "rd_root (advance n r) = rd_root r" "rd_root (snd (readString r)) = rd_root r"
  "rd_root (snd (match_pattern pat r)) = rd_root r" "rd_root (readNumber r) = rd_root r"
  "rd_root (snd (getNextChar r)) = rd_root r"
  by (simp_all add: advance_def readString_def match_pattern_def readNumber_def getNextChar_def split: prod.split list.split)

text \<open>Of the tokens only a comment touches the value.\<close>

definition body_plain :: "('t, 'f, 'm) rstate \<Rightarrow> ('k \<times> bool \<times> ('t, 'f, 'm) rstate) res \<Rightarrow> bool" where
  "body_plain r m \<longleftrightarrow> (\<forall>ty ok r'. m = Inr (ty, ok, r') \<longrightarrow> tidy (bare (rd_root r)) \<longrightarrow> like (rd_root r') (rd_root r))"

lemma body_plain_leaf: "rd_root (snd p) = rd_root r \<Longrightarrow> body_plain r (Inr (ty, p))"
  by (auto simp: body_plain_def)

lemma body_plain_comment:
  "(\<And>ok r'. m = Inr (ok, r') \<Longrightarrow> tidy (bare (rd_root r)) \<Longrightarrow> like (rd_root r') (rd_root r)) \<Longrightarrow>
   body_plain r (rbind m (\<lambda>(ok, r'). Inr (ty, ok, r')))"
  by (auto simp: body_plain_def res_simps)

lemma annotated_like: "annotated r r' \<Longrightarrow> tidy (bare (rd_root r)) \<Longrightarrow> like (rd_root r') (rd_root r)"
  by (auto simp: annotated_def)

lemma scanned_root:
  "getNextChar r = (c, r1) \<Longrightarrow> scanned c r1 = (ok, r2) \<Longrightarrow> rd_root r2 = rd_root r"
  "getNextChar s = (c, s1) \<Longrightarrow> our_scanned c s1 = (ok, nl, s2) \<Longrightarrow> rd_root s2 = rd_root s"
  by (auto simp: getNextChar_def readCStyleComment_def readCppStyleComment_def our_readCStyleComment_def
      split: list.splits prod.splits if_splits)

lemma readComment_plain:
  assumes "readComment r = Inr (ok, r')" "tidy (bare (rd_root r))"
  shows "like (rd_root r') (rd_root r)"
proof -
  obtain c r1 ok2 r2 where s: "getNextChar r = (c, r1)" "scanned c r1 = (ok2, r2)" by force
  have e: "rd_root r2 = rd_root r" by (rule scanned_root(1) [OF s])
  have "annotated r2 r'" using assms(1) unfolding readComment_eq [OF s]
    by (auto simp: res_simps dest: annotated_addComment split: if_splits)
  from annotated_like [OF this] show ?thesis using assms(2) e by simp
qed

lemma our_readComment_plain:
  assumes "our_readComment r = Inr (ok, r')" "tidy (bare (rd_root r))"
  shows "like (rd_root r') (rd_root r)"
proof -
  obtain c r1 where s1: "getNextChar r = (c, r1)" by force
  obtain ok2 nl r2 where s: "our_scanned c r1 = (ok2, nl, r2)" by (cases "our_scanned c r1") auto
  have e: "rd_root r2 = rd_root r" by (rule scanned_root(2) [OF s1 s])
  have "annotated r2 r' \<or> annotated (r2\<lparr>rd_lastValueHasAComment := True\<rparr>) r'"
    using assms(1) unfolding our_readComment_eq [OF s1 s]
    by (auto simp: res_simps our_attach_def Let_def dest: annotated_addComment split: if_splits)
  then show ?thesis using annotated_like [of r2 r'] annotated_like [of "r2\<lparr>rd_lastValueHasAComment := True\<rparr>" r'] assms(2) e by auto
qed

lemma body_plain_bodies: "body_plain r (tokenBody c r)" "body_plain s (our_tokenBody c s)"
proof -
  show "body_plain r (tokenBody c r)" unfolding tokenBody_def
    by (intro if_both [where P = "body_plain r"] body_plain_leaf body_plain_comment readComment_plain) simp_all
  have q: "rd_root (snd (our_readStringSingleQuote s)) = rd_root s" "rd_root (snd (our_readNumber b s)) = rd_root s"
    "rd_root (snd (snd (our_signed ty s))) = rd_root s" for b ty
    by (auto simp: our_readStringSingleQuote_def our_readNumber_def our_signed_def split: prod.splits bool.splits)
  have "body_plain s (Inr (our_signed ty s))" for ty
    using body_plain_leaf [of "snd (our_signed ty s)" s "fst (our_signed ty s)"] q(3) by simp
  then show "body_plain s (our_tokenBody c s)" unfolding our_tokenBody_def
    by (intro if_both [where P = "body_plain s"] body_plain_leaf body_plain_comment our_readComment_plain) (simp_all add: q)
qed

lemma skipSpaces_root: "rd_root (skipSpaces r) = rd_root r"
  by (simp add: skipSpaces_def)

lemma readToken_plain:
  "readToken r = Inr (ok, t, r') \<Longrightarrow> tidy (bare (rd_root r)) \<Longrightarrow> like (rd_root r') (rd_root r)"
  "our_readToken s = Inr (ok, u, s') \<Longrightarrow> tidy (bare (rd_root s)) \<Longrightarrow> like (rd_root s') (rd_root s)"
proof -
  assume t: "readToken r = Inr (ok, t, r')" "tidy (bare (rd_root r))"
  obtain c r2 where r2: "getNextChar (skipSpaces r) = (c, r2)" by force
  have "rd_root r2 = rd_root r" using scans_root(5) [of "skipSpaces r"] r2 skipSpaces_root [of r] by simp
  then show "like (rd_root r') (rd_root r)"
    using t body_plain_bodies(1) [of r2 c] unfolding readToken_def Let_def r2 prod.case by (auto simp: body_plain_def res_simps)
next
  assume t: "our_readToken s = Inr (ok, u, s')" "tidy (bare (rd_root s))"
  obtain c s2 where s2: "getNextChar (skipSpaces s) = (c, s2)" by force
  have "rd_root s2 = rd_root s" using scans_root(5) [of "skipSpaces s"] s2 skipSpaces_root [of s] by simp
  then show "like (rd_root s') (rd_root s)"
    using t body_plain_bodies(2) [of s2 c] unfolding our_readToken_def Let_def s2 prod.case by (auto simp: body_plain_def res_simps)
qed

interpretation rp: plain_source readToken tokenEndOfStream tokenComment skipComments recoverLoop
    recoverFromError addErrorAndRecover
  by unfold_locales (rule readToken_plain(1))

interpretation op: plain_source our_readToken ourEndOfStream ourComment our_skipComments our_recoverLoop
    our_recoverFromError our_addErrorAndRecover
  by unfold_locales (rule readToken_plain(2))

lemma skipCommentTokens_plain:
  "skipCommentTokens r = Inr (t, r') \<Longrightarrow> tidy (bare (rd_root r)) \<Longrightarrow> like (rd_root r') (rd_root r)"
  by (auto simp: skipCommentTokens_def res_simps like_def split: if_splits
      dest!: readToken_plain(1) rp.skipComments_plain)

lemma our_skipCommentTokens_plain:
  "our_skipCommentTokens r = Inr (t, r') \<Longrightarrow> tidy (bare (rd_root r)) \<Longrightarrow> like (rd_root r') (rd_root r)"
  by (auto simp: our_skipCommentTokens_def res_simps like_def split: if_splits
      dest!: readToken_plain(2) op.skipComments_plain)

lemma no_BOM:
  assumes "readValue fuel (mk_reader feats doc root0 collect) = Inr (True, r')"
  shows "take 3 doc \<noteq> [CHR 0xEF, CHR 0xBB, CHR 0xBF]"
proof
  let ?r = "mk_reader feats doc root0 collect"
  assume "take 3 doc = [CHR 0xEF, CHR 0xBB, CHR 0xBF]"
  then obtain cs where c: "rest ?r = CHR 0xEF # cs" by (cases doc) (auto simp: rest_def mk_reader_def)
  have sk: "skipSpaces ?r = ?r" by (rule skipSpaces_none [OF c]) (simp add: is_space_def)
  let ?t = "\<lparr>tok_type = tokenError, tok_start = rd_current ?r, tok_end = rd_current (advance 1 ?r)\<rparr>"
  have "readToken ?r = Inr (False, ?t, advance 1 ?r)"
    by (simp add: readToken_def Let_def sk getNextChar_rest [OF c] tokenBody_def is_digit_def)
  then have "skipCommentTokens ?r = Inr (?t, advance 1 ?r)" by (simp add: skipCommentTokens_def skipComments_no_comment)
  moreover have "takeCommentsBefore (advance 1 ?r) = Inr (advance 1 ?r)"
    by (simp add: takeCommentsBefore_def mk_reader_def advance_def)
  ultimately show False using assms by (cases fuel) (auto simp: isScalarToken_def split: if_splits)
qed

lemma reset_in_step:
  assumes "suits feats (rd_features o')" "take 3 doc \<noteq> [CHR 0xEF, CHR 0xBB, CHR 0xBF]" "jv_ok root0" "length doc < 2 ^ 30"
  shows "alike (mk_reader feats doc root0 collect) (our_reset doc root0 collect o')"
  using assms by (simp add: alike_def mk_reader_def our_reset_def our_skipBom_def slashed_def) (simp add: suits_def)

text \<open>The end of \<^verbatim>\<open>parse\<close>: further tokens, comments after the value, a strict root.\<close>

lemma our_finish:
  assumes s: "steady s" "tidy (bare (rd_root s))" and g: "\<not> of_failIfExtra (rd_features s)"
    and root0: "of_strictRoot (rd_features s) \<Longrightarrow> isArray (rd_root s) \<or> isObject (rd_root s)"
  shows "\<exists>s'. rbind (our_skipCommentTokens s) (\<lambda>(token, r2).
     if of_failIfExtra (rd_features r2) \<and> tok_type token \<noteq> ourEndOfStream
     then Inr (False, addError m token None r2)
     else rbind (if rd_collectComments r2 \<and> rd_commentsBefore r2 \<noteq> []
            then update_res [] (setComment (rd_commentsBefore r2) commentAfter) r2 else Inr r2) (\<lambda>r3.
     if of_strictRoot (rd_features r3) \<and> \<not> isArray (rd_root r3) \<and> \<not> isObject (rd_root r3)
     then Inr (False, addError m' tok None r3)
     else Inr (ok, r3))) = Inr (ok, s') \<and> like (rd_root s') (rd_root s)"
proof -
  obtain t s2 where t: "our_skipCommentTokens s = Inr (t, s2)" "calm s s2"
    using safe_our_skipCommentTokens [OF s(1), of "{}"] by (cases "our_skipCommentTokens s") auto
  have st2: "steady s2" by (rule steady_calm [OF s(1) t(2)])
  have l2: "like (rd_root s2) (rd_root s)" by (rule our_skipCommentTokens_plain [OF t(1) s(2)])
  let ?m = "if rd_collectComments s2 \<and> rd_commentsBefore s2 \<noteq> []
            then update_res [] (setComment (rd_commentsBefore s2) commentAfter) s2 else Inr s2"
  have "safe_in {} (calm s2) ?m"
    using safe_comment [of "[]" s2 "rd_commentsBefore s2" commentAfter] st2 by (auto simp: steady_def)
  then obtain s3 where s3: "?m = Inr s3" "calm s2 s3" by (cases ?m) auto
  have "annotated s2 s3" using s3(1) comment_root by (auto intro: annotated_root split: if_splits dest!: comment_root)
  then have l3: "like (rd_root s3) (rd_root s)" using annotated_like [of s2 s3] s(2) l2 by (auto simp: like_def)
  have "type_at [] (rd_root s3) = Some (type_of (rd_root s))"
    using t(2) s3(2) by (simp add: calm_def extends_def del: type_at_simps) (metis type_at_simps(1))
  then have ty: "type_of (rd_root s3) = type_of (rd_root s)" by simp
  have f: "rd_features s3 = rd_features s" "rd_features s2 = rd_features s" using t(2) s3(2) by (simp_all add: calm_def)
  show ?thesis using root0 g l3 by (auto simp: t(1) s3(1) f isArray_def isObject_def ty)
qed

lemma like_container: "like v w \<Longrightarrow> isArray v \<or> isObject v \<Longrightarrow> isArray w \<or> isObject w"
  by (cases "payload v"; cases "payload w") (auto simp: isArray_def isObject_def type_of_def like_iff)

lemma parse_in_step:
  assumes "suits feats (rd_features o')" "parse feats doc root0 collect = Inr (True, r)"
    "jv_ok root0" "length doc < 2 ^ 30" "integer_of (payload (rd_root r)) \<noteq> Some 0"
  shows "\<exists>r'. our_parse doc root0 collect o' = Inr (True, r') \<and> like (rd_root r') (rd_root r)"
proof -
  let ?r = "mk_reader feats doc root0 collect" and ?s = "our_reset doc root0 collect o'"
  obtain r1 t r2 where v: "readValue (parse_fuel doc) ?r = Inr (True, r1)" and t: "skipCommentTokens r1 = Inr (t, r2)"
    and c: "(if rd_collectComments r2 \<and> rd_commentsBefore r2 \<noteq> []
       then update_res [] (setComment (rd_commentsBefore r2) commentAfter) r2 else Inr r2) = Inr r"
    and strict: "strictRoot feats \<Longrightarrow> isArray (rd_root r) \<or> isObject (rd_root r)"
    using assms(2) unfolding parse_def by (auto simp: res_simps split: if_splits)
  have a: "alike ?r ?s" by (rule reset_in_step [OF assms(1) no_BOM [OF v] assms(3,4)])
  have "value_post ?r (True, r1)" using guardedD(1) [OF guarded_all value_pre_init] v by (metis safe_simps(1))
  then have r1: "steady r1" "rd_nodes r1 = [[]]" "jv_ok (rd_root r1)"
    using assms(3) by (simp_all add: value_post_def progress_def mk_reader_def)
  have td: "tidy (bare (rd_root r1))" by (rule tidy_plain [OF r1(3)])
  have l2: "like (rd_root r2) (rd_root r1)" by (rule skipCommentTokens_plain [OF t td])
  have "annotated r2 r" using c by (auto intro: annotated_root split: if_splits dest!: comment_root)
  then have l: "like (rd_root r) (rd_root r1)" using l2 td annotated_like [of r2 r] by (auto simp: like_def)
  have "\<not> zero_left r1"
  proof
    assume "zero_left r1"
    then have "payload (rd_root r1) = IntV 0" using r1(2) by (auto simp: zero_left_def)
    then have "bare_data (payload (rd_root r)) = IntV 0" using l by (simp add: like_iff)
    then show False using assms(5) by (cases "payload (rd_root r)") (simp_all add: integer_of_def)
  qed
  then have "follows r1 (our_readValue (our_parse_fuel doc) ?s)" using lockstepD(1) [OF lockstep_all a value_pre_init v] by blast
  moreover have "our_readValue (our_parse_fuel doc) ?s \<noteq> Inl OutOfFuel"
    using fineD(1) [OF fine_our_readValue] by (simp add: fuelled_def)
  ultimately obtain s1 where s1: "our_readValue (our_parse_fuel doc) ?s = Inr (True, s1)" "alike r1 s1"
    by (auto simp: follows_def)
  have rt: "like (rd_root r) (rd_root s1)" using l s1(2) by (simp add: alike_def like_def)
  have sf: "suits (rd_features r1) (rd_features s1)" using s1(2) by (simp add: alike_def)
  have "keeps ?r r1" using fineD(2) [OF fine_readValue v] by (simp add: result_of_def)
  then have "rd_features r1 = feats" by (simp add: keeps_def mk_reader_def)
  have "\<exists>s'. our_parse doc root0 collect o' = Inr (True, s') \<and> like (rd_root s') (rd_root (popNode s1))"
    unfolding our_parse_def s1(1) rbind_Inr prod.case
  proof (rule our_finish)
    have "steady s1" by (rule steady_alike [OF s1(2) r1(1)])
    then show "steady (popNode s1)" using s1(2) r1(2) by (simp add: steady_def popNode_def alike_def)
    show "tidy (bare (rd_root (popNode s1)))" using alike_tidy [OF s1(2)] by (simp add: popNode_def)
    show "\<not> of_failIfExtra (rd_features (popNode s1))" using sf by (simp add: suits_def popNode_def)
    show "of_strictRoot (rd_features (popNode s1)) \<Longrightarrow> isArray (rd_root (popNode s1)) \<or> isObject (rd_root (popNode s1))"
      using sf strict like_container [OF rt] \<open>rd_features r1 = feats\<close> by (simp add: suits_def popNode_def)
  qed
  then show ?thesis using rt by (auto simp: like_def popNode_def)
qed

text \<open>C26 (readers_agree). A document that \<^verbatim>\<open>Reader\<close> parses without an error, \<^verbatim>\<open>OurReader\<close> parses without an error,
  and its value is the same at every depth, offsets included, but for the comments and for the choice
  between a signed and an unsigned integer. This holds for features that say the same (\<open>suits\<close>: \<^verbatim>\<open>OurReader\<close> is
  not told to reject more), a root that was well formed before, and documents below a gigabyte, and unless the whole value is the number 0,
  which \<^verbatim>\<open>Reader\<close> also reads from a text like \<^verbatim>\<open>-Infinity\<close>.\<close>

theorem readers_agree:
  assumes "parse feats doc root0 collect = Inr (True, r)" "suits feats (rd_features o')"
    "jv_ok root0" "length doc < 2 ^ 30" "integer_of (payload (rd_root r)) \<noteq> Some 0"
  shows "\<exists>r'. our_parse doc root0 collect o' = Inr (True, r') \<and> bare (rd_root r') = bare (rd_root r)"
  using parse_in_step [OF assms(2,1,3-5)] by (simp add: like_def)

definition default_features :: our_features where
  "default_features = our_all\<lparr>of_allowComments := True, of_allowTrailingCommas := True, of_stackLimit := 1000,
     of_skipBom := True\<rparr>"

lemma suits_default: "suits features_all default_features"
  by (simp add: suits_def features_all_def default_features_def our_all_def stackLimit_g_def)

theorem readers_agree_witness:
  "\<exists>r r'. parse features_all ''[3000000000, -1] // x'' nullSingleton True = Inr (True, r) \<and>
     our_parse ''[3000000000, -1] // x'' nullSingleton True (our_new default_features) = Inr (True, r') \<and>
     bare (rd_root r') = bare (rd_root r)"
proof -
  let ?doc = "''[3000000000, -1] // x''"
  have "case parse features_all ?doc nullSingleton True of
      Inr (ok, r) \<Rightarrow> ok \<and> integer_of (payload (rd_root r)) \<noteq> Some 0 | _ \<Rightarrow> False" by code_simp
  then obtain r where r: "parse features_all ?doc nullSingleton True = Inr (True, r)" "integer_of (payload (rd_root r)) \<noteq> Some 0"
    by (auto split: sum.splits)
  have "suits features_all (rd_features (our_new default_features))" using suits_default by (simp add: our_new_def)
  from readers_agree [OF r(1) this _ _ r(2)] r(1) show ?thesis by simp
qed

section \<open>Streams\<close>

lemma default_reader:
  "rbind crb_new newCharReader = Inr \<lparr>cr_collectComments = True, cr_reader = our_new default_features\<rparr>"
  by code_simp

lemma value_from_stream_eq:
  "value_from_stream doc root0 = rbind (our_parse doc root0 True (our_new default_features)) (\<lambda>(ok, r).
     if ok then Inr (rd_root r) else Inl (RuntimeError (our_getFormattedErrorMessages r)))"
proof -
  obtain b where b: "crb_new = Inr b" "newCharReader b = Inr \<lparr>cr_collectComments = True, cr_reader = our_new default_features\<rparr>"
    using default_reader by (auto simp: rbind_eq_Inr)
  show ?thesis
    by (cases "our_parse doc root0 True (our_new default_features)")
      (auto simp: value_from_stream_def parseFromStream_def char_reader_parse_def b)
qed

lemma value_eq_plain: "value_eq v w \<Longrightarrow> value_eq (bare v) (bare w)"
  and amap_eq_plain: "amap_eq m n \<Longrightarrow> amap_eq (map (map_prod id bare) m) (map (map_prod id bare) n)"
  and omap_eq_plain: "omap_eq m' n' \<Longrightarrow> omap_eq (map (map_prod id bare) m') (map (map_prod id bare) n')"
proof (induction v w and m n and m' n' rule: value_eq_amap_eq_omap_eq.induct)
  case (1 d c s l d' c' s' l')
  then show ?case by (cases d; cases d') (auto simp: id_def)
qed auto

lemma stream_zero:
  assumes "printable (\<lambda>_. True) n v" "value_to_stream [] v = Inr out" "integer_of (payload v) = Some 0"
  shows "\<exists>w. value_from_stream out nullSingleton = Inr w \<and> value_eq (bare w) (bare v)"
proof -
  obtain d c s l where v: "v = Value d c s l" by (cases v)
  have d: "d = IntV 0" using assms(1,3) unfolding v
    by (cases n; cases d) (auto simp: integer_of_def printable_scalar_def plain_scalar_def int_limits)
  have "styled_text [] True v = ''0''"
    by (simp add: styled_text.simps [of _ _ v] v d scalar_text_def) code_simp
  then have "out = ''0''"
    using stream_of_comment_free [OF printable_comment_free [OF assms(1)], of "[]"] assms(2) by simp
  moreover have "case value_from_stream ''0'' nullSingleton of Inr w \<Rightarrow> payload w = IntV 0 | _ \<Rightarrow> False" by code_simp
  ultimately obtain w where w: "value_from_stream out nullSingleton = Inr w" "payload w = IntV 0" by (auto split: sum.splits)
  have "value_eq (bare w) (bare v)" using w(2) by (cases w) (simp add: v d)
  with w(1) show ?thesis by blast
qed

text \<open>C15 (stream_roundtrip). What \<^verbatim>\<open>operator<<\<close> prints of a value, \<^verbatim>\<open>operator>>\<close> reads back: it throws nothing, and the value
  it yields equals the printed one up to the choice between signed and unsigned integers, which the two readers make differently
  (\<open>bare\<close> forgets it, and the comments).
  This holds for the values of \<open>print_parse_roundtrip\<close> whose text is shorter than a gigabyte.\<close>

theorem stream_roundtrip:
  assumes "printable (\<lambda>_. True) n v" "n \<le> 999" "value_to_stream [] v = Inr out" "length out < 2 ^ 30"
  shows "\<exists>w. value_from_stream out nullSingleton = Inr w \<and> value_eq (bare w) (bare v)"
proof (cases "integer_of (payload v) = Some 0")
  case True
  show ?thesis by (rule stream_zero [OF assms(1,3) True])
next
  case False
  have st: "out = styled_text [] True v"
    using stream_of_comment_free [OF printable_comment_free [OF assms(1)], of "[]"] assms(3) by simp
  have "json_text n v (styled_text [] True v)" by (rule styled_text_json [OF assms(1)]) simp
  from reader_accepts [OF this assms(2), of "[]" "[]"] st obtain x where
    x: "reader_parse out = Inr (True, x)" "value_eq x v" by auto
  then obtain r where r: "parse features_all out nullSingleton True = Inr (True, r)" "rd_root r = x"
    by (auto simp: reader_parse_def rbind_eq_Inr)
  have nz: "integer_of (payload (rd_root r)) \<noteq> Some 0" using x(2) r(2) False
    by (cases x; cases v; cases "payload x"; cases "payload v") (auto simp: integer_of_def)
  have "suits features_all (rd_features (our_new default_features))" using suits_default by (simp add: our_new_def)
  from parse_in_step [OF this r(1) _ assms(4) nz] show ?thesis
    using value_eq_plain [OF x(2)] r(2) by (auto simp: value_from_stream_eq like_def)
qed

theorem stream_roundtrip_witness:
  "let v = initBasic (ObjectV [(''a'', value_of_bool True)])
   in \<exists>out w. value_to_stream [] v = Inr out \<and> value_from_stream out nullSingleton = Inr w \<and> value_eq (bare w) (bare v)"
proof -
  let ?b = "value_of_bool True" and ?out = "''{'' @ [LF, TAB] @ ''\"a\" : true'' @ [LF] @ ''}''"
  let ?v = "initBasic (ObjectV [(''a'', ?b)])"
  have "utf8_text ''a''" by (rule utf8_ascii) simp
  then have p: "printable (\<lambda>_. True) (Suc 0) ?v"
    by (simp add: initBasic_def plain_scalar_def printable_scalar_def smap_ok_def hasCommentForValue_def
        hasComment_def comments_has_def)
  have q: "valueToQuotedStringN ''a'' False = ''\"a\"''" by code_simp
  have ch: "object_children ?v = [(''a'', ?b)]"
    by (simp add: object_children_def getMemberNames_def members_def initBasic_def)
  have "styled_text [] True ?v = ?out"
    by (simp add: styled_text.simps [of _ _ ?v] styled_text.simps [of _ _ ?b] ch q)
      (simp add: initBasic_def scalar_text_def valueToString_bool_def)
  then have out: "value_to_stream [] ?v = Inr ?out"
    using stream_of_comment_free [OF printable_comment_free [OF p], of "[]"] by simp
  from stream_roundtrip [OF p _ out] out show ?thesis by (simp add: Let_def)
qed

section \<open>Where both readers accept what is no JSON\<close>

text \<open>A byte with which a number does not go on after its sign.\<close>

definition not_in_number :: "char \<Rightarrow> bool" where
  "not_in_number c \<longleftrightarrow> \<not> is_digit c \<and> c \<noteq> CHR ''.'' \<and> c \<noteq> CHR ''e'' \<and> c \<noteq> CHR ''E''"

lemma numberScan_none: "t = [] \<or> not_in_number (hd t) \<Longrightarrow> numberScan t = 0"
  by (cases t) (auto simp: numberScan_def digits_len_def fractionScan_def exponentScan_def not_in_number_def)

lemma lone_minus_value:
  fixes t :: string
  defines "r0 \<equiv> mk_reader features_all (CHR ''-'' # t) nullSingleton True"
  assumes "t = [] \<or> not_in_number (hd t)"
  shows "\<exists>r. readValue (Suc n) r0 = Inr (True, r) \<and> payload (rd_root r) = IntV 0"
proof -
  let ?t = "\<lparr>tok_type = tokenNumber, tok_start = 0, tok_end = Suc 0\<rparr>"
  have f: "rest r0 = CHR ''-'' # t" "rd_current r0 = 0" "rd_nodes r0 = [[]]" "rd_features r0 = features_all" "rd_commentsBefore r0 = []"
    "rd_document r0 = CHR ''-'' # t" "rd_collectComments r0"
    by (simp_all add: r0_def mk_reader_def rest_def features_all_def)
  have "skipSpaces r0 = r0" by (simp add: skipSpaces_def f is_space_def advance_def)
  then have "getNextChar (skipSpaces r0) = (CHR ''-'', advance (Suc 0) r0)" by (simp add: getNextChar_def f)
  moreover have "rest (advance (Suc 0) r0) = t" by (simp add: rest_def advance_def f)
  then have "readNumber (advance (Suc 0) r0) = advance (Suc 0) r0" using numberScan_none [OF assms(2)] by (simp add: readNumber_def advance_def)
  then have "tokenBody (CHR ''-'') (advance (Suc 0) r0) = Inr (tokenNumber, True, advance (Suc 0) r0)" by (simp add: tokenBody_def)
  ultimately have "readToken r0 = Inr (True, ?t, advance (Suc 0) r0)"
    using \<open>skipSpaces r0 = r0\<close> by (simp add: readToken_def f) (simp add: advance_def f)
  then have sk: "skipCommentTokens r0 = Inr (?t, advance (Suc 0) r0)"
    by (simp add: skipCommentTokens_def f skipComments.simps advance_def)
  have "token_text ?t (advance (Suc 0) r0) = ''-''" by (simp add: token_text_def slice_def advance_def f)
  then have sc: "readScalar ?t (advance (Suc 0) r0) =
      (True, set_current (\<lambda>v. offsets ?t (set_payload (IntV 0) v)) (advance (Suc 0) r0))"
    by (simp add: readScalar_def decodeNumber_def minus_alone storeDecoded_def)
  have "readValue (Suc n) r0 = Inr (True, rememberLast (set_current (\<lambda>v. offsets ?t (set_payload (IntV 0) v)) (advance (Suc 0) r0)))"
    using sc by (simp add: sk takeCommentsBefore_def isScalarToken_def f stackLimit_g_def advance_def)
  moreover have "payload (rd_root (rememberLast (set_current (\<lambda>v. offsets ?t (set_payload (IntV 0) v)) (advance (Suc 0) r0)))) = IntV 0"
    by (simp add: rememberLast_def set_current_def f advance_def offsets_def setOffsetLimit_def setOffsetStart_def set_payload_def)
  ultimately show ?thesis by blast
qed

text \<open>C27 (lone_minus_is_zero). A document that starts with a minus sign after which no number goes on is parsed by
  \<^verbatim>\<open>Reader\<close> without an error as the integer 0, whatever follows: the sign alone is the token, \<^verbatim>\<open>decodeNumber\<close> finds no digit to refuse, and what
  comes after the value is not looked at. \<^verbatim>\<open>-Infinity\<close> is one of them. JSON knows no such number.\<close>

theorem lone_minus_is_zero:
  assumes "t = [] \<or> not_in_number (hd t)"
  shows "\<exists>v. reader_parse (CHR ''-'' # t) = Inr (True, v) \<and> integer_of (payload v) = Some 0"
proof -
  let ?r = "mk_reader features_all (CHR ''-'' # t) nullSingleton True"
  obtain r1 where v: "readValue (parse_fuel (CHR ''-'' # t)) ?r = Inr (True, r1)" and p: "payload (rd_root r1) = IntV 0"
    using lone_minus_value [OF assms, of "Suc (2 * length (CHR ''-'' # t))"] by (auto simp: parse_fuel_def)
  have "value_post ?r (True, r1)" using guardedD(1) [OF guarded_all value_pre_init] v by (metis safe_simps(1))
  then have r1: "steady r1" "jv_ok (rd_root r1)" by (simp_all add: value_post_def progress_def mk_reader_def)
  have td: "tidy (bare (rd_root r1))" by (rule tidy_plain [OF r1(2)])
  obtain tok r2 where t: "skipCommentTokens r1 = Inr (tok, r2)" "calm r1 r2"
    using safe_skipCommentTokens [OF r1(1), of "{}"] by (cases "skipCommentTokens r1") auto
  have l2: "like (rd_root r2) (rd_root r1)" by (rule skipCommentTokens_plain [OF t(1) td])
  let ?m = "if rd_collectComments r2 \<and> rd_commentsBefore r2 \<noteq> []
            then update_res [] (setComment (rd_commentsBefore r2) commentAfter) r2 else Inr r2"
  have "safe_in {} (calm r2) ?m"
    using safe_comment [of "[]" r2 "rd_commentsBefore r2" commentAfter] steady_calm [OF r1(1) t(2)] by (auto simp: steady_def)
  then obtain r3 where r3: "?m = Inr r3" by (cases ?m) auto
  have "annotated r2 r3" using r3 by (auto intro: annotated_root split: if_splits dest!: comment_root)
  then have "like (rd_root r3) (rd_root r1)" using l2 td annotated_like [of r2 r3] by (auto simp: like_def)
  then have "integer_of (payload (rd_root r3)) = Some 0" using p
    by (cases "payload (rd_root r3)") (simp_all add: like_iff integer_of_def)
  moreover have "parse features_all (CHR ''-'' # t) nullSingleton True = Inr (True, r3)"
    unfolding parse_def v rbind_Inr prod.case t(1) r3 by (simp add: features_all_def)
  ultimately show ?thesis by (simp add: reader_parse_def)
qed

theorem lone_minus_is_zero_witness:
  "\<exists>v. reader_parse ''-Infinity // see ]'' = Inr (True, v) \<and> integer_of (payload v) = Some 0"
  using lone_minus_is_zero [of "''Infinity // see ]''"] by (simp add: not_in_number_def is_digit_def)

definition reader_takes :: "string \<Rightarrow> (jvalue \<Rightarrow> bool) \<Rightarrow> bool" where
  "reader_takes doc P = (case reader_parse doc of Inr (ok, v) \<Rightarrow> ok \<and> P v | _ \<Rightarrow> False)"

definition stream_takes :: "string \<Rightarrow> (jvalue \<Rightarrow> bool) \<Rightarrow> bool" where
  "stream_takes doc P = (case value_from_stream doc nullSingleton of Inr v \<Rightarrow> P v | _ \<Rightarrow> False)"

lemma any_token_separates_members:
  "reader_takes ''{\"a\":1/**/:\"b\":2}'' (\<lambda>v. getMemberNames v = Inr [''a'', ''b''])"
  "stream_takes ''{\"a\":1/**/:\"b\":2}'' (\<lambda>v. getMemberNames v = Inr [''a'', ''b''])"
  by code_simp+

lemma minus_sign_is_zero:
  "reader_takes ''-Infinity'' (\<lambda>v. payload v = IntV 0)" "\<not> stream_takes ''-Infinity'' (\<lambda>_. True)"
  "stream_takes ''-'' (\<lambda>v. payload v = IntV 0)"
  by code_simp+

lemma large_integer_types:
  "reader_takes ''3000000000'' (\<lambda>v. stream_takes ''3000000000'' (\<lambda>w. \<not> value_eq v w))"
  by code_simp

lemma plus_sign: "\<not> reader_takes ''[+1]'' (\<lambda>_. True)" "stream_takes ''[+1]'' (\<lambda>_. True)"
  by code_simp+

text \<open>Where the readers part from JSON or from each other: after a comment any token,
  here a colon, separates two members; a minus sign alone is the number 0 for both, and so
  \<^verbatim>\<open>Reader\<close> accepts \<^verbatim>\<open>-Infinity\<close> as 0, which \<^verbatim>\<open>OurReader\<close> refuses; \<^verbatim>\<open>OurReader\<close> accepts a number with a plus sign,
  which \<^verbatim>\<open>Reader\<close> refuses; and the values that the two read from \<^verbatim>\<open>3000000000\<close> are not equal, because the
  one is unsigned and the other signed.\<close>

lemma readers_boundary_cases:
  "reader_takes ''{\"a\":1/**/:\"b\":2}'' (\<lambda>v. getMemberNames v = Inr [''a'', ''b'']) \<and>
   stream_takes ''{\"a\":1/**/:\"b\":2}'' (\<lambda>v. getMemberNames v = Inr [''a'', ''b'']) \<and>
   reader_takes ''-Infinity'' (\<lambda>v. payload v = IntV 0) \<and> \<not> stream_takes ''-Infinity'' (\<lambda>_. True) \<and>
   stream_takes ''-'' (\<lambda>v. payload v = IntV 0) \<and>
   \<not> reader_takes ''[+1]'' (\<lambda>_. True) \<and> stream_takes ''[+1]'' (\<lambda>_. True) \<and>
   reader_takes ''3000000000'' (\<lambda>v. stream_takes ''3000000000'' (\<lambda>w. \<not> value_eq v w))"
  by (simp add: any_token_separates_members minus_sign_is_zero plus_sign large_integer_types)

end
