(* ===== verification/Value_Iterators.thy ===== *)
theory Value_Iterators
  imports Json_Writer Json_Laws
begin

text \<open>
  The iterators of \<^verbatim>\<open>Json::Value\<close> (\<^verbatim>\<open>jsoncpp/src/json_valueiterator.inl\<close>, \<^verbatim>\<open>begin\<close> and \<^verbatim>\<open>end\<close> in \<^verbatim>\<open>json_value.cpp\<close>,
  the operators in \<^verbatim>\<open>json/value.h\<close>). An iterator wraps one of \<^verbatim>\<open>std::map\<close>, which stays at its key
  while other keys come and go; the operations take the value that is iterated over. Moving past an end, or
  using an iterator whose key has been erased, is undefined in C++ and a \<open>DanglingPointer\<close> here.
\<close>

section \<open>The container\<close>

datatype map_key = IndexKey nat | NameKey string

text \<open>\<^verbatim>\<open>value_.map_\<close>: arrays and objects are both maps, keyed by \<^verbatim>\<open>CZString\<close>.\<close>

fun map_entries :: "jdata \<Rightarrow> (map_key \<times> jvalue) list option" where
  "map_entries (ArrayV m) = Some (map (\<lambda>(i, w). (IndexKey i, w)) m)"
| "map_entries (ObjectV m) = Some (map (\<lambda>(k, w). (NameKey k, w)) m)"
| "map_entries _ = None"

definition entries :: "jvalue \<Rightarrow> (map_key \<times> jvalue) list" where
  "entries v = (case map_entries (payload v) of None \<Rightarrow> [] | Some es \<Rightarrow> es)"

section \<open>Iterators\<close>

datatype map_position = Singular | At map_key | PastEnd

record value_iterator =
  it_current :: map_position
  it_isNull :: bool

definition first_position :: "(map_key \<times> jvalue) list \<Rightarrow> map_position" where
  "first_position es = (case es of [] \<Rightarrow> PastEnd | (k, _) # _ \<Rightarrow> At k)"

definition iterator_null :: value_iterator where
  "iterator_null = \<lparr>it_current = Singular, it_isNull = True\<rparr>"

definition iterator_at :: "map_position \<Rightarrow> value_iterator" where
  "iterator_at p = \<lparr>it_current = p, it_isNull = False\<rparr>"

definition value_begin :: "jvalue \<Rightarrow> value_iterator" where
  "value_begin v = (case map_entries (payload v) of
       None \<Rightarrow> iterator_null | Some es \<Rightarrow> iterator_at (first_position es))"

definition value_end :: "jvalue \<Rightarrow> value_iterator" where
  "value_end v = (case map_entries (payload v) of
       None \<Rightarrow> iterator_null | Some es \<Rightarrow> iterator_at PastEnd)"

text \<open>The successor and the predecessor of a position in \<^verbatim>\<open>std::map\<close>.\<close>

fun next_position :: "(map_key \<times> jvalue) list \<Rightarrow> map_position \<Rightarrow> map_position res" where
  "next_position ((k, _) # es) (At k') =
     (if k = k' then Inr (first_position es) else next_position es (At k'))"
| "next_position _ _ = Inl DanglingPointer"

fun before_position :: "map_position \<Rightarrow> (map_key \<times> jvalue) list \<Rightarrow> map_position \<Rightarrow> map_position res" where
  "before_position prev [] p = (if p = PastEnd then Inr prev else Inl DanglingPointer)"
| "before_position prev ((k, _) # es) p = (if p = At k then Inr prev else before_position (At k) es p)"

definition prev_position :: "(map_key \<times> jvalue) list \<Rightarrow> map_position \<Rightarrow> map_position res" where
  "prev_position es p =
     rbind (before_position Singular es p) (\<lambda>q. if q = Singular then Inl DanglingPointer else Inr q)"

definition current_entry :: "jvalue \<Rightarrow> value_iterator \<Rightarrow> (map_key \<times> jvalue) res" where
  "current_entry v it = (case it_current it of
       At k \<Rightarrow> (case map_of (entries v) k of None \<Rightarrow> Inl DanglingPointer | Some w \<Rightarrow> Inr (k, w))
     | _ \<Rightarrow> Inl DanglingPointer)"

definition deref :: "jvalue \<Rightarrow> value_iterator \<Rightarrow> jvalue res" where
  "deref v it = rbind (current_entry v it) (\<lambda>(_, w). Inr w)"

definition increment :: "jvalue \<Rightarrow> value_iterator \<Rightarrow> value_iterator res" where
  "increment v it = rbind (next_position (entries v) (it_current it)) (\<lambda>p. Inr (it\<lparr>it_current := p\<rparr>))"

definition decrement :: "jvalue \<Rightarrow> value_iterator \<Rightarrow> value_iterator res" where
  "decrement v it = rbind (prev_position (entries v) (it_current it)) (\<lambda>p. Inr (it\<lparr>it_current := p\<rparr>))"

text \<open>\<^verbatim>\<open>it++\<close> and \<^verbatim>\<open>it--\<close>: the old iterator and the new one.\<close>

definition post_increment :: "jvalue \<Rightarrow> value_iterator \<Rightarrow> (value_iterator \<times> value_iterator) res" where
  "post_increment v it = rbind (increment v it) (\<lambda>it'. Inr (it, it'))"

definition post_decrement :: "jvalue \<Rightarrow> value_iterator \<Rightarrow> (value_iterator \<times> value_iterator) res" where
  "post_decrement v it = rbind (decrement v it) (\<lambda>it'. Inr (it, it'))"

definition iterator_eq :: "value_iterator \<Rightarrow> value_iterator \<Rightarrow> bool" where
  "iterator_eq it other = (if it_isNull it then it_isNull other else it_current it = it_current other)"

text \<open>The hand-made loop of \<^verbatim>\<open>computeDistance\<close>; \<open>es\<close> is the part of the map from \<^verbatim>\<open>it\<close> on. The count is an \<^verbatim>\<open>int\<close>.\<close>

fun distance_loop :: "(map_key \<times> jvalue) list \<Rightarrow> map_position \<Rightarrow> int \<Rightarrow> int res" where
  "distance_loop es target myDistance =
     (if first_position es = target then Inr myDistance
      else case es of [] \<Rightarrow> Inl DanglingPointer | _ # es' \<Rightarrow> distance_loop es' target (s32 (myDistance + 1)))"

definition entries_from :: "(map_key \<times> jvalue) list \<Rightarrow> map_position \<Rightarrow> (map_key \<times> jvalue) list" where
  "entries_from es p = dropWhile (\<lambda>e. At (fst e) \<noteq> p) es"

definition computeDistance :: "jvalue \<Rightarrow> value_iterator \<Rightarrow> value_iterator \<Rightarrow> int res" where
  "computeDistance v it other =
     (if it_isNull it \<and> it_isNull other then Inr 0
      else if it_isNull it \<or> it_isNull other then Inl DanglingPointer
      else distance_loop (entries_from (entries v) (it_current it)) (it_current other) 0)"

definition iterator_minus :: "jvalue \<Rightarrow> value_iterator \<Rightarrow> value_iterator \<Rightarrow> int res" where
  "iterator_minus v it other = computeDistance v other it"

text \<open>What an iterator says of its key. The key of an array element is an unsigned integer.\<close>

definition iterator_key :: "jvalue \<Rightarrow> value_iterator \<Rightarrow> jvalue res" where
  "iterator_key v it = rbind (current_entry v it) (\<lambda>(k, _).
     Inr (case k of NameKey s \<Rightarrow> value_of_string s | IndexKey i \<Rightarrow> initBasic (UIntV (int i))))"

definition iterator_index :: "jvalue \<Rightarrow> value_iterator \<Rightarrow> int res" where
  "iterator_index v it = rbind (current_entry v it) (\<lambda>(k, _).
     Inr (case k of NameKey s \<Rightarrow> u32 (- 1) | IndexKey i \<Rightarrow> int i))"

text \<open>\<^verbatim>\<open>memberName(&end)\<close>: None is the null pointer. \<^verbatim>\<open>memberName()\<close> is a C string.\<close>

definition memberName_end :: "jvalue \<Rightarrow> value_iterator \<Rightarrow> string option res" where
  "memberName_end v it = rbind (current_entry v it) (\<lambda>(k, _).
     Inr (case k of NameKey s \<Rightarrow> Some s | IndexKey i \<Rightarrow> None))"

definition memberName_cstr :: "jvalue \<Rightarrow> value_iterator \<Rightarrow> string res" where
  "memberName_cstr v it = rbind (current_entry v it) (\<lambda>(k, _).
     Inr (case k of NameKey s \<Rightarrow> takeWhile (\<lambda>c. c \<noteq> NUL) s | IndexKey i \<Rightarrow> []))"

definition iterator_name :: "jvalue \<Rightarrow> value_iterator \<Rightarrow> string res" where
  "iterator_name v it = rbind (memberName_end v it) (\<lambda>keey.
     Inr (case keey of None \<Rightarrow> [] | Some s \<Rightarrow> s))"

text \<open>Making a mutable iterator from a constant one always throws.\<close>

definition iterator_of_const :: "value_iterator \<Rightarrow> value_iterator res" where
  "iterator_of_const other = Inl (RuntimeError ''ConstIterator to Iterator should never be allowed.'')"

text \<open>\<^verbatim>\<open>for (auto it = v.begin(); it != v.end(); ++it)\<close>, collecting the name and the value.\<close>

definition iterate_step :: "jvalue \<Rightarrow> value_iterator \<Rightarrow> ((string \<times> jvalue) \<times> value_iterator) res" where
  "iterate_step v it = rbind (iterator_name v it) (\<lambda>n. rbind (deref v it) (\<lambda>w.
     rbind (increment v it) (\<lambda>it'. Inr ((n, w), it'))))"

partial_function (option) iterate_from :: "jvalue \<Rightarrow> value_iterator \<Rightarrow> (string \<times> jvalue) list res option" where
  "iterate_from v it =
     (if iterator_eq it (value_end v) then Some (Inr [])
      else case iterate_step v it of
             Inl e \<Rightarrow> Some (Inl e)
           | Inr p \<Rightarrow> Option.bind (iterate_from v (snd p)) (\<lambda>r. Some (rbind r (\<lambda>rest. Inr (fst p # rest)))))"

section \<open>Laws\<close>

lemma entries_distinct:
  assumes "jv_ok v"
  shows "distinct (map fst (entries v))"
proof (cases "payload v")
  case (ArrayV m)
  then have "distinct (map fst m)" using assms by (simp add: jv_ok_payload kids_ok_def smap_ok_distinct)
  moreover have "map fst (entries v) = map IndexKey (map fst m)" by (simp add: entries_def ArrayV case_prod_beta comp_def)
  ultimately show ?thesis by (simp add: distinct_map inj_on_def)
next
  case (ObjectV m)
  then have "distinct (map fst m)" using assms by (simp add: jv_ok_payload kids_ok_def smap_ok_distinct)
  moreover have "map fst (entries v) = map NameKey (map fst m)" by (simp add: entries_def ObjectV case_prod_beta comp_def)
  ultimately show ?thesis by (simp add: distinct_map inj_on_def)
qed (simp_all add: entries_def)

lemma entries_some: "entries v = e # es \<Longrightarrow> \<exists>es'. map_entries (payload v) = Some es'"
  by (auto simp: entries_def split: option.splits)

lemma next_position_at:
  assumes "distinct (map fst (xs @ (k, w) # ys))"
  shows "next_position (xs @ (k, w) # ys) (At k) = Inr (first_position ys)"
  using assms by (induction xs) auto

lemma entries_from_at:
  assumes "distinct (map fst (xs @ ys))"
  shows "entries_from (xs @ ys) (first_position ys) = ys"
proof -
  have "\<forall>e\<in>set xs. At (fst e) \<noteq> first_position ys"
    using assms by (cases ys) (force simp: first_position_def)+
  then have "dropWhile (\<lambda>e. At (fst e) \<noteq> first_position ys) (xs @ ys) = dropWhile (\<lambda>e. At (fst e) \<noteq> first_position ys) ys"
    by (simp add: dropWhile_append)
  then show ?thesis by (cases ys) (auto simp: entries_from_def first_position_def)
qed

lemma before_position_at:
  assumes "distinct (map fst (xs @ ys))" "xs \<noteq> [] \<or> ys \<noteq> []"
  shows "before_position prev (xs @ ys) (first_position ys) = Inr (if xs = [] then prev else At (fst (last xs)))"
  using assms
proof (induction xs arbitrary: prev)
  case Nil
  then show ?case by (cases ys) (auto simp: first_position_def)
next
  case (Cons x xs)
  have "first_position ys \<noteq> At (fst x)" using Cons.prems(1) by (cases ys) (auto simp: first_position_def)
  moreover have "before_position (At (fst x)) (xs @ ys) (first_position ys) = Inr (if xs = [] then At (fst x) else At (fst (last xs)))"
  proof (cases "xs = [] \<and> ys = []")
    case False
    then show ?thesis using Cons by simp
  qed (simp add: first_position_def)
  ultimately show ?case by (cases x) simp
qed

lemma distance_loop_suffix:
  assumes "distinct (map fst (xs @ ys))" "0 \<le> n" "n + int (length xs) \<le> INT_MAX"
  shows "distance_loop (xs @ ys) (first_position ys) n = Inr (n + int (length xs))"
  using assms
proof (induction xs arbitrary: n)
  case Nil
  then show ?case by (subst distance_loop.simps) simp
next
  case (Cons x xs)
  have ne: "first_position (x # xs @ ys) \<noteq> first_position ys"
    using Cons.prems(1) by (cases x; cases ys) (auto simp: first_position_def)
  have "s32 (n + 1) = n + 1" using Cons.prems by (intro s32_id) (simp_all add: int_limits)
  then show ?case using Cons.IH [of "n + 1"] Cons.prems ne by (subst distance_loop.simps) simp
qed

text \<open>The iterator at the part \<open>ys\<close> of the entries.\<close>

abbreviation iterator_of :: "(map_key \<times> jvalue) list \<Rightarrow> value_iterator" where
  "iterator_of ys \<equiv> iterator_at (first_position ys)"

lemma value_begin_end:
  "entries v \<noteq> [] \<Longrightarrow> value_begin v = iterator_of (entries v) \<and> value_end v = iterator_of []"
  "value_begin v = value_end v \<longleftrightarrow> entries v = []"
  by (auto simp: value_begin_def value_end_def entries_def first_position_def iterator_at_def split: option.splits list.splits)

lemma current_entry_at:
  "distinct (map fst (entries v)) \<Longrightarrow> entries v = xs @ (k, w) # ys \<Longrightarrow>
   current_entry v (iterator_of ((k, w) # ys)) = Inr (k, w)"
  using map_of_is_SomeI [of "entries v" k w] by (simp add: current_entry_def iterator_at_def first_position_def)

fun key_name :: "map_key \<Rightarrow> string" where
  "key_name (NameKey s) = s"
| "key_name (IndexKey i) = []"

lemma iterate_step_at:
  assumes "distinct (map fst (entries v))" "entries v = xs @ (k, w) # ys"
  shows "iterate_step v (iterator_of ((k, w) # ys)) = Inr ((key_name k, w), iterator_of ys)"
proof -
  have "increment v (iterator_of ((k, w) # ys)) = Inr (iterator_of ys)"
    using next_position_at [of xs k w ys] assms by (simp add: increment_def iterator_at_def first_position_def)
  then show ?thesis using current_entry_at [OF assms]
    by (cases k) (simp_all add: iterate_step_def iterator_name_def memberName_end_def deref_def)
qed

lemma iterate_from_at:
  assumes "distinct (map fst (entries v))" "entries v = xs @ ys" "entries v \<noteq> []"
  shows "iterate_from v (iterator_of ys) = Some (Inr (map (\<lambda>(k, w). (key_name k, w)) ys))"
  using assms
proof (induction ys arbitrary: xs)
  case Nil
  then show ?case by (subst iterate_from.simps) (simp add: value_begin_end iterator_eq_def)
next
  case (Cons y ys)
  obtain k w where y: "y = (k, w)" by force
  have "\<not> iterator_eq (iterator_of (y # ys)) (value_end v)"
    using Cons.prems(3) by (simp add: value_begin_end iterator_eq_def iterator_at_def first_position_def y)
  then show ?case
    using Cons.IH [of "xs @ [y]"] Cons.prems iterate_step_at [of v xs k w ys] y
    by (subst iterate_from.simps) simp
qed

lemma value_entries_entries: "value_entries v = map (\<lambda>(k, w). (key_name k, w)) (entries v)"
  by (cases "payload v") (auto simp: value_entries_def entries_def comp_def case_prod_beta)

lemma decrement_at:
  assumes "distinct (map fst (entries v))" "entries v = xs @ (k, w) # ys"
  shows "decrement v (iterator_of ys) = Inr (iterator_of ((k, w) # ys))"
  using before_position_at [of "xs @ [(k, w)]" ys Singular] assms
  by (simp add: decrement_def prev_position_def iterator_at_def first_position_def)

lemma distance_at:
  assumes "distinct (map fst (entries v))" "entries v = xs @ ys @ zs" "int (length ys) \<le> INT_MAX"
  shows "iterator_minus v (iterator_of zs) (iterator_of (ys @ zs)) = Inr (int (length ys))"
  using entries_from_at [of xs "ys @ zs"] distance_loop_suffix [of ys zs 0] assms
  by (simp add: iterator_minus_def computeDistance_def iterator_at_def)

lemma entries_find: "(NameKey s, w) \<in> set (entries v) \<Longrightarrow> jv_ok v \<Longrightarrow> members v s = Some w"
  "(IndexKey i, w) \<in> set (entries v) \<Longrightarrow> jv_ok v \<Longrightarrow> elements v i = Some w"
  by (cases "payload v"; force simp: entries_def members_def elements_def jv_ok_payload kids_ok_def smap_find_iff)+

section \<open>Properties\<close>

lemma iterator_at_entry:
  assumes "jv_ok v" "(k, w) \<in> set (entries v)"
  shows "deref v (iterator_at (At k)) = Inr w \<and>
    (case k of
       NameKey s \<Rightarrow> iterator_key v (iterator_at (At k)) = Inr (value_of_string s) \<and>
         iterator_name v (iterator_at (At k)) = Inr s \<and> members v s = Some w
     | IndexKey i \<Rightarrow> iterator_key v (iterator_at (At k)) = Inr (initBasic (UIntV (int i))) \<and>
         iterator_index v (iterator_at (At k)) = Inr (int i) \<and> elements v i = Some w) \<and>
    rbind (increment v (iterator_at (At k))) (decrement v) = Inr (iterator_at (At k))"
proof -
  note d = entries_distinct [OF assms(1)]
  obtain xs ys where e: "entries v = xs @ (k, w) # ys" using split_list [OF assms(2)] by blast
  have it: "iterator_at (At k) = iterator_of ((k, w) # ys)" by (simp add: first_position_def)
  have "increment v (iterator_of ((k, w) # ys)) = Inr (iterator_of ys)"
    using next_position_at [of xs k w ys] d e by (simp add: increment_def iterator_at_def first_position_def)
  then show ?thesis
    unfolding it using current_entry_at [OF d e] decrement_at [OF d e] entries_find [OF _ assms(1)] assms(2)
    by (cases k) (simp_all add: deref_def iterator_key_def iterator_index_def iterator_name_def memberName_end_def)
qed

lemma iterate_all:
  assumes "jv_ok v" "int (length (entries v)) \<le> INT_MAX"
  shows "iterate_from v (value_begin v) = Some (Inr (value_entries v))"
    "iterator_minus v (value_end v) (value_begin v) = Inr (int (length (entries v)))"
proof (goal_cases)
  case 1
  note d = entries_distinct [OF assms(1)]
  show ?case
  proof (cases "entries v = []")
    case True
    then have "value_begin v = value_end v" by (simp add: value_begin_end)
    then show ?thesis using True by (subst iterate_from.simps) (simp add: value_entries_entries iterator_eq_def)
  qed (use iterate_from_at [OF d, of "[]" "entries v"] in \<open>simp add: value_begin_end value_entries_entries\<close>)
next
  case 2
  note d = entries_distinct [OF assms(1)]
  show ?case
  proof (cases "entries v = []")
    case True
    then have "value_begin v = value_end v" by (simp add: value_begin_end)
    then show ?thesis
      using True by (auto simp: iterator_minus_def computeDistance_def value_end_def entries_from_def iterator_null_def iterator_at_def
        first_position_def split: option.splits)
  qed (use distance_at [OF d, of "[]" "entries v" "[]"] assms(2) in \<open>simp add: value_begin_end\<close>)
qed

text \<open>C35 (iteration_visits_entries). A loop from \<^verbatim>\<open>begin()\<close> to \<^verbatim>\<open>end()\<close> ends, uses no invalid iterator, and visits each
  member or element once, in the order of the keys; on a value without members it visits nothing. The difference of the two
  iterators is the number of entries. At each entry, the iterator reads the member or element that the lookup of what \<^verbatim>\<open>key()\<close>,
  \<^verbatim>\<open>name()\<close> or \<^verbatim>\<open>index()\<close> says would find, and stepping forward and back returns to it.\<close>

theorem iteration_visits_entries:
  assumes "jv_ok v" "int (length (entries v)) \<le> INT_MAX"
  shows "iterate_from v (value_begin v) = Some (Inr (value_entries v)) \<and>
    iterator_minus v (value_end v) (value_begin v) = Inr (int (length (entries v))) \<and>
    (\<forall>(k, w) \<in> set (entries v).
       deref v (iterator_at (At k)) = Inr w \<and>
       (case k of
          NameKey s \<Rightarrow> iterator_key v (iterator_at (At k)) = Inr (value_of_string s) \<and>
            iterator_name v (iterator_at (At k)) = Inr s \<and> members v s = Some w
        | IndexKey i \<Rightarrow> iterator_key v (iterator_at (At k)) = Inr (initBasic (UIntV (int i))) \<and>
            iterator_index v (iterator_at (At k)) = Inr (int i) \<and> elements v i = Some w) \<and>
       rbind (increment v (iterator_at (At k))) (decrement v) = Inr (iterator_at (At k)))"
  using iterate_all [OF assms] iterator_at_entry [OF assms(1)] by blast

theorem iteration_visits_entries_witness:
  "let v = initBasic (ObjectV [(''a'', value_of_int 1), (''b'', nullSingleton)])
   in iterate_from v (value_begin v) = Some (Inr [(''a'', value_of_int 1), (''b'', nullSingleton)]) \<and>
     iterator_minus v (value_end v) (value_begin v) = Inr 2 \<and>
     deref v (iterator_at (At (NameKey ''a''))) = Inr (value_of_int 1)"
proof -
  let ?v = "initBasic (ObjectV [(''a'', value_of_int 1), (''b'', nullSingleton)])"
  have v: "jv_ok ?v" "int (length (entries ?v)) \<le> INT_MAX" by (simp_all add: kids_ok_def int_limits entries_def)
  have "length (entries ?v) = 2" "(NameKey ''a'', value_of_int 1) \<in> set (entries ?v)" by (simp_all add: entries_def)
  moreover have "value_entries ?v = [(''a'', value_of_int 1), (''b'', nullSingleton)]" by (simp add: value_entries_def)
  ultimately show ?thesis using iteration_visits_entries [OF v] unfolding Let_def by fastforce
qed

end
