(* ===== verification/Cz_Strings.thy ===== *)
theory Cz_Strings
  imports Value_Iterators "HOL-Library.Word"
begin

unbundle bit_operations_syntax

text \<open>
  The memory behind the strings of \<^verbatim>\<open>Json::Value\<close> (\<^verbatim>\<open>jsoncpp/src/json_value.cpp\<close>, lines 108 to 334). The blocks that
  \<^verbatim>\<open>malloc\<close> hands out are numbered, and an address is not used twice; \<open>mem_fails\<close> says which calls of
  \<^verbatim>\<open>malloc\<close> return a null pointer. Freeing what is not allocated and reading outside of a block are
  \<open>DanglingPointer\<close>. An action returns its result, or the exception it throws, with the memory after it.

  A \<^verbatim>\<open>CZString\<close> is the key of an array element or of a member. Its union of an index and of the bit
  fields \<^verbatim>\<open>policy_\<close> (2 bits) and \<^verbatim>\<open>length_\<close> (30 bits) is one 32-bit word, with \<^verbatim>\<open>policy_\<close> in the low bits.
\<close>

section \<open>Memory\<close>

datatype c_pointer = NullPtr | Extern string | Block nat

record memory =
  mem_block :: "nat \<Rightarrow> string option"
  mem_next :: nat
  mem_fails :: "nat \<Rightarrow> bool"

type_synonym 'a act = "memory \<Rightarrow> 'a res \<times> memory"

definition act_return :: "'a \<Rightarrow> 'a act" where
  "act_return x m = (Inr x, m)"

definition act_throw :: "exn \<Rightarrow> 'a act" where
  "act_throw e m = (Inl e, m)"

definition act_bind :: "'a act \<Rightarrow> ('a \<Rightarrow> 'b act) \<Rightarrow> 'b act" where
  "act_bind f g m = (case f m of (Inl e, m') \<Rightarrow> (Inl e, m') | (Inr x, m') \<Rightarrow> g x m')"

definition act_read :: "(memory \<Rightarrow> 'a res) \<Rightarrow> 'a act" where
  "act_read f m = (f m, m)"

text \<open>The destructors that run while an exception passes.\<close>

definition act_cleanup :: "'a act \<Rightarrow> unit act \<Rightarrow> 'a act" where
  "act_cleanup f c m = (case f m of
       (Inl e, m') \<Rightarrow> (case c m' of (Inl e', m2) \<Rightarrow> (Inl e', m2) | (Inr _, m2) \<Rightarrow> (Inl e, m2))
     | (Inr x, m') \<Rightarrow> (Inr x, m'))"

definition malloc :: "string \<Rightarrow> c_pointer act" where
  "malloc content m =
     (if mem_fails m (mem_next m) then (Inr NullPtr, m\<lparr>mem_next := mem_next m + 1\<rparr>)
      else (Inr (Block (mem_next m)),
            m\<lparr>mem_block := (mem_block m)(mem_next m \<mapsto> content), mem_next := mem_next m + 1\<rparr>))"

definition c_free :: "c_pointer \<Rightarrow> unit act" where
  "c_free p m = (case p of
       NullPtr \<Rightarrow> (Inr (), m)
     | Extern _ \<Rightarrow> (Inl DanglingPointer, m)
     | Block a \<Rightarrow> if mem_block m a = None then (Inl DanglingPointer, m)
                  else (Inr (), m\<lparr>mem_block := (mem_block m)(a := None)\<rparr>))"

text \<open>What is at a pointer: text outside of the library ends in a NUL byte.\<close>

fun raw :: "memory \<Rightarrow> c_pointer \<Rightarrow> string option" where
  "raw m NullPtr = None"
| "raw m (Extern s) = Some (s @ [NUL])"
| "raw m (Block a) = mem_block m a"

definition bytes_at :: "c_pointer \<Rightarrow> nat \<Rightarrow> memory \<Rightarrow> string res" where
  "bytes_at p n m = (case raw m p of
       None \<Rightarrow> Inl DanglingPointer
     | Some b \<Rightarrow> if n \<le> length b then Inr (take n b) else Inl DanglingPointer)"

definition c_string :: "string \<Rightarrow> string res" where
  "c_string b = (if NUL \<in> set b then Inr (takeWhile (\<lambda>c. c \<noteq> NUL) b) else Inl DanglingPointer)"

section \<open>Duplicated strings\<close>

text \<open>
  \<^verbatim>\<open>duplicateStringValue\<close> and \<^verbatim>\<open>duplicateAndPrefixStringValue\<close>, which stores the length in the four bytes before
  the text. The content of the new block is given to \<open>malloc\<close> at once.
\<close>

definition alloc_error :: "string \<Rightarrow> 'a act" where
  "alloc_error f = act_throw (RuntimeError (''in Json::Value::'' @ f @ ''(): Failed to allocate string value buffer''))"

definition duplicateStringValue :: "c_pointer \<Rightarrow> nat \<Rightarrow> c_pointer act" where
  "duplicateStringValue value n =
     (let n' = (if int n \<ge> INT_MAX then nat (INT_MAX - 1) else n)
      in act_bind (act_read (bytes_at value n')) (\<lambda>s.
         act_bind (malloc (s @ [NUL])) (\<lambda>newString.
         if newString = NullPtr then alloc_error ''duplicateStringValue'' else act_return newString)))"

definition le32 :: "nat \<Rightarrow> string" where
  "le32 n = [char_of (n mod 256), char_of (n div 256 mod 256), char_of (n div 65536 mod 256),
     char_of (n div 16777216 mod 256)]"

fun of_le32 :: "string \<Rightarrow> nat" where
  "of_le32 (a # b # c # d # _) = byte a + 256 * byte b + 65536 * byte c + 16777216 * byte d"
| "of_le32 _ = 0"

definition max_prefixed :: nat where
  "max_prefixed = nat INT_MAX - 4 - 1"

definition duplicateAndPrefixStringValue :: "string \<Rightarrow> c_pointer act" where
  "duplicateAndPrefixStringValue value =
     (if \<not> length value \<le> max_prefixed
      then act_throw (LogicError ''in Json::Value::duplicateAndPrefixStringValue(): length too big for prefixing'')
      else act_bind (malloc (le32 (length value) @ value @ [NUL])) (\<lambda>newString.
           if newString = NullPtr then alloc_error ''duplicateAndPrefixStringValue'' else act_return newString))"

text \<open>The length and the text at a string pointer.\<close>

definition decodePrefixedString :: "bool \<Rightarrow> c_pointer \<Rightarrow> memory \<Rightarrow> (nat \<times> string) res" where
  "decodePrefixedString isPrefixed prefixed m = (case raw m prefixed of
       None \<Rightarrow> Inl DanglingPointer
     | Some b \<Rightarrow>
         if \<not> isPrefixed then rbind (c_string b) (\<lambda>s. Inr (length s, b))
         else if length b < 4 then Inl DanglingPointer
         else Inr (of_le32 b, drop 4 b))"

definition releasePrefixedStringValue :: "c_pointer \<Rightarrow> unit act" where
  "releasePrefixedStringValue value = c_free value"

definition releaseStringValue :: "c_pointer \<Rightarrow> unit act" where
  "releaseStringValue value = c_free value"

section \<open>CZString\<close>

record czstring =
  cz_cstr :: c_pointer
  cz_bits :: "32 word"

abbreviation noDuplication :: "32 word" where "noDuplication \<equiv> 0"
abbreviation duplicate :: "32 word" where "duplicate \<equiv> 1"
abbreviation duplicateOnCopy :: "32 word" where "duplicateOnCopy \<equiv> 2"

definition cz_policy :: "czstring \<Rightarrow> 32 word" where "cz_policy z = cz_bits z AND 3"
definition cz_length :: "czstring \<Rightarrow> nat" where "cz_length z = unat (drop_bit 2 (cz_bits z))"
definition cz_index :: "czstring \<Rightarrow> nat" where "cz_index z = unat (cz_bits z)"

definition storage :: "32 word \<Rightarrow> 32 word \<Rightarrow> 32 word" where
  "storage policy len = push_bit 2 (len AND 0x3FFFFFFF) OR (policy AND 3)"

definition cz_of_index :: "nat \<Rightarrow> czstring" where
  "cz_of_index i = \<lparr>cz_cstr = NullPtr, cz_bits = word_of_nat i\<rparr>"

definition cz_of_string :: "c_pointer \<Rightarrow> nat \<Rightarrow> 32 word \<Rightarrow> czstring" where
  "cz_of_string str len allocate = \<lparr>cz_cstr = str, cz_bits = storage allocate (word_of_nat len)\<rparr>"

definition cz_copy :: "czstring \<Rightarrow> czstring act" where
  "cz_copy other =
     act_bind (if cz_policy other \<noteq> noDuplication \<and> cz_cstr other \<noteq> NullPtr
               then duplicateStringValue (cz_cstr other) (cz_length other)
               else act_return (cz_cstr other)) (\<lambda>cstr.
     act_return \<lparr>cz_cstr = cstr,
       cz_bits = storage (if cz_cstr other \<noteq> NullPtr
                          then (if cz_policy other = noDuplication then noDuplication else duplicate)
                          else cz_policy other) (drop_bit 2 (cz_bits other))\<rparr>)"

text \<open>The move constructor: the new key and what is left of the other.\<close>

definition cz_move :: "czstring \<Rightarrow> czstring \<times> czstring" where
  "cz_move other = (\<lparr>cz_cstr = cz_cstr other, cz_bits = cz_bits other\<rparr>, other\<lparr>cz_cstr := NullPtr\<rparr>)"

definition cz_destroy :: "czstring \<Rightarrow> unit act" where
  "cz_destroy z =
     (if cz_cstr z \<noteq> NullPtr \<and> cz_policy z = duplicate then releaseStringValue (cz_cstr z) else act_return ())"

definition cz_swap :: "czstring \<Rightarrow> czstring \<Rightarrow> czstring \<times> czstring" where
  "cz_swap z other = (z\<lparr>cz_cstr := cz_cstr other, cz_bits := cz_bits other\<rparr>,
     other\<lparr>cz_cstr := cz_cstr z, cz_bits := cz_bits z\<rparr>)"

definition cz_assign :: "czstring \<Rightarrow> czstring \<Rightarrow> czstring" where
  "cz_assign z other = z\<lparr>cz_cstr := cz_cstr other, cz_bits := cz_bits other\<rparr>"

definition cz_move_assign :: "czstring \<Rightarrow> czstring \<Rightarrow> czstring \<times> czstring" where
  "cz_move_assign z other = (z\<lparr>cz_cstr := cz_cstr other, cz_bits := cz_bits other\<rparr>, other\<lparr>cz_cstr := NullPtr\<rparr>)"

definition cz_isStaticString :: "czstring \<Rightarrow> bool" where
  "cz_isStaticString z \<longleftrightarrow> cz_policy z = noDuplication"

definition cz_less :: "czstring \<Rightarrow> czstring \<Rightarrow> memory \<Rightarrow> bool res" where
  "cz_less z other m =
     (if cz_cstr z = NullPtr then Inr (cz_bits z < cz_bits other)
      else if cz_cstr other = NullPtr then Inl (LogicError ''assert json failed'')
      else (let min_len = min (cz_length z) (cz_length other) in
            rbind (bytes_at (cz_cstr z) min_len m) (\<lambda>s. rbind (bytes_at (cz_cstr other) min_len m) (\<lambda>t.
            let comp = memcmp min_len s t in
            Inr (if comp < 0 then True else if comp > 0 then False else cz_length z < cz_length other)))))"

definition cz_eq :: "czstring \<Rightarrow> czstring \<Rightarrow> memory \<Rightarrow> bool res" where
  "cz_eq z other m =
     (if cz_cstr z = NullPtr then Inr (cz_bits z = cz_bits other)
      else if cz_length z \<noteq> cz_length other then Inr False
      else if cz_cstr other = NullPtr then Inl (LogicError ''assert json failed'')
      else rbind (bytes_at (cz_cstr z) (cz_length z) m) (\<lambda>s. rbind (bytes_at (cz_cstr other) (cz_length z) m) (\<lambda>t.
           Inr (memcmp (cz_length z) s t = 0))))"

section \<open>Bits\<close>

lemma masks: "(3 :: 32 word) = mask 2" "(0x3FFFFFFF :: 32 word) = mask 30"
  by (simp_all add: mask_eq_decr_exp)

lemma storage_take: "storage p l = push_bit 2 (take_bit 30 l) OR take_bit 2 p"
  by (simp add: storage_def masks take_bit_eq_mask)

lemma storage_policy [simp]: "storage p l AND 3 = p AND 3"
  by (rule bit_word_eqI) (auto simp: storage_take masks bit_simps)

lemma storage_length: "drop_bit 2 (storage p l) = take_bit 30 l"
  by (rule bit_word_eqI) (auto simp: storage_take bit_simps)

lemma storage_parts [simp]: "storage w (drop_bit 2 w) = w"
proof (rule bit_word_eqI)
  fix n
  assume n: "n < LENGTH(32)"
  show "bit (storage w (drop_bit 2 w)) n = bit w n"
  proof (cases "n < 2")
    case False
    then obtain k where "n = Suc (Suc k)" by (metis add_2_eq_Suc le_Suc_ex not_less)
    then show ?thesis using n by (simp add: storage_take bit_simps)
  qed (use n in \<open>simp add: storage_take bit_simps\<close>)
qed

text \<open>Changing the policy keeps the length.\<close>

lemma storage_drop [simp]: "drop_bit 2 (storage p (drop_bit 2 w)) = drop_bit 2 w"
  by (rule bit_word_eqI) (auto simp: storage_length bit_simps dest: bit_imp_le_length)

lemma cz_length_of_string: "cz_length (cz_of_string str len allocate) = len mod 2 ^ 30"
proof -
  have "cz_length (cz_of_string str len allocate) = unat (take_bit 30 (word_of_nat len :: 32 word))"
    by (simp only: cz_length_def cz_of_string_def storage_length czstring.select_convs)
  also have "\<dots> = take_bit 30 (take_bit 32 len)" by (simp only: unsigned_take_bit_eq unsigned_of_nat of_nat_id) simp
  also have "\<dots> = len mod 2 ^ 30" by (simp only: take_bit_take_bit) (simp add: take_bit_eq_mod)
  finally show ?thesis .
qed

lemma cz_policy_of_string: "cz_policy (cz_of_string str len allocate) = allocate AND 3"
  by (simp add: cz_policy_def cz_of_string_def)

lemma of_le32_le32: "n < 2 ^ 32 \<Longrightarrow> of_le32 (le32 n @ s) = n"
proof -
  assume n: "n < 2 ^ 32"
  let ?a = "n div 256" let ?b = "?a div 256" let ?c = "?b div 256"
  have "n = n mod 256 + 256 * ?a" "?a = ?a mod 256 + 256 * ?b" "?b = ?b mod 256 + 256 * ?c"
    by (simp_all only: mod_mult_div_eq)
  then have "n = n mod 256 + 256 * (?a mod 256) + 65536 * (?b mod 256) + 16777216 * ?c" by linarith
  moreover have "?c < 256" using n by (simp add: div_mult2_eq [symmetric])
  ultimately show ?thesis by (simp add: le32_def div_mult2_eq [symmetric])
qed

lemma length_le32 [simp]: "length (le32 n) = 4"
  by (simp add: le32_def)

section \<open>Ownership\<close>

definition mem_ok :: "memory \<Rightarrow> bool" where
  "mem_ok m \<longleftrightarrow> (\<forall>a. mem_next m \<le> a \<longrightarrow> mem_block m a = None)"

text \<open>The memory after \<open>bs\<close> have been freed, and the relation between memories when \<open>bs\<close> have been allocated.\<close>

definition forget :: "nat list \<Rightarrow> memory \<Rightarrow> memory" where
  "forget bs m = m\<lparr>mem_block := (\<lambda>a. if a \<in> set bs then None else mem_block m a)\<rparr>"

definition adds :: "nat list \<Rightarrow> memory \<Rightarrow> memory \<Rightarrow> bool" where
  "adds bs m m' \<longleftrightarrow> distinct bs \<and> mem_ok m' \<and> mem_fails m' = mem_fails m \<and> 
     (\<forall>a\<in>set bs. mem_block m a = None \<and> mem_block m' a \<noteq> None) \<and> (\<forall>a. a \<notin> set bs \<longrightarrow> mem_block m' a = mem_block m a)"

lemma forget_Nil [simp]: "forget [] m = m"
  by (simp add: forget_def)

lemma forget_append: "forget (as @ bs) m = forget bs (forget as m)"
  by (simp add: forget_def cong: if_cong) (simp add: fun_eq_iff)

lemma forget_sel [simp]: "mem_next (forget bs m) = mem_next m" "mem_fails (forget bs m) = mem_fails m"
  "mem_block (forget bs m) a = (if a \<in> set bs then None else mem_block m a)"
  by (simp_all add: forget_def)

lemma mem_ok_forget [simp]: "mem_ok m \<Longrightarrow> mem_ok (forget bs m)"
  by (simp add: mem_ok_def)

lemma adds_Nil [simp]: "adds [] m m \<longleftrightarrow> mem_ok m"
  by (simp add: adds_def)

lemma adds_keeps: "adds bs m m' \<Longrightarrow> mem_block m a \<noteq> None \<Longrightarrow> mem_block m' a = mem_block m a"
  by (metis adds_def)

lemma adds_disjoint: "adds as m m1 \<Longrightarrow> adds bs m1 m2 \<Longrightarrow> set as \<inter> set bs = {}"
  by (auto simp: adds_def)

lemma adds_trans: "adds as m m1 \<Longrightarrow> adds bs m1 m2 \<Longrightarrow> adds (as @ bs) m m2"
  using adds_disjoint [of as m m1 bs m2] unfolding adds_def
  by (intro conjI; force)

lemma adds_forget: "adds bs m m' \<Longrightarrow> adds [] m (forget bs m')"
  by (auto simp: adds_def)

lemma adds_ok: "adds bs m m' \<Longrightarrow> mem_ok m'"
  by (simp add: adds_def)

definition cz_owned :: "czstring \<Rightarrow> nat list" where
  "cz_owned z = (case cz_cstr z of Block a \<Rightarrow> if cz_policy z = duplicate then [a] else [] | _ \<Rightarrow> [])"

text \<open>A key as a container stores it: the text of a block is owned, text of others is static or about to be copied.\<close>

definition cz_fits :: "memory \<Rightarrow> czstring \<Rightarrow> bool" where
  "cz_fits m z \<longleftrightarrow> (case cz_cstr z of
       NullPtr \<Rightarrow> True
     | Extern s \<Rightarrow> (cz_policy z = noDuplication \<or> cz_policy z = duplicateOnCopy) \<and> cz_length z \<le> length s
     | Block a \<Rightarrow> cz_policy z = duplicate \<and> (\<exists>s. mem_block m a = Some (s @ [NUL]) \<and> length s = cz_length z))"

definition cz_key :: "memory \<Rightarrow> czstring \<Rightarrow> map_key" where
  "cz_key m z = (if cz_cstr z = NullPtr then IndexKey (cz_index z)
     else NameKey (take (cz_length z) (the (raw m (cz_cstr z)))))"

lemma cz_frame:
  assumes "cz_fits m z" "\<forall>a\<in>set (cz_owned z). mem_block m' a = mem_block m a"
  shows "cz_fits m' z" "cz_key m' z = cz_key m z"
  using assms by (auto simp: cz_fits_def cz_key_def cz_owned_def split: c_pointer.splits)

lemma cz_destroy_forget:
  assumes "cz_fits m z"
  shows "cz_destroy z m = (Inr (), forget (cz_owned z) m)"
  using assms
  by (auto simp: cz_destroy_def cz_fits_def cz_owned_def releaseStringValue_def c_free_def act_return_def forget_def
      fun_upd_def split: c_pointer.splits)

text \<open>An action that allocates \<open>f x\<close> for its result \<open>x\<close>, and nothing when it throws, which it does only when \<open>malloc\<close> fails.\<close>

definition allocates :: "('a \<Rightarrow> nat list) \<Rightarrow> (memory \<Rightarrow> 'a \<Rightarrow> bool) \<Rightarrow> memory \<Rightarrow> 'a res \<times> memory \<Rightarrow> bool" where
  "allocates f Q m p \<longleftrightarrow> (case fst p of
       Inl e \<Rightarrow> adds [] m (snd p) \<and> (\<exists>k. mem_fails m k) \<and> (\<exists>s. e = RuntimeError s)
     | Inr x \<Rightarrow> adds (f x) m (snd p) \<and> Q (snd p) x)"

lemma allocates_return: "mem_ok m \<Longrightarrow> f x = [] \<Longrightarrow> Q m x \<Longrightarrow> allocates f Q m (act_return x m)"
  by (simp add: allocates_def act_return_def)

fun pointer_block :: "c_pointer \<Rightarrow> nat list" where
  "pointer_block (Block a) = [a]"
| "pointer_block _ = []"

lemma allocates_malloc:
  assumes "mem_ok m"
  shows "allocates pointer_block (\<lambda>m' p. raw m' p = Some b \<and> (\<exists>a. p = Block a))  m
    (act_bind (malloc b) (\<lambda>p. if p = NullPtr then alloc_error f else act_return p) m)"
  using assms
  by (auto simp: act_bind_def malloc_def allocates_def alloc_error_def act_throw_def act_return_def adds_def mem_ok_def)

lemma allocates_mono:
  "allocates f Q m p \<Longrightarrow> (\<And>m' x. Q m' x \<Longrightarrow> R m' x) \<Longrightarrow> allocates f R m p"
  by (auto simp: allocates_def split: sum.splits)


text \<open>
  Two allocations in a row, where a throw in the second destroys what the first has made, and the
  two results are combined.
\<close>

definition then_guarded :: "'a act \<Rightarrow> ('a \<Rightarrow> unit act) \<Rightarrow> 'b act \<Rightarrow> ('a \<Rightarrow> 'b \<Rightarrow> 'c) \<Rightarrow> 'c act" where
  "then_guarded g destroy k comb =
     act_bind g (\<lambda>x. act_bind (act_cleanup k (destroy x)) (\<lambda>y. act_return (comb x y)))"

lemma allocates_then_guarded:
  assumes g: "allocates f Q m (g m)"
    and k: "\<And>x m'. adds (f x) m m' \<Longrightarrow> Q m' x \<Longrightarrow> allocates h R m' (k m')"
    and d: "\<And>x m' m2. adds (f x) m m' \<Longrightarrow> Q m' x \<Longrightarrow> adds [] m' m2 \<Longrightarrow> destroy x m2 = (Inr (), forget (f x) m2)"
    and c: "\<And>x y m' m2. adds (f x) m m' \<Longrightarrow> Q m' x \<Longrightarrow> adds (h y) m' m2 \<Longrightarrow> R m2 y \<Longrightarrow>
      F (comb x y) = f x @ h y \<and> S m2 (comb x y)"
  shows "allocates F S m (then_guarded g destroy k comb m)"
proof (cases "g m")
  case (Pair r m')
  show ?thesis
  proof (cases r)
    case (Inl e)
    then show ?thesis using g Pair by (simp add: allocates_def then_guarded_def act_bind_def)
  next
    case (Inr x)
    have x: "adds (f x) m m'" "Q m' x" using g Pair Inr by (simp_all add: allocates_def)
    obtain r2 m2 where k2: "k m' = (r2, m2)" by force
    show ?thesis
    proof (cases r2)
      case (Inl e)
      have e: "adds [] m' m2" "\<exists>j. mem_fails m' j" "\<exists>s. e = RuntimeError s"
        using k [OF x] k2 Inl by (simp_all add: allocates_def)
      have "adds [] m (forget (f x) m2)" using adds_forget [OF adds_trans [OF x(1) e(1)]] by simp
      moreover have "\<exists>j. mem_fails m j" using e(2) x(1) by (simp add: adds_def)
      ultimately show ?thesis
        using e(3) d [OF x e(1)] Pair Inr k2 Inl by (simp add: allocates_def then_guarded_def act_bind_def act_cleanup_def)
    next
      case (Inr y)
      have y: "adds (h y) m' m2" "R m2 y" using k [OF x] k2 Inr by (simp_all add: allocates_def)
      then show ?thesis using c [OF x y] adds_trans [OF x(1) y(1)] Pair \<open>r = Inr x\<close> k2 Inr
        by (simp add: allocates_def then_guarded_def act_bind_def act_cleanup_def act_return_def)
    qed
  qed
qed

section \<open>Copying a key\<close>

lemma duplicateStringValue_allocates:
  assumes "mem_ok m" "bytes_at p n m = Inr s" "int n < INT_MAX"
  shows "allocates pointer_block (\<lambda>m' q. raw m' q = Some (s @ [NUL]) \<and> (\<exists>a. q = Block a)) m (duplicateStringValue p n m)"
proof -
  have "duplicateStringValue p n m = act_bind (malloc (s @ [NUL])) (\<lambda>q. if q = NullPtr then alloc_error ''duplicateStringValue''
      else act_return q) m"
    using assms(2,3) by (simp add: duplicateStringValue_def act_bind_def [of "act_read _"] act_read_def)
  then show ?thesis using allocates_malloc [OF assms(1)] by simp
qed

lemma cz_length_bound: "cz_length z < 2 ^ 30"
proof -
  have "unat (cz_bits z) < 2 ^ 32" using unsigned_less [of "cz_bits z"] by simp
  then show ?thesis by (simp add: cz_length_def drop_bit_eq_div unat_div)
qed

lemma allocates_map:
  assumes "allocates f Q m (g m)" "\<And>m' x. Q m' x \<Longrightarrow> F (h x) = f x \<and> S m' (h x)"
  shows "allocates F S m (act_bind g (\<lambda>x. act_return (h x)) m)"
  using assms by (auto simp: allocates_def act_bind_def act_return_def split: sum.splits prod.splits)

lemma storage_and [simp]: "storage (w AND 3) l = storage w l"
  by (simp add: storage_def and.assoc)

lemma storage_sel [simp]:
  "cz_policy \<lparr>cz_cstr = p, cz_bits = storage w l\<rparr> = w AND 3"
  "cz_length \<lparr>cz_cstr = p, cz_bits = storage w (drop_bit 2 b)\<rparr> = unat (drop_bit 2 b)"
  by (simp_all add: cz_policy_def cz_length_def)

lemma policy_bits [simp]: "noDuplication AND 3 = noDuplication" "duplicate AND 3 = duplicate" "duplicateOnCopy AND 3 = duplicateOnCopy"
  by simp_all

lemma cz_copy_duplicates:
  assumes "mem_ok m" "cz_policy z \<noteq> noDuplication" "cz_cstr z \<noteq> NullPtr" "bytes_at (cz_cstr z) (cz_length z) m = Inr s"
  shows "allocates cz_owned (\<lambda>m' z'. cz_fits m' z' \<and> cz_key m' z' = NameKey s \<and> cz_cstr z' \<noteq> NullPtr) m (cz_copy z m)"
proof -
  have len: "length s = cz_length z" using assms(4) by (auto simp: bytes_at_def split: option.splits if_splits)
  have "int (cz_length z) < INT_MAX" using cz_length_bound [of z] by (simp add: int_limits)
  note d = duplicateStringValue_allocates [OF assms(1,4) this]
  have "allocates cz_owned (\<lambda>m' z'. cz_fits m' z' \<and> cz_key m' z' = NameKey s \<and> cz_cstr z' \<noteq> NullPtr) m
    (act_bind (duplicateStringValue (cz_cstr z) (cz_length z))
       (\<lambda>q. act_return \<lparr>cz_cstr = q, cz_bits = storage duplicate (drop_bit 2 (cz_bits z))\<rparr>) m)"
    by (rule allocates_map [where g = "duplicateStringValue (cz_cstr z) (cz_length z)", OF d])
      (use len in \<open>auto simp: cz_owned_def cz_fits_def cz_key_def cz_length_def [of z]\<close>)
  then show ?thesis using assms(2,3) by (simp add: cz_copy_def)
qed

lemma cz_copy_allocates:
  assumes "mem_ok m" "cz_fits m z"
  shows "allocates cz_owned (\<lambda>m' z'. cz_fits m' z' \<and> cz_key m' z' = cz_key m z \<and> (cz_cstr z' = NullPtr \<longleftrightarrow> cz_cstr z = NullPtr))
    m (cz_copy z m)"
proof (cases "cz_policy z \<noteq> noDuplication \<and> cz_cstr z \<noteq> NullPtr")
  case True
  obtain s where s: "bytes_at (cz_cstr z) (cz_length z) m = Inr s" "cz_key m z = NameKey s"
    using True assms(2) by (cases "cz_cstr z") (auto simp: cz_fits_def cz_key_def bytes_at_def)
  show ?thesis
    by (rule allocates_mono [OF cz_copy_duplicates [OF assms(1) _ _ s(1)]]) (use True s(2) in auto)
next
  case False
  have "storage (cz_policy z) (drop_bit 2 (cz_bits z)) = cz_bits z" by (simp add: cz_policy_def)
  then have z: "\<lparr>cz_cstr = cz_cstr z, cz_bits = storage (if cz_cstr z \<noteq> NullPtr
      then (if cz_policy z = noDuplication then noDuplication else duplicate) else cz_policy z) (drop_bit 2 (cz_bits z))\<rparr> = z"
    using False by auto
  have "cz_copy z m = act_return z m"
    using False z by (auto simp: cz_copy_def act_bind_def [of "act_return _"] act_return_def)
  moreover have "cz_owned z = []"
    using False assms(2) by (auto simp: cz_owned_def cz_fits_def split: c_pointer.splits)
  ultimately show ?thesis using assms by (simp add: allocates_return)
qed

section \<open>Comparing keys\<close>

lemma memcmp_take: "memcmp n (take n s) (take n t) = memcmp n s t"
  by (induction n s t rule: memcmp.induct) auto

lemma cz_bytes:
  assumes "cz_fits m z" "cz_key m z = NameKey s"
  shows "n \<le> cz_length z \<Longrightarrow> bytes_at (cz_cstr z) n m = Inr (take n s)" "length s = cz_length z" "cz_cstr z \<noteq> NullPtr"
  using assms by (cases "cz_cstr z"; auto simp: cz_fits_def cz_key_def bytes_at_def min_def)+

text \<open>On the keys of members the operators are the order and the equality of byte strings.\<close>

lemma cz_compare:
  assumes "cz_fits m z" "cz_fits m z'" "cz_key m z = NameKey s" "cz_key m z' = NameKey t"
  shows "cz_less z z' m = Inr (s < t)" "cz_eq z z' m = Inr (s = t)"
proof -
  note s = cz_bytes [OF assms(1,3)] and t = cz_bytes [OF assms(2,4)]
  have "cz_less z z' m = Inr (czstring_less s t)"
    using s t by (simp add: cz_less_def czstring_less_def memcmp_take Let_def)
  then show "cz_less z z' m = Inr (s < t)" by (simp add: czstring_less_iff)
  have "cz_eq z z' m = Inr (czstring_eq s t)"
  proof (cases "length s = length t")
    case True
    have "bytes_at (cz_cstr z) (length t) m = Inr (take (length t) s)" by (rule s(1)) (use True s(2) in simp)
    moreover have "bytes_at (cz_cstr z') (length t) m = Inr (take (length t) t)" by (rule t(1)) (use t(2) in simp)
    ultimately show ?thesis using s(2,3) t(2,3) True memcmp_take [of "length t" s t]
      by (simp add: cz_eq_def czstring_eq_def)
  qed (use s t in \<open>simp add: cz_eq_def czstring_eq_def\<close>)
  then show "cz_eq z z' m = Inr (s = t)" by (simp add: czstring_eq_iff)
qed

end
