(* ===== verification/Value_Memory.thy ===== *)
theory Value_Memory
  imports Cz_Strings
begin

text \<open>
  Construction, copying, assignment and destruction of \<^verbatim>\<open>Json::Value\<close> with the memory of its strings
  (\<^verbatim>\<open>jsoncpp/src/json_value.cpp\<close>, lines 347 to 476, 984 to 1030 and 1057 to 1073). A value of type string points to its text; the flag
  \<^verbatim>\<open>allocated_\<close> says whether the value owns it, in which case the text has its length before it. A container
  owns its keys and its values. What \<^verbatim>\<open>std::map\<close> allocates for its nodes, and the comments, are not part of
  the memory here. \<open>hv_abs\<close> is the value of \<open>Json_Value\<close> that a value in memory stands for.
\<close>

section \<open>Values in memory\<close>

datatype hvalue = HValue (hv_data: hdata) (hv_allocated: bool) (hv_comments: comments) (hv_start: int) (hv_limit: int)
and hdata =
    HNull
  | HInt int
  | HUInt int
  | HReal double
  | HString c_pointer
  | HBool bool
  | HArray "(czstring \<times> hvalue) list"
  | HObject "(czstring \<times> hvalue) list"

definition hv_initBasic :: "hdata \<Rightarrow> bool \<Rightarrow> hvalue" where
  "hv_initBasic d allocated = HValue d allocated NoComments 0 0"

fun hv_of_type :: "value_type \<Rightarrow> hvalue" where
  "hv_of_type nullValue = hv_initBasic HNull False"
| "hv_of_type intValue = hv_initBasic (HInt 0) False"
| "hv_of_type uintValue = hv_initBasic (HUInt 0) False"
| "hv_of_type realValue = hv_initBasic (HReal (DFin False 0 0)) False"
| "hv_of_type stringValue = hv_initBasic (HString (Extern [])) False"
| "hv_of_type booleanValue = hv_initBasic (HBool False) False"
| "hv_of_type arrayValue = hv_initBasic (HArray []) False"
| "hv_of_type objectValue = hv_initBasic (HObject []) False"

definition hv_of_int :: "int \<Rightarrow> hvalue" where "hv_of_int i = hv_initBasic (HInt i) False"
definition hv_of_uint :: "int \<Rightarrow> hvalue" where "hv_of_uint u = hv_initBasic (HUInt u) False"
definition hv_of_real :: "double \<Rightarrow> hvalue" where "hv_of_real d = hv_initBasic (HReal d) False"
definition hv_of_bool :: "bool \<Rightarrow> hvalue" where "hv_of_bool b = hv_initBasic (HBool b) False"

text \<open>\<^verbatim>\<open>Value(const String&)\<close> and \<^verbatim>\<open>Value(begin, end)\<close>; \<^verbatim>\<open>Value(const char*)\<close>; \<^verbatim>\<open>Value(const StaticString&)\<close>.\<close>

definition hv_of_string :: "string \<Rightarrow> hvalue act" where
  "hv_of_string value = act_bind (duplicateAndPrefixStringValue value) (\<lambda>p. act_return (hv_initBasic (HString p) True))"

definition hv_of_cstring :: "c_pointer \<Rightarrow> hvalue act" where
  "hv_of_cstring value =
     (if value = NullPtr then act_throw (LogicError ''Null Value Passed to Value Constructor'')
      else act_bind (act_read (decodePrefixedString False value)) (\<lambda>(n, b). hv_of_string (take n b)))"

definition hv_of_static :: "c_pointer \<Rightarrow> hvalue" where
  "hv_of_static value = hv_initBasic (HString value) False"

section \<open>Destruction\<close>

fun hv_destroy :: "hvalue \<Rightarrow> unit act"
  and hm_destroy :: "(czstring \<times> hvalue) list \<Rightarrow> unit act" where
  "hv_destroy (HValue d allocated c s l) = (case d of
       HString p \<Rightarrow> if allocated then releasePrefixedStringValue p else act_return ()
     | HArray ms \<Rightarrow> hm_destroy ms
     | HObject ms \<Rightarrow> hm_destroy ms
     | _ \<Rightarrow> act_return ())"
| "hm_destroy [] = act_return ()"
| "hm_destroy ((k, v) # ms) = act_bind (hv_destroy v) (\<lambda>_. act_bind (cz_destroy k) (\<lambda>_. hm_destroy ms))"

definition entry_destroy :: "czstring \<times> hvalue \<Rightarrow> unit act" where
  "entry_destroy e = act_bind (hv_destroy (snd e)) (\<lambda>_. cz_destroy (fst e))"

section \<open>Copying\<close>

text \<open>\<^verbatim>\<open>Value(const Value&)\<close> is \<^verbatim>\<open>dupPayload\<close> and \<^verbatim>\<open>dupMeta\<close>; \<open>hm_copy\<close> is the copy constructor of the map.\<close>

fun hv_copy :: "hvalue \<Rightarrow> hvalue act"
  and hm_copy :: "(czstring \<times> hvalue) list \<Rightarrow> (czstring \<times> hvalue) list act" where
  "hv_copy (HValue d allocated c s l) = (case d of
       HString p \<Rightarrow>
         if p \<noteq> NullPtr \<and> allocated
         then act_bind (act_read (decodePrefixedString allocated p)) (\<lambda>(len, str).
              act_bind (duplicateAndPrefixStringValue (take len str)) (\<lambda>q.
              act_return (HValue (HString q) True c s l)))
         else act_return (HValue d False c s l)
     | HArray ms \<Rightarrow> act_bind (hm_copy ms) (\<lambda>ms'. act_return (HValue (HArray ms') False c s l))
     | HObject ms \<Rightarrow> act_bind (hm_copy ms) (\<lambda>ms'. act_return (HValue (HObject ms') False c s l))
     | _ \<Rightarrow> act_return (HValue d False c s l))"
| "hm_copy [] = act_return []"
| "hm_copy ((k, v) # ms) =
     then_guarded (then_guarded (cz_copy k) cz_destroy (hv_copy v) Pair) entry_destroy (hm_copy ms) (#)"

text \<open>\<^verbatim>\<open>dupPayload\<close> on its own keeps the comments and the offsets; \<^verbatim>\<open>releasePayload\<close> leaves them too.\<close>

definition hv_with_meta :: "hvalue \<Rightarrow> hvalue \<Rightarrow> hvalue" where
  "hv_with_meta v this = HValue (hv_data v) (hv_allocated v) (hv_comments this) (hv_start this) (hv_limit this)"

definition hv_copyPayload :: "hvalue \<Rightarrow> hvalue \<Rightarrow> hvalue act" where
  "hv_copyPayload this other =
     act_bind (hv_destroy this) (\<lambda>_. act_bind (hv_copy other) (\<lambda>v. act_return (hv_with_meta v this)))"

definition hv_copy_from :: "hvalue \<Rightarrow> hvalue \<Rightarrow> hvalue act" where
  "hv_copy_from this other = act_bind (hv_copyPayload this other) (\<lambda>v. act_return (hv_with_meta v other))"

text \<open>\<^verbatim>\<open>swapPayload\<close> and \<^verbatim>\<open>swap\<close>: this value and the other one afterwards.\<close>

definition hv_swapPayload :: "hvalue \<Rightarrow> hvalue \<Rightarrow> hvalue \<times> hvalue" where
  "hv_swapPayload this other = (hv_with_meta other this, hv_with_meta this other)"

definition hv_swap :: "hvalue \<Rightarrow> hvalue \<Rightarrow> hvalue \<times> hvalue" where
  "hv_swap this other = (let (t, u) = hv_swapPayload this other in (hv_with_meta t other, hv_with_meta u this))"

text \<open>The move constructor leaves a null value behind; move assignment exchanges the two values.\<close>

definition hv_move :: "hvalue \<Rightarrow> hvalue \<times> hvalue" where
  "hv_move other = hv_swap (hv_of_type nullValue) other"

definition hv_move_assign :: "hvalue \<Rightarrow> hvalue \<Rightarrow> hvalue \<times> hvalue" where
  "hv_move_assign this other = (let (u, t) = hv_swap other this in (t, u))"

text \<open>\<^verbatim>\<open>Value(other).swap(*this)\<close>: a copy takes the place of this value, whose old content is then destroyed.\<close>

definition hv_assign :: "hvalue \<Rightarrow> hvalue \<Rightarrow> hvalue act" where
  "hv_assign this other =
     act_bind (hv_copy other) (\<lambda>temp. let (temp', this') = hv_swap temp this in
     act_bind (hv_destroy temp') (\<lambda>_. act_return this'))"

section \<open>Strings\<close>

definition hv_asCString :: "hvalue \<Rightarrow> memory \<Rightarrow> string option res" where
  "hv_asCString v m = (case hv_data v of
       HString p \<Rightarrow> if p = NullPtr then Inr None
         else rbind (decodePrefixedString (hv_allocated v) p m) (\<lambda>(len, str). rbind (c_string str) (\<lambda>s. Inr (Some s)))
     | _ \<Rightarrow> Inl (LogicError ''in Json::Value::asCString(): requires stringValue''))"

text \<open>\<^verbatim>\<open>getString\<close>: None where it returns false, else the text from \<^verbatim>\<open>begin\<close> to \<^verbatim>\<open>end\<close>.\<close>

definition hv_getString :: "hvalue \<Rightarrow> memory \<Rightarrow> string option res" where
  "hv_getString v m = (case hv_data v of
       HString p \<Rightarrow> if p = NullPtr then Inr None
         else rbind (decodePrefixedString (hv_allocated v) p m) (\<lambda>(len, str). Inr (Some (take len str)))
     | _ \<Rightarrow> Inr None)"

section \<open>Members\<close>

text \<open>The position of \<^verbatim>\<open>lower_bound(key)\<close>: the entries before it and from it on.\<close>

fun hm_lower_bound :: "czstring \<Rightarrow> (czstring \<times> hvalue) list \<Rightarrow> memory \<Rightarrow>
    ((czstring \<times> hvalue) list \<times> (czstring \<times> hvalue) list) res" where
  "hm_lower_bound key [] m = Inr ([], [])"
| "hm_lower_bound key ((k, v) # ms) m =
     rbind (cz_less k key m) (\<lambda>less.
     if less then rbind (hm_lower_bound key ms m) (\<lambda>(before, from). Inr ((k, v) # before, from))
     else Inr ([], (k, v) # ms))"

text \<open>
  Inserting a key: the local pair copies the key from the text of the caller, and the map copies it from the pair, which is then
  destroyed.
\<close>

definition insert_key :: "czstring \<Rightarrow> czstring act" where
  "insert_key actualKey =
     act_bind (cz_copy actualKey) (\<lambda>k.
     act_bind (act_cleanup (cz_copy k) (cz_destroy k)) (\<lambda>k'.
     act_bind (cz_destroy k) (\<lambda>_. act_return k')))"

text \<open>The entries after \<^verbatim>\<open>resolveReference(key, end)\<close>, and the member.\<close>

definition hm_resolve :: "string \<Rightarrow> (czstring \<times> hvalue) list \<Rightarrow> ((czstring \<times> hvalue) list \<times> hvalue) act" where
  "hm_resolve key ms =
     (let actualKey = cz_of_string (Extern key) (length key) duplicateOnCopy in
      act_bind (act_read (hm_lower_bound actualKey ms)) (\<lambda>(before, from).
      act_bind (act_read (\<lambda>m. case from of [] \<Rightarrow> Inr None
                          | (k, v) # _ \<Rightarrow> rbind (cz_eq k actualKey m) (\<lambda>eq. Inr (if eq then Some v else None)))) (\<lambda>found.
      case found of
        Some v \<Rightarrow> act_return (ms, v)
      | None \<Rightarrow> act_bind (insert_key actualKey) (\<lambda>k.
          act_return (before @ (k, hv_of_type nullValue) # from, hv_of_type nullValue)))))"

definition hv_resolveReference :: "string \<Rightarrow> hvalue \<Rightarrow> (hvalue \<times> hvalue) act" where
  "hv_resolveReference key v = (case hv_data v of
       HNull \<Rightarrow> act_bind (hm_resolve key []) (\<lambda>(ms, w). act_return (hv_initBasic (HObject ms) False, w))
     | HObject ms \<Rightarrow> act_bind (hm_resolve key ms) (\<lambda>(ms', w).
         act_return (HValue (HObject ms') (hv_allocated v) (hv_comments v) (hv_start v) (hv_limit v), w))
     | _ \<Rightarrow> act_throw (LogicError ''in Json::Value::resolveReference(key, end): requires objectValue''))"

end
