(* ===== verification/Memory_Laws.thy ===== *)
theory Memory_Laws
  imports Value_Memory "HOL-Library.Multiset"
begin

text \<open>
  Copying, assigning, destroying and extending values in memory: no block is freed twice or used after it is freed,
  none is lost, also where \<^verbatim>\<open>malloc\<close> fails, and what the values stand for changes as the functions of \<open>Json_Value\<close> and
  \<open>Json_Access\<close> say.
\<close>

section \<open>What a value owns and stands for\<close>

fun hv_owned :: "hvalue \<Rightarrow> nat list" and hm_owned :: "(czstring \<times> hvalue) list \<Rightarrow> nat list" where
  "hv_owned (HValue d allocated c s l) = (case d of
       HString p \<Rightarrow> if allocated then pointer_block p else []
     | HArray ms \<Rightarrow> hm_owned ms
     | HObject ms \<Rightarrow> hm_owned ms
     | _ \<Rightarrow> [])"
| "hm_owned [] = []"
| "hm_owned ((k, v) # ms) = (cz_owned k @ hv_owned v) @ hm_owned ms"

definition string_fits :: "memory \<Rightarrow> bool \<Rightarrow> c_pointer \<Rightarrow> bool" where
  "string_fits m allocated p \<longleftrightarrow>
     (if allocated then (\<exists>a s. p = Block a \<and> mem_block m a = Some (le32 (length s) @ s @ [NUL]) \<and> length s \<le> max_prefixed)
      else (\<exists>s. p = Extern s))"

fun hv_fits :: "memory \<Rightarrow> hvalue \<Rightarrow> bool" and hm_fits :: "memory \<Rightarrow> bool \<Rightarrow> (czstring \<times> hvalue) list \<Rightarrow> bool" where
  "hv_fits m (HValue d allocated c s l) = (case d of
       HString p \<Rightarrow> string_fits m allocated p
     | HArray ms \<Rightarrow> hm_fits m True ms
     | HObject ms \<Rightarrow> hm_fits m False ms
     | _ \<Rightarrow> True)"
| "hm_fits m arr [] = True"
| "hm_fits m arr ((k, v) # ms) \<longleftrightarrow> cz_fits m k \<and> (cz_cstr k = NullPtr \<longleftrightarrow> arr) \<and> hv_fits m v \<and> hm_fits m arr ms"

definition string_abs :: "memory \<Rightarrow> bool \<Rightarrow> c_pointer \<Rightarrow> string" where
  "string_abs m allocated p = (case raw m p of
       None \<Rightarrow> []
     | Some b \<Rightarrow> if allocated then take (of_le32 b) (drop 4 b) else takeWhile (\<lambda>c. c \<noteq> NUL) b)"

fun key_index :: "map_key \<Rightarrow> nat" where
  "key_index (IndexKey i) = i"
| "key_index (NameKey s) = 0"

fun hv_abs :: "memory \<Rightarrow> hvalue \<Rightarrow> jvalue" and hm_abs :: "memory \<Rightarrow> (czstring \<times> hvalue) list \<Rightarrow> (map_key \<times> jvalue) list" where
  "hv_abs m (HValue d allocated c s l) = Value (case d of
       HNull \<Rightarrow> NullV
     | HInt i \<Rightarrow> IntV i
     | HUInt u \<Rightarrow> UIntV u
     | HReal x \<Rightarrow> RealV x
     | HString p \<Rightarrow> StringV (string_abs m allocated p)
     | HBool b \<Rightarrow> BoolV b
     | HArray ms \<Rightarrow> ArrayV (map (\<lambda>(k, w). (key_index k, w)) (hm_abs m ms))
     | HObject ms \<Rightarrow> ObjectV (map (\<lambda>(k, w). (key_name k, w)) (hm_abs m ms))) c s l"
| "hm_abs m [] = []"
| "hm_abs m ((k, v) # ms) = (cz_key m k, hv_abs m v) # hm_abs m ms"

section \<open>Frames\<close>

lemma string_frame:
  assumes "string_fits m al p" "\<forall>a\<in>set (if al then pointer_block p else []). mem_block m' a = mem_block m a"
  shows "string_fits m' al p \<and> string_abs m' al p = string_abs m al p"
  using assms by (auto simp: string_fits_def string_abs_def split: if_splits)

lemma hv_frame:
  "hv_fits m v \<Longrightarrow> \<forall>a\<in>set (hv_owned v). mem_block m' a = mem_block m a \<Longrightarrow> hv_fits m' v \<and> hv_abs m' v = hv_abs m v"
  "hm_fits m arr ms \<Longrightarrow> \<forall>a\<in>set (hm_owned ms). mem_block m' a = mem_block m a \<Longrightarrow> hm_fits m' arr ms \<and> hm_abs m' ms = hm_abs m ms"
proof (induction v and ms arbitrary: and arr rule: hv_owned_hm_owned.induct)
  case (1 d al c s l)
  then show ?case using string_frame [of m al _ m'] by (cases d) simp_all
next
  case (3 k v ms)
  then show ?case using cz_frame [of m k m'] 3(2) [of arr] by auto
qed simp

lemma hv_owned_in_use:
  "hv_fits m v \<Longrightarrow> a \<in> set (hv_owned v) \<Longrightarrow> mem_block m a \<noteq> None"
  "hm_fits m arr ms \<Longrightarrow> a \<in> set (hm_owned ms) \<Longrightarrow> mem_block m a \<noteq> None"
proof (induction v and ms arbitrary: and arr rule: hv_owned_hm_owned.induct)
  case (1 d al c s l)
  then show ?case by (cases d) (auto simp: string_fits_def split: if_splits)
next
  case (3 k v ms)
  then show ?case by (auto simp: cz_owned_def cz_fits_def split: c_pointer.splits if_splits)
qed simp

lemma cz_owned_in_use: "cz_fits m k \<Longrightarrow> a \<in> set (cz_owned k) \<Longrightarrow> mem_block m a \<noteq> None"
  by (auto simp: cz_owned_def cz_fits_def split: c_pointer.splits if_splits)

lemma hv_keeps:
  "adds bs m m' \<Longrightarrow> hv_fits m v \<Longrightarrow> hv_fits m' v \<and> hv_abs m' v = hv_abs m v"
  "adds bs m m' \<Longrightarrow> hm_fits m arr ms \<Longrightarrow> hm_fits m' arr ms \<and> hm_abs m' ms = hm_abs m ms"
  using hv_frame hv_owned_in_use adds_keeps by metis+

lemma cz_keeps: "adds bs m m' \<Longrightarrow> cz_fits m k \<Longrightarrow> cz_fits m' k \<and> cz_key m' k = cz_key m k"
  using cz_frame cz_owned_in_use adds_keeps by metis

lemma hv_forget:
  "hv_fits m v \<Longrightarrow> set (hv_owned v) \<inter> set bs = {} \<Longrightarrow> hv_fits (forget bs m) v \<and> hv_abs (forget bs m) v = hv_abs m v"
  "hm_fits m arr ms \<Longrightarrow> set (hm_owned ms) \<inter> set bs = {} \<Longrightarrow> hm_fits (forget bs m) arr ms \<and> hm_abs (forget bs m) ms = hm_abs m ms"
  by (rule hv_frame; auto)+

lemma cz_forget:
  "cz_fits m k \<Longrightarrow> set (cz_owned k) \<inter> set bs = {} \<Longrightarrow> cz_fits (forget bs m) k \<and> cz_key (forget bs m) k = cz_key m k"
proof -
  assume "cz_fits m k" "set (cz_owned k) \<inter> set bs = {}"
  moreover from this have "\<forall>a\<in>set (cz_owned k). mem_block (forget bs m) a = mem_block m a" by auto
  ultimately show ?thesis using cz_frame by blast
qed

section \<open>Destroying\<close>

lemma hv_destroy_forget:
  "hv_fits m v \<Longrightarrow> distinct (hv_owned v) \<Longrightarrow> hv_destroy v m = (Inr (), forget (hv_owned v) m)"
  "hm_fits m arr ms \<Longrightarrow> distinct (hm_owned ms) \<Longrightarrow> hm_destroy ms m = (Inr (), forget (hm_owned ms) m)"
proof (induction v and ms arbitrary: m and m arr rule: hv_owned_hm_owned.induct)
  case (1 d al c s l)
  show ?case
  proof (cases d)
    case (HString p)
    then show ?thesis using 1(3) by (auto simp: string_fits_def releasePrefixedStringValue_def c_free_def act_return_def
        forget_def fun_upd_def)
  qed (use 1 in \<open>simp_all add: act_return_def\<close>)
next
  case (3 k v ms)
  have d: "set (cz_owned k) \<inter> set (hv_owned v) = {}" "set (hm_owned ms) \<inter> set (hv_owned v @ cz_owned k) = {}"
    using 3(4) by auto
  have v: "hv_destroy v m = (Inr (), forget (hv_owned v) m)" using 3 by simp
  have k: "cz_destroy k (forget (hv_owned v) m) = (Inr (), forget (cz_owned k) (forget (hv_owned v) m))"
    by (rule cz_destroy_forget) (use cz_forget [OF _ d(1)] 3(3) in simp)
  have "hm_fits (forget (hv_owned v @ cz_owned k) m) arr ms" using hv_forget(2) [OF _ d(2)] 3(3) by simp
  with 3 have "hm_destroy ms (forget (hv_owned v @ cz_owned k) m) = (Inr (), forget (hm_owned ms) (forget (hv_owned v @ cz_owned k) m))"
    by simp
  moreover have "forget ((cz_owned k @ hv_owned v) @ hm_owned ms) m = forget (hm_owned ms) (forget (hv_owned v @ cz_owned k) m)"
    by (auto simp: forget_def fun_eq_iff)
  ultimately show ?case using v k by (simp add: act_bind_def forget_append)
qed (simp add: act_return_def)

lemma entry_destroy_forget:
  assumes "cz_fits m k" "hv_fits m v" "distinct (cz_owned k @ hv_owned v)"
  shows "entry_destroy (k, v) m = (Inr (), forget (cz_owned k @ hv_owned v) m)"
proof -
  have d: "set (cz_owned k) \<inter> set (hv_owned v) = {}" "distinct (hv_owned v)" using assms(3) by auto
  have "cz_destroy k (forget (hv_owned v) m) = (Inr (), forget (cz_owned k) (forget (hv_owned v) m))"
    by (rule cz_destroy_forget) (use cz_forget [OF assms(1) d(1)] in simp)
  moreover have "forget (cz_owned k @ hv_owned v) m = forget (cz_owned k) (forget (hv_owned v) m)"
    by (auto simp: forget_def fun_eq_iff)
  ultimately show ?thesis using hv_destroy_forget(1) [OF assms(2) d(2)] by (simp add: entry_destroy_def act_bind_def)
qed

section \<open>Copying\<close>

lemma string_decode:
  assumes "string_fits m True p"
  obtains str where "decodePrefixedString True p m = Inr (length (string_abs m True p), string_abs m True p @ str)"
    "length (string_abs m True p) \<le> max_prefixed"
proof -
  obtain a s where a: "p = Block a" "mem_block m a = Some (le32 (length s) @ s @ [NUL])" "length s \<le> max_prefixed"
    using assms by (auto simp: string_fits_def)
  then have "length s < 2 ^ 32" by (simp add: max_prefixed_def int_limits)
  then have l: "of_le32 (le32 (length s) @ s @ [NUL]) = length s" by (rule of_le32_le32)
  then have "string_abs m True p = s" using a by (simp add: string_abs_def)
  with a l show thesis by (intro that [of "[NUL]"]) (simp_all add: decodePrefixedString_def)
qed

lemma prefixed_allocates:
  assumes "mem_ok m" "length s \<le> max_prefixed"
  shows "allocates pointer_block (\<lambda>m' q. string_fits m' True q \<and> string_abs m' True q = s) m (duplicateAndPrefixStringValue s m)"
proof -
  have l: "of_le32 (le32 (length s) @ s @ [NUL]) = length s"
    by (rule of_le32_le32) (use assms(2) in \<open>simp add: max_prefixed_def int_limits\<close>)
  have "duplicateAndPrefixStringValue s m = act_bind (malloc (le32 (length s) @ s @ [NUL])) (\<lambda>q. if q = NullPtr
      then alloc_error ''duplicateAndPrefixStringValue'' else act_return q) m"
    using assms(2) by (simp add: duplicateAndPrefixStringValue_def)
  moreover have "allocates pointer_block (\<lambda>m' q. string_fits m' True q \<and> string_abs m' True q = s) m \<dots>"
    by (rule allocates_mono [OF allocates_malloc [OF assms(1)]]) (use assms(2) l in \<open>auto simp: string_fits_def string_abs_def\<close>)
  ultimately show ?thesis by simp
qed

lemma hv_copy_allocates:
  "mem_ok m \<Longrightarrow> hv_fits m v \<Longrightarrow> allocates hv_owned (\<lambda>m' v'. hv_fits m' v' \<and> hv_abs m' v' = hv_abs m v) m (hv_copy v m)"
  "mem_ok m \<Longrightarrow> hm_fits m arr ms \<Longrightarrow> allocates hm_owned (\<lambda>m' ms'. hm_fits m' arr ms' \<and> hm_abs m' ms' = hm_abs m ms) m (hm_copy ms m)"
proof (induction v and ms arbitrary: m and m arr rule: hv_owned_hm_owned.induct)
  case (1 d al c s l)
  show ?case
  proof (cases d)
    case (HString p)
    show ?thesis
    proof (cases al)
      case True
      then obtain str where d: "decodePrefixedString True p m = Inr (length (string_abs m True p), string_abs m True p @ str)"
        "length (string_abs m True p) \<le> max_prefixed" and p: "p \<noteq> NullPtr"
        using string_decode [of m p] 1(4) HString by (auto simp: string_fits_def)
      have "hv_copy (HValue d al c s l) m = act_bind (duplicateAndPrefixStringValue (string_abs m True p))
          (\<lambda>q. act_return (HValue (HString q) True c s l)) m"
        using HString True p d(1) by (simp add: act_bind_def [of "act_read _"] act_read_def)
      moreover have "allocates hv_owned (\<lambda>m' v'. hv_fits m' v' \<and> hv_abs m' v' = hv_abs m (HValue d al c s l)) m \<dots>"
        by (rule allocates_map [where g = "duplicateAndPrefixStringValue (string_abs m True p)", OF prefixed_allocates [OF 1(3) d(2)]])
          (simp add: HString True)
      ultimately show ?thesis by simp
    next
      case False
      then show ?thesis using 1 HString by (auto intro!: allocates_return simp: string_fits_def string_abs_def)
    qed
  next
    case (HArray ms)
    show ?thesis
      using allocates_map [where g = "hm_copy ms" and h = "\<lambda>ms'. HValue (HArray ms') False c s l", OF 1(1) [OF HArray 1(3)]] 1(4) HArray
      by simp
  next
    case (HObject ms)
    show ?thesis
      using allocates_map [where g = "hm_copy ms" and h = "\<lambda>ms'. HValue (HObject ms') False c s l", OF 1(2) [OF HObject 1(3)]] 1(4) HObject
      by simp
  qed (use 1 in \<open>auto intro!: allocates_return\<close>)
next
  case (3 k v ms)
  let ?P = "\<lambda>m' e. cz_fits m' (fst e) \<and> hv_fits m' (snd e) \<and> cz_key m' (fst e) = cz_key m k \<and> hv_abs m' (snd e) = hv_abs m v
      \<and> (cz_cstr (fst e) = NullPtr \<longleftrightarrow> arr)"
  have f: "cz_fits m k" "cz_cstr k = NullPtr \<longleftrightarrow> arr" "hv_fits m v" "hm_fits m arr ms" using 3(4) by simp_all
  have "allocates (\<lambda>e. cz_owned (fst e) @ hv_owned (snd e)) ?P m (then_guarded (cz_copy k) cz_destroy (hv_copy v) Pair m)"
  proof (rule allocates_then_guarded [where g = "cz_copy k", OF cz_copy_allocates [OF 3(3) f(1)]])
    fix k' m'
    assume a: "adds (cz_owned k') m m'"
    show "allocates hv_owned (\<lambda>m2 v'. hv_fits m2 v' \<and> hv_abs m2 v' = hv_abs m v) m' (hv_copy v m')"
      using 3(1) [OF adds_ok [OF a]] hv_keeps(1) [OF a f(3)] by simp
  next
    fix k' m' m2
    assume "cz_fits m' k' \<and> cz_key m' k' = cz_key m k \<and> (cz_cstr k' = NullPtr \<longleftrightarrow> cz_cstr k = NullPtr)" "adds [] m' m2"
    then show "cz_destroy k' m2 = (Inr (), forget (cz_owned k') m2)" using cz_destroy_forget cz_keeps by blast
  next
    fix k' v' m' m2
    assume "adds (cz_owned k') m m'" "cz_fits m' k' \<and> cz_key m' k' = cz_key m k \<and> (cz_cstr k' = NullPtr \<longleftrightarrow> cz_cstr k = NullPtr)"
      "adds (hv_owned v') m' m2" "hv_fits m2 v' \<and> hv_abs m2 v' = hv_abs m v"
    then show "cz_owned (fst (k', v')) @ hv_owned (snd (k', v')) = cz_owned k' @ hv_owned v' \<and> ?P m2 (k', v')"
      using f(2) cz_keeps by auto
  qed
  note e = this
  have "allocates hm_owned (\<lambda>m' ms'. hm_fits m' arr ms' \<and> hm_abs m' ms' = hm_abs m ((k, v) # ms)) m
    (then_guarded (then_guarded (cz_copy k) cz_destroy (hv_copy v) Pair) entry_destroy (hm_copy ms) (#) m)"
  proof (rule allocates_then_guarded [where g = "then_guarded (cz_copy k) cz_destroy (hv_copy v) Pair", OF e])
    fix e m'
    assume a: "adds (cz_owned (fst e) @ hv_owned (snd e)) m m'"
    show "allocates hm_owned (\<lambda>m2 ms'. hm_fits m2 arr ms' \<and> hm_abs m2 ms' = hm_abs m ms) m' (hm_copy ms m')"
      using 3(2) [OF adds_ok [OF a]] hv_keeps(2) [OF a f(4)] by simp
  next
    fix e m' m2
    assume a: "adds (cz_owned (fst e) @ hv_owned (snd e)) m m'" and p: "?P m' e" and b: "adds [] m' m2"
    have "distinct (cz_owned (fst e) @ hv_owned (snd e))" using a by (simp add: adds_def)
    then have "entry_destroy (fst e, snd e) m2 = (Inr (), forget (cz_owned (fst e) @ hv_owned (snd e)) m2)"
      using entry_destroy_forget p cz_keeps [OF b] hv_keeps(1) [OF b] by blast
    then show "entry_destroy e m2 = (Inr (), forget (cz_owned (fst e) @ hv_owned (snd e)) m2)" by simp
  next
    fix e ms' m' m2
    assume p: "?P m' e" and b: "adds (hm_owned ms') m' m2" and r: "hm_fits m2 arr ms' \<and> hm_abs m2 ms' = hm_abs m ms"
    obtain k' v' where e: "e = (k', v')" by force
    show "hm_owned (e # ms') = (cz_owned (fst e) @ hv_owned (snd e)) @ hm_owned ms' \<and> hm_fits m2 arr (e # ms') \<and>
        hm_abs m2 (e # ms') = hm_abs m ((k, v) # ms)"
      using p r cz_keeps [OF b, of k'] hv_keeps(1) [OF b, of v'] by (simp add: e)
  qed
  then show ?case by simp
qed (simp add: allocates_return)

section \<open>Assigning\<close>

lemma hv_with_meta_sel [simp]:
  "hv_owned (hv_with_meta v u) = hv_owned v" "hv_fits m (hv_with_meta v u) = hv_fits m v"
  "hv_abs m (hv_with_meta v u) = Value (payload (hv_abs m v)) (hv_comments u) (hv_start u) (hv_limit u)"
  by (cases v; simp add: hv_with_meta_def)+

lemma hv_meta_simps [simp]:
  "hv_comments (hv_with_meta v u) = hv_comments u" "hv_start (hv_with_meta v u) = hv_start u" "hv_limit (hv_with_meta v u) = hv_limit u"
  by (simp_all add: hv_with_meta_def)

lemma hv_swap_sel:
  assumes "hv_swap v u = (v', u')"
  shows "hv_owned v' = hv_owned u" "hv_owned u' = hv_owned v" "hv_fits m v' = hv_fits m u" "hv_fits m u' = hv_fits m v"
    "hv_abs m v' = hv_abs m u" "hv_abs m u' = hv_abs m v"
  using assms by (cases v; cases u; auto simp: hv_swap_def hv_swapPayload_def hv_with_meta_def)+

lemma adds_forget_first: "adds as m m1 \<Longrightarrow> adds bs m1 m2 \<Longrightarrow> adds bs m (forget as m2)"
  using adds_disjoint [of as m m1 bs m2] by (auto simp: adds_def)

definition assigned :: "memory \<Rightarrow> nat list \<Rightarrow> jvalue \<Rightarrow> hvalue res \<times> memory \<Rightarrow> bool" where
  "assigned m old x p \<longleftrightarrow> (case fst p of
       Inl e \<Rightarrow> adds [] m (snd p) \<and> (\<exists>k. mem_fails m k) \<and> (\<exists>s. e = RuntimeError s)
     | Inr v \<Rightarrow> adds (hv_owned v) (forget old m) (snd p) \<and> hv_fits (snd p) v \<and> hv_abs (snd p) v = x)"

lemma hv_assign_assigned:
  assumes "mem_ok m" "hv_fits m v" "distinct (hv_owned v)" "hv_fits m u"
  shows "assigned m (hv_owned v) (hv_abs m u) (hv_assign v u m)"
proof (cases "hv_copy u m")
  case (Pair r m1)
  note c = hv_copy_allocates(1) [OF assms(1,4)]
  show ?thesis
  proof (cases r)
    case (Inl e)
    then show ?thesis using c Pair by (simp add: assigned_def allocates_def hv_assign_def act_bind_def)
  next
    case (Inr w)
    have w: "adds (hv_owned w) m m1" "hv_fits m1 w" "hv_abs m1 w = hv_abs m u"
      using c Pair Inr by (simp_all add: allocates_def)
    obtain temp this where sw: "hv_swap w v = (temp, this)" by force
    note s = hv_swap_sel [OF sw]
    have "hv_fits m1 v" using hv_keeps(1) [OF w(1) assms(2)] by simp
    then have d: "hv_destroy temp m1 = (Inr (), forget (hv_owned v) m1)"
      using hv_destroy_forget(1) [of m1 temp] s assms(3) by simp
    have dis: "set (hv_owned w) \<inter> set (hv_owned v) = {}"
      using w(1) hv_owned_in_use(1) [OF assms(2)] by (fastforce simp: adds_def)
    have "adds (hv_owned this) (forget (hv_owned v) m) (forget (hv_owned v) m1)"
      using w(1) dis s(2) by (auto simp: adds_def)
    moreover have "hv_fits (forget (hv_owned v) m1) this \<and> hv_abs (forget (hv_owned v) m1) this = hv_abs m u"
      using hv_forget(1) [OF w(2) dis] w(3) s(4,6) by simp
    ultimately show ?thesis using Pair Inr d by (simp add: assigned_def hv_assign_def act_bind_def sw act_return_def)
  qed
qed

section \<open>Members\<close>

lemma hm_fits_iff: "hm_fits m arr ms \<longleftrightarrow> (\<forall>(k, v)\<in>set ms. cz_fits m k \<and> (cz_cstr k = NullPtr \<longleftrightarrow> arr) \<and> hv_fits m v)"
  by (induction m arr ms rule: hv_fits_hm_fits.induct(2) [where P = "\<lambda>_ _. True"]) auto

lemma hm_abs_map: "hm_abs m ms = map (\<lambda>(k, v). (cz_key m k, hv_abs m v)) ms"
  by (induction ms) auto

lemma hm_owned_concat: "hm_owned ms = concat (map (\<lambda>(k, v). cz_owned k @ hv_owned v) ms)"
  by (induction ms) auto

definition hm_names :: "memory \<Rightarrow> (czstring \<times> hvalue) list \<Rightarrow> (string \<times> jvalue) list" where
  "hm_names m ms = map (\<lambda>(k, v). (key_name (cz_key m k), hv_abs m v)) ms"

lemma insert_key_allocates:
  assumes "mem_ok m" "cz_fits m z" "cz_cstr z \<noteq> NullPtr"
  shows "allocates cz_owned (\<lambda>m' k. cz_fits m' k \<and> cz_key m' k = cz_key m z \<and> cz_cstr k \<noteq> NullPtr) m (insert_key z m)"
proof (cases "cz_copy z m")
  case (Pair r m1)
  note c = cz_copy_allocates [OF assms(1,2)]
  show ?thesis
  proof (cases r)
    case (Inl e)
    then show ?thesis using c Pair by (simp add: allocates_def insert_key_def act_bind_def)
  next
    case (Inr k)
    have k: "adds (cz_owned k) m m1" "cz_fits m1 k" "cz_key m1 k = cz_key m z" "cz_cstr k \<noteq> NullPtr"
      using c Pair Inr assms(3) by (simp_all add: allocates_def)
    note c2 = cz_copy_allocates [OF adds_ok [OF k(1)] k(2)]
    obtain r2 m2 where k2: "cz_copy k m1 = (r2, m2)" by force
    show ?thesis
    proof (cases r2)
      case (Inl e)
      have e: "adds [] m1 m2" "\<exists>j. mem_fails m1 j" "\<exists>s. e = RuntimeError s" using c2 k2 Inl by (simp_all add: allocates_def)
      have "cz_destroy k m2 = (Inr (), forget (cz_owned k) m2)" using cz_destroy_forget cz_keeps [OF e(1) k(2)] by blast
      moreover have "\<exists>j. mem_fails m j" using e(2) k(1) by (simp add: adds_def)
      ultimately show ?thesis
        using adds_forget_first [OF k(1) e(1)] e(3) Pair Inr k2 Inl
        by (simp add: allocates_def insert_key_def act_bind_def act_cleanup_def)
    next
      case (Inr k')
      have k': "adds (cz_owned k') m1 m2" "cz_fits m2 k'" "cz_key m2 k' = cz_key m z" "cz_cstr k' \<noteq> NullPtr"
        using c2 k2 Inr k by (simp_all add: allocates_def)
      have d: "cz_destroy k m2 = (Inr (), forget (cz_owned k) m2)" using cz_destroy_forget cz_keeps [OF k'(1) k(2)] by blast
      have "set (cz_owned k') \<inter> set (cz_owned k) = {}" using adds_disjoint [OF k(1) k'(1)] by auto
      from cz_forget [OF k'(2) this] show ?thesis
        using adds_forget_first [OF k(1) k'(1)] k' d Pair \<open>r = Inr k\<close> k2 Inr
        by (simp add: allocates_def insert_key_def act_bind_def act_cleanup_def act_return_def)
    qed
  qed
qed

lemma lower_bound_splits:
  assumes "cz_fits m z" "cz_key m z = NameKey s" "hm_fits m False ms"
  shows "hm_lower_bound z ms m = Inr (takeWhile (\<lambda>(k, v). key_name (cz_key m k) < s) ms,
    dropWhile (\<lambda>(k, v). key_name (cz_key m k) < s) ms)"
  using assms(3)
proof (induction ms)
  case (Cons e ms)
  obtain k v where e: "e = (k, v)" by force
  have "cz_key m k = NameKey (key_name (cz_key m k))" using Cons.prems by (simp add: e cz_key_def)
  then have "cz_less k z m = Inr (key_name (cz_key m k) < s)" using cz_compare(1) [OF _ assms(1) _ assms(2)] Cons.prems e by simp
  then show ?case using Cons by (simp add: e)
qed simp

lemma smap_put_split:
  "map_of m k = None \<Longrightarrow> smap_put k x m = takeWhile (\<lambda>p. fst p < k) m @ (k, x) # dropWhile (\<lambda>p. fst p < k) m"
  by (induction m) (auto split: if_splits)

lemma smap_find_split:
  "smap_ok m \<Longrightarrow> map_of m k = (case dropWhile (\<lambda>p. fst p < k) m of [] \<Rightarrow> None | (j, x) # _ \<Rightarrow> if j = k then Some x else None)"
proof (induction m)
  case (Cons p m)
  obtain j x where p: "p = (j, x)" by force
  show ?case
  proof (cases "j < k")
    case False
    have "map_of m k = None" if "j \<noteq> k"
    proof -
      have "k < j" using False that by simp
      then have "k \<notin> fst ` set m" using Cons.prems by (force simp: p)
      then show ?thesis by (simp add: map_of_eq_None_iff)
    qed
    then show ?thesis using False by (simp add: p)
  qed (use Cons p in \<open>auto simp: less_imp_neq\<close>)
qed simp

definition resolved :: "memory \<Rightarrow> string \<Rightarrow> (czstring \<times> hvalue) list \<Rightarrow> ((czstring \<times> hvalue) list \<times> hvalue) res \<times> memory \<Rightarrow> bool" where
  "resolved m key ms p \<longleftrightarrow> (case fst p of
       Inl e \<Rightarrow> adds [] m (snd p) \<and> (\<exists>k. mem_fails m k) \<and> (\<exists>s. e = RuntimeError s)
     | Inr (ms', w) \<Rightarrow> (\<exists>bs. adds bs m (snd p) \<and> mset (hm_owned ms') = mset (hm_owned ms) + mset bs) \<and>
         hm_fits (snd p) False ms' \<and> hv_fits (snd p) w \<and>
         (case map_of (hm_names m ms) key of
            Some x \<Rightarrow> hm_names (snd p) ms' = hm_names m ms \<and> hv_abs (snd p) w = x
          | None \<Rightarrow> hm_names (snd p) ms' = smap_put key nullSingleton (hm_names m ms) \<and> hv_abs (snd p) w = nullSingleton))"

lemma hm_resolve_resolved:
  assumes m: "mem_ok m" "hm_fits m False ms" "smap_ok (hm_names m ms)" and len: "length key < 2 ^ 30"
  shows "resolved m key ms (hm_resolve key ms m)"
proof -
  let ?z = "cz_of_string (Extern key) (length key) duplicateOnCopy"
  let ?lt = "\<lambda>(k, v). key_name (cz_key m k) < key"
  let ?f = "\<lambda>(k, v). (key_name (cz_key m k), hv_abs m v)"
  let ?before = "takeWhile ?lt ms" and ?from = "dropWhile ?lt ms"
  have z: "cz_fits m ?z" "cz_key m ?z = NameKey key" "cz_cstr ?z \<noteq> NullPtr"
  proof -
    have l: "cz_length ?z = length key" "cz_policy ?z = duplicateOnCopy" "cz_cstr ?z = Extern key"
      using len by (simp_all add: cz_length_of_string cz_policy_of_string) (simp add: cz_of_string_def)
    then show "cz_fits m ?z" "cz_key m ?z = NameKey key" "cz_cstr ?z \<noteq> NullPtr" by (simp_all add: cz_fits_def cz_key_def)
  qed
  have lb: "hm_lower_bound ?z ms m = Inr (?before, ?from)" by (rule lower_bound_splits [OF z(1,2) m(2)])
  have lt: "(\<lambda>p. fst p < key) \<circ> ?f = ?lt" by auto
  have tw: "takeWhile (\<lambda>p. fst p < key) (hm_names m ms) = map ?f ?before" "dropWhile (\<lambda>p. fst p < key) (hm_names m ms) = map ?f ?from"
    unfolding hm_names_def takeWhile_map dropWhile_map lt by simp_all
  define found where "found = (case ?from of [] \<Rightarrow> None | (k, v) # _ \<Rightarrow> if key_name (cz_key m k) = key then Some v else None)"
  have fd: "map_of (hm_names m ms) key = map_option (hv_abs m) found"
  proof -
    have "(case map ?f es of [] \<Rightarrow> None | (j, x) # _ \<Rightarrow> if j = key then Some x else None) =
        map_option (hv_abs m) (case es of [] \<Rightarrow> None | (k, v) # _ \<Rightarrow> if key_name (cz_key m k) = key then Some v else None)" for es
      by (cases es) (simp_all add: case_prod_beta)
    then show ?thesis unfolding smap_find_split [OF m(3), of key] tw(2) found_def .
  qed
  have fits: "\<forall>(k, v)\<in>set ms. cz_fits m k \<and> cz_cstr k \<noteq> NullPtr \<and> hv_fits m v" using m(2) by (auto simp: hm_fits_iff)
  have eq: "(case ?from of [] \<Rightarrow> Inr None | (k, v) # _ \<Rightarrow> rbind (cz_eq k ?z m) (\<lambda>eq. Inr (if eq then Some v else None))) = Inr found"
  proof (cases ?from)
    case (Cons e es)
    obtain k v where e: "e = (k, v)" by force
    have "(k, v) \<in> set ms" using Cons e set_dropWhileD [of e ?lt ms] by simp
    then have k: "cz_fits m k" "cz_key m k = NameKey (key_name (cz_key m k))" using fits by (auto simp: cz_key_def)
    from cz_compare(2) [OF k(1) z(1) k(2) z(2)] show ?thesis by (simp add: found_def Cons e)
  qed (simp only: found_def list.case)
  have run: "hm_resolve key ms m = (case found of Some v \<Rightarrow> act_return (ms, v) m
      | None \<Rightarrow> act_bind (insert_key ?z) (\<lambda>k. act_return (?before @ (k, hv_of_type nullValue) # ?from, hv_of_type nullValue)) m)"
    by (simp add: hm_resolve_def Let_def act_bind_def [of "act_read _"] act_read_def lb eq split: option.split)
  show ?thesis
  proof (cases found)
    case (Some v)
    then obtain k es where f: "?from = (k, v) # es" "key_name (cz_key m k) = key" by (auto simp: found_def split: list.splits if_splits)
    then have "(k, v) \<in> set ms" using set_dropWhileD [of "(k, v)" ?lt ms] by simp
    then have "hv_fits m v" using fits by auto
    then show ?thesis using m Some fd f run
      by (auto simp: resolved_def act_return_def intro: exI [of _ "[]"])
  next
    case None
    note ins = insert_key_allocates [OF m(1) z(1,3)]
    obtain r m' where r: "insert_key ?z m = (r, m')" by force
    show ?thesis
    proof (cases r)
      case (Inl e)
      then show ?thesis using ins r run None by (simp add: resolved_def allocates_def act_bind_def)
    next
      case (Inr k)
      have k: "adds (cz_owned k) m m'" "cz_fits m' k" "cz_key m' k = NameKey key" "cz_cstr k \<noteq> NullPtr"
        using ins r Inr z(2) by (simp_all add: allocates_def)
      let ?null = "hv_of_type nullValue"
      let ?ms = "?before @ (k, ?null) # ?from"
      have nul: "hv_fits m' ?null" "hv_abs m' ?null = nullSingleton" "hv_owned ?null = []"
        by (simp_all add: hv_initBasic_def initBasic_def)
      have old: "cz_fits m' j \<and> cz_cstr j \<noteq> NullPtr \<and> hv_fits m' v \<and> cz_key m' j = cz_key m j \<and> hv_abs m' v = hv_abs m v" if "(j, v) \<in> set ms" for j v
        using fits that cz_keeps [OF k(1), of j] hv_keeps(1) [OF k(1), of v] by auto
      have sub: "set ?before \<subseteq> set ms" "set ?from \<subseteq> set ms" by (auto dest: set_takeWhileD set_dropWhileD)
      have "hm_fits m' False ?ms" using old sub k nul(1) by (fastforce simp: hm_fits_iff)
      moreover have nf: "map_of (hm_names m ms) key = None" using fd None by simp
      moreover have "hm_names m' ?ms = smap_put key nullSingleton (hm_names m ms)"
      proof -
        have "hm_names m' ?before = map ?f ?before" "hm_names m' ?from = map ?f ?from"
          unfolding hm_names_def using old sub by (auto intro!: map_cong)
        moreover have "hm_names m' (bs @ (k, ?null) # cs) = hm_names m' bs @ (key, nullSingleton) # hm_names m' cs" for bs cs
          using k(3) nul(2) by (simp add: hm_names_def)
        ultimately show ?thesis unfolding smap_put_split [OF nf] tw by (simp only:)
      qed
      moreover have "mset (hm_owned ?ms) = mset (hm_owned ms) + mset (cz_owned k)"
      proof -
        have "hm_owned ms = hm_owned ?before @ hm_owned ?from"
          unfolding hm_owned_concat concat_append [symmetric] map_append [symmetric] takeWhile_dropWhile_id ..
        then show ?thesis using nul(3) by (simp add: hm_owned_concat)
      qed
      ultimately show ?thesis using k(1) nul r Inr run None by (auto simp: resolved_def act_bind_def act_return_def)
    qed
  qed
qed

section \<open>Properties\<close>

text \<open>The result of copying: a value of its own that stands for the same, or an exception that leaves no trace.\<close>

definition copied :: "memory \<Rightarrow> hvalue \<Rightarrow> hvalue res \<times> memory \<Rightarrow> bool" where
  "copied m v p \<longleftrightarrow> (case fst p of
       Inl e \<Rightarrow> adds [] m (snd p) \<and> (\<exists>k. mem_fails m k) \<and> (\<exists>s. e = RuntimeError s)
     | Inr w \<Rightarrow> adds (hv_owned w) m (snd p) \<and> hv_fits (snd p) w \<and>
         hv_abs (snd p) w = hv_abs m v \<and> hv_abs (snd p) v = hv_abs m v \<and>
         (\<exists>m'. hv_destroy w (snd p) = (Inr (), m') \<and> mem_block m' = mem_block m))"

lemma hv_copy_copied:
  assumes "mem_ok m" "hv_fits m v"
  shows "copied m v (hv_copy v m)"
proof (cases "hv_copy v m")
  case (Pair r m1)
  note c = hv_copy_allocates(1) [OF assms]
  show ?thesis
  proof (cases r)
    case (Inr w)
    have w: "adds (hv_owned w) m m1" "hv_fits m1 w" "hv_abs m1 w = hv_abs m v" using c Pair Inr by (simp_all add: allocates_def)
    have "hv_destroy w m1 = (Inr (), forget (hv_owned w) m1)" by (rule hv_destroy_forget(1) [OF w(2)]) (use w(1) in \<open>simp add: adds_def\<close>)
    moreover have "mem_block (forget (hv_owned w) m1) = mem_block m" using w(1) by (auto simp: adds_def fun_eq_iff)
    ultimately show ?thesis using w hv_keeps(1) [OF w(1) assms(2)] Pair Inr by (simp add: copied_def)
  qed (use c Pair in \<open>simp add: copied_def allocates_def\<close>)
qed

text \<open>A small memory with one value that owns two blocks: an object with the member \<^verbatim>\<open>a\<close>, the text \<^verbatim>\<open>x\<close>.\<close>

definition small_memory :: memory where
  "small_memory = \<lparr>mem_block = [0 \<mapsto> ''a'' @ [NUL], 1 \<mapsto> le32 1 @ ''x'' @ [NUL]], mem_next = 2, mem_fails = (\<lambda>k. False)\<rparr>"

definition small_value :: hvalue where
  "small_value = hv_initBasic (HObject [(cz_of_string (Block 0) 1 duplicate, hv_initBasic (HString (Block 1)) True)]) False"

lemma small_sound: "mem_ok small_memory" "hv_fits small_memory small_value" "hv_owned small_value = [0, 1]"
proof -
  let ?k = "cz_of_string (Block 0) 1 duplicate"
  have k: "cz_length ?k = 1" "cz_policy ?k = duplicate" "cz_cstr ?k = Block 0"
    by (simp_all add: cz_length_of_string cz_policy_of_string) (simp add: cz_of_string_def)
  then have "cz_owned ?k = [0]" by (simp add: cz_owned_def)
  then show "hv_owned small_value = [0, 1]" by (simp add: small_value_def hv_initBasic_def)
  have "cz_fits small_memory ?k" using k by (auto simp: cz_fits_def small_memory_def intro: exI [of _ "''a''"])
  moreover have "string_fits small_memory True (Block 1)"
    by (auto simp: string_fits_def small_memory_def max_prefixed_def int_limits intro!: exI [of _ "''x''"])
  ultimately show "hv_fits small_memory small_value" using k by (simp add: small_value_def hv_initBasic_def)
qed (simp add: mem_ok_def small_memory_def)

text \<open>C32 (copy_and_assign_refine). The copy constructor yields a value that stands for the same and owns blocks of its own, which its
  destructor frees, exactly. Assignment replaces what this value stood for by what the other stands for, and frees exactly
  what this value owned, also when the other is this value or a part of it. If
  \<^verbatim>\<open>malloc\<close> fails on the way, the exception is the \<^verbatim>\<open>RuntimeError\<close> for it, and nothing has been leaked or changed.\<close>

theorem copy_and_assign_refine:
  assumes "mem_ok m" "hv_fits m v" "distinct (hv_owned v)" "hv_fits m u"
  shows "copied m u (hv_copy u m) \<and> assigned m (hv_owned v) (hv_abs m u) (hv_assign v u m)"
  using hv_copy_copied [OF assms(1,4)] hv_assign_assigned [OF assms] by simp

theorem copy_and_assign_refine_witness:
  "copied small_memory small_value (hv_copy small_value small_memory) \<and>
   assigned small_memory [0, 1] (hv_abs small_memory small_value) (hv_assign small_value small_value small_memory)"
  using copy_and_assign_refine [OF small_sound(1,2) _ small_sound(2)] small_sound(3) by simp

text \<open>C33 (operator_index_refines_map). In memory, \<^verbatim>\<open>operator[](key)\<close> finds the position by comparing the bytes of the stored keys, and
  copies the key into a new entry if it has to. What comes out stands for what \<open>resolveReference\<close> computes on the
  finite map, all blocks but those of the result keep their content, and no block is lost or owned twice.\<close>

theorem operator_index_refines_map:
  assumes "mem_ok m" "hv_fits m v" "jv_ok (hv_abs m v)" "distinct (hv_owned v)" "length key < 2 ^ 30"
    and run: "hv_resolveReference key v m = (Inr (v', w), m')"
  shows "resolveReference key (hv_abs m v) = Inr (hv_abs m' v', hv_abs m' w) \<and> hv_fits m' v' \<and> distinct (hv_owned v') \<and>
    set (hv_owned v) \<subseteq> set (hv_owned v') \<and> adds (filter (\<lambda>a. a \<notin> set (hv_owned v)) (hv_owned v')) m m'"
proof -
  obtain d al c s l where v: "v = HValue d al c s l" by (cases v)
  have step: "\<exists>bs. adds bs m m' \<and> mset (hm_owned ms') = mset (hm_owned ms) + mset bs \<and> hm_fits m' False ms' \<and> hv_fits m' w \<and>
      (case map_of (hm_names m ms) key of
         Some x \<Rightarrow> hm_names m' ms' = hm_names m ms \<and> hv_abs m' w = x
       | None \<Rightarrow> hm_names m' ms' = smap_put key nullSingleton (hm_names m ms) \<and> hv_abs m' w = nullSingleton)"
    if "hm_resolve key ms m = (Inr (ms', w), m')" "hm_fits m False ms" "smap_ok (hm_names m ms)" for ms ms'
    using hm_resolve_resolved [OF assms(1) that(2,3) assms(5)] unfolding resolved_def that(1) fst_conv snd_conv sum.case prod.case by blast
  have names: "map (\<lambda>(k, w). (key_name k, w)) (hm_abs m2 ms) = hm_names m2 ms" for m2 ms
    by (simp add: hm_abs_map hm_names_def case_prod_beta comp_def)
  show ?thesis
  proof (cases d)
    case HNull
    then obtain ms' where h: "hm_resolve key [] m = (Inr (ms', w), m')" "v' = hv_initBasic (HObject ms') False"
      using run v by (auto simp: hv_resolveReference_def act_bind_def act_return_def split: prod.splits sum.splits)
    from step [OF h(1)] obtain bs where b: "adds bs m m'" "mset (hm_owned ms') = mset bs" "hm_fits m' False ms'"
      "hm_names m' ms' = [(key, nullSingleton)]" "hv_abs m' w = nullSingleton" by (auto simp: hm_names_def)
    have "adds (hm_owned ms') m m'" "distinct (hm_owned ms')"
      using b(1,2) mset_eq_setD [OF b(2)] mset_eq_imp_distinct_iff [OF b(2)] by (simp_all add: adds_def)
    then show ?thesis using b h v HNull names [of m' ms'] by (simp add: resolveReference_def hv_initBasic_def initBasic_def)
  next
    case (HObject ms)
    then obtain ms' where h: "hm_resolve key ms m = (Inr (ms', w), m')" "v' = HValue (HObject ms') al c s l"
      using run v by (auto simp: hv_resolveReference_def act_bind_def act_return_def split: prod.splits sum.splits)
    have ok: "smap_ok (hm_names m ms)" using assms(3) v HObject names [of m ms] by (simp add: kids_ok_def)
    have f: "hm_fits m False ms" "distinct (hm_owned ms)" using assms(2,4) v HObject by simp_all
    from step [OF h(1) f(1) ok] obtain bs where b: "adds bs m m'" "mset (hm_owned ms') = mset (hm_owned ms) + mset bs"
      "hm_fits m' False ms'" and r: "(case map_of (hm_names m ms) key of
         Some x \<Rightarrow> hm_names m' ms' = hm_names m ms \<and> hv_abs m' w = x
       | None \<Rightarrow> hm_names m' ms' = smap_put key nullSingleton (hm_names m ms) \<and> hv_abs m' w = nullSingleton)" by blast
    have m: "mset (hm_owned ms') = mset (hm_owned ms @ bs)" using b(2) by simp
    have dis: "set (hm_owned ms) \<inter> set bs = {}" using b(1) hv_owned_in_use(2) [OF f(1)] by (fastforce simp: adds_def)
    have dist: "distinct (hm_owned ms')" "set (hm_owned ms') = set (hm_owned ms) \<union> set bs"
      using mset_eq_setD [OF m] mset_eq_imp_distinct_iff [OF m] f(2) b(1) dis by (simp_all add: adds_def)
    have new: "set (filter (\<lambda>a. a \<notin> set (hm_owned ms)) (hm_owned ms')) = set bs" using dist(2) dis by auto
    have "adds (filter (\<lambda>a. a \<notin> set (hm_owned ms)) (hm_owned ms')) m m'"
      using b(1) dist(1) new by (simp add: adds_def)
    then show ?thesis using b r h v HObject names [of m' ms'] names [of m ms] dist
      by (auto simp: resolveReference_def set_payload_def split: option.splits)
  qed (use run v in \<open>simp_all add: hv_resolveReference_def act_throw_def\<close>)
qed

theorem operator_index_refines_map_witness:
  "\<exists>v' w m'. hv_resolveReference ''b'' small_value small_memory = (Inr (v', w), m') \<and>
     resolveReference ''b'' (hv_abs small_memory small_value) = Inr (hv_abs m' v', hv_abs m' w)"
proof -
  obtain ms where ms: "small_value = HValue (HObject ms) False NoComments 0 0" "length ms = 1"
    by (simp add: small_value_def hv_initBasic_def)
  have f: "hm_fits small_memory False ms" using small_sound(2) unfolding ms(1) by simp
  have ok: "smap_ok (hm_names small_memory ms)" using ms(2) by (cases ms) (auto simp: hm_names_def)
  obtain r m' where r: "hm_resolve ''b'' ms small_memory = (r, m')" by force
  have "resolved small_memory ''b'' ms (r, m')" using hm_resolve_resolved [OF small_sound(1) f ok, of "''b''"] r by simp
  then obtain ms' w where "r = Inr (ms', w)" by (cases r) (auto simp: resolved_def small_memory_def)
  then obtain v' where run: "hv_resolveReference ''b'' small_value small_memory = (Inr (v', w), m')"
    using r unfolding hv_resolveReference_def ms(1) by (simp add: act_bind_def act_return_def)
  have "jv_ok (hv_abs small_memory small_value)"
    by (simp add: small_value_def hv_initBasic_def kids_ok_def)
  from operator_index_refines_map [OF small_sound(1,2) this _ _ run] run show ?thesis using small_sound(3) by simp
qed

text \<open>A value made from a text holds all of it, NUL bytes included, up to 2147483642 bytes; a longer text
  is refused. \<^verbatim>\<open>asCString\<close> gives a C string, which ends at the first NUL byte.\<close>

lemma string_value_exact:
  assumes "mem_ok m"
  shows "(length s \<le> 2147483642 \<and> (\<forall>k. \<not> mem_fails m k) \<longrightarrow>
      (\<exists>v m'. hv_of_string s m = (Inr v, m') \<and> hv_getString v m' = Inr (Some s) \<and>
         hv_asCString v m' = Inr (Some (takeWhile (\<lambda>c. c \<noteq> NUL) s)))) \<and>
    (length s > 2147483642 \<longrightarrow> (\<exists>e. hv_of_string s m = (Inl (LogicError e), m)))"
proof (intro conjI impI)
  assume a: "length s \<le> 2147483642 \<and> (\<forall>k. \<not> mem_fails m k)"
  have l: "of_le32 (le32 (length s) @ s @ [NUL]) = length s" by (rule of_le32_le32) (use a in simp)
  obtain q m' where q: "duplicateAndPrefixStringValue s m = (Inr (Block q), m')" "mem_block m' q = Some (le32 (length s) @ s @ [NUL])"
    using a by (simp add: duplicateAndPrefixStringValue_def max_prefixed_def int_limits act_bind_def malloc_def act_return_def)
  have "hv_of_string s m = (Inr (hv_initBasic (HString (Block q)) True), m')"
    using q(1) by (simp add: hv_of_string_def act_bind_def act_return_def)
  moreover have "takeWhile (\<lambda>c. c \<noteq> NUL) (s @ [NUL]) = takeWhile (\<lambda>c. c \<noteq> NUL) s" by (induction s) auto
  ultimately show "\<exists>v m'. hv_of_string s m = (Inr v, m') \<and> hv_getString v m' = Inr (Some s) \<and>
         hv_asCString v m' = Inr (Some (takeWhile (\<lambda>c. c \<noteq> NUL) s))"
    using q(2) l by (intro exI [of _ "hv_initBasic (HString (Block q)) True"] exI [of _ m'])
      (simp add: hv_getString_def hv_asCString_def hv_initBasic_def decodePrefixedString_def c_string_def)
qed (auto simp: hv_of_string_def act_bind_def duplicateAndPrefixStringValue_def max_prefixed_def int_limits act_throw_def)

text \<open>C34 (long_names_collide). A key keeps the length of its name in 30 bits. A name of \<open>2 ^ 30\<close> bytes
  is the same key as the empty name, and in general a name is cut to its length modulo \<open>2 ^ 30\<close>.\<close>

theorem long_names_collide:
  "cz_length (cz_of_string p n duplicateOnCopy) = n mod 2 ^ 30 \<and>
   (length s = 2 ^ 30 \<longrightarrow>
     cz_eq (cz_of_string (Extern s) (length s) duplicateOnCopy) (cz_of_string (Extern []) 0 duplicateOnCopy) m = Inr True)"
proof (intro conjI impI)
  assume s: "length s = 2 ^ 30"
  let ?k = "cz_of_string (Extern s) (length s) duplicateOnCopy" and ?e = "cz_of_string (Extern []) 0 duplicateOnCopy"
  have "cz_length ?k = 0" "cz_length ?e = 0" unfolding cz_length_of_string s by simp_all
  moreover have "cz_cstr ?k = Extern s" "cz_cstr ?e = Extern []" by (simp_all add: cz_of_string_def)
  ultimately show "cz_eq ?k ?e m = Inr True" by (simp add: cz_eq_def bytes_at_def)
qed (rule cz_length_of_string)

theorem long_names_collide_witness:
  "\<exists>s. length s = 2 ^ 30 \<and>
     cz_eq (cz_of_string (Extern s) (length s) duplicateOnCopy) (cz_of_string (Extern []) 0 duplicateOnCopy) small_memory = Inr True"
proof -
  have l: "length (replicate (2 ^ 30) (CHR ''a'')) = 2 ^ 30" by (rule length_replicate)
  from long_names_collide [of "Extern []" 0 "replicate (2 ^ 30) (CHR ''a'')" small_memory] l show ?thesis by blast
qed

text \<open>Copying the payload of a value onto itself reads the text it has just freed.\<close>

lemma copyPayload_of_itself:
  assumes "hv_data v = HString (Block a)" "hv_allocated v" "hv_fits m v"
  shows "fst (hv_copyPayload v v m) = Inl DanglingPointer"
  using assms
  by (cases v) (auto simp: hv_copyPayload_def act_bind_def act_read_def string_fits_def releasePrefixedStringValue_def
      c_free_def decodePrefixedString_def)

text \<open>The copy assignment of \<^verbatim>\<open>CZString\<close> shares the text, so that destroying both keys frees it twice.\<close>

lemma cz_assign_double_free:
  assumes "cz_fits m k" "cz_owned k \<noteq> []"
  shows "fst (act_bind (cz_destroy (cz_assign k' k)) (\<lambda>_. cz_destroy k) m) = Inl DanglingPointer"
  using assms
  by (auto simp: cz_owned_def cz_fits_def cz_destroy_def cz_assign_def cz_policy_def act_bind_def releaseStringValue_def
      c_free_def split: c_pointer.splits if_splits)

end
