(* ===== verification/Json_Path.thy ===== *)
theory Json_Path
  imports Json_Laws
begin

text \<open>
  The textual syntax of \<^verbatim>\<open>Json::Path\<close> (\<^verbatim>\<open>jsoncpp/src/json_value.cpp\<close>, lines 1511 to 1571): \<^verbatim>\<open>makePath\<close> turns a text
  such as \<^verbatim>\<open>.a[3].b\<close> into the arguments that \<open>Json_Access.path_resolve\<close> and \<open>path_make\<close> follow. The pointer
  \<^verbatim>\<open>current\<close> is the part of the text still to be read; dereferenced at the end it is the NUL
  byte that ends \<^verbatim>\<open>c_str()\<close>. The loop is a partial function, because it does not always end. Errors in the text are
  not reported: \<^verbatim>\<open>invalidPath\<close> is empty in the source, and so is each failing branch of \<^verbatim>\<open>addPathInArg\<close>.
\<close>

section \<open>Parsing\<close>

definition path_peek :: "string \<Rightarrow> char" where
  "path_peek cur = (case cur of [] \<Rightarrow> NUL | c # _ \<Rightarrow> c)"

text \<open>The arguments are added in the order of the text; \<open>ins\<close> is what is left of \<^verbatim>\<open>in\<close>, from \<^verbatim>\<open>itInArg\<close> on.\<close>

fun is_kind :: "path_argument \<Rightarrow> path_argument \<Rightarrow> bool" where
  "is_kind (KindIndex _) (KindIndex _) = True"
| "is_kind (KindKey _) (KindKey _) = True"
| "is_kind KindNone KindNone = True"
| "is_kind _ _ = False"

definition addPathInArg :: "path_argument \<Rightarrow> path_argument list \<Rightarrow> path_argument list \<Rightarrow>
    path_argument list \<times> path_argument list" where
  "addPathInArg kind ins args =
     (case ins of
        [] \<Rightarrow> (args, ins)
      | a # rest \<Rightarrow> if \<not> is_kind a kind then (args, ins) else (args @ [a], rest))"

text \<open>\<^verbatim>\<open>ArrayIndex\<close> has 32 bits.\<close>

fun path_index :: "nat \<Rightarrow> string \<Rightarrow> nat \<times> string" where
  "path_index index [] = (index, [])"
| "path_index index (c # cur) =
     (if is_digit c then path_index ((index * 10 + (byte c - 48)) mod 2 ^ 32) cur else (index, c # cur))"

text \<open>\<^verbatim>\<open>strchr("[.", c)\<close> also finds the NUL byte that ends its first argument.\<close>

definition ends_name :: "char \<Rightarrow> bool" where
  "ends_name c \<longleftrightarrow> c = CHR ''['' \<or> c = CHR ''.'' \<or> c = NUL"

definition path_bracket :: "string \<Rightarrow> path_argument list \<Rightarrow> path_argument list \<Rightarrow>
    string \<times> path_argument list \<times> path_argument list" where
  "path_bracket cur ins args =
     (let (cur1, args1, ins1) =
        (if path_peek cur = CHR ''%'' then (cur, addPathInArg (KindIndex 0) ins args)
         else (let (index, cur1) = path_index 0 cur in (cur1, args @ [KindIndex index], ins)))
      in (if cur1 = [] then cur1 else tl cur1, args1, ins1))"

partial_function (option) makePath_loop ::
    "string \<Rightarrow> path_argument list \<Rightarrow> path_argument list \<Rightarrow> path_argument list option" where
  "makePath_loop cur ins args =
     (case cur of
        [] \<Rightarrow> Some args
      | c # rest \<Rightarrow>
          if c = CHR ''['' then (let (cur1, args1, ins1) = path_bracket rest ins args in makePath_loop cur1 ins1 args1)
          else if c = CHR ''%'' then (let (args1, ins1) = addPathInArg (KindKey []) ins args in makePath_loop rest ins1 args1)
          else if c = CHR ''.'' \<or> c = CHR '']'' then makePath_loop rest ins args
          else makePath_loop (dropWhile (\<lambda>c. \<not> ends_name c) cur) ins
                 (args @ [KindKey (takeWhile (\<lambda>c. \<not> ends_name c) cur)]))"

definition makePath :: "string \<Rightarrow> path_argument list \<Rightarrow> path_argument list option" where
  "makePath path ins = makePath_loop path ins []"

text \<open>The constructor: five arguments, by default of no kind.\<close>

definition Path_new :: "string \<Rightarrow> path_argument list \<Rightarrow> path_argument list option" where
  "Path_new path as = makePath path (take 5 (as @ replicate 5 KindNone))"

section \<open>When the loop ends\<close>

lemma path_index_length: "length (snd (path_index i cur)) \<le> length cur"
  by (induction i cur rule: path_index.induct) (simp_all add: le_SucI)

lemma path_bracket_length: "path_bracket cur ins args = (cur1, args1, ins1) \<Longrightarrow> length cur1 \<le> length cur"
  using path_index_length [of 0 cur]
  by (auto simp: path_bracket_def split: if_splits prod.splits)

lemma path_index_suffix: "set (snd (path_index i cur)) \<subseteq> set cur"
  by (induction i cur rule: path_index.induct) auto

lemma path_bracket_set:
  assumes "path_bracket cur ins args = (cur1, args1, ins1)"
  shows "set cur1 \<subseteq> set cur"
proof -
  have "cur1 = tl cur \<or> cur1 = tl (snd (path_index 0 cur))"
    using assms by (auto simp: path_bracket_def split: if_splits prod.splits)
  then have "\<exists>xs. set xs \<subseteq> set cur \<and> cur1 = tl xs" using path_index_suffix [of 0 cur] by blast
  then show ?thesis by (metis list.sel(2) list.set_sel(2) subset_iff)
qed

text \<open>One turn of the loop.\<close>

lemma makePath_loop_Nil [simp]: "makePath_loop [] ins args = Some args"
  by (simp add: makePath_loop.simps)

lemma makePath_loop_bracket:
  "path_bracket rest ins args = (cur1, args1, ins1) \<Longrightarrow>
   makePath_loop (CHR ''['' # rest) ins args = makePath_loop cur1 ins1 args1"
  by (simp add: makePath_loop.simps [of "_ # _"])

lemma makePath_loop_param:
  "addPathInArg (KindKey []) ins args = (args1, ins1) \<Longrightarrow>
   makePath_loop (CHR ''%'' # rest) ins args = makePath_loop rest ins1 args1"
  by (simp add: makePath_loop.simps [of "_ # _"])

lemma makePath_loop_sep:
  "c = CHR ''.'' \<or> c = CHR '']'' \<Longrightarrow> makePath_loop (c # rest) ins args = makePath_loop rest ins args"
  by (auto simp: makePath_loop.simps [of "_ # _"])

definition starts_name :: "char \<Rightarrow> bool" where
  "starts_name c \<longleftrightarrow> \<not> ends_name c \<and> c \<noteq> CHR ''%'' \<and> c \<noteq> CHR '']''"

lemma makePath_loop_name:
  "starts_name c \<Longrightarrow> makePath_loop (c # rest) ins args =
     makePath_loop (dropWhile (\<lambda>c. \<not> ends_name c) rest) ins (args @ [KindKey (c # takeWhile (\<lambda>c. \<not> ends_name c) rest)])"
  by (simp add: makePath_loop.simps [of "_ # _"] starts_name_def ends_name_def)

lemma path_char_cases:
  obtains "c = NUL" | "c = CHR ''[''" | "c = CHR ''%''" | "c = CHR ''.'' \<or> c = CHR '']''" | "starts_name c"
  unfolding starts_name_def ends_name_def by blast

lemma makePath_loop_ends:
  "NUL \<notin> set cur \<Longrightarrow> \<exists>out. makePath_loop cur ins args = Some out"
proof (induction cur arbitrary: ins args rule: length_induct)
  case (1 cur)
  show ?case
  proof (cases cur)
    case (Cons c rest)
    have IH: "\<exists>out. makePath_loop cur' ins' args' = Some out" if "length cur' \<le> length rest" "set cur' \<subseteq> set rest" for cur' ins' args'
    proof -
      have "length cur' < length cur" "NUL \<notin> set cur'" using that Cons 1(2) by auto
      with 1(1) show ?thesis by blast
    qed
    show ?thesis
    proof (cases c rule: path_char_cases)
      case 2
      obtain cur1 args1 ins1 where b: "path_bracket rest ins args = (cur1, args1, ins1)" by (metis prod_cases3)
      show ?thesis
        unfolding Cons 2 makePath_loop_bracket [OF b] by (rule IH [OF path_bracket_length [OF b] path_bracket_set [OF b]])
    next
      case 3
      obtain args1 ins1 where "addPathInArg (KindKey []) ins args = (args1, ins1)" by fastforce
      then show ?thesis using IH [of rest] by (simp add: Cons 3 makePath_loop_param)
    next
      case 4
      then show ?thesis using IH [of rest] by (simp add: Cons makePath_loop_sep)
    next
      case 5
      show ?thesis unfolding Cons makePath_loop_name [OF 5]
        by (rule IH) (auto simp: length_dropWhile_le dest: set_dropWhileD)
    qed (use 1(2) Cons in simp)
  qed simp
qed

text \<open>Where a name is expected, a NUL byte is an empty name that takes no byte.\<close>

lemma makePath_loop_NUL:
  assumes "makePath_loop cur ins args = Some out"
  shows "cur \<noteq> [] \<Longrightarrow> hd cur \<noteq> NUL"
proof (induction rule: makePath_loop.raw_induct [OF _ assms, consumes 0, case_names loop])
  case (loop f cur ins args out)
  show ?case
  proof
    assume "hd cur = NUL"
    then obtain rest where cur: "cur = NUL # rest" using loop(3) by (cases cur) auto
    then have "f cur ins (args @ [KindKey []]) = Some out" using loop(2) by (simp add: ends_name_def)
    from loop(1) [OF this loop(3)] cur show False by simp
  qed
qed

section \<open>The text of a path\<close>

definition name_ok :: "string \<Rightarrow> bool" where
  "name_ok k \<longleftrightarrow> k \<noteq> [] \<and> starts_name (hd k) \<and> (\<forall>c\<in>set k. \<not> ends_name c)"

fun path_arg_ok :: "path_argument \<Rightarrow> bool" where
  "path_arg_ok (KindIndex i) \<longleftrightarrow> i < 2 ^ 32 - 1"
| "path_arg_ok (KindKey k) \<longleftrightarrow> name_ok k"
| "path_arg_ok KindNone = False"

fun path_arg_text :: "path_argument \<Rightarrow> string" where
  "path_arg_text (KindIndex i) = ''['' @ uintToString (int i) @ '']''"
| "path_arg_text (KindKey k) = ''.'' @ k"
| "path_arg_text KindNone = []"

abbreviation path_text :: "path_argument list \<Rightarrow> string" where
  "path_text args \<equiv> concat (map path_arg_text args)"

lemma digit_val: "48 \<le> byte c \<Longrightarrow> (of_char c :: int) = int (byte c - 48) + 48"
  using of_nat_of_char [of c, where 'a = int] by linarith

lemma dec_value_ge: "0 \<le> a \<Longrightarrow> list_all is_digit ds \<Longrightarrow> a \<le> dec_value a ds"
proof (induction ds arbitrary: a)
  case (Cons c ds)
  then have "a \<le> a * 10 + (of_char c - 48)" "0 \<le> a * 10 + (of_char c - 48)" by (simp_all add: is_digit_def digit_val)
  with Cons show ?case by fastforce
qed simp

lemma path_index_digits:
  assumes "list_all is_digit ds" "dec_value (int n) ds < 2 ^ 32" "\<not> is_digit (path_peek rest)"
  shows "path_index n (ds @ rest) = (nat (dec_value (int n) ds), rest)"
  using assms
proof (induction ds arbitrary: n)
  case (Cons c ds)
  have d: "int (n * 10 + (byte c - 48)) = int n * 10 + (of_char c - 48)" using Cons.prems(1) by (simp add: is_digit_def digit_val)
  have "int (n * 10 + (byte c - 48)) \<le> dec_value (int (n * 10 + (byte c - 48))) ds"
    by (rule dec_value_ge) (use Cons.prems(1) in simp_all)
  then have "n * 10 + (byte c - 48) < 2 ^ 32" using Cons.prems(2) d by simp
  then show ?case using Cons.IH [of "n * 10 + (byte c - 48)"] Cons.prems d by simp
qed (cases rest, simp_all add: path_peek_def)

lemma makePath_text:
  "list_all path_arg_ok as \<Longrightarrow> makePath_loop (path_text as) ins args = Some (args @ as)"
proof (induction as arbitrary: args)
  case (Cons a as)
  show ?case
  proof (cases a)
    case (KindIndex i)
    have d: "list_all is_digit (uintToString (int i))" by (simp add: uintToString_dec dec_string_digits)
    have v: "path_index 0 (uintToString (int i) @ '']'' @ path_text as) = (i, '']'' @ path_text as)"
      using path_index_digits [OF d, of 0 "'']'' @ path_text as"] Cons.prems KindIndex
      by (simp add: uintToString_dec path_peek_def is_digit_def)
    have "path_peek (uintToString (int i) @ '']'' @ path_text as) \<noteq> CHR ''%''"
      using d by (cases "uintToString (int i)") (auto simp: uintToString_dec path_peek_def is_digit_def)
    then have "path_bracket (uintToString (int i) @ '']'' @ path_text as) ins args = (path_text as, args @ [KindIndex i], ins)"
      using v by (simp add: path_bracket_def)
    from makePath_loop_bracket [OF this] show ?thesis using Cons KindIndex by simp
  next
    case (KindKey k)
    then obtain c k' where k: "k = c # k'" "starts_name c" "\<forall>c\<in>set k'. \<not> ends_name c"
      using Cons.prems by (cases k) (auto simp: name_ok_def)
    have end_: "as = [] \<or> (\<exists>e t. path_text as = e # t \<and> ends_name e)"
    proof (cases as)
      case (Cons b bs)
      then show ?thesis using Cons.prems by (cases b) (simp_all add: ends_name_def)
    qed simp
    have "takeWhile (\<lambda>c. \<not> ends_name c) (k' @ path_text as) = k'" "dropWhile (\<lambda>c. \<not> ends_name c) (k' @ path_text as) = path_text as"
      using k(3) end_ by (auto simp: takeWhile_append dropWhile_append)
    then show ?thesis using Cons KindKey k by (simp add: makePath_loop_sep makePath_loop_name)
  qed (use Cons.prems in simp)
qed simp

section \<open>Resolving what was made\<close>

text \<open>No array, at any depth, has an element at the last index \<open>2 ^ 32 - 1\<close>, for which \<^verbatim>\<open>size()\<close> would be 0.\<close>

fun roomy :: "jvalue \<Rightarrow> bool" and roomy_data :: "jdata \<Rightarrow> bool" where
  "roomy (Value d c s l) = roomy_data d"
| "roomy_data (ArrayV m) \<longleftrightarrow> smap_ok m \<and> (\<forall>p\<in>set m. fst p < 2 ^ 32 - 1 \<and> roomy (snd p))"
| "roomy_data (ObjectV m) \<longleftrightarrow> (\<forall>p\<in>set m. roomy (snd p))"
| "roomy_data _ = True"

lemma roomy_payload: "roomy v = roomy_data (payload v)"
  by (cases v) simp

lemma roomy_initBasic [simp]: "roomy (initBasic d) = roomy_data d"
  by (simp add: initBasic_def)

lemma index_ref_roomy: "index_ref i v = Inr (v', w) \<Longrightarrow> roomy v \<Longrightarrow> roomy w"
  by (cases "payload v") (auto simp: index_ref_def roomy_payload split: option.splits dest!: map_of_SomeD)

lemma resolveReference_roomy: "resolveReference k v = Inr (v', w) \<Longrightarrow> roomy v \<Longrightarrow> roomy w"
  by (cases "payload v") (auto simp: resolveReference_def roomy_payload split: option.splits dest!: map_of_SomeD)

lemma last_key_ge: "smap_ok m \<Longrightarrow> (k, x) \<in> set m \<Longrightarrow> k \<le> fst (last m)"
  by (induction m) (auto simp: less_imp_le)

lemma valid_index:
  assumes "payload v = ArrayV m" "smap_ok m" "map_of m i = Some x" "\<forall>p\<in>set m. fst p < 2 ^ 32 - (1::nat)"
  shows "isArray v" "isValidIndex i v" "at_index i v = Inr x"
proof -
  have m: "m \<noteq> []" "i \<le> fst (last m)" using assms(2,3) by (auto intro: last_key_ge dest: map_of_SomeD)
  moreover have "fst (last m) < 2 ^ 32 - 1" using assms(4) m(1) last_in_set by blast
  ultimately show "isArray v" "isValidIndex i v" "at_index i v = Inr x"
    using assms by (simp_all add: isArray_def type_of_def isValidIndex_def size_of_def at_index_def)
qed

lemma replaced_index:
  assumes "index_ref i v = Inr (v', w)" "roomy v" "i < 2 ^ 32 - 1"
  shows "isArray (replace_index i x v')" "isValidIndex i (replace_index i x v')" "at_index i (replace_index i x v') = Inr x"
proof -
  obtain m where m: "payload v' = ArrayV m" "smap_ok m" "\<forall>p\<in>set m. fst p < 2 ^ 32 - (1::nat)"
    using assms
    by (cases "payload v") (auto simp: index_ref_def roomy_payload set_smap_put smap_ok_put split: option.splits)
  let ?v = "replace_index i x v'"
  have p: "payload ?v = ArrayV (smap_put i x m)" using m(1) by (simp add: replace_index_def)
  have "map_of (smap_put i x m) i = Some x" by (simp add: map_of_smap_put)
  moreover have "\<forall>p\<in>set (smap_put i x m). fst p < 2 ^ 32 - (1::nat)"
    using m(2,3) assms(3) set_smap_put_subset [of i x m] by fastforce
  ultimately show "isArray ?v" "isValidIndex i ?v" "at_index i ?v = Inr x"
    using valid_index [OF p smap_ok_put [OF m(2)]] by blast+
qed

lemma replaced_member:
  assumes "resolveReference k v = Inr (v', w)"
  shows "isObject (replace_member k x v')" "find_member k (replace_member k x v') = Inr (Some x)"
  using assms
  by (cases "payload v"; auto simp: resolveReference_def replace_member_def isObject_def type_of_def
      find_member_def map_of_smap_put split: option.splits)+

lemma make_then_resolve:
  assumes "list_all path_arg_ok as" "roomy v" "path_make as v = Inr v'"
  shows "\<exists>w. \<forall>d. path_resolve as d v' = Inr w"
  using assms
proof (induction "as" v arbitrary: v' rule: path_make.induct)
  case (3 i "as" v)
  then obtain v1 w w' where w: "index_ref i v = Inr (v1, w)" "path_make as w = Inr w'" and v': "v' = replace_index i w' v1"
    by (auto simp: res_simps)
  have "\<exists>u. \<forall>d. path_resolve as d w' = Inr u"
    using 3 w index_ref_roomy by (auto simp: res_simps)
  then show ?case using replaced_index [OF w(1)] 3 v' by simp
next
  case (4 k "as" v)
  then obtain v1 w w' where w: "resolveReference k v = Inr (v1, w)" "path_make as w = Inr w'" and v': "v' = replace_member k w' v1"
    by (auto simp: res_simps)
  have "\<exists>u. \<forall>d. path_resolve as d w' = Inr u"
    using 4 w resolveReference_roomy by (auto simp: res_simps)
  then show ?case using replaced_member [OF w(1)] v' by simp
qed simp_all

section \<open>Properties\<close>

text \<open>C36 (makePath_ends). Parsing the text of a path ends unless the text holds a NUL byte. A NUL byte after a
  name never ends: the loop adds empty names without advancing.\<close>

theorem makePath_ends:
  "(NUL \<notin> set path \<longrightarrow> (\<exists>args. makePath path ins = Some args)) \<and>
   (name_ok key \<longrightarrow> makePath (''.'' @ key @ NUL # rest) ins = None)"
proof -
  have "makePath (''.'' @ key @ NUL # rest) ins = None" if k: "name_ok key"
  proof (rule ccontr)
    assume "makePath (''.'' @ key @ NUL # rest) ins \<noteq> None"
    then obtain out where out: "makePath_loop (''.'' @ key @ NUL # rest) ins [] = Some out" by (auto simp: makePath_def)
    obtain c k' where k': "key = c # k'" "starts_name c" "\<forall>c\<in>set k'. \<not> ends_name c"
      using k by (cases key) (auto simp: name_ok_def)
    have "dropWhile (\<lambda>c. \<not> ends_name c) (k' @ NUL # rest) = NUL # rest"
      using k'(3) by (simp add: dropWhile_append ends_name_def)
    then have "makePath_loop (NUL # rest) ins [KindKey (c # takeWhile (\<lambda>c. \<not> ends_name c) (k' @ NUL # rest))] = Some out"
      using out by (simp add: k' makePath_loop_sep makePath_loop_name)
    from makePath_loop_NUL [OF this] show False by simp
  qed
  then show ?thesis using makePath_loop_ends by (simp add: makePath_def)
qed

theorem makePath_ends_witness:
  "(\<exists>args. makePath ''.a[3]'' [] = Some args) \<and> makePath (''.'' @ ''a'' @ [NUL]) [] = None"
  using makePath_ends [of "''.a[3]''" "[]" "''a''" "[]"] by (simp add: name_ok_def starts_name_def ends_name_def)

text \<open>C37 (path_text_roundtrip). The text of a list of indices and names is parsed into that list again, and a
  value on which \<^verbatim>\<open>make\<close> has created the path resolves it, whatever the default. Indices are below 2^32 - 1, where
  the size would wrap around; names are not empty, contain no dot, opening bracket or NUL byte and start neither with a percent sign
  nor with a closing bracket (\<open>path_arg_ok\<close>), for any of these ends or changes a name; and the value keeps
  its elements in order and has none at the index 2^32 - 1 (\<open>roomy\<close>).\<close>

theorem path_text_roundtrip:
  assumes "list_all path_arg_ok as" "roomy v" "path_make as v = Inr v'"
  shows "Path_new (path_text as) params = Some as \<and> (\<exists>w. \<forall>d. path_resolve as d v' = Inr w)"
  using makePath_text [OF assms(1)] make_then_resolve [OF assms] by (simp add: Path_new_def makePath_def)

theorem path_text_roundtrip_witness:
  "Path_new ''.a[3]'' [] = Some [KindKey ''a'', KindIndex 3] \<and>
   (\<exists>v w. path_make [KindKey ''a'', KindIndex 3] nullSingleton = Inr v \<and>
     (\<forall>d. path_resolve [KindKey ''a'', KindIndex 3] d v = Inr w))"
proof -
  let ?as = "[KindKey ''a'', KindIndex 3]"
  have ok: "list_all path_arg_ok ?as" by (simp add: name_ok_def starts_name_def ends_name_def)
  obtain v where v: "path_make ?as nullSingleton = Inr v"
    by (simp add: resolveReference_def index_ref_def initBasic_def)
  have "path_text ?as = ''.a[3]''" by (simp add: uintToString_def uintToString_loop.simps char_of_def bit_iff_odd)
  then show ?thesis using path_text_roundtrip [OF ok _ v, of "[]"] v by auto
qed

end
