(* ===== verification/Value_Order.thy ===== *)
theory Value_Order
  imports Json_Laws Double_Text
begin

text \<open>
  The order on \<^verbatim>\<open>Json::Value\<close>: \<^verbatim>\<open>operator<\<close> orders values by their types, then by their payloads,
  arrays and objects first by their number of entries and then entry by entry. Without NaN it is
  the strict order that \<^verbatim>\<open>std::map\<close> and \<^verbatim>\<open>std::sort\<close> ask for, it agrees with \<^verbatim>\<open>operator==\<close>, and
  \<^verbatim>\<open>compare\<close> is its three-way form. The locale \<open>strict_order\<close> holds what follows from its two laws.
\<close>

section \<open>Strict orders\<close>

text \<open>The laws at given values, so that they can be proved by induction on the values.\<close>

definition tri :: "('a \<Rightarrow> 'a \<Rightarrow> bool) \<Rightarrow> ('a \<Rightarrow> 'a \<Rightarrow> bool) \<Rightarrow> 'a \<Rightarrow> 'a \<Rightarrow> bool" where
  "tri lt eq x y \<longleftrightarrow> (eq x y \<longleftrightarrow> \<not> lt x y \<and> \<not> lt y x) \<and> \<not> (lt x y \<and> lt y x)"

definition chain :: "('a \<Rightarrow> 'a \<Rightarrow> bool) \<Rightarrow> 'a \<Rightarrow> 'a \<Rightarrow> 'a \<Rightarrow> bool" where
  "chain lt x y z \<longleftrightarrow> (\<not> lt y x \<longrightarrow> \<not> lt z y \<longrightarrow> \<not> lt z x)"

text \<open>In whatever order the three values are taken.\<close>

definition chains :: "('a \<Rightarrow> 'a \<Rightarrow> bool) \<Rightarrow> 'a \<Rightarrow> 'a \<Rightarrow> 'a \<Rightarrow> bool" where
  "chains lt x y z \<longleftrightarrow> chain lt x y z \<and> chain lt y z x \<and> chain lt z x y \<and> chain lt x z y \<and> chain lt z y x \<and> chain lt y x z"

lemma chains_perm: "chains lt x y z \<Longrightarrow> chains lt y z x" "chains lt x y z \<Longrightarrow> chains lt y x z"
  by (simp_all add: chains_def)

locale strict_order =
  fixes ok :: "'a \<Rightarrow> bool"
    and lt :: "'a \<Rightarrow> 'a \<Rightarrow> bool"
    and eq :: "'a \<Rightarrow> 'a \<Rightarrow> bool"
  assumes tri_ok: "ok x \<Longrightarrow> ok y \<Longrightarrow> tri lt eq x y"
    and chain_ok: "ok x \<Longrightarrow> ok y \<Longrightarrow> ok z \<Longrightarrow> chain lt x y z"
begin

definition compare :: "'a \<Rightarrow> 'a \<Rightarrow> int" where
  "compare x y = (if lt x y then - 1 else if lt y x then 1 else 0)"

lemma lt_trans: "ok x \<Longrightarrow> ok y \<Longrightarrow> ok z \<Longrightarrow> lt x y \<Longrightarrow> lt y z \<Longrightarrow> lt x z"
  using tri_ok [of x y] tri_ok [of y z] chain_ok [of z x y] by (auto simp: tri_def chain_def)

lemma eq_refl: "ok x \<Longrightarrow> eq x x"
  using tri_ok [of x x] by (auto simp: tri_def)

lemma eq_lt: "ok x \<Longrightarrow> ok y \<Longrightarrow> ok z \<Longrightarrow> eq x y \<Longrightarrow> lt y z \<longleftrightarrow> lt x z"
  using tri_ok [of x y] tri_ok [of y z] tri_ok [of x z] chain_ok [of z x y] chain_ok [of z y x]
  by (auto simp: tri_def chain_def)

lemma lt_eq: "ok x \<Longrightarrow> ok y \<Longrightarrow> ok z \<Longrightarrow> eq x y \<Longrightarrow> lt z y \<longleftrightarrow> lt z x"
  using tri_ok [of x y] tri_ok [of z y] tri_ok [of z x] chain_ok [of y x z] chain_ok [of x y z]
  by (auto simp: tri_def chain_def)

lemma compare_laws:
  assumes "ok x" "ok y" "ok z"
  shows "compare y x = - compare x y" "compare x y = 0 \<longleftrightarrow> eq x y"
    "compare x y \<le> 0 \<Longrightarrow> compare y z \<le> 0 \<Longrightarrow> compare x z \<le> 0 \<and> (compare x z = 0 \<longrightarrow> eq x y \<and> eq y z)"
  using tri_ok [OF assms(1,2)] tri_ok [OF assms(2,3)] tri_ok [OF assms(1,3)] chain_ok [OF assms]
    chain_ok [OF assms(2,3,1)] chain_ok [OF assms(3,1,2)]
  by (auto simp: compare_def tri_def chain_def split: if_splits)

end

section \<open>Doubles\<close>

text \<open>Where a double stands on the extended line.\<close>

fun dbl_key :: "double \<Rightarrow> int \<times> real" where
  "dbl_key DNaN = (0, 0)"
| "dbl_key (DInf s) = (if s then - 1 else 1, 0)"
| "dbl_key (DFin s m e) = (0, magnitude s m e)"

lemma dbl_less_key:
  assumes "x \<noteq> DNaN" "y \<noteq> DNaN"
  shows "dbl_less x y \<longleftrightarrow> fst (dbl_key x) < fst (dbl_key y) \<or> fst (dbl_key x) = fst (dbl_key y) \<and> snd (dbl_key x) < snd (dbl_key y)"
    "dbl_eq x y \<longleftrightarrow> dbl_key x = dbl_key y"
proof -
  show "dbl_less x y \<longleftrightarrow> fst (dbl_key x) < fst (dbl_key y) \<or> fst (dbl_key x) = fst (dbl_key y) \<and> snd (dbl_key x) < snd (dbl_key y)"
  proof (cases x; cases y)
    fix s m e t n f assume "x = DFin s m e" "y = DFin t n f"
    then show ?thesis by (simp only: dbl_fin dbl_key.simps fst_conv snd_conv) simp
  qed (use assms in auto)
  show "dbl_eq x y \<longleftrightarrow> dbl_key x = dbl_key y"
  proof (cases x; cases y)
    fix s m e t n f assume "x = DFin s m e" "y = DFin t n f"
    then show ?thesis by (simp only: dbl_fin dbl_key.simps) simp
  qed (use assms in auto)
qed

lemma dbl_chain: "x \<noteq> DNaN \<Longrightarrow> y \<noteq> DNaN \<Longrightarrow> z \<noteq> DNaN \<Longrightarrow> chain dbl_less x y z"
  by (auto simp: chain_def dbl_less_key)

lemma dbl_tri: "x \<noteq> DNaN \<Longrightarrow> y \<noteq> DNaN \<Longrightarrow> tri dbl_less dbl_eq x y"
  by (auto simp: tri_def dbl_less_key prod_eq_iff)

section \<open>Sequences of entries\<close>

text \<open>\<^verbatim>\<open>std::lexicographical_compare\<close>, and \<^verbatim>\<open>operator<\<close> of \<^verbatim>\<open>std::pair\<close>.\<close>

fun lex_less :: "('a \<Rightarrow> 'a \<Rightarrow> bool) \<Rightarrow> 'a list \<Rightarrow> 'a list \<Rightarrow> bool" where
  "lex_less lt m [] = False"
| "lex_less lt [] (q # n) = True"
| "lex_less lt (p # m) (q # n) = (if lt p q then True else if lt q p then False else lex_less lt m n)"

definition pair_less :: "('b \<Rightarrow> 'b \<Rightarrow> bool) \<Rightarrow> 'a::linorder \<times> 'b \<Rightarrow> 'a \<times> 'b \<Rightarrow> bool" where
  "pair_less lt p q \<longleftrightarrow> fst p < fst q \<or> \<not> fst q < fst p \<and> lt (snd p) (snd q)"

definition pair_eq :: "('b \<Rightarrow> 'b \<Rightarrow> bool) \<Rightarrow> 'a \<times> 'b \<Rightarrow> 'a \<times> 'b \<Rightarrow> bool" where
  "pair_eq eq p q \<longleftrightarrow> fst p = fst q \<and> eq (snd p) (snd q)"

lemma pair_chains: "chains lt (snd p) (snd q) (snd r) \<Longrightarrow> chains (pair_less lt) p q r"
  unfolding chains_def chain_def pair_less_def by (smt (verit) linorder_less_linear order_less_trans)

lemma pair_tri: "tri lt eq (snd p) (snd q) \<Longrightarrow> tri (pair_less lt) (pair_eq eq) p q"
  unfolding tri_def pair_less_def pair_eq_def by auto

lemma lex_chain:
  "(\<And>p q r. p \<in> set m \<Longrightarrow> q \<in> set n \<Longrightarrow> r \<in> set k \<Longrightarrow> chains lt p q r) \<Longrightarrow> chain (lex_less lt) m n k"
proof (induction m arbitrary: n k)
  case Nil
  then show ?case by (cases n; cases k) (simp_all add: chain_def)
next
  case (Cons p m)
  show ?case
  proof (cases n; cases k)
    fix q n' r k' assume n: "n = q # n'" "k = r # k'"
    have "chains lt p q r" using Cons.prems n by simp
    moreover have "chain (lex_less lt) m n' k'" using Cons.IH Cons.prems n by simp
    ultimately show ?thesis by (auto simp: n chain_def chains_def)
  qed (simp_all add: chain_def)
qed

lemma lex_tri:
  "length m = length n \<Longrightarrow> (\<And>p q. p \<in> set m \<Longrightarrow> q \<in> set n \<Longrightarrow> tri lt eq p q) \<Longrightarrow> tri (lex_less lt) (list_all2 eq) m n"
proof (induction m n rule: list_induct2)
  case (Cons p m q n)
  then have "tri lt eq p q" "tri (lex_less lt) (list_all2 eq) m n" by simp_all
  then show ?case by (auto simp: tri_def)
qed (simp add: tri_def)

section \<open>Values\<close>

text \<open>No entry is NaN.\<close>

primrec no_nan :: "jvalue \<Rightarrow> bool" and no_nan_data :: "jdata \<Rightarrow> bool" where
  "no_nan (Value d c s l) = no_nan_data d"
| "no_nan_data NullV = True"
| "no_nan_data (IntV i) = True"
| "no_nan_data (UIntV u) = True"
| "no_nan_data (RealV x) = (x \<noteq> DNaN)"
| "no_nan_data (StringV s) = True"
| "no_nan_data (BoolV b) = True"
| "no_nan_data (ArrayV m) = list_all snd (map (map_prod id no_nan) m)"
| "no_nan_data (ObjectV m) = list_all snd (map (map_prod id no_nan) m)"

lemma amap_less_lex: "amap_less m n = lex_less (pair_less value_less) m n"
proof (induction m arbitrary: n)
  case Nil
  show ?case by (cases n) simp_all
next
  case (Cons p m)
  show ?case
  proof (cases n)
    case (Cons q n')
    obtain i v j w where "p = (i, v)" "q = (j, w)" by (metis surj_pair)
    then show ?thesis by (simp only: Cons amap_less.simps lex_less.simps Cons.IH pair_less_def fst_conv snd_conv)
  qed simp
qed

lemma omap_less_lex: "omap_less m n = lex_less (pair_less value_less) m n"
proof (induction m arbitrary: n)
  case Nil
  show ?case by (cases n) simp_all
next
  case (Cons p m)
  show ?case
  proof (cases n)
    case (Cons q n')
    obtain i v j w where "p = (i, v)" "q = (j, w)" by (metis surj_pair)
    then show ?thesis by (simp only: Cons omap_less.simps lex_less.simps Cons.IH pair_less_def fst_conv snd_conv czstring_less_iff)
  qed simp
qed

lemma amap_eq_pairs: "length m = length n \<Longrightarrow> amap_eq m n = list_all2 (pair_eq value_eq) m n"
  by (induction m n rule: list_induct2) (auto simp: pair_eq_def)

lemma omap_eq_pairs: "length m = length n \<Longrightarrow> omap_eq m n = list_all2 (pair_eq value_eq) m n"
  by (induction m n rule: list_induct2) (auto simp: pair_eq_def czstring_eq_iff)

text \<open>By the rank of the type first.\<close>

abbreviation rank :: "jdata \<Rightarrow> nat" where "rank d \<equiv> type_rank (type_of_data d)"

definition sized_less :: "('a::linorder \<times> jvalue) list \<Rightarrow> ('a \<times> jvalue) list \<Rightarrow> bool" where
  "sized_less m n \<longleftrightarrow> length m < length n \<or> length m = length n \<and> lex_less (pair_less value_less) m n"

fun data_less :: "jdata \<Rightarrow> jdata \<Rightarrow> bool" where
  "data_less (IntV i) (IntV j) = (i < j)"
| "data_less (UIntV i) (UIntV j) = (i < j)"
| "data_less (RealV x) (RealV y) = dbl_less x y"
| "data_less (StringV x) (StringV y) = (x < y)"
| "data_less (BoolV x) (BoolV y) = (x < y)"
| "data_less (ArrayV m) (ArrayV n) = sized_less m n"
| "data_less (ObjectV m) (ObjectV n) = sized_less m n"
| "data_less d d' = (rank d < rank d')"

lemma value_less_data: "value_less (Value d c s l) (Value d' c' s' l') = data_less d d'"
  by (cases d; cases d') (auto simp: amap_less_lex omap_less_lex sized_less_def czstring_less_iff)

lemma data_less_rank: "rank d \<noteq> rank d' \<Longrightarrow> data_less d d' \<longleftrightarrow> rank d < rank d'"
  by (cases d; cases d') simp_all

lemma data_less_le: "data_less d d' \<Longrightarrow> rank d \<le> rank d'" "\<not> data_less d d' \<Longrightarrow> rank d' \<le> rank d"
  by (cases "rank d = rank d'"; simp add: data_less_rank)+

lemma data_chain_ranks: "\<not> (rank a = rank b \<and> rank b = rank c) \<Longrightarrow> chain data_less a b c"
  using data_less_le(2) [of b a] data_less_le(2) [of c b] data_less_le(1) [of c a] by (auto simp: chain_def)

lemma same_rank:
  "rank d = rank (ArrayV m) \<longleftrightarrow> (\<exists>n. d = ArrayV n)" "rank d = rank (ObjectV m') \<longleftrightarrow> (\<exists>n. d = ObjectV n)"
  "rank d = rank NullV \<longleftrightarrow> d = NullV" "rank d = rank (IntV i) \<longleftrightarrow> (\<exists>j. d = IntV j)"
  "rank d = rank (UIntV i) \<longleftrightarrow> (\<exists>j. d = UIntV j)" "rank d = rank (RealV x) \<longleftrightarrow> (\<exists>y. d = RealV y)"
  "rank d = rank (StringV t) \<longleftrightarrow> (\<exists>u. d = StringV u)" "rank d = rank (BoolV b) \<longleftrightarrow> (\<exists>c. d = BoolV c)"
  by (cases d; simp)+

lemma data_chains:
  assumes "rank d' = rank d \<Longrightarrow> rank d'' = rank d \<Longrightarrow> chains data_less d d' d''"
  shows "chains data_less d d' d''"
proof (cases "rank d' = rank d \<and> rank d'' = rank d")
  case False
  then show ?thesis unfolding chains_def by (auto intro!: data_chain_ranks)
qed (use assms in simp)

lemma sized_chain:
  assumes "\<And>p q r. p \<in> set m \<Longrightarrow> q \<in> set n \<Longrightarrow> r \<in> set k \<Longrightarrow> chains value_less (snd p) (snd q) (snd r)"
  shows "chain sized_less m n k"
proof -
  have "chain (lex_less (pair_less value_less)) m n k" by (rule lex_chain) (rule pair_chains [OF assms])
  then show ?thesis by (auto simp: chain_def sized_less_def)
qed

lemma sized_chains:
  assumes "\<And>p q r. p \<in> set m \<Longrightarrow> q \<in> set n \<Longrightarrow> r \<in> set k \<Longrightarrow> chains value_less (snd p) (snd q) (snd r)"
  shows "chains sized_less m n k"
  unfolding chains_def using assms by (intro conjI; intro sized_chain; blast intro: chains_perm)

lemma no_nan_entries [simp]:
  "no_nan_data (ArrayV m) \<longleftrightarrow> (\<forall>p\<in>set m. no_nan (snd p))" "no_nan_data (ObjectV m') \<longleftrightarrow> (\<forall>p\<in>set m'. no_nan (snd p))"
  by (simp_all add: list_all_iff)

declare no_nan_data.simps(7,8) [simp del]

lemma chains_lift: "chains value_less (Value d c s l) (Value d' c' s' l') (Value d'' c'' s'' l'') \<longleftrightarrow> chains data_less d d' d''"
  by (simp only: chains_def chain_def value_less_data)

lemma scalar_chains:
  "chains data_less NullV NullV NullV" "chains data_less (IntV i) (IntV j) (IntV k)"
  "chains data_less (UIntV i) (UIntV j) (UIntV k)" "chains data_less (StringV t) (StringV u) (StringV x)"
  "chains data_less (BoolV b) (BoolV c) (BoolV d)"
  by (auto simp: chains_def chain_def)

lemma value_chains:
  "no_nan v \<Longrightarrow> no_nan w \<Longrightarrow> no_nan x \<Longrightarrow> chains value_less v w x"
  "no_nan_data d \<Longrightarrow> no_nan_data d' \<Longrightarrow> no_nan_data d'' \<Longrightarrow> chains data_less d d' d''"
proof (induction v and d arbitrary: w x and d' d'')
  case (Value d c s l)
  then show ?case by (cases w; cases x) (simp add: chains_lift)
next
  case (RealV y)
  have "chains data_less (RealV y) (RealV z) (RealV u)" if "no_nan_data (RealV z)" "no_nan_data (RealV u)" for z u
    using RealV.prems that by (auto simp: chains_def chain_def dbl_less_key)
  then show ?case using RealV.prems by - (rule data_chains, auto simp only: same_rank)
next
  case (ArrayV m)
  have "chains data_less (ArrayV m) (ArrayV n) (ArrayV k)" if "no_nan_data (ArrayV n)" "no_nan_data (ArrayV k)" for n k
  proof -
    have "chains sized_less m n k"
    proof (rule sized_chains)
      fix p q r assume e: "p \<in> set m" "q \<in> set n" "r \<in> set k"
      have "snd p \<in> Basic_BNFs.snds p" by (rule snds.intros)
      with e show "chains value_less (snd p) (snd q) (snd r)"
        using ArrayV.prems(1) that by (intro ArrayV.IH [OF e(1)]) simp_all
    qed
    then show ?thesis by (simp add: chains_def chain_def)
  qed
  then show ?case using ArrayV.prems by - (rule data_chains, auto simp only: same_rank)
next
  case (ObjectV m)
  have "chains data_less (ObjectV m) (ObjectV n) (ObjectV k)" if "no_nan_data (ObjectV n)" "no_nan_data (ObjectV k)" for n k
  proof -
    have "chains sized_less m n k"
    proof (rule sized_chains)
      fix p q r assume e: "p \<in> set m" "q \<in> set n" "r \<in> set k"
      have "snd p \<in> Basic_BNFs.snds p" by (rule snds.intros)
      with e show "chains value_less (snd p) (snd q) (snd r)"
        using ObjectV.prems(1) that by (intro ObjectV.IH [OF e(1)]) simp_all
    qed
    then show ?thesis by (simp add: chains_def chain_def)
  qed
  then show ?case using ObjectV.prems by - (rule data_chains, auto simp only: same_rank)
qed (rule data_chains, auto simp only: same_rank scalar_chains)+

fun data_eq :: "jdata \<Rightarrow> jdata \<Rightarrow> bool" where
  "data_eq (RealV x) (RealV y) = dbl_eq x y"
| "data_eq (ArrayV m) (ArrayV n) = list_all2 (pair_eq value_eq) m n"
| "data_eq (ObjectV m) (ObjectV n) = list_all2 (pair_eq value_eq) m n"
| "data_eq d d' = (d = d')"

lemma value_eq_data: "value_eq (Value d c s l) (Value d' c' s' l') = data_eq d d'"
  by (cases d; cases d') (auto simp: amap_eq_pairs omap_eq_pairs czstring_eq_iff list_all2_lengthD)

lemma tri_value: "tri value_less value_eq (Value d c s l) (Value d' c' s' l') \<longleftrightarrow> tri data_less data_eq d d'"
  by (simp only: tri_def value_less_data value_eq_data)

lemma data_eq_rank: "data_eq d d' \<Longrightarrow> rank d' = rank d"
  by (cases d; cases d') simp_all

lemma data_tri:
  assumes "rank d' = rank d \<Longrightarrow> tri data_less data_eq d d'"
  shows "tri data_less data_eq d d'"
proof (cases "rank d' = rank d")
  case False
  then show ?thesis using data_less_rank [of d d'] data_less_rank [of d' d] data_eq_rank [of d d'] by (auto simp: tri_def)
qed (use assms in simp)

lemma sized_tri:
  assumes "\<And>p q. p \<in> set m \<Longrightarrow> q \<in> set n \<Longrightarrow> tri value_less value_eq (snd p) (snd q)"
  shows "tri sized_less (list_all2 (pair_eq value_eq)) m n"
proof (cases "length m = length n")
  case True
  have "tri (lex_less (pair_less value_less)) (list_all2 (pair_eq value_eq)) m n"
    by (rule lex_tri [OF True]) (rule pair_tri [OF assms])
  then show ?thesis using True by (simp add: tri_def sized_less_def)
qed (auto simp: tri_def sized_less_def dest: list_all2_lengthD)

lemma scalar_tri:
  "tri data_less data_eq NullV NullV" "tri data_less data_eq (IntV i) (IntV j)" "tri data_less data_eq (UIntV i) (UIntV j)"
  "tri data_less data_eq (StringV t) (StringV u)" "tri data_less data_eq (BoolV b) (BoolV c)"
  by (auto simp: tri_def)

lemma value_tri:
  "no_nan v \<Longrightarrow> no_nan w \<Longrightarrow> tri value_less value_eq v w"
  "no_nan_data d \<Longrightarrow> no_nan_data d' \<Longrightarrow> tri data_less data_eq d d'"
proof (induction v and d arbitrary: w and d')
  case (Value d c s l)
  then show ?case by (cases w) (simp add: tri_value)
next
  case (RealV y)
  have "tri data_less data_eq (RealV y) (RealV z)" if "no_nan_data (RealV z)" for z
    using RealV.prems that dbl_tri [of y z] by (simp add: tri_def)
  then show ?case using RealV.prems by - (rule data_tri, auto simp only: same_rank)
next
  case (ArrayV m)
  have "tri sized_less (list_all2 (pair_eq value_eq)) m n" if "no_nan_data (ArrayV n)" for n
  proof (rule sized_tri)
    fix p q assume e: "p \<in> set m" "q \<in> set n"
    have "snd p \<in> Basic_BNFs.snds p" by (rule snds.intros)
    with e show "tri value_less value_eq (snd p) (snd q)"
      using ArrayV.prems(1) that by (intro ArrayV.IH [OF e(1)]) simp_all
  qed
  then have "tri data_less data_eq (ArrayV m) (ArrayV n)" if "no_nan_data (ArrayV n)" for n
    using that by (simp add: tri_def)
  then show ?case using ArrayV.prems by - (rule data_tri, auto simp only: same_rank)
next
  case (ObjectV m)
  have "tri sized_less (list_all2 (pair_eq value_eq)) m n" if "no_nan_data (ObjectV n)" for n
  proof (rule sized_tri)
    fix p q assume e: "p \<in> set m" "q \<in> set n"
    have "snd p \<in> Basic_BNFs.snds p" by (rule snds.intros)
    with e show "tri value_less value_eq (snd p) (snd q)"
      using ObjectV.prems(1) that by (intro ObjectV.IH [OF e(1)]) simp_all
  qed
  then have "tri data_less data_eq (ObjectV m) (ObjectV n)" if "no_nan_data (ObjectV n)" for n
    using that by (simp add: tri_def)
  then show ?case using ObjectV.prems by - (rule data_tri, auto simp only: same_rank)
qed (rule data_tri, auto simp only: same_rank scalar_tri)+

interpretation value_order: strict_order no_nan value_less value_eq
  by unfold_locales (use value_tri(1) value_chains(1) in \<open>auto simp: chains_def\<close>)

lemma compare_value_compare: "compare_value = value_order.compare"
  by (intro ext) (simp add: compare_value_def value_order.compare_def value_gt_def)

text \<open>C22 (values_are_ordered). Without NaN, \<^verbatim>\<open>operator<\<close> is a strict weak order whose
  incomparable values are those that \<^verbatim>\<open>operator==\<close> calls equal, at every depth of arrays and objects: \<^verbatim>\<open>compare\<close> is
  negated when its arguments are swapped, is 0 exactly on equal values, agrees with \<^verbatim>\<open>operator<\<close> and \<^verbatim>\<open>operator<=\<close>, and both are
  transitive, also through equal values.\<close>

theorem values_are_ordered:
  assumes "no_nan u" "no_nan v" "no_nan w"
  shows "compare_value v u = - compare_value u v \<and> (compare_value u v = 0 \<longleftrightarrow> value_eq u v) \<and>
    (value_less u v \<longleftrightarrow> compare_value u v < 0) \<and> (value_le u v \<longleftrightarrow> value_less u v \<or> value_eq u v) \<and>
    (value_less u v \<and> value_less v w \<longrightarrow> value_less u w) \<and> (value_le u v \<and> value_le v w \<longrightarrow> value_le u w) \<and>
    (value_eq u v \<longrightarrow> (value_less v w \<longleftrightarrow> value_less u w) \<and> (value_less w v \<longleftrightarrow> value_less w u))"
proof (intro conjI impI)
  show "compare_value v u = - compare_value u v" "compare_value u v = 0 \<longleftrightarrow> value_eq u v"
    unfolding compare_value_compare by (rule value_order.compare_laws(1,2) [OF assms])+
  show "value_less u v \<longleftrightarrow> compare_value u v < 0" by (simp add: compare_value_def)
  show "value_le u v \<longleftrightarrow> value_less u v \<or> value_eq u v"
    using value_order.tri_ok [OF assms(1,2)] by (auto simp: value_le_def tri_def)
  show "value_less u w" if "value_less u v \<and> value_less v w" using value_order.lt_trans [OF assms] that by simp
  show "value_le u w" if "value_le u v \<and> value_le v w"
    using value_order.chain_ok [OF assms] that by (simp add: value_le_def chain_def)
  show "value_less v w \<longleftrightarrow> value_less u w" "value_less w v \<longleftrightarrow> value_less w u" if "value_eq u v"
    using value_order.eq_lt [OF assms that] value_order.lt_eq [OF assms that] by simp_all
qed

text \<open>NaN is equal to nothing, but \<^verbatim>\<open>compare\<close> calls it equal to every real.\<close>

lemma nan_is_unordered:
  "compare_value (initBasic (RealV DNaN)) (initBasic (RealV x)) = 0 \<and> \<not> value_eq (initBasic (RealV DNaN)) (initBasic (RealV x))"
  by (cases x) (simp_all add: initBasic_def compare_value_def value_gt_def)

theorem values_are_ordered_witness:
  "let u = initBasic (ArrayV [(0, initBasic (RealV (DFin True 1 2))), (1, value_of_string ''b'')]);
       v = initBasic (ArrayV [(0, initBasic (RealV (DFin False 3 0))), (1, value_of_string ''a'')])
   in compare_value u v = - 1 \<and> compare_value v u = 1"
proof -
  let ?u = "initBasic (ArrayV [(0, initBasic (RealV (DFin True 1 2))), (1, value_of_string ''b'')])"
  let ?v = "initBasic (ArrayV [(0, initBasic (RealV (DFin False 3 0))), (1, value_of_string ''a'')])"
  have n: "no_nan ?u" "no_nan ?v" by (simp_all add: initBasic_def)
  have "compare_value ?u ?v = - 1" by code_simp
  with values_are_ordered [OF n n(1)] show ?thesis by (simp only: Let_def) simp
qed

end
