(* ===== verification/Spec2Isabelle.thy ===== *)
theory Spec2Isabelle
  imports Server_Runs Main_Program Reader_Safety Our_Safety Our_Laws Legacy_Roundtrip Readers_Agree Memory_Laws
    Json_Path Value_Order
begin

text \<open>
  A verification of the WebRTC signal server in \<^verbatim>\<open>src/\<close>: a program that lets browsers find each other.
  Clients open a websocket (plain or TLS), sign in, get a numeric identifier and the list of the
  peers already there, and send each other session descriptions that the server relays; when a
  connection closes, the partner of its last offer is told.

  \<^bold>\<open>The program and its model.\<close>

  \<^item> \<^verbatim>\<open>WebsocketSignalServer.cpp\<close> (\<open>Main_Program\<close>): \<^verbatim>\<open>main\<close> reads the command line into \<open>settings\<close>
   , overrides them from \<^verbatim>\<open>config.json\<close> (\<open>load_config\<close>, \<open>override_all\<close>), takes the ICE server's
    description apart (\<open>parse_ice\<close>), and chooses what to run (\<open>choose_plan\<close>): the server, a daemon, or the
    message that stops a running server.
  \<^item> \<^verbatim>\<open>message_queue.{h,cpp}\<close> (\<open>Message_Queue\<close>): the named queue over which \<^verbatim>\<open>-c stop\<close> reaches the running
    server.
  \<^item> \<^verbatim>\<open>websocket_server.{h,cc}\<close> (\<open>Websocket_Server\<close>, \<open>Ws_System\<close>): two websocketpp endpoints, the sets of their
    connections, a queue of actions filled by the network thread and emptied by the processing
    thread, a thread that pings, a thread that waits for the exit message, and a flag with a condition variable
    (\<^verbatim>\<open>CloseMessage\<close>) between the last two. \<open>Websocket_Server\<close> has one definition for each member
    function on the record \<open>ws_server\<close>; \<open>Ws_System\<close> composes them into the relation \<open>ws_step\<close>, whose
    steps are the critical sections of the four threads, in every interleaving; the exit message alone takes four steps
    (notify, stop each endpoint, queue the exit action), and handlers in flight run on when the endpoints are stopped.
  \<^item> \<^verbatim>\<open>signal_server.{h,cpp}\<close> (\<open>Signal_Server\<close>, \<open>Signal_Laws\<close>, \<open>Signal_Requests\<close>, \<open>Server_Runs\<close>): the class derived from the
    websocket server. Its record extends \<open>ws_server\<close> by the peers, the pairs and the last identifier;
    \<open>OnReceive\<close> and \<open>OnClose\<close> are the virtual functions that the processing thread calls.
  \<^item> \<^verbatim>\<open>jsoncpp/\<close>, the JSON library in the repository, through which every message and the configuration
    pass. Values: \<open>Json_Value\<close>, \<open>Json_Access\<close>, with the laws in \<open>Json_Laws\<close>, \<open>Value_Order\<close> and, for values reached through the
    reader's stack of pointers, \<open>Value_Pointers\<close>; the iterators: \<open>Value_Iterators\<close>; the text of paths: \<open>Json_Path\<close>; keys and
    strings in memory: \<open>Cz_Strings\<close>, values in memory: \<open>Value_Memory\<close>, with their laws in \<open>Memory_Laws\<close>. Text: \<open>Json_Text\<close> (\<^verbatim>\<open>json_tool.h\<close> and the quoting). The reader of the
    program, \<^verbatim>\<open>Reader\<close>: \<open>Reader_State\<close> (its state, its errors and what it shares with the second reader),
    \<open>Json_Reader\<close> (tokens, decoding, \<open>readValue\<close>, \<open>parse\<close>), with the laws in \<open>Reader_Termination\<close>,
    \<open>Text_Roundtrip\<close> and \<open>Reader_Safety\<close>. The second reader, \<^verbatim>\<open>OurReader\<close> and \<^verbatim>\<open>CharReaderBuilder\<close>: \<open>Our_Reader\<close>
    with \<open>Our_Laws\<close> and \<open>Our_Safety\<close>; \<open>Reader_Loops\<close> and \<open>Reading_Safely\<close> hold what the proofs about both readers share.
    \<open>Plain_Values\<close> (values without comments), \<open>Tokens_In_Step\<close> and \<open>Values_In_Step\<close> run the two readers side by
    side, \<open>Readers_Agree\<close> compares what they accept. The writers: \<open>Json_Writer\<close>
    (\<^verbatim>\<open>FastWriter\<close>, \<^verbatim>\<open>BuiltStyledStreamWriter\<close> and its builder, \<^verbatim>\<open>operator<<\<close>) with \<open>Writer_Laws\<close>, \<open>Legacy_Writers\<close> (\<^verbatim>\<open>StyledWriter\<close>,
    \<^verbatim>\<open>StyledStreamWriter\<close>). \<open>Std_Map\<close> models the
    \<^verbatim>\<open>std::map\<close> and \<^verbatim>\<open>std::set\<close> that library and server use, \<open>Double\<close> the floating point numbers, as integers scaled by a power of two;
    \<open>Double_Text\<close> and \<open>Real_Lexemes\<close> relate them to their texts on the real line.
  \<^item> \<open>Json_Grammar\<close> states, as inductive relations, which texts stand for which values. Readers and
    writers meet there: \<open>Reading_Values\<close> and \<open>Grammar_Reading\<close> show that \<^verbatim>\<open>Reader\<close> reads every text of the grammar
    as its value, \<open>Print_Parse\<close> and \<open>Legacy_Roundtrip\<close> that each writer prints a text of it.

  \<^bold>\<open>Conventions.\<close> A function that may throw returns \<open>'a res = exn + 'a\<close> (\<open>Prelude\<close>); a reference into a
  container is the pair of the container and the element; integers are \<open>int\<close> with the
  wrap-around or the range check of their width written out; a pointer into the document is an
  offset and a pointer into the value under construction a path. Everything is executable.

  \<^bold>\<open>Parameters.\<close> Code outside the repository is an argument: \<open>boost_mq\<close> (boost's interprocess queue, with
  the laws \<open>mq_laws\<close> of its documentation), \<open>ws_env\<close> (which sends fail on the websocketpp
  endpoints), the content of the configuration file and the result of \<^verbatim>\<open>daemon\<close>. The order of events
  on one connection that websocketpp promises is the guard of the network steps of \<open>ws_step\<close>.

  \<^bold>\<open>Fuel.\<close> The mutual recursion of the JSON reader carries fuel. \<open>parse\<close> gives it \<open>2 * length doc + 2\<close>: each
  call of \<open>readValue\<close> and each round of an object or array loop takes one unit, and between two
  units at least every other step consumes a byte; \<open>Reader_Termination.parse_terminates\<close> shows that this
  is enough for every document. The search for a free identifier and the wait for the exit message
  are partial functions; that they return is a theorem (\<open>NextID_fresh\<close>, \<open>stop_reaches_server\<close>).

  \<^bold>\<open>What is shown.\<close>

  \<^item> The running server (this theory): the invariant of the peer table in every reachable state,
    order and completeness of the processing of actions, replies through the right endpoint, the
    fate of the exit notification, a message that ends the process, the ports served and what a
    failing \<^verbatim>\<open>listen\<close> does.
  \<^item> Its runs (\<open>Server_Runs\<close>): the messages whose handling ends the process are exactly the bad ones, an orderly
    shutdown comes to its end whenever the exit message finds the ping thread waiting, whatever handlers run meanwhile, and a message accepted from one
    client arrives at the other as an equal value.
  \<^item> The requests (\<open>Signal_Requests\<close>, \<open>Signal_Laws\<close>): registration, routing, notices to partners, the exact
    condition for an exception, fresh identifiers, the printed table.
  \<^item> The memory of values (\<open>Memory_Laws\<close>): copying, assigning and \<^verbatim>\<open>operator[]\<close> refine the functions on values, free
    exactly what they own and leave no trace when \<^verbatim>\<open>malloc\<close> fails. Iterators agree with lookups (\<open>Value_Iterators\<close>); paths
    are parsed and printed (\<open>Json_Path\<close>).
  \<^item> The JSON library: objects refine finite maps, arrays without holes lists, and values stay well formed (\<open>Json_Laws\<close>), the
    comparisons of values without NaN are a strict order that agrees with \<^verbatim>\<open>compare\<close> (\<open>Value_Order\<close>), the
    styled writer refines a recursive definition of its text (\<open>Writer_Laws\<close>), both readers end and
    report exactly their errors (\<open>Reader_Termination\<close>, \<open>Our_Laws\<close>), on any document at all they trip
    no assertion, follow no dangling pointer and leave a well-formed value (\<open>Reader_Safety\<close>, \<open>Our_Safety\<close>), and what any of
    the four writers prints is read back as an equal value (\<open>Print_Parse\<close>, \<open>Legacy_Roundtrip\<close>; for strings and
    integers also \<open>Text_Roundtrip\<close>, for doubles \<open>Real_Lexemes\<close>: 17 digits, the default precision, determine a double). \<^verbatim>\<open>OurReader\<close> reads what \<^verbatim>\<open>Reader\<close> reads, to the same value, hence
    \<^verbatim>\<open>operator>>\<close> reads back what \<^verbatim>\<open>operator<<\<close> prints; the inputs on which they differ, and what \<^verbatim>\<open>Reader\<close> takes for the number 0, are shown too (\<open>Readers_Agree\<close>).
  \<^item> The main program: settings, the description of the ICE server, the plan (\<open>Main_Program\<close>), the exit
    message (\<open>Message_Queue\<close>).

  \<^bold>\<open>Interfaces.\<close> \<open>invariant_system\<close> (a transition system with an inductive invariant) is extended to the
  websocket server and interpreted on the signal server; \<open>ws_client\<close> is what the framework relies
  on of the derived class; \<open>ordered_map\<close> is \<^verbatim>\<open>std::map\<close>; \<open>strict_order\<close> is
  what a sorted container expects of \<^verbatim>\<open><\<close> and \<^verbatim>\<open>==\<close>, interpreted on values; \<open>codec\<close> is a text with its reader, interpreted on
  integers and on quoted strings; \<open>token_source\<close> is what the loops of a reader rely on of its tokens,
  interpreted on both readers, and so are its extensions \<open>safe_source\<close> (tokens keep the reader's
  pointers valid) and \<open>plain_source\<close> (tokens change no more of the value than comments); \<open>line_printer\<close> is what the two deprecated writers have in common,
  interpreted on both.

  \<^bold>\<open>Not modelled.\<close> The memory of the nodes of \<^verbatim>\<open>std::map\<close>, of \<^verbatim>\<open>std::string\<close> and of comments; the state of a value
  whose \<^verbatim>\<open>copyPayload\<close> was left by an exception; an exception that leaves \<^verbatim>\<open>m_ios.run()\<close> early; the headers of
  OpenSSL; the build for Windows.
\<close>

text \<open>C1 (reachable_peers_sound). In every state the running server can reach, whatever clients send and
  however the threads interleave: no two signed-in peers share an identifier, every
  identifier is in the range from 0 to INT_MAX - 1, each peer is filed under
  its own connection, and that connection is still in the connection lists.\<close>

theorem reachable_peers_sound:
  assumes "server_reach ice s"
  shows "distinct (map (\<lambda>(h, p). peer_id p) (m_map_peers (srv s))) \<and>
    (\<forall>(h, p) \<in> set (m_map_peers (srv s)). 0 \<le> peer_id p \<and> peer_id p < INT_MAX \<and> peer_hdl p = h \<and>
       (h \<in> set (m_con_list_plain (srv s)) \<or> h \<in> set (m_con_list_tls (srv s))))"
  using server.reach_inv [OF assms] by (fastforce simp: sys_inv_def sig_inv_def peers_live_def)

theorem reachable_peers_sound_witness:
  "distinct (map (\<lambda>(h, p). peer_id p) (m_map_peers (srv opened)))"
  using reachable_peers_sound [OF opened_reach [of ICE]] by blast

text \<open>C9 (actions_processed_in_order). Actions are processed in the order in which the handlers queued them,
  none is lost or duplicated, and none is processed after the exit action.\<close>

theorem actions_processed_in_order:
  assumes "server_reach ice s"
  shows "pushed s = processed s @ m_actions (srv s) \<and>
    (\<forall>a\<in>set (butlast (processed s)). act_type a \<noteq> EXIT) \<and>
    (processing s \<longrightarrow> (\<forall>a\<in>set (processed s). act_type a \<noteq> EXIT))"
  using server.reach_inv [OF assms] by (simp add: sys_inv_def ws_inv_def)

theorem actions_processed_in_order_witness:
  "pushed opened = processed opened @ m_actions (srv opened)"
  using actions_processed_in_order [OF opened_reach [of ICE]] by blast

lemma run_from_closed: "conn_run Closed ts = (if ts = [] then Some Closed else None)"
  by (cases ts) auto

lemma run_stays_tls: "conn_run OpenTls ts \<noteq> Some OpenPlain"
proof (induction ts)
  case (Cons t ts)
  then show ?case by (cases t) (simp_all add: run_from_closed)
qed simp

lemma run_stays_plain: "conn_run OpenPlain ts \<noteq> Some OpenTls"
proof (induction ts)
  case (Cons t ts)
  then show ?case by (cases t) (simp_all add: run_from_closed)
qed simp

lemma run_open_first:
  "conn_run Fresh ts = Some OpenPlain \<Longrightarrow> SUBSCRIBE \<in> set ts"
  "conn_run Fresh ts = Some OpenTls \<Longrightarrow> TLS_SUBSCRIBE \<in> set ts"
  using run_stays_tls run_stays_plain by (cases ts; cases "hd ts"; fastforce)+

text \<open>C10 (replies_use_right_endpoint). When a client's message is about to be handled, its connection is in
  exactly one of the two connection lists, and \<^verbatim>\<open>Send\<close> to it goes through the
  endpoint on which the connection was opened.\<close>

theorem replies_use_right_endpoint:
  assumes reach: "server_reach ice s" and a: "m_actions (srv s) = a # as" "act_type a = MESSAGE"
  shows "(if endpoint_of (act_hdl a) (srv s) = plain
      then act_hdl a \<in> set (m_con_list_plain (srv s)) \<and> act_hdl a \<notin> set (m_con_list_tls (srv s)) \<and>
           SUBSCRIBE \<in> set (types_of (act_hdl a) (processed s))
      else act_hdl a \<in> set (m_con_list_tls (srv s)) \<and> act_hdl a \<notin> set (m_con_list_plain (srv s)) \<and>
           TLS_SUBSCRIBE \<in> set (types_of (act_hdl a) (processed s)))"
proof -
  have inv: "ws_inv s" using server.reach_inv [OF reach] by (simp add: sys_inv_def)
  have live: "act_hdl a \<in> set (m_con_list_plain (srv s)) \<union> set (m_con_list_tls (srv s))"
    by (rule sig.message_from_live [OF inv a])
  moreover have "act_hdl a \<noteq> 0"
  proof
    assume "act_hdl a = 0"
    with live inv show False by (simp add: ws_inv_def)
  qed
  moreover have "act_hdl a \<in> set (m_con_list_plain (srv s)) \<Longrightarrow> act_hdl a \<notin> set (m_con_list_tls (srv s))"
    by (rule sig.lists_disjoint [OF inv])
  ultimately show ?thesis
    using run_open_first inv by (auto simp: endpoint_of_def ws_inv_def)
qed

theorem replies_use_right_endpoint_witness:
  "1 \<in> set (m_con_list_plain (srv (greeted_with hello))) \<and> 1 \<notin> set (m_con_list_tls (srv (greeted_with hello))) \<and>
   SUBSCRIBE \<in> set (types_of 1 (processed (greeted_with hello)))"
  using replies_use_right_endpoint [OF greeted_reach [of ICE hello], of "mk_action MESSAGE 1 (Some hello)" "[]"]
  by (simp add: greeted_with_def endpoint_of_def)

text \<open>C13 (exit_notification_lost). If the exit message arrives while the ping thread is between two waits, pinging or about to wait, the
  flag that tells it to exit is cleared when the next wait starts: in no later state has the
  ping thread exited, so the server never finishes joining its threads.\<close>

theorem exit_notification_lost:
  assumes "ping_at s \<in> {PingEnter, PingAwake}" "server_step ice s (EvExit True) t" "reach (\<lambda>x. x = t) (server_step ice) u"
  shows "ping_at u \<noteq> PingExited"
  using assms by (rule sig.exit_lost)

text \<open>If the exit message arrives while the ping thread is waiting, then from
  that moment on the thread has exited or its next wake-up makes it exit, timeout or
  not.\<close>

lemma exit_notification_received:
  assumes "ping_at s = PingWaiting" "server_step ice s (EvExit True) t" "reach (\<lambda>x. x = t) (server_step ice) u"
  shows "ping_at u = PingExited \<or>
    ping_at u = PingWaiting \<and> cm_wait_leave timeout (m_mutex_exit (srv u)) = Some True"
  using sig.exit_told [OF assms] by (auto simp: ping_told_def cm_wait_leave_def)

theorem exit_notification_lost_witness:
  "ping_at (exiting (ws_init SignalServer)) \<noteq> PingExited"
  by (rule exit_notification_lost [of "ws_init SignalServer" ICE "exiting (ws_init SignalServer)"])
     (auto simp: ws_init_def intro: exit_step reach_init)

text \<open>Two messages that are never handled: an array, and nesting beyond the limit of the reader.\<close>

definition fatal_text :: "string \<Rightarrow> bool" where
  "fatal_text text \<longleftrightarrow> text = ''[]'' \<or> take 1001 text = replicate 1001 (CHR ''['')"

lemma OnReceive_fatal:
  assumes "fatal_text text"
  shows "\<not> returns (OnReceive ice E h text s)"
proof (cases "text = ''[]''")
  case True
  have p: "reader_parse ''[]'' = Inr (True, Value (ArrayV []) NoComments 0 2)" by code_simp
  show ?thesis
    by (simp add: True OnReceive_def p isMember_def find_member_def)
next
  case False
  then have "text = replicate 1001 (CHR ''['') @ drop 1001 text"
    using assms unfolding fatal_text_def by (metis append_take_drop_id)
  then have "reader_parse text = Inl depth_error" using reader_parse_deep [of 0 "drop 1001 text"] by simp
  then show ?thesis by (simp add: OnReceive_def)
qed

text \<open>C8 (array_message_ends_process). Any client with an open connection can end the process with one text
  message. The document \<^verbatim>\<open>[]\<close> is valid JSON but not an object, and the exception that
  \<^verbatim>\<open>isMember\<close> throws leaves the processing thread; so does the exception of the reader for a text that starts
  with 1001 opening brackets.\<close>

theorem array_message_ends_process:
  assumes "crashed s = None" "io_running s" "processing s" "h \<noteq> 0" "is_open (phase_of s h)"
    and idle: "m_actions (srv s) = []" and fatal: "fatal_text text"
  shows "\<exists>t u e. server_step ice s (EvMessage h \<lparr>msg_opcode = op_text, msg_payload = text\<rparr>) t \<and>
    server_step ice t (EvProcess E) u \<and> crashed u = Some e"
proof -
  let ?m = "\<lparr>msg_opcode = op_text, msg_payload = text\<rparr>"
  let ?t = "s\<lparr>srv := on_message h ?m (srv s), pushed := pushed s @ [mk_action MESSAGE h (Some ?m)]\<rparr>"
  have t: "server_step ice s (EvMessage h ?m) ?t" by (rule ws_step.step_message) (use assms in simp_all)
  let ?s = "(srv ?t)\<lparr>m_actions := []\<rparr>"
  obtain e where e: "OnReceive ice E h text ?s = Inl e"
    using OnReceive_fatal [OF fatal, of ice E h ?s] by (cases "OnReceive ice E h text ?s") simp_all
  have "process_messages_step (OnReceive ice) OnClose E (srv ?t) = Some (Inl e)"
    using e idle by (simp add: process_messages_step_def on_message_def push_action_def process_action_def)
  then have "server_step ice ?t (EvProcess E) (?t\<lparr>crashed := Some e\<rparr>)"
    using assms(1,3) by (intro ws_step.step_crash) simp_all
  with t show ?thesis by (intro exI [of _ ?t] exI [of _ "?t\<lparr>crashed := Some e\<rparr>"] exI [of _ e]) simp
qed

theorem array_message_ends_process_witness:
  "\<exists>t u e. server_step ICE (opened\<lparr>srv := SignalServer\<rparr>) (EvMessage 1 \<lparr>msg_opcode = op_text, msg_payload = ''[]''\<rparr>) t \<and>
    server_step ICE t (EvProcess good_net) u \<and> crashed u = Some e"
  by (rule array_message_ends_process)
     (simp_all add: opened_def ws_init_def is_open_def SignalServer_def WebsocketServer_def ws_server.defs fatal_text_def)

text \<open>The ports served are the settings modulo 65536, and the TLS endpoint is served
  unless its port is 0 modulo 65536.\<close>

lemma ports_are_cut_to_16_bits:
  "fst (Listen (\<lambda>_ _. None) port port_tls) =
     (plain, port mod 65536) # (if port_tls mod 65536 = 0 then [] else [(tls, port_tls mod 65536)])"
proof -
  have "0 \<le> port_tls mod 65536" by simp
  then show ?thesis by (auto simp: Listen_def ws_run_def to_unsigned_def)
qed

text \<open>If an endpoint cannot listen, e.g. because the port is in use, \<^verbatim>\<open>Listen\<close> does
  not log the error and return: the exception destroys the three running threads on its way to
  the handler, which terminates the program.\<close>

lemma busy_port_terminates:
  "snd (Listen fails port port_tls) = ListenTerminates what \<longleftrightarrow>
     fails plain (port mod 65536) = Some what \<or>
     fails plain (port mod 65536) = None \<and> port_tls mod 65536 \<noteq> 0 \<and> fails tls (port_tls mod 65536) = Some what"
proof -
  have "0 \<le> port_tls mod 65536" by simp
  then show ?thesis by (auto simp: Listen_def ws_run_def to_unsigned_def split: option.splits)
qed

end
